(* ===== verification/Prelude.thy ===== *)
theory Prelude
  imports Main "HOL-Library.Sublist" "HOL-Library.AList" "HOL-Library.Char_ord"
begin

text \<open>
  What every component of the model shares: the JavaScript string and container operations
  the sources call (\<open>split\<close>, \<open>join\<close>, \<open>toLowerCase\<close>, \<open>new Set(...)\<close>, \<open>Map.set\<close>), the
  three-valued \<open>Truth\<close> of \<open>src/network/authz/semantics.ts\<close>, the interface (a locale) of
  the conservative set decisions of \<open>src/network/authz/relation.ts\<close>, and generic lemmas
  about lists.

  Strings are \<open>string\<close> (a list of characters). A JavaScript string is a list of UTF-16 code
  units; no operation of the model looks inside a code unit beyond comparing it with an
  ASCII character, so a list of characters is the same for every ASCII text. Case folding
  is the ASCII one. An insertion-ordered \<open>Map\<close> or \<open>Record\<close> is an association list:
  \<open>AList.update\<close> overwrites in place or appends, exactly as \<open>Map.set\<close> does, and
  \<open>map_of\<close> is \<open>Map.get\<close>.
\<close>

named_theorems js_simps "characterisations of the JavaScript operations"
named_theorems wf_intros "introduction rules for well-formedness predicates"

section \<open>JavaScript list and string operations\<close>

subsection \<open>\<open>split\<close> and \<open>join\<close> on one separator\<close>

fun split_on :: "'a \<Rightarrow> 'a list \<Rightarrow> 'a list list" where
  "split_on c [] = [[]]"
| "split_on c (x # xs) =
     (if x = c then [] # split_on c xs
      else (case split_on c xs of [] \<Rightarrow> [[x]] | t # ts \<Rightarrow> (x # t) # ts))"

fun join_with :: "'a list \<Rightarrow> 'a list list \<Rightarrow> 'a list" where
  "join_with sep [] = []"
| "join_with sep [t] = t"
| "join_with sep (t # u # ts) = t @ sep @ join_with sep (u # ts)"

lemma split_on_nonempty [simp]: "split_on c xs \<noteq> []"
  by (induction xs) (auto split: list.splits)

lemma split_on_tokens_free: "t \<in> set (split_on c xs) \<Longrightarrow> c \<notin> set t"
proof (induction xs arbitrary: t)
  case Nil
  then show ?case by simp
next
  case (Cons x xs)
  then show ?case
    by (cases "split_on c xs") (auto split: if_splits)
qed

lemma join_split [simp]: "join_with [c] (split_on c xs) = xs"
proof (induction xs)
  case Nil
  show ?case by simp
next
  case (Cons x xs)
  obtain t ts where ts: "split_on c xs = t # ts"
    by (cases "split_on c xs") auto
  with Cons show ?case
    by (cases ts) auto
qed

lemma split_on_free: "c \<notin> set t \<Longrightarrow> split_on c t = [t]"
  by (induction t) auto

lemma split_on_append: "c \<notin> set t \<Longrightarrow> split_on c (t @ c # rest) = t # split_on c rest"
  by (induction t) auto

lemma split_join:
  "ts \<noteq> [] \<Longrightarrow> (\<And>t. t \<in> set ts \<Longrightarrow> c \<notin> set t) \<Longrightarrow> split_on c (join_with [c] ts) = ts"
proof (induction ts rule: induct_list012)
  case 1
  then show ?case by simp
next
  case (2 t)
  then show ?case by (simp add: split_on_free)
next
  case (3 t u ts)
  then show ?case by (simp add: split_on_append)
qed

lemma mem_join_with:
  "x \<in> set (join_with sep ts) \<Longrightarrow> x \<in> set sep \<or> (\<exists>t\<in>set ts. x \<in> set t)"
  by (induction sep ts rule: join_with.induct) auto

subsection \<open>Deduplication in insertion order\<close>

text \<open>\<open>[...new Set(xs)]\<close>: the first occurrence of every element, in order.\<close>

fun js_unique :: "'a list \<Rightarrow> 'a list" where
  "js_unique [] = []"
| "js_unique (x # xs) = x # removeAll x (js_unique xs)"

lemma set_js_unique [simp]: "set (js_unique xs) = set xs"
  by (induction xs) auto

lemma distinct_js_unique [simp]: "distinct (js_unique xs)"
  by (induction xs) (auto simp: distinct_removeAll)

lemma js_unique_distinct [simp]: "distinct xs \<Longrightarrow> js_unique xs = xs"
  by (induction xs) (auto simp: removeAll_id)

lemma js_unique_idem [simp]: "js_unique (js_unique xs) = js_unique xs"
  by simp

lemma js_unique_Nil_iff [simp]: "js_unique xs = [] \<longleftrightarrow> xs = []"
  by (cases xs) auto

subsection \<open>Case folding (ASCII)\<close>

definition lower_char :: "char \<Rightarrow> char" where
  "lower_char c = (if CHR ''A'' \<le> c \<and> c \<le> CHR ''Z'' then char_of (of_char c + (32::nat)) else c)"

definition upper_char :: "char \<Rightarrow> char" where
  "upper_char c = (if CHR ''a'' \<le> c \<and> c \<le> CHR ''z'' then char_of (of_char c - (32::nat)) else c)"

definition to_lower :: "string \<Rightarrow> string" where
  "to_lower s = map lower_char s"

definition to_upper :: "string \<Rightarrow> string" where
  "to_upper s = map upper_char s"

lemma char_le_code: "(c \<le> d) = ((of_char c :: nat) \<le> of_char d)" for c d :: char
  by (simp add: less_eq_char_def)

lemma lower_char_idem [simp]: "lower_char (lower_char c) = lower_char c"
  by (auto simp: lower_char_def char_le_code)

lemma upper_char_idem [simp]: "upper_char (upper_char c) = upper_char c"
  by (auto simp: upper_char_def char_le_code)

lemma to_lower_idem [simp]: "to_lower (to_lower s) = to_lower s"
  by (simp add: to_lower_def)

lemma to_upper_idem [simp]: "to_upper (to_upper s) = to_upper s"
  by (simp add: to_upper_def)

subsection \<open>Character classes of the regular expressions\<close>

definition is_digit :: "char \<Rightarrow> bool" where
  "is_digit c \<longleftrightarrow> CHR ''0'' \<le> c \<and> c \<le> CHR ''9''"

definition is_lower :: "char \<Rightarrow> bool" where
  "is_lower c \<longleftrightarrow> CHR ''a'' \<le> c \<and> c \<le> CHR ''z''"

definition is_upper :: "char \<Rightarrow> bool" where
  "is_upper c \<longleftrightarrow> CHR ''A'' \<le> c \<and> c \<le> CHR ''Z''"

definition is_alpha :: "char \<Rightarrow> bool" where
  "is_alpha c \<longleftrightarrow> is_lower c \<or> is_upper c"

text \<open>\<open>Number.parseInt(text, 10)\<close> on a text of decimal digits.\<close>

definition digit_value :: "char \<Rightarrow> nat" where
  "digit_value c = of_char c - 48"

definition parse_nat :: "string \<Rightarrow> nat" where
  "parse_nat s = foldl (\<lambda>acc c. 10 * acc + digit_value c) 0 s"

text \<open>\<open>String(n)\<close> of a natural number.\<close>

fun nat_text :: "nat \<Rightarrow> string" where
  "nat_text n = (if n < 10 then [char_of (48 + n)] else nat_text (n div 10) @ [char_of (48 + n mod 10)])"

declare nat_text.simps [simp del]

lemma parse_nat_snoc: "parse_nat (s @ [c]) = 10 * parse_nat s + digit_value c"
  by (simp add: parse_nat_def)

lemma digit_value_char_of: "d < 10 \<Longrightarrow> digit_value (char_of (48 + d)) = d"
  by (simp add: digit_value_def)

lemma parse_nat_text [simp]: "parse_nat (nat_text n) = n"
proof (induction n rule: nat_text.induct)
  case (1 n)
  show ?case
  proof (cases "n < 10")
    case True
    then show ?thesis
      using parse_nat_snoc [of "[]"] by (simp add: nat_text.simps [of n] digit_value_char_of parse_nat_def)
  next
    case False
    with 1 show ?thesis
      by (simp add: nat_text.simps [of n] parse_nat_snoc digit_value_char_of)
  qed
qed

lemma nat_text_inject [simp]: "nat_text m = nat_text n \<longleftrightarrow> m = n"
  by (metis parse_nat_text)

lemma nat_text_digits: "c \<in> set (nat_text n) \<Longrightarrow> is_digit c"
proof (induction n rule: nat_text.induct)
  case (1 n)
  have digit: "is_digit (char_of (48 + d))" if "d < 10" for d :: nat
    using that by (simp add: is_digit_def less_eq_char_def)
  show ?case
    using 1 digit [of "n mod 10"] digit [of n]
    by (subst (asm) (2) nat_text.simps) (auto split: if_splits)
qed

subsection \<open>\<open>indexOf\<close>, \<open>lastIndexOf\<close> and \<open>replaceAll\<close>\<close>

text \<open>The text before the first, and the texts around the last, occurrence of a character.\<close>

definition before_first :: "'a \<Rightarrow> 'a list \<Rightarrow> 'a list" where
  "before_first c s = takeWhile (\<lambda>x. x \<noteq> c) s"

definition after_first :: "'a \<Rightarrow> 'a list \<Rightarrow> 'a list" where
  "after_first c s = drop 1 (dropWhile (\<lambda>x. x \<noteq> c) s)"

definition after_last :: "'a \<Rightarrow> 'a list \<Rightarrow> 'a list" where
  "after_last c s = rev (takeWhile (\<lambda>x. x \<noteq> c) (rev s))"

definition before_last :: "'a \<Rightarrow> 'a list \<Rightarrow> 'a list" where
  "before_last c s = rev (drop 1 (dropWhile (\<lambda>x. x \<noteq> c) (rev s)))"

lemma before_first_free [simp]: "c \<notin> set (before_first c s)"
  by (auto simp: before_first_def dest: set_takeWhileD)

lemma before_first_noop: "c \<notin> set s \<Longrightarrow> before_first c s = s"
  by (auto simp: before_first_def takeWhile_eq_all_conv)

lemma before_last_after_last:
  "c \<in> set s \<Longrightarrow> before_last c s @ c # after_last c s = s"
proof -
  assume "c \<in> set s"
  then have ne: "dropWhile (\<lambda>x. x \<noteq> c) (rev s) \<noteq> []"
    by (auto simp: dropWhile_eq_Nil_conv)
  then obtain r where r: "dropWhile (\<lambda>x. x \<noteq> c) (rev s) = c # r"
    by (metis (mono_tags, lifting) hd_dropWhile list.collapse)
  have "rev s = takeWhile (\<lambda>x. x \<noteq> c) (rev s) @ c # r"
    by (metis r takeWhile_dropWhile_id)
  then have "s = rev r @ c # rev (takeWhile (\<lambda>x. x \<noteq> c) (rev s))"
    by (metis append.assoc append_Cons append_Nil rev.simps(2) rev_append rev_rev_ident)
  with r show ?thesis
    by (simp add: before_last_def after_last_def)
qed

text \<open>\<open>s.replaceAll(pat, rep)\<close> for a non-empty pattern: leftmost, non-overlapping.\<close>

function replace_all :: "'a list \<Rightarrow> 'a list \<Rightarrow> 'a list \<Rightarrow> 'a list" where
  "replace_all pat rep [] = []"
| "replace_all pat rep (x # xs) =
     (if pat \<noteq> [] \<and> prefix pat (x # xs)
      then rep @ replace_all pat rep (drop (length pat) (x # xs))
      else x # replace_all pat rep xs)"
  by pat_completeness auto
termination
  by (relation "measure (\<lambda>(pat, rep, s). length s)") auto

lemma replace_all_absent: "\<not> sublist pat s \<Longrightarrow> replace_all pat rep s = s"
proof (induction s)
  case Nil
  then show ?case by simp
next
  case (Cons x xs)
  then have "\<not> prefix pat (x # xs)" "\<not> sublist pat xs"
    by (auto simp: sublist_Cons_right)
  with Cons.IH show ?case by simp
qed

text \<open>What evaluates these operations on a literal text.\<close>

lemmas js_eval =
  to_lower_def to_upper_def lower_char_def upper_char_def char_le_code char_of_def bit_Suc_0_iff
  is_digit_def is_lower_def is_upper_def is_alpha_def parse_nat_def digit_value_def
  before_first_def after_first_def before_last_def after_last_def

section \<open>Ordered maps\<close>

text \<open>\<open>{...base, ...overlay}\<close> and \<open>for (...) map.set(k, v)\<close>.\<close>

definition amap_merge :: "('k \<times> 'v) list \<Rightarrow> ('k \<times> 'v) list \<Rightarrow> ('k \<times> 'v) list" where
  "amap_merge base overlay = fold (\<lambda>(k, v) m. AList.update k v m) overlay base"

lemma set_update_subset: "set (AList.update k v m) \<subseteq> insert (k, v) (set m)"
  by (induction m) auto

lemma amap_merge_snoc: "k \<notin> fst ` set m \<Longrightarrow> AList.update k v m = m @ [(k, v)]"
  by (induction m) auto

lemma map_of_update [simp]: "map_of (AList.update k v m) = (map_of m)(k \<mapsto> v)"
  by (rule update_conv')

lemma map_of_amap_merge:
  "distinct (map fst overlay) \<Longrightarrow> map_of (amap_merge base overlay) = map_of base ++ map_of overlay"
proof (induction overlay arbitrary: base)
  case Nil
  then show ?case by (simp add: amap_merge_def)
next
  case (Cons e overlay)
  obtain k v where e: "e = (k, v)" by (cases e)
  have "amap_merge base (e # overlay) = amap_merge (AList.update k v base) overlay"
    by (simp add: amap_merge_def e)
  moreover have "k \<notin> dom (map_of overlay)"
    using Cons.prems e by (simp add: dom_map_of_conv_image_fst)
  ultimately show ?case
    using Cons e by (intro ext) (auto simp: map_add_def split: option.splits)
qed

lemma distinct_keys_amap_merge [wf_intros]:
  "distinct (map fst base) \<Longrightarrow> distinct (map fst (amap_merge base overlay))"
  by (induction overlay arbitrary: base) (auto simp: amap_merge_def distinct_update)

lemma map_of_distinct_mem: "distinct (map fst m) \<Longrightarrow> (k, v) \<in> set m \<longleftrightarrow> map_of m k = Some v"
  by simp

text \<open>Every entry of one map is dominated by the entry of another under the same key.\<close>

definition dominates :: "('a \<Rightarrow> 'b \<Rightarrow> bool) \<Rightarrow> ('k \<times> 'a) list \<Rightarrow> ('k \<times> 'b) list \<Rightarrow> bool" where
  "dominates R m l = list_all (\<lambda>(k, y). case map_of m k of None \<Rightarrow> False | Some x \<Rightarrow> R x y) l"

lemma dominatesD: "dominates R m l \<Longrightarrow> (k, y) \<in> set l \<Longrightarrow> \<exists>x. map_of m k = Some x \<and> R x y"
  by (force simp: dominates_def list_all_iff split: option.splits)

lemma dominates_lookup: "dominates R m l \<Longrightarrow> map_of l k = Some y \<Longrightarrow> \<exists>x. map_of m k = Some x \<and> R x y"
  using dominatesD map_of_SomeD by fast

lemma dominates_trans:
  assumes "dominates R a b" "dominates S b c" "\<And>x y z. R x y \<Longrightarrow> S y z \<Longrightarrow> T x z"
  shows "dominates T a c"
proof -
  have "\<exists>x. map_of a k = Some x \<and> T x z" if "(k, z) \<in> set c" for k z
    using dominatesD [OF assms(2) that] dominates_lookup [OF assms(1)] assms(3) by blast
  then show ?thesis
    by (fastforce simp: dominates_def list_all_iff)
qed

text \<open>The first element that satisfies a predicate, and its position in the list.\<close>

lemma find_SomeD: "find P xs = Some x \<Longrightarrow> x \<in> set xs \<and> P x"
  by (induction xs) (auto split: if_splits)

lemma find_None_conv: "find P xs = None \<longleftrightarrow> (\<forall>x\<in>set xs. \<not> P x)"
  by (induction xs) auto

lemma find_total: "list_ex P xs \<Longrightarrow> \<exists>x. find P xs = Some x"
  by (induction xs) auto

text \<open>A loop that returns the first result it finds (\<open>if (r !== null) return r\<close>).\<close>

fun first_some :: "('a \<Rightarrow> 'b option) \<Rightarrow> 'a list \<Rightarrow> 'b option" where
  "first_some f [] = None"
| "first_some f (x # xs) = (case f x of None \<Rightarrow> first_some f xs | Some y \<Rightarrow> Some y)"

lemma first_some_SomeD: "first_some f xs = Some y \<Longrightarrow> \<exists>x\<in>set xs. f x = Some y"
  by (induction xs) (auto split: option.splits)

lemma first_some_None: "first_some f xs = None \<longleftrightarrow> (\<forall>x\<in>set xs. f x = None)"
  by (induction xs) (auto split: option.splits)

text \<open>A loop that threads a state and returns at the first failure.\<close>

fun fold_option :: "('a \<Rightarrow> 's \<Rightarrow> 's option) \<Rightarrow> 'a list \<Rightarrow> 's \<Rightarrow> 's option" where
  "fold_option f [] s = Some s"
| "fold_option f (x # xs) s = (case f x s of None \<Rightarrow> None | Some s' \<Rightarrow> fold_option f xs s')"

lemma fold_option_invariant:
  "fold_option f xs s = Some s' \<Longrightarrow> P s \<Longrightarrow> (\<And>x s t. x \<in> set xs \<Longrightarrow> f x s = Some t \<Longrightarrow> P s \<Longrightarrow> P t) \<Longrightarrow> P s'"
proof (induction xs arbitrary: s)
  case (Cons x xs)
  then obtain s1 where s1: "f x s = Some s1" "fold_option f xs s1 = Some s'"
    by (auto split: option.splits)
  have "P s1"
    using Cons.prems(2) Cons.prems(3) [OF _ s1(1)] by simp
  with s1(2) show ?case
  proof (rule Cons.IH)
    show "P t" if "y \<in> set xs" "f y u = Some t" "P u" for y u t
      using Cons.prems(3) [OF _ that(2,3)] that(1) by simp
  qed
qed simp

text \<open>The failing map: the first failure is the failure of the list.\<close>

fun map_option_list :: "('a \<Rightarrow> 'b option) \<Rightarrow> 'a list \<Rightarrow> 'b list option" where
  "map_option_list f [] = Some []"
| "map_option_list f (x # xs) =
     (case f x of None \<Rightarrow> None
      | Some y \<Rightarrow> (case map_option_list f xs of None \<Rightarrow> None | Some ys \<Rightarrow> Some (y # ys)))"

lemma map_option_list_SomeD:
  "map_option_list f xs = Some ys \<Longrightarrow>
   length ys = length xs \<and> (\<forall>i<length xs. f (xs ! i) = Some (ys ! i))"
  by (induction xs arbitrary: ys) (auto simp: less_Suc_eq_0_disj split: option.splits)

lemma map_option_list_total:
  "(\<And>x. x \<in> set xs \<Longrightarrow> \<exists>y. f x = Some y) \<Longrightarrow> \<exists>ys. map_option_list f xs = Some ys"
proof (induction xs)
  case (Cons x xs)
  then obtain y ys where "f x = Some y" "map_option_list f xs = Some ys" by (meson list.set_intros)
  then show ?case by simp
qed simp

lemma fresh_string: "\<exists>t::string. t \<notin> set vs \<and> CHR ''/'' \<notin> set t"
proof -
  let ?n = "Suc (Max (insert 0 (length ` set vs)))"
  let ?t = "replicate ?n (CHR ''x'')"
  have "?t \<notin> set vs"
  proof
    assume "?t \<in> set vs"
    then have "length ?t \<in> insert 0 (length ` set vs)" by (metis imageI insertCI)
    then have "length ?t \<le> Max (insert 0 (length ` set vs))" by (intro Max_ge) auto
    then show False by simp
  qed
  moreover have "CHR ''/'' \<notin> set ?t" by auto
  ultimately show ?thesis by blast
qed

section \<open>Three-valued truth\<close>

text \<open>\<open>Truth\<close> of \<open>src/network/authz/semantics.ts\<close>.\<close>

datatype truth = TrueT | FalseT | Indeterminate

section \<open>The interface of the set decisions\<close>

text \<open>
  A description \<open>a\<close> accepts a set of requests. \<open>relation.ts\<close> decides containment and
  intersection of such sets conservatively: it concludes \<open>a\<close> is contained in \<open>b\<close>, or that
  they are disjoint, only when that is proved. This is the contract every axis (method,
  path, body, host, port) keeps and every user (specificity, overlap checks, scope
  selection) relies on. Containment is moreover transitive: what makes "narrower" a strict
  partial order, so that a precedence built from it alone can never be cyclic.
\<close>

locale containment =
  fixes acc :: "'d \<Rightarrow> 'x \<Rightarrow> bool"
    and sub :: "'d \<Rightarrow> 'd \<Rightarrow> bool"
  assumes sub_sound: "sub a b \<Longrightarrow> acc a x \<Longrightarrow> acc b x"
    and sub_trans: "sub a b \<Longrightarrow> sub b c \<Longrightarrow> sub a c"
begin

text \<open>The lift to a union of descriptions (\<open>pathsSubsume\<close>, \<open>targetSetsSubsume\<close>).\<close>

lemma union_sub_sound:
  "(\<forall>a\<in>set as. \<exists>b\<in>set bs. sub a b) \<Longrightarrow> (\<exists>a\<in>set as. acc a x) \<Longrightarrow> \<exists>b\<in>set bs. acc b x"
  using sub_sound by blast

lemma union_sub_trans:
  "(\<forall>a\<in>set as. \<exists>b\<in>set bs. sub a b) \<Longrightarrow> (\<forall>b\<in>set bs. \<exists>c\<in>set cs. sub b c) \<Longrightarrow>
   \<forall>a\<in>set as. \<exists>c\<in>set cs. sub a c"
  using sub_trans by blast

lemma equivalent_same: "sub a b \<Longrightarrow> sub b a \<Longrightarrow> acc a x = acc b x"
  using sub_sound by blast

text \<open>The strict part, \<open>compareSpecificity(a, b) === "narrower"\<close>.\<close>

lemma strict_trans:
  "sub a b \<and> \<not> sub b a \<Longrightarrow> sub b c \<and> \<not> sub c b \<Longrightarrow> sub a c \<and> \<not> sub c a"
  using sub_trans by blast

lemma strict_acyclic: "acyclicP (\<lambda>a b. sub a b \<and> \<not> sub b a)"
proof -
  have "trans {(a, b). sub a b \<and> \<not> sub b a}"
  proof (rule transI)
    fix a b c
    assume "(a, b) \<in> {(a, b). sub a b \<and> \<not> sub b a}" "(b, c) \<in> {(a, b). sub a b \<and> \<not> sub b a}"
    then show "(a, c) \<in> {(a, b). sub a b \<and> \<not> sub b a}"
      using strict_trans [of a b c] by simp
  qed
  then have "{(a, b). sub a b \<and> \<not> sub b a}\<^sup>+ = {(a, b). sub a b \<and> \<not> sub b a}"
    by (rule trancl_id)
  then show ?thesis
    by (auto simp: acyclic_def)
qed

end

text \<open>
  The intersection decision of the axes whose descriptions may be malformed (a body without
  a format but with value conditions): it is only promised for well-formed ones.
\<close>

locale set_decision = containment acc sub
  for acc :: "'d \<Rightarrow> 'x \<Rightarrow> bool" and sub :: "'d \<Rightarrow> 'd \<Rightarrow> bool" +
  fixes inter :: "'d \<Rightarrow> 'd \<Rightarrow> bool" and ok :: "'d \<Rightarrow> bool"
  assumes ok_inter_complete: "ok a \<Longrightarrow> ok b \<Longrightarrow> acc a x \<Longrightarrow> acc b x \<Longrightarrow> inter a b"
begin

lemma disjoint_sound: "ok a \<Longrightarrow> ok b \<Longrightarrow> \<not> inter a b \<Longrightarrow> \<not> (acc a x \<and> acc b x)"
  using ok_inter_complete by blast

end

text \<open>The axes on which every description is well-formed and containment is reflexive.\<close>

locale set_preorder = containment acc sub
  for acc :: "'d \<Rightarrow> 'x \<Rightarrow> bool" and sub :: "'d \<Rightarrow> 'd \<Rightarrow> bool" +
  fixes inter :: "'d \<Rightarrow> 'd \<Rightarrow> bool"
  assumes inter_complete: "acc a x \<Longrightarrow> acc b x \<Longrightarrow> inter a b"
    and sub_refl: "sub a a"
begin

lemma union_sub_refl: "\<forall>a\<in>set as. \<exists>b\<in>set as. sub a b"
  using sub_refl by blast

lemma union_inter_complete:
  "(\<exists>a\<in>set as. acc a x) \<Longrightarrow> (\<exists>b\<in>set bs. acc b x) \<Longrightarrow> \<exists>a\<in>set as. \<exists>b\<in>set bs. inter a b"
  using inter_complete by blast

end

sublocale set_preorder \<subseteq> set_decision acc sub inter "\<lambda>_. True"
  by unfold_locales (rule inter_complete)

end
