(* ===== verification/AuthzTypes.thy ===== *)
theory AuthzTypes
  imports Prelude
begin

text \<open>
  The vocabulary of the network authorisation (\<open>src/network/authz/types.ts\<close>): JSON values
  and scalars, match conditions, requests, GraphQL facts and targets. An optional field of
  an interface is an \<open>option\<close>; a \<open>Record\<close> is an association list in insertion order.

  A JavaScript number is represented by the text \<open>String(value)\<close>: the sources only compare
  numbers through that text (\<open>scalarKey\<close>), test them for finiteness and print them.
\<close>

datatype scalar = SStr string | SNum string | SBool bool

datatype json =
    JNull
  | JBool bool
  | JNum string
  | JStr string
  | JArr "json list"
  | JObj "(string \<times> json) list"

fun json_of_scalar :: "scalar \<Rightarrow> json" where
  "json_of_scalar (SStr s) = JStr s"
| "json_of_scalar (SNum s) = JNum s"
| "json_of_scalar (SBool b) = JBool b"

datatype graphql_operation = Query | Mutation | Subscription

datatype body_format = FormatNone | FormatJson | FormatOpaque

type_synonym field_arguments = "(string \<times> (string \<times> string list) list) list"

text \<open>
  \<open>GraphqlMatch\<close>. \<open>fieldPaths\<close> is an option because the checks and \<open>normalizeBody\<close> run on
  configurations in which the required field may be missing (\<open>graphql.fieldPaths ?? []\<close>);
  \<open>gm_unknown_keys\<close> are the own keys of the object that the interface does not declare.
\<close>

record graphql_match =
  gm_at :: "string option"
  gm_operations :: "graphql_operation list"
  gm_field_paths :: "string list option"
  gm_field_arguments :: "field_arguments option"
  gm_unknown_keys :: "string list"

record body_match =
  bm_format :: body_format
  bm_equals :: "(string \<times> scalar) list option"
  bm_one_of :: "(string \<times> scalar list) list option"
  bm_graphql :: "graphql_match option"

record match_config =
  mc_methods :: "string list option"
  mc_paths :: "string list"
  mc_captures :: "(string \<times> string list) list option"
  mc_body :: "body_match option"

text \<open>\<open>DEFAULT_GRAPHQL_AT\<close>.\<close>

definition default_graphql_at :: string where
  "default_graphql_at = ''/query''"

section \<open>Requests\<close>

record field_occurrence =
  fo_path :: string
  fo_leaf :: bool
  fo_argument_values :: "(string \<times> string) list"
  fo_unresolved :: "string list"

record graphql_document =
  gd_operations :: "graphql_operation list"
  gd_fields :: "field_occurrence list"

text \<open>\<open>RequestBody\<close>; a JSON body without \<open>documents\<close> has the empty record of them.\<close>

datatype request_body =
    BodyAbsent
  | BodyEmpty
  | BodyBinary
  | BodyJson json "(string \<times> graphql_document) list"

record authz_request =
  rq_method :: string
  rq_path :: string
  rq_body :: request_body

section \<open>Targets\<close>

datatype host_pattern = ExactHost string | SuffixHost string

record target =
  tg_source :: string
  tg_host :: host_pattern
  tg_port :: "nat option"

record target_address =
  ta_host :: string
  ta_port :: nat

text \<open>
  \<open>scalarKey\<close> of \<open>relation.ts\<close>: the type of the value and its text. Two scalars with the
  same key are the same scalar, so that comparing keys is comparing values.
\<close>

fun scalar_key :: "scalar \<Rightarrow> string" where
  "scalar_key (SStr s) = ''string:'' @ s"
| "scalar_key (SNum s) = ''number:'' @ s"
| "scalar_key (SBool b) = ''boolean:'' @ (if b then ''true'' else ''false'')"

lemma scalar_key_inject [simp]: "scalar_key a = scalar_key b \<longleftrightarrow> a = b"
  by (cases a; cases b) auto

lemma scalar_key_image [simp]: "scalar_key v \<in> scalar_key ` set vs \<longleftrightarrow> v \<in> set vs"
  by auto

lemma json_of_scalar_inject [simp]: "json_of_scalar a = json_of_scalar b \<longleftrightarrow> a = b"
  by (cases a; cases b) auto

end
