(* ===== verification/AuthzConfig.thy ===== *)
theory AuthzConfig
  imports AuthzTypes
begin

text \<open>
  The configuration of the network authorisation (\<open>src/network/authz/config.ts\<close>): scopes,
  rules, limits, injections, acceptance conditions, and the syntax of an injected value.
  Every \<open>Record\<close> is the list of its \<open>Object.entries\<close>, so its order is the order the code
  iterates in. Budgets are natural numbers (\<open>UInt\<close> in the configuration schema).
\<close>

datatype action = ActAllow | ActReview | ActDeny
datatype websocket_policy = WsAllow | WsDeny
datatype network_fallback = NfReview | NfDeny
datatype indeterminate_action = IaReview | IaDeny
datatype violation_action = VaDeny | VaReview | VaAllow
datatype secret_disposition = SdInject | SdMask | SdForbid | SdIgnore
datatype audit_mode = AuditAlways | AuditAggregate | AuditOff

text \<open>\<open>RULE_KEY_PATTERN = /^[a-z][a-z0-9._-]{0,63}$/\<close>.\<close>

definition is_rule_key_char :: "char \<Rightarrow> bool" where
  "is_rule_key_char c \<longleftrightarrow> is_lower c \<or> is_digit c \<or> c = CHR ''.'' \<or> c = CHR ''_'' \<or> c = CHR ''-''"

fun is_rule_key :: "string \<Rightarrow> bool" where
  "is_rule_key [] = False"
| "is_rule_key (c # cs) = (is_lower c \<and> list_all is_rule_key_char cs \<and> length cs \<le> 63)"

definition fallback_rule_key :: string where
  "fallback_rule_key = ''$fallback''"

record secret_config =
  sc_from :: string
  sc_required :: "bool option"

record mask_config =
  mk_maskfs :: "bool option"
  mk_filter :: "bool option"
  mk_proxy :: "bool option"
  mk_apply :: "string list option"

section \<open>Limits\<close>

datatype limit_key = MaxBodyBytes | MaxDepth | MaxNodes | MaxSelectorExpansions

record limits =
  li_max_body_bytes :: "nat option"
  li_max_depth :: "nat option"
  li_max_nodes :: "nat option"
  li_max_selector_expansions :: "nat option"

record resolved_limits =
  rl_max_body_bytes :: nat
  rl_max_depth :: nat
  rl_max_nodes :: nat
  rl_max_selector_expansions :: nat

definition limit_ceilings :: resolved_limits where
  "limit_ceilings = \<lparr>rl_max_body_bytes = 33554432, rl_max_depth = 64, rl_max_nodes = 200000,
     rl_max_selector_expansions = 1000000\<rparr>"

definition limit_keys :: "limit_key list" where
  "limit_keys = [MaxBodyBytes, MaxDepth, MaxNodes, MaxSelectorExpansions]"

text \<open>The property accesses \<open>limits[key]\<close> and \<open>effective[key] = value\<close>.\<close>

fun limit_of :: "limits \<Rightarrow> limit_key \<Rightarrow> nat option" where
  "limit_of l MaxBodyBytes = li_max_body_bytes l"
| "limit_of l MaxDepth = li_max_depth l"
| "limit_of l MaxNodes = li_max_nodes l"
| "limit_of l MaxSelectorExpansions = li_max_selector_expansions l"

fun resolved_limit :: "resolved_limits \<Rightarrow> limit_key \<Rightarrow> nat" where
  "resolved_limit l MaxBodyBytes = rl_max_body_bytes l"
| "resolved_limit l MaxDepth = rl_max_depth l"
| "resolved_limit l MaxNodes = rl_max_nodes l"
| "resolved_limit l MaxSelectorExpansions = rl_max_selector_expansions l"

fun set_limit :: "limit_key \<Rightarrow> nat \<Rightarrow> resolved_limits \<Rightarrow> resolved_limits" where
  "set_limit MaxBodyBytes v l = l\<lparr>rl_max_body_bytes := v\<rparr>"
| "set_limit MaxDepth v l = l\<lparr>rl_max_depth := v\<rparr>"
| "set_limit MaxNodes v l = l\<lparr>rl_max_nodes := v\<rparr>"
| "set_limit MaxSelectorExpansions v l = l\<lparr>rl_max_selector_expansions := v\<rparr>"

lemma resolved_limit_set [simp]:
  "resolved_limit (set_limit k v l) k' = (if k' = k then v else resolved_limit l k')"
  by (cases k; cases k') auto

lemma set_limit_keys [simp]: "set limit_keys = UNIV"
proof -
  have "k \<in> set limit_keys" for k
    by (cases k) (simp_all add: limit_keys_def)
  then show ?thesis by blast
qed

lemma distinct_limit_keys [simp]: "distinct limit_keys"
  by (simp add: limit_keys_def)

text \<open>The budgets are ordered pointwise; a lower budget is a tighter one.\<close>

definition limits_le :: "resolved_limits \<Rightarrow> resolved_limits \<Rightarrow> bool" where
  "limits_le a b \<longleftrightarrow> (\<forall>k. resolved_limit a k \<le> resolved_limit b k)"

lemma limits_le_refl [simp]: "limits_le a a"
  by (simp add: limits_le_def)

lemma limits_le_trans: "limits_le a b \<Longrightarrow> limits_le b c \<Longrightarrow> limits_le a c"
  using order_trans by (fastforce simp: limits_le_def)

section \<open>Acceptance conditions\<close>

definition max_body_expect_pointer_chars :: nat where
  "max_body_expect_pointer_chars = 256"

datatype json_root_type = RootObject | RootArray

record body_expect =
  be_equals :: "(string \<times> scalar) list option"
  be_one_of :: "(string \<times> scalar list) list option"
  be_absent :: "string list option"
  be_graphql :: "graphql_match option"

record union_shape =
  us_at :: string
  us_exclude :: "string list option"
  us_discriminator :: string
  us_allowed :: "string list"

datatype expect_check =
    EmptyBody
  | JsonRoot json_root_type
  | BodyCheck body_expect
  | UnionShape union_shape

record expect =
  ex_check :: expect_check
  ex_on_violation :: "violation_action option"

definition requires_json_body :: "expect \<Rightarrow> bool" where
  "requires_json_body e \<longleftrightarrow> ex_check e \<noteq> EmptyBody"

section \<open>Rules and scopes\<close>

record inject =
  ij_name :: string
  ij_value :: string

type_synonym disposition_map = "(string \<times> secret_disposition) list"

record rule_config =
  rc_match :: match_config
  rc_on_match :: action
  rc_on_indeterminate :: "indeterminate_action option"
  rc_expect :: "expect list option"
  rc_limits :: "limits option"
  rc_secrets :: "disposition_map option"
  rc_inject :: "inject list option"
  rc_audit :: "audit_mode option"
  rc_overrides :: "string list option"

record scope_config =
  sp_targets :: "string list"
  sp_fallback :: "action option"
  sp_web_socket :: "websocket_policy option"
  sp_limits :: "limits option"
  sp_secrets :: "disposition_map option"
  sp_inject :: "inject list option"
  sp_audit :: "audit_mode option"
  sp_rules :: "(string \<times> rule_config) list option"

record network_defaults =
  nd_limits :: "limits option"
  nd_secrets :: "disposition_map option"
  nd_audit :: "audit_mode option"

record network_config =
  nc_scopes :: "(string \<times> scope_config) list"
  nc_fallback :: "network_fallback option"
  nc_defaults :: "network_defaults option"

record authz_config =
  ac_secrets :: "(string \<times> secret_config) list option"
  ac_mask :: "mask_config option"
  ac_network :: network_config

definition default_secret_dispositions :: disposition_map where
  "default_secret_dispositions = [(''*'', SdMask)]"

definition default_audit_mode :: audit_mode where
  "default_audit_mode = AuditAlways"

definition expands_to_multiple_values :: "secret_config \<Rightarrow> bool" where
  "expands_to_multiple_values secret = prefix ''lines:'' (sc_from secret)"

section \<open>Injected values\<close>

datatype inject_value =
    InjectLiteral string
  | InjectSecret string
  | InjectTemplate string "string list"

datatype inject_error = SecretNameEmpty | InjectPrefixUnknown

text \<open>
  The matches of \<open>TEMPLATE_REFERENCE = /\${([^}]*)}/g\<close>, from left to right: the name between
  \<open>${\<close> and the next closing brace.
\<close>

function template_names :: "string \<Rightarrow> string list" where
  "template_names [] = []"
| "template_names (c # cs) =
     (if c = CHR ''$'' \<and> prefix ''{'' cs \<and> CHR ''}'' \<in> set cs
      then before_first CHR ''}'' (tl cs) # template_names (after_first CHR ''}'' (tl cs))
      else template_names cs)"
  by pat_completeness auto
termination
proof (relation "measure length")
  fix c and cs :: string
  have "length (after_first CHR ''}'' (tl cs)) \<le> length (tl cs)"
    using length_dropWhile_le [of "\<lambda>x. x \<noteq> CHR ''}''" "tl cs"] by (simp add: after_first_def)
  then show "(after_first CHR ''}'' (tl cs), c # cs) \<in> measure length"
    by simp
qed simp_all

definition parse_inject_value :: "string \<Rightarrow> inject_error + inject_value" where
  "parse_inject_value v =
     (if prefix ''literal:'' v then Inr (InjectLiteral (drop 8 v))
      else if prefix ''secret:'' v then
        (let name = drop 7 v in if name = '''' then Inl SecretNameEmpty else Inr (InjectSecret name))
      else if prefix ''template:'' v then
        (let text = drop 9 v in Inr (InjectTemplate text (template_names text)))
      else Inl InjectPrefixUnknown)"

fun inject_references :: "inject_value \<Rightarrow> string list" where
  "inject_references (InjectLiteral text) = []"
| "inject_references (InjectSecret name) = [name]"
| "inject_references (InjectTemplate text names) = names"

text \<open>Names never hold a closing brace, and a text without a reference has none.\<close>

lemma template_names_no_brace: "n \<in> set (template_names s) \<Longrightarrow> CHR ''}'' \<notin> set n"
  by (induction s rule: template_names.induct) (auto split: if_splits)

lemma template_names_absent: "\<not> sublist ''${'' s \<Longrightarrow> template_names s = []"
proof (induction s rule: template_names.induct)
  case (2 c cs)
  have no: "\<not> (c = CHR ''$'' \<and> prefix ''{'' cs \<and> CHR ''}'' \<in> set cs)"
    using 2(3) by (auto simp: prefix_def sublist_def intro: exI [of _ "[]"])
  have "\<not> sublist ''${'' cs"
    using 2(3) by (auto simp: sublist_Cons_right)
  with 2(2) [OF no] no show ?case
    by (simp only: template_names.simps if_False not_False_eq_True simp_thms)
qed simp

end
