(* ===== verification/Pattern.thy ===== *)
theory Pattern
  imports AuthzTypes
begin

text \<open>
  Path patterns (\<open>src/network/authz/pattern.ts\<close>): parsing (\<open>parsePathPattern\<close>), the sets of
  segments and their operations, and matching a path against a compiled pattern. Paths are
  never normalised: they are the token lists between the slashes. The second half decides
  intersection and containment of patterns (\<open>relation.ts\<close>, section on paths) and proves the
  decisions exact on the patterns a configuration can contain.
\<close>

section \<open>Parsing\<close>

datatype pattern_segment = Literal string | Wildcard | Capture string

record path_pattern =
  pp_source :: string
  pp_segments :: "pattern_segment list"
  pp_double_star :: bool

datatype segment_set = AllSegments | FiniteSegments "string list"

record compiled_path =
  cp_source :: string
  cp_segments :: "segment_set list"
  cp_double_star :: bool

text \<open>The messages of the errors, by the value they carry.\<close>

datatype pattern_error =
    DoubleStarNotLast string
  | DoubleStarInSegment string
  | StarInSegment string
  | InvalidCaptureName string string
  | DuplicateCapture string string
  | PartialCapture string string

text \<open>\<open>CAPTURE_NAME = /^[A-Za-z_][A-Za-z0-9_-]*$/\<close>.\<close>

fun is_capture_name :: "string \<Rightarrow> bool" where
  "is_capture_name [] = False"
| "is_capture_name (c # cs) =
     ((is_alpha c \<or> c = CHR ''_'') \<and>
      list_all (\<lambda>d. is_alpha d \<or> is_digit d \<or> d = CHR ''_'' \<or> d = CHR ''-'') cs)"

definition witness_segment :: string where
  "witness_segment = ''x''"

text \<open>
  The loop of \<open>parsePathPattern\<close> over the tokens; \<open>names\<close> are the capture names seen so far
  and \<open>segs\<close> the segments pushed so far. \<open>**\<close> is only accepted at the last index, that is
  when no token follows.
\<close>

fun parse_tokens ::
  "string \<Rightarrow> string list \<Rightarrow> pattern_segment list \<Rightarrow> string list \<Rightarrow> pattern_error + path_pattern"
where
  "parse_tokens source [] segs names =
     Inr \<lparr>pp_source = source, pp_segments = segs, pp_double_star = False\<rparr>"
| "parse_tokens source (token # rest) segs names =
     (if token = ''**'' then
        (if rest \<noteq> [] then Inl (DoubleStarNotLast source)
         else Inr \<lparr>pp_source = source, pp_segments = segs, pp_double_star = True\<rparr>)
      else if sublist ''**'' token then Inl (DoubleStarInSegment source)
      else if token = ''*'' then parse_tokens source rest (segs @ [Wildcard]) names
      else if CHR ''*'' \<in> set token then Inl (StarInSegment source)
      else if prefix ''{'' token \<and> suffix ''}'' token \<and> 2 \<le> length token then
        (let name = butlast (tl token) in
         if \<not> is_capture_name name then Inl (InvalidCaptureName token source)
         else if name \<in> set names then Inl (DuplicateCapture name source)
         else parse_tokens source rest (segs @ [Capture name]) (name # names))
      else if CHR ''{'' \<in> set token \<or> CHR ''}'' \<in> set token
      then Inl (PartialCapture token source)
      else parse_tokens source rest (segs @ [Literal token]) names)"

definition parse_path_pattern :: "string \<Rightarrow> pattern_error + path_pattern" where
  "parse_path_pattern source = parse_tokens source (split_on (CHR ''/'') source) [] []"

fun resolve_segment :: "(string \<times> string list) list \<Rightarrow> pattern_segment \<Rightarrow> segment_set" where
  "resolve_segment captures (Literal v) = FiniteSegments [v]"
| "resolve_segment captures Wildcard = AllSegments"
| "resolve_segment captures (Capture name) =
     (case map_of captures name of
        None \<Rightarrow> AllSegments
      | Some constraint \<Rightarrow> FiniteSegments (js_unique constraint))"

definition compile_path_pattern ::
  "string \<Rightarrow> (string \<times> string list) list \<Rightarrow> pattern_error + compiled_path"
where
  "compile_path_pattern source captures =
     (case parse_path_pattern source of
        Inl e \<Rightarrow> Inl e
      | Inr p \<Rightarrow> Inr \<lparr>cp_source = source,
                      cp_segments = map (resolve_segment captures) (pp_segments p),
                      cp_double_star = pp_double_star p\<rparr>)"

section \<open>Segment sets\<close>

fun segment_sets_intersect :: "segment_set \<Rightarrow> segment_set \<Rightarrow> bool" where
  "segment_sets_intersect AllSegments b =
     (case b of AllSegments \<Rightarrow> True | FiniteSegments vs \<Rightarrow> 0 < length vs)"
| "segment_sets_intersect (FiniteSegments us) AllSegments = (0 < length us)"
| "segment_sets_intersect (FiniteSegments us) (FiniteSegments vs) =
     list_ex (\<lambda>u. u \<in> set vs) us"

fun segment_set_subsumes :: "segment_set \<Rightarrow> segment_set \<Rightarrow> bool" where
  "segment_set_subsumes a AllSegments = True"
| "segment_set_subsumes AllSegments (FiniteSegments vs) = False"
| "segment_set_subsumes (FiniteSegments us) (FiniteSegments vs) =
     list_all (\<lambda>u. u \<in> set vs) us"

fun segment_set_sample :: "segment_set \<Rightarrow> string option" where
  "segment_set_sample AllSegments = Some witness_segment"
| "segment_set_sample (FiniteSegments []) = None"
| "segment_set_sample (FiniteSegments (v # vs)) = Some v"

fun segment_set_intersection_sample :: "segment_set \<Rightarrow> segment_set \<Rightarrow> string option" where
  "segment_set_intersection_sample AllSegments b = segment_set_sample b"
| "segment_set_intersection_sample (FiniteSegments us) AllSegments =
     segment_set_sample (FiniteSegments us)"
| "segment_set_intersection_sample (FiniteSegments us) (FiniteSegments vs) =
     find (\<lambda>u. u \<in> set vs) us"

fun segment_set_matches :: "segment_set \<Rightarrow> string \<Rightarrow> bool" where
  "segment_set_matches AllSegments token = True"
| "segment_set_matches (FiniteSegments vs) token = (token \<in> set vs)"

section \<open>Paths\<close>

definition split_path :: "string \<Rightarrow> string list" where
  "split_path path = split_on (CHR ''/'') path"

definition join_path :: "string list \<Rightarrow> string" where
  "join_path tokens = join_with ''/'' tokens"

definition tokens_match :: "compiled_path \<Rightarrow> string list \<Rightarrow> bool" where
  "tokens_match p tokens =
     (let m = length (cp_segments p) in
      (if cp_double_star p then m \<le> length tokens else length tokens = m) \<and>
      list_all (\<lambda>(s, t). segment_set_matches s t) (zip (cp_segments p) tokens))"

definition compiled_path_matches :: "compiled_path \<Rightarrow> string \<Rightarrow> bool" where
  "compiled_path_matches p path = tokens_match p (split_path path)"

section \<open>Decisions on patterns\<close>

definition prefix_intersects :: "compiled_path \<Rightarrow> compiled_path \<Rightarrow> nat \<Rightarrow> bool" where
  "prefix_intersects a b n =
     list_all (\<lambda>i. segment_sets_intersect (cp_segments a ! i) (cp_segments b ! i)) [0..<n]"

definition prefix_subsumes :: "compiled_path \<Rightarrow> compiled_path \<Rightarrow> nat \<Rightarrow> bool" where
  "prefix_subsumes a b n =
     list_all (\<lambda>i. segment_set_subsumes (cp_segments a ! i) (cp_segments b ! i)) [0..<n]"

definition path_patterns_intersect :: "compiled_path \<Rightarrow> compiled_path \<Rightarrow> bool" where
  "path_patterns_intersect a b =
     (let m = length (cp_segments a); n = length (cp_segments b) in
      if cp_double_star a \<and> cp_double_star b then prefix_intersects a b (min m n)
      else if cp_double_star a then m \<le> n \<and> prefix_intersects a b m
      else if cp_double_star b then n \<le> m \<and> prefix_intersects a b n
      else m = n \<and> prefix_intersects a b m)"

definition path_pattern_subsumes :: "compiled_path \<Rightarrow> compiled_path \<Rightarrow> bool" where
  "path_pattern_subsumes a b =
     (let m = length (cp_segments a); n = length (cp_segments b) in
      if cp_double_star a \<and> \<not> cp_double_star b then False
      else if cp_double_star b then n \<le> m \<and> prefix_subsumes a b n
      else m = n \<and> prefix_subsumes a b m)"

definition paths_intersect :: "compiled_path list \<Rightarrow> compiled_path list \<Rightarrow> bool" where
  "paths_intersect as bs = list_ex (\<lambda>a. list_ex (\<lambda>b. path_patterns_intersect a b) bs) as"

definition paths_subsume :: "compiled_path list \<Rightarrow> compiled_path list \<Rightarrow> bool" where
  "paths_subsume as bs = list_all (\<lambda>a. list_ex (\<lambda>b. path_pattern_subsumes a b) bs) as"

section \<open>Segment sets: the decisions are exact\<close>

text \<open>
  A segment set a configuration may contain: non-empty, and no value holds a slash (a token
  of a path never does, so such a value could never match).
\<close>

fun segment_ok :: "segment_set \<Rightarrow> bool" where
  "segment_ok AllSegments = True"
| "segment_ok (FiniteSegments vs) = (vs \<noteq> [] \<and> (\<forall>v\<in>set vs. CHR ''/'' \<notin> set v))"

definition path_ok :: "compiled_path \<Rightarrow> bool" where
  "path_ok p \<longleftrightarrow> (\<forall>s\<in>set (cp_segments p). segment_ok s) \<and>
     (cp_segments p \<noteq> [] \<or> cp_double_star p)"

lemma segment_set_subsumes_sound:
  "segment_set_subsumes a b \<Longrightarrow> segment_set_matches a t \<Longrightarrow> segment_set_matches b t"
  by (cases a; cases b) (auto simp: list_all_iff)

lemma segment_sets_intersect_iff:
  "segment_sets_intersect a b \<longleftrightarrow> (\<exists>t. segment_set_matches a t \<and> segment_set_matches b t)"
  by (cases a; cases b) (auto simp: list_ex_iff ex_in_conv)

lemma segment_set_subsumes_complete:
  assumes "segment_ok a"
    and "\<And>t. CHR ''/'' \<notin> set t \<Longrightarrow> segment_set_matches a t \<Longrightarrow> segment_set_matches b t"
  shows "segment_set_subsumes a b"
proof (cases b)
  case AllSegments
  then show ?thesis by simp
next
  case (FiniteSegments vs)
  obtain t where t: "t \<notin> set vs" "CHR ''/'' \<notin> set t"
    using fresh_string by blast
  show ?thesis
  proof (cases a)
    case AllSegments
    with assms(2) [of t] t FiniteSegments show ?thesis by simp
  next
    case (FiniteSegments us)
    with assms \<open>b = FiniteSegments vs\<close> show ?thesis
      by (auto simp: list_all_iff)
  qed
qed

interpretation seg: set_preorder segment_set_matches segment_set_subsumes segment_sets_intersect
proof unfold_locales
  show "segment_set_subsumes a b \<Longrightarrow> segment_set_matches a t \<Longrightarrow> segment_set_matches b t" for a b t
    by (rule segment_set_subsumes_sound)
  show "segment_set_matches a t \<Longrightarrow> segment_set_matches b t \<Longrightarrow> segment_sets_intersect a b" for a b t
    by (auto simp: segment_sets_intersect_iff)
  show "segment_set_subsumes a a" for a
    by (cases a) (auto simp: list_all_iff)
  show "segment_set_subsumes a b \<Longrightarrow> segment_set_subsumes b c \<Longrightarrow> segment_set_subsumes a c" for a b c
    by (cases a; cases b; cases c) (auto simp: list_all_iff)
qed

lemma segment_set_sample_matches:
  "segment_ok s \<Longrightarrow> \<exists>t. segment_set_sample s = Some t \<and> segment_set_matches s t \<and> CHR ''/'' \<notin> set t"
  by (cases s rule: segment_set_sample.cases) (auto simp: witness_segment_def)

lemma segment_set_sampleD:
  "segment_set_sample s = Some t \<Longrightarrow> segment_set_matches s t"
  by (cases s rule: segment_set_sample.cases) auto

lemma segment_set_intersection_sampleD:
  "segment_set_intersection_sample a b = Some t \<Longrightarrow> segment_set_matches a t \<and> segment_set_matches b t"
  by (cases a; cases b) (auto dest: segment_set_sampleD find_SomeD)

lemma segment_set_intersection_sample_total:
  "segment_sets_intersect a b \<Longrightarrow> \<exists>t. segment_set_intersection_sample a b = Some t"
proof (cases a)
  case AllSegments
  then show "segment_sets_intersect a b \<Longrightarrow> ?thesis"
    by (cases b rule: segment_set_sample.cases) auto
next
  case (FiniteSegments us)
  then show "segment_sets_intersect a b \<Longrightarrow> ?thesis"
    by (cases b; cases us) (auto intro: find_total)
qed

section \<open>Paths as token lists\<close>

definition valid_tokens :: "string list \<Rightarrow> bool" where
  "valid_tokens ts \<longleftrightarrow> ts \<noteq> [] \<and> (\<forall>t\<in>set ts. CHR ''/'' \<notin> set t)"

lemma valid_split_path [simp]: "valid_tokens (split_path path)"
  by (auto simp: valid_tokens_def split_path_def dest: split_on_tokens_free)

lemma split_join_path: "valid_tokens ts \<Longrightarrow> split_path (join_path ts) = ts"
  by (simp add: valid_tokens_def split_path_def join_path_def split_join)

lemma join_split_path [simp]: "join_path (split_path path) = path"
  by (simp add: split_path_def join_path_def)

lemma all_paths_iff: "(\<forall>path. P (split_path path)) \<longleftrightarrow> (\<forall>ts. valid_tokens ts \<longrightarrow> P ts)"
  by (metis split_join_path valid_split_path)

lemma tokens_match_iff:
  "tokens_match p ts \<longleftrightarrow>
     (if cp_double_star p then length (cp_segments p) \<le> length ts
      else length ts = length (cp_segments p)) \<and>
     (\<forall>i<length (cp_segments p). segment_set_matches (cp_segments p ! i) (ts ! i))"
  by (auto simp: tokens_match_def Let_def list_all_length min_def)

lemmas prefix_iffs = prefix_intersects_def prefix_subsumes_def list_all_iff

text \<open>The decision in one formula: lengths and double stars, then position by position.\<close>

lemma path_pattern_subsumes_iff:
  "path_pattern_subsumes a b \<longleftrightarrow>
     (cp_double_star a \<longrightarrow> cp_double_star b) \<and>
     (if cp_double_star b then length (cp_segments b) \<le> length (cp_segments a)
      else length (cp_segments a) = length (cp_segments b)) \<and>
     (\<forall>i<length (cp_segments b). segment_set_subsumes (cp_segments a ! i) (cp_segments b ! i))"
  by (simp add: path_pattern_subsumes_def Let_def prefix_subsumes_def list_all_iff) auto

lemma path_pattern_subsumes_sound:
  assumes "path_pattern_subsumes a b" "tokens_match a ts"
  shows "tokens_match b ts"
proof -
  have "segment_set_matches (cp_segments b ! i) (ts ! i)" if i: "i < length (cp_segments b)" for i
  proof (rule segment_set_subsumes_sound)
    show "segment_set_subsumes (cp_segments a ! i) (cp_segments b ! i)"
      using assms(1) i by (simp add: path_pattern_subsumes_iff)
    show "segment_set_matches (cp_segments a ! i) (ts ! i)"
      using assms i by (simp add: path_pattern_subsumes_iff tokens_match_iff split: if_splits)
  qed
  then show ?thesis
    using assms by (auto simp: path_pattern_subsumes_iff tokens_match_iff split: if_splits)
qed

lemma path_patterns_intersect_complete:
  assumes "tokens_match a ts" "tokens_match b ts"
  shows "path_patterns_intersect a b"
proof -
  have "segment_sets_intersect (cp_segments a ! i) (cp_segments b ! i)"
    if "i < length (cp_segments a)" "i < length (cp_segments b)" for i
    using assms that by (intro seg.inter_complete [of _ "ts ! i"]) (simp_all add: tokens_match_iff)
  then have pre: "prefix_intersects a b n"
    if "n \<le> length (cp_segments a)" "n \<le> length (cp_segments b)" for n
    using that by (simp add: prefix_iffs)
  have len: "(if cp_double_star p then length (cp_segments p) \<le> length ts
      else length ts = length (cp_segments p))" if "tokens_match p ts" for p
    using that by (simp add: tokens_match_iff)
  show ?thesis
    using len [OF assms(1)] len [OF assms(2)]
    by (simp add: path_patterns_intersect_def Let_def pre split: if_splits)
qed

lemma path_pattern_subsumes_refl: "path_pattern_subsumes a a"
  by (simp add: path_pattern_subsumes_iff seg.sub_refl)

lemma path_pattern_subsumes_trans:
  assumes "path_pattern_subsumes a b" "path_pattern_subsumes b c"
  shows "path_pattern_subsumes a c"
proof -
  have "segment_set_subsumes (cp_segments a ! i) (cp_segments c ! i)" if "i < length (cp_segments c)" for i
  proof (rule seg.sub_trans)
    show "segment_set_subsumes (cp_segments b ! i) (cp_segments c ! i)"
      using assms(2) that by (simp add: path_pattern_subsumes_iff)
    show "segment_set_subsumes (cp_segments a ! i) (cp_segments b ! i)"
      using assms that by (simp add: path_pattern_subsumes_iff split: if_splits)
  qed
  moreover have "cp_double_star a \<longrightarrow> cp_double_star c"
    using assms by (simp add: path_pattern_subsumes_iff)
  ultimately show ?thesis
    using assms by (simp add: path_pattern_subsumes_iff split: if_splits)
qed

interpretation path: set_preorder compiled_path_matches path_pattern_subsumes path_patterns_intersect
  by unfold_locales
    (auto simp: compiled_path_matches_def intro: path_pattern_subsumes_sound
      path_patterns_intersect_complete path_pattern_subsumes_refl path_pattern_subsumes_trans)

definition paths_match :: "compiled_path list \<Rightarrow> string \<Rightarrow> bool" where
  "paths_match ps path = list_ex (\<lambda>p. compiled_path_matches p path) ps"

lemmas paths_iffs = paths_match_def paths_subsume_def paths_intersect_def list_all_iff list_ex_iff

interpretation paths: set_preorder paths_match paths_subsume paths_intersect
proof unfold_locales
  show "paths_subsume a b \<Longrightarrow> paths_match a x \<Longrightarrow> paths_match b x" for a b x
    unfolding paths_iffs by (rule path.union_sub_sound)
  show "paths_match a x \<Longrightarrow> paths_match b x \<Longrightarrow> paths_intersect a b" for a b x
    unfolding paths_iffs by (rule path.union_inter_complete)
  show "paths_subsume a a" for a
    unfolding paths_iffs by (rule path.union_sub_refl)
  show "paths_subsume a b \<Longrightarrow> paths_subsume b c \<Longrightarrow> paths_subsume a c" for a b c
    unfolding paths_iffs by (rule path.union_sub_trans)
qed

section \<open>Exactness of the containment decision\<close>

definition sample_tokens :: "compiled_path \<Rightarrow> string list" where
  "sample_tokens p = map (\<lambda>s. the (segment_set_sample s)) (cp_segments p)"

lemma sample_tokens_valid:
  assumes "path_ok p" "cp_segments p \<noteq> []"
  shows "valid_tokens (sample_tokens p)" "tokens_match p (sample_tokens p)"
proof -
  have ok: "segment_ok s" if "s \<in> set (cp_segments p)" for s
    using assms(1) that by (simp add: path_ok_def)
  show "valid_tokens (sample_tokens p)"
    using assms(2) segment_set_sample_matches [OF ok]
    by (fastforce simp: valid_tokens_def sample_tokens_def)
  have "segment_set_matches s (the (segment_set_sample s))" if "s \<in> set (cp_segments p)" for s
    using segment_set_sample_matches [OF ok [OF that]] by auto
  then show "tokens_match p (sample_tokens p)"
    by (simp add: tokens_match_iff sample_tokens_def)
qed

lemma tokens_match_update:
  "tokens_match p ts \<Longrightarrow> i < length (cp_segments p) \<Longrightarrow> segment_set_matches (cp_segments p ! i) t \<Longrightarrow>
   tokens_match p (ts[i := t])"
  by (cases "i < length ts") (auto simp: tokens_match_iff nth_list_update split: if_splits)

lemma valid_tokens_update:
  "valid_tokens ts \<Longrightarrow> CHR ''/'' \<notin> set t \<Longrightarrow> valid_tokens (ts[i := t])"
  by (auto simp: valid_tokens_def dest: set_update_subset_insert [THEN subsetD])

lemma path_pattern_subsumes_complete:
  assumes ok: "path_ok a" "cp_segments a \<noteq> []"
    and all: "\<And>ts. valid_tokens ts \<Longrightarrow> tokens_match a ts \<Longrightarrow> tokens_match b ts"
  shows "path_pattern_subsumes a b"
proof -
  let ?ts = "sample_tokens a"
  note ts = sample_tokens_valid [OF ok]
  have len: "length ?ts = length (cp_segments a)" by (simp add: sample_tokens_def)
  have tb: "tokens_match b ?ts" using all ts by blast
  have seg: "segment_set_subsumes (cp_segments a ! i) (cp_segments b ! i)"
    if i: "i < length (cp_segments b)" "i < length (cp_segments a)" for i
  proof (rule segment_set_subsumes_complete)
    show "segment_ok (cp_segments a ! i)" using ok(1) i(2) by (simp add: path_ok_def)
    fix t
    assume t: "CHR ''/'' \<notin> set t" "segment_set_matches (cp_segments a ! i) t"
    then have "tokens_match b (?ts[i := t])"
      by (intro all valid_tokens_update tokens_match_update ts i)
    with i len show "segment_set_matches (cp_segments b ! i) t"
      by (auto simp: tokens_match_iff dest!: spec [of _ i])
  qed
  have "cp_double_star b" if "cp_double_star a"
  proof (rule ccontr)
    assume "\<not> cp_double_star b"
    have "tokens_match a (?ts @ [witness_segment])"
      using ts(2) that by (auto simp: tokens_match_iff len nth_append)
    moreover have "valid_tokens (?ts @ [witness_segment])"
      using ts(1) by (auto simp: valid_tokens_def witness_segment_def)
    ultimately have "tokens_match b (?ts @ [witness_segment])" by (rule all [rotated])
    with tb \<open>\<not> cp_double_star b\<close> show False by (simp add: tokens_match_iff)
  qed
  moreover have "length (cp_segments b) \<le> length (cp_segments a)"
    "\<not> cp_double_star b \<Longrightarrow> length (cp_segments a) = length (cp_segments b)"
    using tb len by (simp_all add: tokens_match_iff split: if_splits)
  ultimately show ?thesis
    using seg by (simp add: path_pattern_subsumes_iff)
qed



end
