(* ===== verification/MatchRelation.thy ===== *)
theory MatchRelation
  imports Pattern
begin

text \<open>
  The axes of a match condition and their conservative decisions
  (\<open>src/network/authz/relation.ts\<close>): compilation and normalisation of a condition
  (\<open>compileMatch\<close>, \<open>normalizeBody\<close>), intersection and containment of methods, bodies and
  whole matches. The method decisions are interpreted in the decision interface here; the
  ones that need the semantics of a body are interpreted in \<open>Semantics\<close>, those on targets
  in \<open>Targets\<close>.
\<close>

record normalized_graphql =
  ng_at :: string
  ng_operations :: "graphql_operation list"
  ng_field_paths :: "string list"
  ng_field_arguments :: field_arguments

text \<open>\<open>nb_format = None\<close> is "no body condition", the top of the format lattice.\<close>

record normalized_body =
  nb_format :: "body_format option"
  nb_pointers :: "(string \<times> scalar list) list"
  nb_graphql :: "normalized_graphql option"

text \<open>\<open>cm_methods = None\<close> is every method.\<close>

record compiled_match =
  cm_methods :: "string list option"
  cm_paths :: "compiled_path list"
  cm_body :: normalized_body

section \<open>Normalisation\<close>

definition normalize_method :: "string \<Rightarrow> string" where
  "normalize_method m = to_upper m"

definition known_http_methods :: "string list" where
  "known_http_methods =
     [''GET'', ''HEAD'', ''POST'', ''PUT'', ''PATCH'', ''DELETE'', ''CONNECT'', ''OPTIONS'', ''TRACE'']"

fun unique_scalars_from :: "string list \<Rightarrow> scalar list \<Rightarrow> scalar list" where
  "unique_scalars_from seen [] = []"
| "unique_scalars_from seen (v # vs) =
     (if scalar_key v \<in> set seen then unique_scalars_from seen vs
      else v # unique_scalars_from (scalar_key v # seen) vs)"

definition unique_scalars :: "scalar list \<Rightarrow> scalar list" where
  "unique_scalars vs = unique_scalars_from [] vs"

text \<open>
  The pointers of a body condition: first the \<open>oneOf\<close> entries, then every \<open>equals\<close> entry, which
  is a singleton set or narrows the set an \<open>oneOf\<close> entry already gave the pointer.
\<close>

definition add_equals :: "string \<times> scalar \<Rightarrow> (string \<times> scalar list) list \<Rightarrow> (string \<times> scalar list) list" where
  "add_equals e pointers =
     (case e of (pointer, v) \<Rightarrow>
        AList.update pointer
          (case map_of pointers pointer of
             None \<Rightarrow> [v]
           | Some existing \<Rightarrow> filter (\<lambda>c. scalar_key c = scalar_key v) existing)
          pointers)"

definition normalize_pointers :: "(string \<times> scalar) list \<Rightarrow> (string \<times> scalar list) list \<Rightarrow> (string \<times> scalar list) list" where
  "normalize_pointers equals one_of =
     fold add_equals equals (amap_merge [] (map (\<lambda>(p, vs). (p, unique_scalars vs)) one_of))"

definition normalize_field_arguments :: "field_arguments \<Rightarrow> field_arguments" where
  "normalize_field_arguments fa =
     amap_merge [] (map (\<lambda>(path, args). (path, amap_merge [] (map (\<lambda>(n, vs). (n, js_unique vs)) args))) fa)"

definition normalize_graphql :: "graphql_match \<Rightarrow> normalized_graphql" where
  "normalize_graphql g =
     \<lparr>ng_at = (case gm_at g of None \<Rightarrow> default_graphql_at | Some at \<Rightarrow> at),
      ng_operations = js_unique (gm_operations g),
      ng_field_paths = js_unique (case gm_field_paths g of None \<Rightarrow> [] | Some ps \<Rightarrow> ps),
      ng_field_arguments =
        normalize_field_arguments (case gm_field_arguments g of None \<Rightarrow> [] | Some fa \<Rightarrow> fa)\<rparr>"

definition normalize_body :: "body_match option \<Rightarrow> normalized_body" where
  "normalize_body body =
     (case body of
        None \<Rightarrow> \<lparr>nb_format = None, nb_pointers = [], nb_graphql = None\<rparr>
      | Some b \<Rightarrow>
          \<lparr>nb_format = Some (bm_format b),
           nb_pointers =
             normalize_pointers (case bm_equals b of None \<Rightarrow> [] | Some e \<Rightarrow> e)
               (case bm_one_of b of None \<Rightarrow> [] | Some one_of \<Rightarrow> one_of),
           nb_graphql = map_option normalize_graphql (bm_graphql b)\<rparr>)"

fun compile_paths ::
  "(string \<times> string list) list \<Rightarrow> string list \<Rightarrow> pattern_error + compiled_path list"
where
  "compile_paths captures [] = Inr []"
| "compile_paths captures (source # rest) =
     (case compile_path_pattern source captures of
        Inl e \<Rightarrow> Inl e
      | Inr p \<Rightarrow>
          (case compile_paths captures rest of Inl e \<Rightarrow> Inl e | Inr ps \<Rightarrow> Inr (p # ps)))"

definition compile_match :: "match_config \<Rightarrow> pattern_error + compiled_match" where
  "compile_match m =
     (case compile_paths (case mc_captures m of None \<Rightarrow> [] | Some c \<Rightarrow> c) (mc_paths m) of
        Inl e \<Rightarrow> Inl e
      | Inr ps \<Rightarrow>
          Inr \<lparr>cm_methods = map_option (\<lambda>ms. js_unique (map normalize_method ms)) (mc_methods m),
               cm_paths = ps,
               cm_body = normalize_body (mc_body m)\<rparr>)"

section \<open>Methods\<close>

fun methods_intersect :: "string list option \<Rightarrow> string list option \<Rightarrow> bool" where
  "methods_intersect None b = (case b of None \<Rightarrow> True | Some ms \<Rightarrow> 0 < length ms)"
| "methods_intersect (Some ms) None = (0 < length ms)"
| "methods_intersect (Some ms) (Some ns) = list_ex (\<lambda>m. m \<in> set ns) ms"

fun methods_subsume :: "string list option \<Rightarrow> string list option \<Rightarrow> bool" where
  "methods_subsume a None = True"
| "methods_subsume None (Some ns) = False"
| "methods_subsume (Some ms) (Some ns) = list_all (\<lambda>m. m \<in> set ns) ms"

definition method_accepts :: "string list option \<Rightarrow> string \<Rightarrow> bool" where
  "method_accepts ms m = (case ms of None \<Rightarrow> True | Some l \<Rightarrow> m \<in> set l)"

interpretation methods: set_preorder method_accepts methods_subsume methods_intersect
proof unfold_locales
  show "methods_subsume a b \<Longrightarrow> method_accepts a x \<Longrightarrow> method_accepts b x" for a b x
    by (cases a; cases b) (auto simp: method_accepts_def list_all_iff)
  show "method_accepts a x \<Longrightarrow> method_accepts b x \<Longrightarrow> methods_intersect a b" for a b x
    by (cases a; cases b) (auto simp: method_accepts_def list_ex_iff)
  show "methods_subsume a a" for a
    by (cases a) (auto simp: list_all_iff)
  show "methods_subsume a b \<Longrightarrow> methods_subsume b c \<Longrightarrow> methods_subsume a c" for a b c
    by (cases a; cases b; cases c) (auto simp: list_all_iff)
qed

section \<open>Bodies\<close>

fun format_subsumes :: "body_format option \<Rightarrow> body_format option \<Rightarrow> bool" where
  "format_subsumes a None = True"
| "format_subsumes None (Some b) = False"
| "format_subsumes (Some a) (Some b) = (if a = b then True else b = FormatOpaque)"

fun format_intersects :: "body_format option \<Rightarrow> body_format option \<Rightarrow> bool" where
  "format_intersects None b = True"
| "format_intersects (Some a) None = True"
| "format_intersects (Some a) (Some b) =
     (if a = b then True else a = FormatOpaque \<or> b = FormatOpaque)"

definition scalar_sets_intersect :: "scalar list \<Rightarrow> scalar list \<Rightarrow> bool" where
  "scalar_sets_intersect a b = list_ex (\<lambda>v. scalar_key v \<in> scalar_key ` set b) a"

definition scalar_set_subsumes :: "scalar list \<Rightarrow> scalar list \<Rightarrow> bool" where
  "scalar_set_subsumes a b = list_all (\<lambda>v. scalar_key v \<in> scalar_key ` set b) a"

definition pointers_intersect ::
  "(string \<times> scalar list) list \<Rightarrow> (string \<times> scalar list) list \<Rightarrow> bool"
where
  "pointers_intersect a b =
     list_all (\<lambda>(p, va). case map_of b p of None \<Rightarrow> True | Some vb \<Rightarrow> scalar_sets_intersect va vb) a"

definition pointers_subsume ::
  "(string \<times> scalar list) list \<Rightarrow> (string \<times> scalar list) list \<Rightarrow> bool"
where
  "pointers_subsume a b =
     list_all (\<lambda>(p, vb). case map_of a p of None \<Rightarrow> False | Some va \<Rightarrow> scalar_set_subsumes va vb) b"

fun graphql_intersects :: "normalized_graphql option \<Rightarrow> normalized_graphql option \<Rightarrow> bool" where
  "graphql_intersects None b = True"
| "graphql_intersects (Some a) None = True"
| "graphql_intersects (Some a) (Some b) =
     (if ng_at a \<noteq> ng_at b then True
      else if \<not> list_ex (\<lambda>x. x \<in> set (ng_operations b)) (ng_operations a) then False
      else list_ex (\<lambda>x. x \<in> set (ng_field_paths b)) (ng_field_paths a))"

definition arguments_subsume ::
  "(string \<times> string list) list \<Rightarrow> (string \<times> string list) list \<Rightarrow> bool"
where
  "arguments_subsume argsA argsB =
     list_all (\<lambda>(name, vb). case map_of argsA name of
        None \<Rightarrow> False | Some va \<Rightarrow> list_all (\<lambda>v. v \<in> set vb) va) argsB"

fun graphql_subsumes :: "normalized_graphql option \<Rightarrow> normalized_graphql option \<Rightarrow> bool" where
  "graphql_subsumes a None = True"
| "graphql_subsumes None (Some b) = False"
| "graphql_subsumes (Some a) (Some b) =
     (if ng_at a \<noteq> ng_at b then False
      else if \<not> list_all (\<lambda>x. x \<in> set (ng_operations b)) (ng_operations a) then False
      else if \<not> list_all (\<lambda>x. x \<in> set (ng_field_paths b)) (ng_field_paths a) then False
      else list_all (\<lambda>(path, argsB).
             case map_of (ng_field_arguments a) path of
               None \<Rightarrow> False
             | Some argsA \<Rightarrow> arguments_subsume argsA argsB) (ng_field_arguments b))"

definition bodies_intersect :: "normalized_body \<Rightarrow> normalized_body \<Rightarrow> bool" where
  "bodies_intersect a b =
     (if \<not> format_intersects (nb_format a) (nb_format b) then False
      else if \<not> pointers_intersect (nb_pointers a) (nb_pointers b) then False
      else graphql_intersects (nb_graphql a) (nb_graphql b))"

definition body_subsumes :: "normalized_body \<Rightarrow> normalized_body \<Rightarrow> bool" where
  "body_subsumes a b =
     (if \<not> format_subsumes (nb_format a) (nb_format b) then False
      else if \<not> pointers_subsume (nb_pointers a) (nb_pointers b) then False
      else graphql_subsumes (nb_graphql a) (nb_graphql b))"

definition matches_intersect :: "compiled_match \<Rightarrow> compiled_match \<Rightarrow> bool" where
  "matches_intersect a b \<longleftrightarrow>
     methods_intersect (cm_methods a) (cm_methods b) \<and>
     paths_intersect (cm_paths a) (cm_paths b) \<and>
     bodies_intersect (cm_body a) (cm_body b)"

definition match_subsumes :: "compiled_match \<Rightarrow> compiled_match \<Rightarrow> bool" where
  "match_subsumes a b \<longleftrightarrow>
     methods_subsume (cm_methods a) (cm_methods b) \<and>
     paths_subsume (cm_paths a) (cm_paths b) \<and>
     body_subsumes (cm_body a) (cm_body b)"

end
