(* ===== verification/Selection.thy ===== *)
theory Selection
  imports AuthzTypes
begin

text \<open>
  Field paths of a GraphQL condition and their evaluation on the facts of a document
  (\<open>src/network/authz/graphql_selection.ts\<close>). A leaf must be one of the permitted paths, a
  field with children one of their true prefixes; a named argument must be present, resolved
  and permitted. Unresolved arguments make the answer indeterminate, whatever else is wrong.
\<close>

section \<open>Field paths\<close>

text \<open>\<open>FIELD_PATH = /^(?:\/[A-Za-z_][0-9A-Za-z_]*)+$/\<close>: after the leading slash, names.\<close>

fun is_graphql_name :: "string \<Rightarrow> bool" where
  "is_graphql_name [] = False"
| "is_graphql_name (c # cs) =
     ((is_alpha c \<or> c = CHR ''_'') \<and> list_all (\<lambda>d. is_digit d \<or> is_alpha d \<or> d = CHR ''_'') cs)"

definition is_graphql_field_path :: "string \<Rightarrow> bool" where
  "is_graphql_field_path s =
     (case s of [] \<Rightarrow> False
      | c # rest \<Rightarrow> c = CHR ''/'' \<and> list_all is_graphql_name (split_on (CHR ''/'') rest))"

text \<open>The slices \<open>path.slice(0, end)\<close> for the positions \<open>end >= 1\<close> of a slash, in order.\<close>

definition path_cuts :: "string \<Rightarrow> string list" where
  "path_cuts path = map (\<lambda>i. take i path) (filter (\<lambda>i. path ! i = CHR ''/'') [1..<length path])"

definition graphql_path_chain :: "string \<Rightarrow> string list" where
  "graphql_path_chain path = path_cuts path @ [path]"

definition graphql_path_prefixes :: "string list \<Rightarrow> string list" where
  "graphql_path_prefixes field_paths = js_unique (concat (map path_cuts field_paths))"

section \<open>Evaluation\<close>

text \<open>The two flags of the loop: \<open>refused\<close> and \<open>unknown\<close>.\<close>

definition check_argument ::
  "field_occurrence \<Rightarrow> string \<times> string list \<Rightarrow> bool \<times> bool \<Rightarrow> bool \<times> bool"
where
  "check_argument field cond flags =
     (case (cond, flags) of ((name, allowed), (refused, unknown)) \<Rightarrow>
        if name \<in> set (fo_unresolved field) then (refused, True)
        else (case map_of (fo_argument_values field) name of
                None \<Rightarrow> (True, unknown)
              | Some v \<Rightarrow> (if v \<notin> set allowed then (True, unknown) else (refused, unknown))))"

definition check_field ::
  "string list \<Rightarrow> string list \<Rightarrow> field_arguments \<Rightarrow> field_occurrence \<Rightarrow> bool \<times> bool \<Rightarrow> bool \<times> bool"
where
  "check_field leaves ancestors field_arguments field flags =
     (case flags of (refused, unknown) \<Rightarrow>
        fold (check_argument field)
          (case map_of field_arguments (fo_path field) of None \<Rightarrow> [] | Some args \<Rightarrow> args)
          (if fo_path field \<notin> set (if fo_leaf field then leaves else ancestors) then True else refused,
           unknown))"

definition selection_satisfies ::
  "string list \<Rightarrow> field_arguments \<Rightarrow> graphql_document option \<Rightarrow> truth"
where
  "selection_satisfies field_paths field_arguments doc =
     (case doc of None \<Rightarrow> Indeterminate
      | Some d \<Rightarrow>
          if \<not> list_ex fo_leaf (gd_fields d) then Indeterminate
          else (case fold (check_field field_paths (graphql_path_prefixes field_paths) field_arguments)
                       (gd_fields d) (False, False) of
                  (refused, unknown) \<Rightarrow>
                    if unknown then Indeterminate else if refused then FalseT else TrueT))"

section \<open>The declarative reading\<close>

definition arguments_of :: "field_arguments \<Rightarrow> string \<Rightarrow> (string \<times> string list) list" where
  "arguments_of fa path = (case map_of fa path of None \<Rightarrow> [] | Some args \<Rightarrow> args)"

definition argument_unknown :: "field_occurrence \<Rightarrow> string \<times> string list \<Rightarrow> bool" where
  "argument_unknown field cond \<longleftrightarrow> fst cond \<in> set (fo_unresolved field)"

definition argument_ok :: "field_occurrence \<Rightarrow> string \<times> string list \<Rightarrow> bool" where
  "argument_ok field cond \<longleftrightarrow>
     (\<exists>v. map_of (fo_argument_values field) (fst cond) = Some v \<and> v \<in> set (snd cond))"

definition path_permitted :: "string list \<Rightarrow> field_occurrence \<Rightarrow> bool" where
  "path_permitted field_paths field \<longleftrightarrow>
     (if fo_leaf field then fo_path field \<in> set field_paths
      else \<exists>p\<in>set field_paths. fo_path field \<in> set (path_cuts p))"

lemma set_graphql_path_prefixes [simp]:
  "set (graphql_path_prefixes ps) = (\<Union>p\<in>set ps. set (path_cuts p))"
  by (simp add: graphql_path_prefixes_def)

lemma check_arguments_fold:
  "fold (check_argument field) conds (r, u) =
     (r \<or> list_ex (\<lambda>c. \<not> argument_unknown field c \<and> \<not> argument_ok field c) conds,
      u \<or> list_ex (argument_unknown field) conds)"
proof (induction conds arbitrary: r u)
  case Nil
  then show ?case by simp
next
  case (Cons c conds)
  then show ?case
    by (cases c) (auto simp: check_argument_def argument_unknown_def argument_ok_def split: option.splits)
qed

lemma check_field_eq:
  "check_field leaves (graphql_path_prefixes leaves) fa field (r, u) =
     (r \<or> \<not> path_permitted leaves field \<or>
        list_ex (\<lambda>c. \<not> argument_unknown field c \<and> \<not> argument_ok field c) (arguments_of fa (fo_path field)),
      u \<or> list_ex (argument_unknown field) (arguments_of fa (fo_path field)))"
  by (auto simp: check_field_def check_arguments_fold path_permitted_def arguments_of_def list_ex_iff
      split: option.splits)

lemma check_fields_fold:
  "fold (check_field leaves (graphql_path_prefixes leaves) fa) occs (r, u) =
     (r \<or> list_ex (\<lambda>f. \<not> path_permitted leaves f \<or>
        list_ex (\<lambda>c. \<not> argument_unknown f c \<and> \<not> argument_ok f c) (arguments_of fa (fo_path f))) occs,
      u \<or> list_ex (\<lambda>f. list_ex (argument_unknown f) (arguments_of fa (fo_path f))) occs)"
proof (induction occs arbitrary: r u)
  case Nil
  then show ?case by simp
next
  case (Cons f occs)
  show ?case
    by (simp add: check_field_eq Cons.IH disj_assoc)
qed

definition selection_unknown :: "field_arguments \<Rightarrow> graphql_document \<Rightarrow> bool" where
  "selection_unknown fa d \<longleftrightarrow> (\<forall>f\<in>set (gd_fields d). \<not> fo_leaf f) \<or>
     (\<exists>f\<in>set (gd_fields d). \<exists>c\<in>set (arguments_of fa (fo_path f)). argument_unknown f c)"

definition selection_permitted :: "string list \<Rightarrow> field_arguments \<Rightarrow> graphql_document \<Rightarrow> bool" where
  "selection_permitted ps fa d \<longleftrightarrow>
     (\<forall>f\<in>set (gd_fields d). path_permitted ps f \<and>
        (\<forall>c\<in>set (arguments_of fa (fo_path f)). argument_ok f c))"

text \<open>
  selectionSatisfies computes the rule it documents. Missing facts, facts without a leaf
  and an unresolved named argument at any occurrence make it indeterminate, whatever path or
  value is wrong elsewhere; otherwise it is true exactly when every occurrence is on a
  permitted path and every named argument is present with a permitted value.
\<close>

theorem selection_satisfies_spec:
  "selection_satisfies ps fa None = Indeterminate \<and>
   selection_satisfies ps fa (Some d) =
     (if selection_unknown fa d then Indeterminate
      else if selection_permitted ps fa d then TrueT else FalseT)"
  by (auto simp: selection_satisfies_def check_fields_fold selection_unknown_def selection_permitted_def
      list_ex_iff)

lemma selection_satisfies_TrueD:
  assumes "selection_satisfies ps fa (Some d) = TrueT"
  shows "\<not> selection_unknown fa d" "selection_permitted ps fa d"
  using assms
  by (auto simp: selection_satisfies_def check_fields_fold selection_unknown_def selection_permitted_def
      list_ex_iff split: if_splits)

lemma selection_satisfies_TrueI:
  "\<not> selection_unknown fa d \<Longrightarrow> selection_permitted ps fa d \<Longrightarrow>
   selection_satisfies ps fa (Some d) = TrueT"
  by (auto simp: selection_satisfies_def check_fields_fold selection_unknown_def selection_permitted_def
      list_ex_iff)

section \<open>The prefix chain\<close>

lemma path_cuts_prefix: "c \<in> set (path_cuts p) \<Longrightarrow> strict_prefix c p \<and> c \<noteq> []"
  by (auto simp: path_cuts_def strict_prefix_def take_is_prefix)

text \<open>
  The prefixes of a leaf are true ancestors. Every path of graphqlPathChain is a
  non-empty prefix of the leaf, each is strictly shorter than the next, and the chain ends
  with the leaf itself, which is not one of its own prefixes: permitting a leaf does not
  permit a field of the same path that has children.
\<close>

theorem graphql_path_chain_ascending:
  "sorted_wrt strict_prefix (graphql_path_chain p) \<and> last (graphql_path_chain p) = p \<and>
   p \<notin> set (graphql_path_prefixes [p]) \<and> [] \<notin> set (path_cuts p)"
proof -
  have "sorted_wrt strict_prefix (path_cuts p)"
    unfolding path_cuts_def sorted_wrt_map
  proof (rule sorted_wrt_mono_rel)
    show "sorted_wrt (<) (filter (\<lambda>i. p ! i = CHR ''/'') [1..<length p])"
      by (intro sorted_wrt_filter) (simp add: strict_sorted_iff)
    show "strict_prefix (take i p) (take j p)"
      if "i \<in> set (filter (\<lambda>i. p ! i = CHR ''/'') [1..<length p])"
        "j \<in> set (filter (\<lambda>i. p ! i = CHR ''/'') [1..<length p])" "i < j" for i j
      using that by (auto simp: strict_prefix_def prefix_def dest: arg_cong [of _ _ length])
        (metis less_imp_le take_add le_add_diff_inverse)
  qed
  then show ?thesis
    using path_cuts_prefix by (auto simp: graphql_path_chain_def sorted_wrt_append)
qed

end
