(* ===== verification/Semantics.thy ===== *)
theory Semantics
  imports MatchRelation Selection
begin

text \<open>
  The reference semantics of a match condition (\<open>src/network/authz/semantics.ts\<close>): one request
  is accepted, refused, or its acceptance is indeterminate. The second half interprets the
  decision interface on this semantics: containment and disjointness of conditions, as
  \<open>relation.ts\<close> decides them, are sound for it.
\<close>

section \<open>JSON pointers\<close>

text \<open>\<open>raw.replaceAll("~1", "/").replaceAll("~0", "~")\<close>.\<close>

definition unescape_token :: "string \<Rightarrow> string" where
  "unescape_token raw = replace_all ''~0'' ''~'' (replace_all ''~1'' ''/'' raw)"

text \<open>\<open>/^(0|[1-9][0-9]*)$/\<close>.\<close>

fun is_array_index :: "string \<Rightarrow> bool" where
  "is_array_index [] = False"
| "is_array_index (c # cs) =
     (c = CHR ''0'' \<and> cs = [] \<or> is_digit c \<and> c \<noteq> CHR ''0'' \<and> list_all is_digit cs)"

fun resolve_tokens :: "json \<Rightarrow> string list \<Rightarrow> json option" where
  "resolve_tokens current [] = Some current"
| "resolve_tokens current (raw # rest) =
     (let token = unescape_token raw in
      case current of
        JArr items \<Rightarrow>
          (if \<not> is_array_index token then None
           else if parse_nat token < length items
           then resolve_tokens (items ! parse_nat token) rest
           else None)
      | JObj members \<Rightarrow>
          (case map_of members token of
             None \<Rightarrow> None
           | Some child \<Rightarrow> resolve_tokens child rest)
      | _ \<Rightarrow> None)"

definition resolve_pointer :: "json \<Rightarrow> string \<Rightarrow> json option" where
  "resolve_pointer root pointer =
     (case pointer of
        [] \<Rightarrow> Some root
      | c # rest \<Rightarrow>
          (if c \<noteq> CHR ''/'' then None else resolve_tokens root (split_on (CHR ''/'') rest)))"

fun scalar_of_json :: "json \<Rightarrow> scalar option" where
  "scalar_of_json (JStr s) = Some (SStr s)"
| "scalar_of_json (JNum n) = Some (SNum n)"
| "scalar_of_json (JBool b) = Some (SBool b)"
| "scalar_of_json _ = None"

definition is_scalar :: "json \<Rightarrow> bool" where
  "is_scalar v \<longleftrightarrow> scalar_of_json v \<noteq> None"

section \<open>Evaluation\<close>

definition evaluate_pointer :: "json \<Rightarrow> string \<Rightarrow> scalar list \<Rightarrow> truth" where
  "evaluate_pointer root pointer values =
     (case resolve_pointer root pointer of
        None \<Rightarrow> FalseT
      | Some found \<Rightarrow>
          (case scalar_of_json found of
             None \<Rightarrow> Indeterminate
           | Some v \<Rightarrow> (if scalar_key v \<in> scalar_key ` set values then TrueT else FalseT)))"

definition has_query_string :: "string \<Rightarrow> bool" where
  "has_query_string request_path \<longleftrightarrow>
     CHR ''?'' \<in> set request_path \<and> after_first CHR ''?'' request_path \<noteq> []"

definition satisfies_document :: "normalized_graphql \<Rightarrow> graphql_document \<Rightarrow> truth" where
  "satisfies_document condition document =
     (let selection = selection_satisfies (ng_field_paths condition) (ng_field_arguments condition)
                        (Some document) in
      if selection = Indeterminate then Indeterminate
      else if gd_operations document = [] then Indeterminate
      else if \<not> list_all (\<lambda>op. op \<in> set (ng_operations condition)) (gd_operations document) then FalseT
      else selection)"

definition evaluate_graphql ::
  "normalized_graphql \<Rightarrow> json \<Rightarrow> (string \<times> graphql_document) list \<Rightarrow> string \<Rightarrow> truth"
where
  "evaluate_graphql condition value documents request_path =
     (if has_query_string request_path then Indeterminate
      else (case map_of documents (ng_at condition) of
              None \<Rightarrow>
                (case resolve_pointer value (ng_at condition) of
                   None \<Rightarrow> FalseT | Some found \<Rightarrow> Indeterminate)
            | Some document \<Rightarrow> satisfies_document condition document))"

text \<open>The two flags of \<open>evaluateContent\<close>: \<open>indeterminate\<close> and \<open>determinedFalse\<close>.\<close>

fun note_truth :: "truth \<Rightarrow> bool \<times> bool \<Rightarrow> bool \<times> bool" where
  "note_truth Indeterminate (i, f) = (True, f)"
| "note_truth FalseT (i, f) = (i, True)"
| "note_truth TrueT (i, f) = (i, f)"

definition evaluate_content :: "normalized_body \<Rightarrow> request_body \<Rightarrow> string \<Rightarrow> truth" where
  "evaluate_content condition body request_path =
     (if length (nb_pointers condition) = 0 \<and> nb_graphql condition = None then TrueT
      else (case body of
              BodyJson value documents \<Rightarrow>
                (let flags1 = fold (\<lambda>(pointer, values) flags. note_truth (evaluate_pointer value pointer values) flags)
                                (nb_pointers condition) (False, False);
                     flags2 = (case nb_graphql condition of
                                 None \<Rightarrow> flags1
                               | Some g \<Rightarrow> note_truth (evaluate_graphql g value documents request_path) flags1)
                 in if fst flags2 then Indeterminate else if snd flags2 then FalseT else TrueT)
            | _ \<Rightarrow> Indeterminate))"

definition evaluate_body :: "normalized_body \<Rightarrow> request_body \<Rightarrow> string \<Rightarrow> truth" where
  "evaluate_body condition body request_path =
     (case nb_format condition of
        None \<Rightarrow> TrueT
      | Some format \<Rightarrow>
          (if body = BodyAbsent then FalseT
           else (case format of
                   FormatNone \<Rightarrow>
                     (if body = BodyEmpty then evaluate_content condition body request_path else FalseT)
                 | FormatOpaque \<Rightarrow> evaluate_content condition body request_path
                 | FormatJson \<Rightarrow>
                     (case body of
                        BodyJson value documents \<Rightarrow> evaluate_content condition body request_path
                      | _ \<Rightarrow> Indeterminate))))"

definition evaluate_match :: "compiled_match \<Rightarrow> authz_request \<Rightarrow> truth" where
  "evaluate_match match request =
     (if (case cm_methods match of None \<Rightarrow> False | Some ms \<Rightarrow> rq_method request \<notin> set ms) then FalseT
      else if \<not> list_ex (\<lambda>p. compiled_path_matches p (rq_path request)) (cm_paths match) then FalseT
      else evaluate_body (cm_body match) (rq_body request) (rq_path request))"

definition accepts :: "compiled_match \<Rightarrow> authz_request \<Rightarrow> bool" where
  "accepts match request \<longleftrightarrow> evaluate_match match request = TrueT"

section \<open>The content of a body, declaratively\<close>

text \<open>The truth values of the conditions on a JSON body, and their conjunction.\<close>

definition content_truths ::
  "normalized_body \<Rightarrow> json \<Rightarrow> (string \<times> graphql_document) list \<Rightarrow> string \<Rightarrow> truth set"
where
  "content_truths c value documents path =
     (\<lambda>(p, vs). evaluate_pointer value p vs) ` set (nb_pointers c) \<union>
     (case nb_graphql c of None \<Rightarrow> {} | Some g \<Rightarrow> {evaluate_graphql g value documents path})"

definition conj_truths :: "truth set \<Rightarrow> truth" where
  "conj_truths T = (if Indeterminate \<in> T then Indeterminate else if FalseT \<in> T then FalseT else TrueT)"

lemma note_truth_eq: "note_truth t (i, f) = (i \<or> t = Indeterminate, f \<or> t = FalseT)"
  by (cases t) auto

lemma note_truth_fold:
  "fold (\<lambda>(p, vs) flags. note_truth (g p vs) flags) ps (i, f) =
     (i \<or> Indeterminate \<in> (\<lambda>(p, vs). g p vs) ` set ps, f \<or> FalseT \<in> (\<lambda>(p, vs). g p vs) ` set ps)"
  by (induction ps arbitrary: i f) (auto simp: note_truth_eq)

lemma evaluate_content_json:
  "evaluate_content c (BodyJson value documents) path = conj_truths (content_truths c value documents path)"
  by (auto simp: evaluate_content_def note_truth_fold note_truth_eq content_truths_def conj_truths_def
      Let_def split: option.splits)

lemma evaluate_content_other:
  "(\<And>v ds. body \<noteq> BodyJson v ds) \<Longrightarrow>
   evaluate_content c body path = (if nb_pointers c = [] \<and> nb_graphql c = None then TrueT else Indeterminate)"
  by (cases body) (auto simp: evaluate_content_def)

lemma evaluate_content_trivial:
  "nb_pointers c = [] \<Longrightarrow> nb_graphql c = None \<Longrightarrow> evaluate_content c body path = TrueT"
  by (simp add: evaluate_content_def)

lemma conj_truths_TrueD: "conj_truths T = TrueT \<Longrightarrow> t \<in> T \<Longrightarrow> t = TrueT"
  by (cases t) (auto simp: conj_truths_def split: if_splits)

lemma conj_truths_TrueI: "(\<And>t. t \<in> T \<Longrightarrow> t = TrueT) \<Longrightarrow> conj_truths T = TrueT"
  by (auto simp: conj_truths_def)

text \<open>
  C37: an unreadable body is indeterminate, never false. The evaluation of a body condition is
  the conjunction of its pointer and document conditions in which indeterminate dominates
  false; on a body that is not JSON a json condition is indeterminate, an absent body
  satisfies no format at all, and a condition without a format is always true.
\<close>

theorem evaluate_body_spec:
  "evaluate_body c body path =
     (case nb_format c of
        None \<Rightarrow> TrueT
      | Some f \<Rightarrow>
          (case body of
             BodyAbsent \<Rightarrow> FalseT
           | BodyJson value documents \<Rightarrow>
               (if f = FormatNone then FalseT else conj_truths (content_truths c value documents path))
           | _ \<Rightarrow>
               (if f = FormatJson \<or> nb_pointers c \<noteq> [] \<and> (f = FormatNone \<and> body = BodyEmpty \<or> f = FormatOpaque)
                  \<or> nb_graphql c \<noteq> None \<and> (f = FormatNone \<and> body = BodyEmpty \<or> f = FormatOpaque)
                then Indeterminate
                else if f = FormatNone \<and> body = BodyBinary then FalseT else TrueT)))"
  by (cases body; cases "nb_format c")
    (auto simp: evaluate_body_def evaluate_content_json evaluate_content_other split: body_format.splits)


section \<open>The decisions on values and documents are sound\<close>

lemma evaluate_pointer_TrueD:
  "evaluate_pointer root p vs = TrueT \<Longrightarrow>
   \<exists>found v. resolve_pointer root p = Some found \<and> scalar_of_json found = Some v \<and> v \<in> set vs"
  by (auto simp: evaluate_pointer_def split: option.splits if_splits)

lemma evaluate_pointer_mono:
  "scalar_set_subsumes va vb \<Longrightarrow> evaluate_pointer root p va = TrueT \<Longrightarrow> evaluate_pointer root p vb = TrueT"
  by (auto simp: evaluate_pointer_def scalar_set_subsumes_def list_all_iff
      split: option.splits if_splits)

lemma evaluate_pointer_common:
  "evaluate_pointer root p va = TrueT \<Longrightarrow> evaluate_pointer root p vb = TrueT \<Longrightarrow>
   scalar_sets_intersect va vb"
  by (auto simp: evaluate_pointer_def scalar_sets_intersect_def list_ex_iff
      split: option.splits if_splits)

lemma satisfies_document_TrueD:
  assumes "satisfies_document c d = TrueT"
  shows "gd_operations d \<noteq> [] \<and> set (gd_operations d) \<subseteq> set (ng_operations c) \<and>
    selection_satisfies (ng_field_paths c) (ng_field_arguments c) (Some d) = TrueT"
  using assms by (auto simp: satisfies_document_def Let_def list_all_iff split: if_splits)

lemma satisfies_document_TrueI:
  "gd_operations d \<noteq> [] \<Longrightarrow> set (gd_operations d) \<subseteq> set (ng_operations c) \<Longrightarrow>
   selection_satisfies (ng_field_paths c) (ng_field_arguments c) (Some d) = TrueT \<Longrightarrow>
   satisfies_document c d = TrueT"
  by (auto simp: satisfies_document_def Let_def list_all_iff)

lemma evaluate_graphql_TrueD:
  "evaluate_graphql c v ds path = TrueT \<Longrightarrow>
   \<exists>d. map_of ds (ng_at c) = Some d \<and> satisfies_document c d = TrueT \<and> \<not> has_query_string path"
  by (auto simp: evaluate_graphql_def split: if_splits option.splits)

lemma path_permitted_mono: "set ps \<subseteq> set qs \<Longrightarrow> path_permitted ps f \<Longrightarrow> path_permitted qs f"
  by (auto simp: path_permitted_def split: if_splits)

lemma pointers_subsume_eq: "pointers_subsume a b = dominates scalar_set_subsumes a b"
  by (simp add: pointers_subsume_def dominates_def)

lemma arguments_subsume_eq: "arguments_subsume a b = dominates (\<lambda>x y. list_all (\<lambda>v. v \<in> set y) x) a b"
  by (simp add: arguments_subsume_def dominates_def)

lemma graphql_subsumes_Some:
  "graphql_subsumes (Some a) (Some b) \<longleftrightarrow>
     ng_at a = ng_at b \<and> set (ng_operations a) \<subseteq> set (ng_operations b) \<and>
     set (ng_field_paths a) \<subseteq> set (ng_field_paths b) \<and>
     dominates arguments_subsume (ng_field_arguments a) (ng_field_arguments b)"
  by (auto simp: dominates_def list_all_iff [of "\<lambda>x. x \<in> _"])

declare graphql_subsumes.simps(3) [simp del]

lemma graphql_subsumes_arguments:
  assumes "graphql_subsumes (Some a) (Some b)" "cb \<in> set (arguments_of (ng_field_arguments b) p)"
  shows "\<exists>ca\<in>set (arguments_of (ng_field_arguments a) p). fst ca = fst cb \<and> set (snd ca) \<subseteq> set (snd cb)"
proof -
  obtain argsB where B: "map_of (ng_field_arguments b) p = Some argsB" "cb \<in> set argsB"
    using assms(2) by (cases "map_of (ng_field_arguments b) p") (auto simp: arguments_of_def)
  with assms(1) obtain argsA where A: "map_of (ng_field_arguments a) p = Some argsA"
      "arguments_subsume argsA argsB"
    using dominates_lookup [of arguments_subsume _ "ng_field_arguments b"]
    unfolding graphql_subsumes_Some by blast
  with B(2) obtain va where "map_of argsA (fst cb) = Some va" "list_all (\<lambda>v. v \<in> set (snd cb)) va"
    using dominatesD [of _ argsA argsB "fst cb" "snd cb"] unfolding arguments_subsume_eq by auto
  then have "(fst cb, va) \<in> set (arguments_of (ng_field_arguments a) p)" "set va \<subseteq> set (snd cb)"
    using A(1) by (auto simp: arguments_of_def list_all_iff dest: map_of_SomeD)
  then show ?thesis
    by (intro bexI [of _ "(fst cb, va)"]) auto
qed

lemma selection_mono:
  assumes sub: "graphql_subsumes (Some a) (Some b)"
    and a: "selection_satisfies (ng_field_paths a) (ng_field_arguments a) (Some d) = TrueT"
  shows "selection_satisfies (ng_field_paths b) (ng_field_arguments b) (Some d) = TrueT"
proof (rule selection_satisfies_TrueI)
  note A = selection_satisfies_TrueD [OF a]
  have paths: "set (ng_field_paths a) \<subseteq> set (ng_field_paths b)"
    using sub by (simp add: graphql_subsumes_Some)
  have args: "\<exists>ca\<in>set (arguments_of (ng_field_arguments a) p).
      fst ca = fst cb \<and> set (snd ca) \<subseteq> set (snd cb)"
    if "cb \<in> set (arguments_of (ng_field_arguments b) p)" for cb p
    using graphql_subsumes_arguments [OF sub that] .
  show "\<not> selection_unknown (ng_field_arguments b) d"
    using A(1) args unfolding selection_unknown_def argument_unknown_def by metis
  show "selection_permitted (ng_field_paths b) (ng_field_arguments b) d"
    unfolding selection_permitted_def
  proof (intro ballI conjI)
    fix f
    assume f: "f \<in> set (gd_fields d)"
    then show "path_permitted (ng_field_paths b) f"
      using A(2) path_permitted_mono [OF paths] by (simp add: selection_permitted_def)
    fix cb
    assume "cb \<in> set (arguments_of (ng_field_arguments b) (fo_path f))"
    from args [OF this] show "argument_ok f cb"
      using A(2) f unfolding selection_permitted_def argument_ok_def by (metis subsetD)
  qed
qed

lemma evaluate_graphql_mono:
  assumes sub: "graphql_subsumes (Some a) (Some b)" and a: "evaluate_graphql a v ds path = TrueT"
  shows "evaluate_graphql b v ds path = TrueT"
proof -
  obtain d where d: "map_of ds (ng_at a) = Some d" "satisfies_document a d = TrueT" "\<not> has_query_string path"
    using evaluate_graphql_TrueD [OF a] by blast
  have ops: "set (ng_operations a) \<subseteq> set (ng_operations b)" and at: "ng_at a = ng_at b"
    using sub by (simp_all add: graphql_subsumes_Some)
  have "satisfies_document b d = TrueT"
    using satisfies_document_TrueD [OF d(2)] ops selection_mono [OF sub]
    by (intro satisfies_document_TrueI) auto
  with d at show ?thesis
    by (simp add: evaluate_graphql_def)
qed

lemma evaluate_graphql_common:
  assumes a: "evaluate_graphql a v ds path = TrueT" and b: "evaluate_graphql b v ds path = TrueT"
  shows "graphql_intersects (Some a) (Some b)"
proof (cases "ng_at a = ng_at b")
  case True
  then obtain d where d: "satisfies_document a d = TrueT" "satisfies_document b d = TrueT"
    using evaluate_graphql_TrueD [OF a] evaluate_graphql_TrueD [OF b] by auto
  note A = satisfies_document_TrueD [OF d(1)] and B = satisfies_document_TrueD [OF d(2)]
  have "\<exists>x\<in>set (ng_operations a). x \<in> set (ng_operations b)"
    using A B by (metis last_in_set subsetD)
  moreover obtain f where "f \<in> set (gd_fields d)" "fo_leaf f"
    using selection_satisfies_TrueD(1) [OF A [THEN conjunct2, THEN conjunct2]]
    by (auto simp: selection_unknown_def)
  then have "fo_path f \<in> set (ng_field_paths a)" "fo_path f \<in> set (ng_field_paths b)"
    using A B selection_satisfies_TrueD(2) unfolding selection_permitted_def path_permitted_def by metis+
  ultimately show ?thesis
    using True by (auto simp: list_ex_iff)
qed simp

section \<open>The decision interface on bodies and matches\<close>

definition body_accepts :: "normalized_body \<Rightarrow> request_body \<times> string \<Rightarrow> bool" where
  "body_accepts c x \<longleftrightarrow> evaluate_body c (fst x) (snd x) = TrueT"

text \<open>What a true content says, in the two shapes a body can have.\<close>

lemma evaluate_content_TrueD:
  assumes "evaluate_content c body path = TrueT"
  shows "nb_pointers c = [] \<and> nb_graphql c = None \<or>
    (\<exists>v ds. body = BodyJson v ds \<and> (\<forall>(p, vs)\<in>set (nb_pointers c). evaluate_pointer v p vs = TrueT) \<and>
       (\<forall>g. nb_graphql c = Some g \<longrightarrow> evaluate_graphql g v ds path = TrueT))"
proof (cases body)
  case (BodyJson v ds)
  with assms have "t = TrueT" if "t \<in> content_truths c v ds path" for t
    using that conj_truths_TrueD by (metis evaluate_content_json)
  then show ?thesis
    using BodyJson by (auto simp: content_truths_def)
qed (use assms in \<open>auto simp: evaluate_content_other split: if_splits\<close>)

lemma evaluate_content_TrueI:
  "(\<And>p vs. (p, vs) \<in> set (nb_pointers c) \<Longrightarrow> evaluate_pointer v p vs = TrueT) \<Longrightarrow>
   (\<And>g. nb_graphql c = Some g \<Longrightarrow> evaluate_graphql g v ds path = TrueT) \<Longrightarrow>
   evaluate_content c (BodyJson v ds) path = TrueT"
  unfolding evaluate_content_json
  by (rule conj_truths_TrueI) (auto simp: content_truths_def split: option.splits)

lemma evaluate_body_TrueD:
  "evaluate_body c body path = TrueT \<Longrightarrow> nb_format c = Some f \<Longrightarrow>
   evaluate_content c body path = TrueT \<and> body \<noteq> BodyAbsent \<and>
   (f = FormatNone \<longrightarrow> body = BodyEmpty) \<and> (f = FormatJson \<longrightarrow> (\<exists>v ds. body = BodyJson v ds))"
  by (auto simp: evaluate_body_def split: if_splits body_format.splits request_body.splits)

lemma evaluate_body_TrueI:
  "evaluate_content c body path = TrueT \<Longrightarrow> body \<noteq> BodyAbsent \<Longrightarrow> nb_format c = Some f \<Longrightarrow>
   (f = FormatNone \<Longrightarrow> body = BodyEmpty) \<Longrightarrow> (f = FormatJson \<Longrightarrow> \<exists>v ds. body = BodyJson v ds) \<Longrightarrow>
   evaluate_body c body path = TrueT"
  by (cases f) (auto simp: evaluate_body_def)

lemma content_mono:
  assumes ptr: "pointers_subsume (nb_pointers a) (nb_pointers b)"
    and gql: "graphql_subsumes (nb_graphql a) (nb_graphql b)"
    and a: "evaluate_content a body path = TrueT"
  shows "evaluate_content b body path = TrueT"
  using evaluate_content_TrueD [OF a]
proof (elim disjE exE conjE)
  assume "nb_pointers a = []" "nb_graphql a = None"
  with ptr gql have "nb_pointers b = []" "nb_graphql b = None"
    by (cases "nb_pointers b"; cases "nb_graphql b"; auto simp: pointers_subsume_def)+
  then show ?thesis by (rule evaluate_content_trivial)
next
  fix v ds
  assume body: "body = BodyJson v ds"
    and pa: "\<forall>(p, vs)\<in>set (nb_pointers a). evaluate_pointer v p vs = TrueT"
    and ga: "\<forall>g. nb_graphql a = Some g \<longrightarrow> evaluate_graphql g v ds path = TrueT"
  show ?thesis
    unfolding body
  proof (rule evaluate_content_TrueI)
    fix p vb
    assume "(p, vb) \<in> set (nb_pointers b)"
    with ptr obtain va where va: "map_of (nb_pointers a) p = Some va" "scalar_set_subsumes va vb"
      unfolding pointers_subsume_eq by (blast dest: dominatesD)
    then have "evaluate_pointer v p va = TrueT" using pa by (auto dest: map_of_SomeD)
    with va(2) show "evaluate_pointer v p vb = TrueT" by (rule evaluate_pointer_mono)
  next
    fix g
    assume g: "nb_graphql b = Some g"
    with gql obtain h where h: "nb_graphql a = Some h" by (cases "nb_graphql a") auto
    with g gql ga show "evaluate_graphql g v ds path = TrueT"
      by (intro evaluate_graphql_mono [of h g]) auto
  qed
qed

lemma body_subsumes_sound:
  assumes sub: "body_subsumes a b" and a: "body_accepts a x"
  shows "body_accepts b x"
proof (cases "nb_format b")
  case None
  then show ?thesis by (simp add: body_accepts_def evaluate_body_def)
next
  case (Some fb)
  with sub obtain fa where fa: "nb_format a = Some fa" "fa = fb \<or> fb = FormatOpaque"
    and ptr: "pointers_subsume (nb_pointers a) (nb_pointers b)"
    and gql: "graphql_subsumes (nb_graphql a) (nb_graphql b)"
    by (cases "nb_format a") (auto simp: body_subsumes_def split: if_splits)
  note A = evaluate_body_TrueD [OF a [unfolded body_accepts_def] fa(1)]
  then have "evaluate_content b (fst x) (snd x) = TrueT"
    using content_mono [OF ptr gql] by blast
  with A Some fa(2) show ?thesis
    unfolding body_accepts_def by (intro evaluate_body_TrueI) auto
qed

text \<open>What \<open>normalizeBody\<close> guarantees of a condition without a format.\<close>

definition body_wf :: "normalized_body \<Rightarrow> bool" where
  "body_wf c \<longleftrightarrow> nb_format c = None \<longrightarrow> nb_pointers c = [] \<and> nb_graphql c = None"

lemma body_wf_normalize [simp, wf_intros]: "body_wf (normalize_body b)"
  by (cases b) (auto simp: body_wf_def normalize_body_def)

lemma formats_common:
  assumes "evaluate_body a body path = TrueT" "evaluate_body b body path = TrueT"
  shows "format_intersects (nb_format a) (nb_format b)"
proof (cases "nb_format a"; cases "nb_format b")
  fix f g
  assume fg: "nb_format a = Some f" "nb_format b = Some g"
  show ?thesis
    using evaluate_body_TrueD [OF assms(1) fg(1)] evaluate_body_TrueD [OF assms(2) fg(2)] fg
    by (cases f; cases g) auto
qed auto

lemma contents_common:
  assumes "evaluate_content a body path = TrueT" "evaluate_content b body path = TrueT"
  shows "pointers_intersect (nb_pointers a) (nb_pointers b) \<and>
    graphql_intersects (nb_graphql a) (nb_graphql b)"
  using evaluate_content_TrueD [OF assms(1)] evaluate_content_TrueD [OF assms(2)]
proof (elim disjE exE conjE)
  fix v ds v' ds'
  assume eq: "body = BodyJson v ds" "body = BodyJson v' ds'"
    and pa: "\<forall>(p, vs)\<in>set (nb_pointers a). evaluate_pointer v p vs = TrueT"
    and ga: "\<forall>g. nb_graphql a = Some g \<longrightarrow> evaluate_graphql g v ds path = TrueT"
    and pb: "\<forall>(p, vs)\<in>set (nb_pointers b). evaluate_pointer v' p vs = TrueT"
    and gb: "\<forall>g. nb_graphql b = Some g \<longrightarrow> evaluate_graphql g v' ds' path = TrueT"
  have "pointers_intersect (nb_pointers a) (nb_pointers b)"
    using pa pb eq evaluate_pointer_common
    by (fastforce simp: pointers_intersect_def list_all_iff dest: map_of_SomeD split: option.splits)
  moreover have "graphql_intersects (nb_graphql a) (nb_graphql b)"
    using ga gb eq evaluate_graphql_common
    by (cases "nb_graphql a"; cases "nb_graphql b") (simp_all del: graphql_intersects.simps(3))
  ultimately show ?thesis ..
qed (cases "nb_graphql a"; auto simp: pointers_intersect_def list_all_iff)+

lemma body_content_true:
  "body_wf c \<Longrightarrow> evaluate_body c body path = TrueT \<Longrightarrow> evaluate_content c body path = TrueT"
  by (cases "nb_format c") (auto simp: body_wf_def evaluate_content_trivial dest: evaluate_body_TrueD)

lemma bodies_intersect_complete:
  assumes "body_wf a" "body_wf b" "body_accepts a x" "body_accepts b x"
  shows "bodies_intersect a b"
  using assms formats_common contents_common body_content_true
  unfolding body_accepts_def bodies_intersect_def by metis

lemma format_subsumes_trans:
  "format_subsumes a b \<Longrightarrow> format_subsumes b c \<Longrightarrow> format_subsumes a c"
  by (cases a; cases b; cases c) (auto split: if_splits)

lemma pointers_subsume_trans: "pointers_subsume a b \<Longrightarrow> pointers_subsume b c \<Longrightarrow> pointers_subsume a c"
  unfolding pointers_subsume_eq
  by (erule (1) dominates_trans) (auto simp: scalar_set_subsumes_def list_all_iff)

lemma arguments_subsume_trans: "arguments_subsume a b \<Longrightarrow> arguments_subsume b c \<Longrightarrow> arguments_subsume a c"
  unfolding arguments_subsume_eq
  by (erule (1) dominates_trans) (auto simp: list_all_iff)

lemma graphql_subsumes_trans:
  assumes "graphql_subsumes a b" "graphql_subsumes b c"
  shows "graphql_subsumes a c"
proof (cases a; cases b; cases c)
  fix x y z
  assume "a = Some x" "b = Some y" "c = Some z"
  with assms show ?thesis
    using dominates_trans [where R = arguments_subsume and S = arguments_subsume and T = arguments_subsume]
      arguments_subsume_trans
    by (simp add: graphql_subsumes_Some) blast
qed (use assms in auto)

lemma body_subsumes_trans: "body_subsumes a b \<Longrightarrow> body_subsumes b c \<Longrightarrow> body_subsumes a c"
  using format_subsumes_trans pointers_subsume_trans graphql_subsumes_trans
  unfolding body_subsumes_def by metis

interpretation body: set_decision body_accepts body_subsumes bodies_intersect body_wf
  by unfold_locales (fact body_subsumes_sound body_subsumes_trans bodies_intersect_complete)+

definition match_wf :: "compiled_match \<Rightarrow> bool" where
  "match_wf m \<longleftrightarrow> body_wf (cm_body m)"

lemma match_wf_compile [wf_intros]: "compile_match m = Inr c \<Longrightarrow> match_wf c"
  by (auto simp: compile_match_def match_wf_def split: sum.splits)

lemma accepts_iff:
  "accepts m r \<longleftrightarrow> method_accepts (cm_methods m) (rq_method r) \<and> paths_match (cm_paths m) (rq_path r) \<and>
     body_accepts (cm_body m) (rq_body r, rq_path r)"
  by (auto simp: accepts_def evaluate_match_def method_accepts_def paths_match_def body_accepts_def
      split: option.splits)

interpretation match: set_decision accepts match_subsumes matches_intersect match_wf
proof unfold_locales
  show "match_subsumes a b \<Longrightarrow> accepts a r \<Longrightarrow> accepts b r" for a b r
    unfolding match_subsumes_def accepts_iff
    using methods.sub_sound paths.sub_sound body.sub_sound by blast
  show "match_subsumes a b \<Longrightarrow> match_subsumes b c \<Longrightarrow> match_subsumes a c" for a b c
    unfolding match_subsumes_def
    using methods.sub_trans paths.sub_trans body.sub_trans by blast
  show "match_wf a \<Longrightarrow> match_wf b \<Longrightarrow> accepts a r \<Longrightarrow> accepts b r \<Longrightarrow> matches_intersect a b" for a b r
    unfolding matches_intersect_def accepts_iff match_wf_def
    using methods.inter_complete paths.inter_complete body.ok_inter_complete by blast
qed

section \<open>Properties\<close>

text \<open>
  C29: containment is sound. When matchSubsumes answers true, on any two conditions, every
  request the first accepts is accepted by the second, GraphQL conditions included.
\<close>

theorem match_subsumes_sound:
  assumes "match_subsumes a b"
  shows "Collect (accepts a) \<subseteq> Collect (accepts b)"
  using match.sub_sound [OF assms] by blast

text \<open>
  disjointness is sound. Two compiled conditions that matchesIntersect reports as disjoint
  accept no common request, so an undiagnosed pair of rules never competes for one.
\<close>

theorem matches_intersect_complete:
  assumes "compile_match m = Inr a" "compile_match n = Inr b" "\<not> matches_intersect a b"
  shows "Collect (accepts a) \<inter> Collect (accepts b) = {}"
  using match.disjoint_sound [OF match_wf_compile match_wf_compile] assms by blast

definition private_issue :: match_config where
  "private_issue =
     \<lparr>mc_methods = Some [''post''], mc_paths = [''/v1/{org}/issues''],
      mc_captures = Some [(''org'', [''acme''])],
      mc_body = Some \<lparr>bm_format = FormatJson, bm_equals = Some [(''/repo/private'', SBool True)],
                      bm_one_of = None, bm_graphql = None\<rparr>\<rparr>"

definition json_under_v1 :: match_config where
  "json_under_v1 =
     \<lparr>mc_methods = Some [''POST'', ''PUT''], mc_paths = [''/v1/**''], mc_captures = None,
      mc_body = Some \<lparr>bm_format = FormatJson, bm_equals = None, bm_one_of = None, bm_graphql = None\<rparr>\<rparr>"

definition public_issue :: match_config where
  "public_issue = private_issue
     \<lparr>mc_body := Some \<lparr>bm_format = FormatJson, bm_equals = Some [(''/repo/private'', SBool False)],
                       bm_one_of = None, bm_graphql = None\<rparr>\<rparr>"

definition issue_request :: authz_request where
  "issue_request =
     \<lparr>rq_method = ''POST'', rq_path = ''/v1/acme/issues'',
      rq_body = BodyJson (JObj [(''repo'', JObj [(''private'', JBool True)])]) []\<rparr>"

lemmas example_configs = private_issue_def json_under_v1_def public_issue_def issue_request_def

theorem match_subsumes_sound_witness:
  "\<exists>a b. compile_match private_issue = Inr a \<and> compile_match json_under_v1 = Inr b \<and>
     accepts a issue_request \<and> Collect (accepts a) \<subseteq> Collect (accepts b)"
proof -
  have "case compile_match private_issue of Inl e \<Rightarrow> False | Inr a \<Rightarrow>
      case compile_match json_under_v1 of Inl e \<Rightarrow> False | Inr b \<Rightarrow>
      accepts a issue_request \<and> match_subsumes a b"
    by code_simp
  then obtain a b where "compile_match private_issue = Inr a" "compile_match json_under_v1 = Inr b"
      "accepts a issue_request" "match_subsumes a b"
    by (auto split: sum.splits)
  with match_subsumes_sound [of a b] show ?thesis by blast
qed

theorem matches_intersect_complete_witness:
  "\<exists>a b. compile_match private_issue = Inr a \<and> compile_match public_issue = Inr b \<and>
     accepts a issue_request \<and> Collect (accepts a) \<inter> Collect (accepts b) = {}"
proof -
  have "case compile_match private_issue of Inl e \<Rightarrow> False | Inr a \<Rightarrow>
      case compile_match public_issue of Inl e \<Rightarrow> False | Inr b \<Rightarrow>
      accepts a issue_request \<and> \<not> matches_intersect a b"
    by code_simp
  then obtain a b where ab: "compile_match private_issue = Inr a" "compile_match public_issue = Inr b"
      "accepts a issue_request" "\<not> matches_intersect a b"
    by (auto split: sum.splits)
  with matches_intersect_complete [OF ab(1,2,4)] show ?thesis by blast
qed

end
