(* ===== verification/Targets.thy ===== *)
theory Targets
  imports AuthzTypes
begin

text \<open>
  Targets of a scope (\<open>src/network/authz/relation.ts\<close>, section on targets): parsing a target
  (\<open>parseTarget\<close>, \<open>parseHostPattern\<close>), matching a host, and the decisions on host patterns,
  ports, targets and sets of targets. The only wildcard is a leading \<open>*.\<close>, so two host
  patterns are nested or disjoint; the decisions are proved exact.
\<close>

datatype host_error = HostEmpty | HostPatternInvalid string | HostWildcardMisplaced string

datatype target_error = PortInvalid string | PortOutOfRange string | HostError host_error string

definition normalize_host :: "string \<Rightarrow> string" where
  "normalize_host host = to_lower host"

definition parse_host_pattern :: "string \<Rightarrow> host_error + host_pattern" where
  "parse_host_pattern host =
     (if host = '''' then Inl HostEmpty
      else if prefix ''*.'' host then
        (let s = drop 2 host in
         if s = '''' \<or> CHR ''*'' \<in> set s then Inl (HostPatternInvalid host)
         else Inr (SuffixHost (normalize_host s)))
      else if CHR ''*'' \<in> set host then Inl (HostWildcardMisplaced host)
      else Inr (ExactHost (normalize_host host)))"

text \<open>\<open>PORT = /^[0-9]{1,5}$/\<close>.\<close>

definition is_port_text :: "string \<Rightarrow> bool" where
  "is_port_text s \<longleftrightarrow> 1 \<le> length s \<and> length s \<le> 5 \<and> list_all is_digit s"

text \<open>\<open>source.lastIndexOf(":") === -1\<close> is "no colon in the source".\<close>

definition parse_target :: "string \<Rightarrow> target_error + target" where
  "parse_target source =
     (let no_port = CHR '':'' \<notin> set source;
          host_part = (if no_port then source else before_last CHR '':'' source);
          port_part = (if no_port then None else Some (after_last CHR '':'' source));
          finish = (\<lambda>port. case parse_host_pattern host_part of
                       Inl e \<Rightarrow> Inl (HostError e source)
                     | Inr h \<Rightarrow> Inr \<lparr>tg_source = source, tg_host = h, tg_port = port\<rparr>)
      in case port_part of
           None \<Rightarrow> finish None
         | Some text \<Rightarrow>
             (if \<not> is_port_text text then Inl (PortInvalid source)
              else let port = parse_nat text in
                if port < 1 \<or> 65535 < port then Inl (PortOutOfRange source)
                else finish (Some port)))"

fun host_matches :: "host_pattern \<Rightarrow> string \<Rightarrow> bool" where
  "host_matches (ExactHost h) host = (h = host)"
| "host_matches (SuffixHost s) host =
     (suffix (''.'' @ s) host \<and> length s + 1 < length host)"

fun host_pattern_subsumes :: "host_pattern \<Rightarrow> host_pattern \<Rightarrow> bool" where
  "host_pattern_subsumes (ExactHost a) (ExactHost b) = (a = b)"
| "host_pattern_subsumes (SuffixHost a) (ExactHost b) = False"
| "host_pattern_subsumes (ExactHost a) (SuffixHost b) = host_matches (SuffixHost b) a"
| "host_pattern_subsumes (SuffixHost a) (SuffixHost b) = (a = b \<or> suffix (''.'' @ b) a)"

definition host_patterns_intersect :: "host_pattern \<Rightarrow> host_pattern \<Rightarrow> bool" where
  "host_patterns_intersect a b \<longleftrightarrow> host_pattern_subsumes a b \<or> host_pattern_subsumes b a"

definition ports_intersect :: "nat option \<Rightarrow> nat option \<Rightarrow> bool" where
  "ports_intersect a b \<longleftrightarrow> a = None \<or> b = None \<or> a = b"

definition port_subsumes :: "nat option \<Rightarrow> nat option \<Rightarrow> bool" where
  "port_subsumes a b \<longleftrightarrow> b = None \<or> a = b"

definition targets_intersect :: "target \<Rightarrow> target \<Rightarrow> bool" where
  "targets_intersect a b \<longleftrightarrow>
     host_patterns_intersect (tg_host a) (tg_host b) \<and> ports_intersect (tg_port a) (tg_port b)"

definition target_subsumes :: "target \<Rightarrow> target \<Rightarrow> bool" where
  "target_subsumes a b \<longleftrightarrow>
     host_pattern_subsumes (tg_host a) (tg_host b) \<and> port_subsumes (tg_port a) (tg_port b)"

definition target_sets_intersect :: "target list \<Rightarrow> target list \<Rightarrow> bool" where
  "target_sets_intersect as bs = list_ex (\<lambda>a. list_ex (\<lambda>b. targets_intersect a b) bs) as"

definition target_sets_subsume :: "target list \<Rightarrow> target list \<Rightarrow> bool" where
  "target_sets_subsume as bs = list_all (\<lambda>a. list_ex (\<lambda>b. target_subsumes a b) bs) as"

text \<open>The addresses a target, or a set of targets, stands for.\<close>

definition port_accepts :: "nat option \<Rightarrow> nat \<Rightarrow> bool" where
  "port_accepts p port \<longleftrightarrow> p = None \<or> p = Some port"

definition target_accepts :: "target \<Rightarrow> target_address \<Rightarrow> bool" where
  "target_accepts t a \<longleftrightarrow> host_matches (tg_host t) (ta_host a) \<and> port_accepts (tg_port t) (ta_port a)"

definition target_set_accepts :: "target list \<Rightarrow> target_address \<Rightarrow> bool" where
  "target_set_accepts ts a = list_ex (\<lambda>t. target_accepts t a) ts"

section \<open>Host patterns are nested or disjoint\<close>

lemma suffix_chain: "suffix s h \<Longrightarrow> suffix t h \<Longrightarrow> length s \<le> length t \<Longrightarrow> suffix s t"
  by (metis suffix_length_suffix)

lemma host_pattern_subsumes_sound:
  "host_pattern_subsumes a b \<Longrightarrow> host_matches a h \<Longrightarrow> host_matches b h"
proof (induction a b rule: host_pattern_subsumes.induct)
  case (4 a b)
  then show ?case
    by (auto simp: suffix_def)
qed auto

lemma host_patterns_nested:
  assumes "host_matches a h" "host_matches b h"
  shows "host_pattern_subsumes a b \<or> host_pattern_subsumes b a"
proof (cases a; cases b)
  fix s t
  assume ab: "a = SuffixHost s" "b = SuffixHost t"
  show ?thesis
  proof (cases "length s" "length t" rule: linorder_cases)
    case less
    then have "suffix (''.'' @ s) (''.'' @ t)"
      using assms ab suffix_chain [of "''.'' @ s" h "''.'' @ t"] by simp
    with less ab show ?thesis
      by (auto simp: suffix_Cons)
  next
    case equal
    then have "suffix (''.'' @ s) (''.'' @ t)"
      using assms ab suffix_chain [of "''.'' @ s" h "''.'' @ t"] by simp
    with equal have "s = t"
      by (auto simp: suffix_def append_eq_Cons_conv Cons_eq_append_conv)
    with ab show ?thesis by simp
  next
    case greater
    then have "suffix (''.'' @ t) (''.'' @ s)"
      using assms ab suffix_chain [of "''.'' @ t" h "''.'' @ s"] by simp
    with greater ab show ?thesis
      by (auto simp: suffix_Cons)
  qed
qed (use assms in auto)

lemma host_pattern_subsumes_trans:
  "host_pattern_subsumes a b \<Longrightarrow> host_pattern_subsumes b c \<Longrightarrow> host_pattern_subsumes a c"
  by (cases a; cases b; cases c) (auto simp: suffix_def)

interpretation host: set_preorder host_matches host_pattern_subsumes host_patterns_intersect
proof unfold_locales
  show "host_pattern_subsumes a b \<Longrightarrow> host_matches a x \<Longrightarrow> host_matches b x" for a b x
    by (rule host_pattern_subsumes_sound)
  show "host_matches a x \<Longrightarrow> host_matches b x \<Longrightarrow> host_patterns_intersect a b" for a b x
    unfolding host_patterns_intersect_def by (rule host_patterns_nested)
  show "host_pattern_subsumes a a" for a
    by (cases a) auto
  show "host_pattern_subsumes a b \<Longrightarrow> host_pattern_subsumes b c \<Longrightarrow> host_pattern_subsumes a c" for a b c
    by (rule host_pattern_subsumes_trans)
qed

interpretation port: set_preorder port_accepts port_subsumes ports_intersect
  by unfold_locales (auto simp: port_accepts_def port_subsumes_def ports_intersect_def)

interpretation target: set_preorder target_accepts target_subsumes targets_intersect
  by unfold_locales
    (auto simp: target_accepts_def target_subsumes_def targets_intersect_def
      intro: host.sub_sound port.sub_sound host.inter_complete port.inter_complete
        host.sub_refl port.sub_refl host.sub_trans port.sub_trans)

lemmas target_sets_iffs =
  target_set_accepts_def target_sets_subsume_def target_sets_intersect_def list_all_iff list_ex_iff

interpretation target_sets: set_preorder target_set_accepts target_sets_subsume target_sets_intersect
proof unfold_locales
  show "target_sets_subsume a b \<Longrightarrow> target_set_accepts a x \<Longrightarrow> target_set_accepts b x" for a b x
    unfolding target_sets_iffs by (rule target.union_sub_sound)
  show "target_set_accepts a x \<Longrightarrow> target_set_accepts b x \<Longrightarrow> target_sets_intersect a b" for a b x
    unfolding target_sets_iffs by (rule target.union_inter_complete)
  show "target_sets_subsume a a" for a
    unfolding target_sets_iffs by (rule target.union_sub_refl)
  show "target_sets_subsume a b \<Longrightarrow> target_sets_subsume b c \<Longrightarrow> target_sets_subsume a c" for a b c
    unfolding target_sets_iffs by (rule target.union_sub_trans)
qed

section \<open>Exactness\<close>

text \<open>A host that a pattern matches; a suffix pattern gets one more label.\<close>

fun sample_host :: "string \<Rightarrow> host_pattern \<Rightarrow> string" where
  "sample_host label (ExactHost h) = h"
| "sample_host label (SuffixHost s) = label @ ''.'' @ s"

lemma sample_host_matches: "label \<noteq> [] \<Longrightarrow> host_matches p (sample_host label p)"
  by (cases p) (auto simp: suffix_def)

lemma host_pattern_subsumes_complete:
  assumes "\<And>h. host_matches a h \<Longrightarrow> host_matches b h"
  shows "host_pattern_subsumes a b"
proof -
  have *: "host_matches b (sample_host l a)" if "l \<noteq> []" for l
    using assms sample_host_matches that by blast
  from * [of "''x''"] * [of "''y''"] show ?thesis
    by (cases a; cases b) (auto simp: suffix_Cons)
qed

text \<open>
  Host patterns are decided exactly. Containment holds if and only if every host of the
  first pattern is a host of the second, and two patterns are reported to intersect if and
  only if some host matches both.
\<close>

theorem host_patterns_exact:
  "(host_pattern_subsumes a b \<longleftrightarrow> Collect (host_matches a) \<subseteq> Collect (host_matches b)) \<and>
   (host_patterns_intersect a b \<longleftrightarrow> Collect (host_matches a) \<inter> Collect (host_matches b) \<noteq> {})"
proof
  show "host_pattern_subsumes a b \<longleftrightarrow> Collect (host_matches a) \<subseteq> Collect (host_matches b)"
    using host.sub_sound host_pattern_subsumes_complete by blast
  have "\<exists>h. host_matches p h" for p
    using sample_host_matches [of "''x''" p] by auto
  then show "host_patterns_intersect a b \<longleftrightarrow>
      Collect (host_matches a) \<inter> Collect (host_matches b) \<noteq> {}"
    using host.inter_complete host.sub_sound unfolding host_patterns_intersect_def by blast
qed

section \<open>Parsing a target\<close>

lemma parse_host_pattern_cases:
  "parse_host_pattern h = Inr p \<Longrightarrow>
     p = ExactHost (to_lower h) \<and> h \<noteq> [] \<and> CHR ''*'' \<notin> set h \<or>
     (\<exists>s. h = ''*.'' @ s \<and> p = SuffixHost (to_lower s) \<and> s \<noteq> [] \<and> CHR ''*'' \<notin> set s)"
  by (auto simp: parse_host_pattern_def Let_def normalize_host_def prefix_def split: if_splits)

definition host_text :: "host_pattern \<Rightarrow> string" where
  "host_text p = (case p of ExactHost h \<Rightarrow> h | SuffixHost s \<Rightarrow> s)"

lemma parse_target_shape:
  assumes "parse_target source = Inr t"
  shows "tg_source t = source \<and>
    (if CHR '':'' \<in> set source
     then parse_host_pattern (before_last CHR '':'' source) = Inr (tg_host t) \<and>
       is_port_text (after_last CHR '':'' source) \<and>
       tg_port t = Some (parse_nat (after_last CHR '':'' source)) \<and>
       1 \<le> parse_nat (after_last CHR '':'' source) \<and> parse_nat (after_last CHR '':'' source) \<le> 65535
     else parse_host_pattern source = Inr (tg_host t) \<and> tg_port t = None)"
proof (cases "CHR '':'' \<in> set source")
  case True
  with assms show ?thesis
    by (simp add: parse_target_def Let_def split: if_splits sum.splits) auto
next
  case False
  with assms show ?thesis
    by (simp add: parse_target_def split: sum.splits) auto
qed

text \<open>
  What parseTarget accepts is well-formed. The port is absent or in 1..65535, the host
  is not empty, holds no wildcard and is folded to lower case, so that spelling a target
  with other capitals gives the same pattern.
\<close>

theorem parse_target_wf:
  assumes "parse_target source = Inr t"
  shows "tg_source t = source \<and>
    (\<forall>port. tg_port t = Some port \<longrightarrow> 1 \<le> port \<and> port \<le> 65535) \<and>
    (tg_port t = None \<longleftrightarrow> CHR '':'' \<notin> set source) \<and>
    host_text (tg_host t) \<noteq> [] \<and> to_lower (host_text (tg_host t)) = host_text (tg_host t)"
proof -
  from parse_target_shape [OF assms] have "\<exists>h. parse_host_pattern h = Inr (tg_host t)"
    by (auto split: if_splits)
  then have "host_text (tg_host t) \<noteq> []"
    "to_lower (host_text (tg_host t)) = host_text (tg_host t)"
    by (auto dest!: parse_host_pattern_cases simp: host_text_def to_lower_def)
  with parse_target_shape [OF assms] show ?thesis
    by (auto split: if_splits)
qed

theorem parse_target_wf_witness:
  "\<exists>t. parse_target ''*.GCR.io:443'' = Inr t \<and> tg_source t = ''*.GCR.io:443'' \<and> tg_port t = Some 443"
proof -
  have *: "parse_target ''*.GCR.io:443'' =
    Inr \<lparr>tg_source = ''*.GCR.io:443'', tg_host = SuffixHost ''gcr.io'', tg_port = Some 443\<rparr>"
    by (simp add: parse_target_def Let_def is_port_text_def parse_host_pattern_def normalize_host_def
        js_eval)
  show ?thesis
    using parse_target_wf [OF *] * by simp
qed

end
