(* ===== verification/Specificity.thy ===== *)
theory Specificity
  imports Semantics Targets
begin

text \<open>
  Specificity and the order of evaluation (\<open>src/network/authz/specificity.ts\<close>): two conditions
  are compared by containment, and candidates are laid out by a topological sort of the
  "comes first" relation that falls back on the order of declaration. A cyclic relation has
  no order: the sort then returns the cycle.
\<close>

datatype specificity = Equivalent | Narrower | Wider | Incomparable

definition order_of :: "bool \<Rightarrow> bool \<Rightarrow> specificity" where
  "order_of a_in_b b_in_a =
     (if a_in_b \<and> b_in_a then Equivalent
      else if a_in_b then Narrower
      else if b_in_a then Wider
      else Incomparable)"

definition compare_specificity :: "compiled_match \<Rightarrow> compiled_match \<Rightarrow> specificity" where
  "compare_specificity a b = order_of (match_subsumes a b) (match_subsumes b a)"

definition compare_target_specificity :: "target list \<Rightarrow> target list \<Rightarrow> specificity" where
  "compare_target_specificity a b = order_of (target_sets_subsume a b) (target_sets_subsume b a)"

section \<open>The topological sort\<close>

type_synonym 'a precedence = "'a \<Rightarrow> 'a \<Rightarrow> nat \<Rightarrow> nat \<Rightarrow> bool"

definition predecessors :: "'a precedence \<Rightarrow> 'a list \<Rightarrow> nat \<Rightarrow> nat list" where
  "predecessors precedes items j =
     filter (\<lambda>i. i \<noteq> j \<and> precedes (items ! i) (items ! j) i j) [0..<length items]"

text \<open>
  \<open>findCycle\<close>: follow the predecessors that are not emitted until an index repeats. The walk
  grows from the later element to the earlier one, hence the final reversal.
\<close>

function find_cycle_walk :: "'a precedence \<Rightarrow> 'a list \<Rightarrow> nat list \<Rightarrow> nat \<Rightarrow> nat list \<Rightarrow> nat list" where
  "find_cycle_walk precedes items emitted at walk =
     (if at \<in> set walk then rev (dropWhile (\<lambda>k. k \<noteq> at) walk)
      else (case find (\<lambda>i. i \<notin> set emitted) (predecessors precedes items at) of
              None \<Rightarrow> [at]
            | Some from \<Rightarrow> find_cycle_walk precedes items emitted from (walk @ [at])))"
  by pat_completeness auto
termination
proof (relation "measure (\<lambda>(precedes, items, emitted, at, walk).
      card ({0..<length items} - set walk) + (if at < length items then 0 else 1))", goal_cases)
  case (2 precedes items emitted at walk src)
  let ?left = "\<lambda>w. {0..<length items} - set w"
  have src: "src < length items"
    using find_SomeD [OF 2(2)] by (simp add: predecessors_def)
  have left: "?left (walk @ [at]) = ?left walk - {at}" by auto
  show ?case
  proof (cases "at < length items")
    case True
    with 2(1) have "card (?left walk - {at}) < card (?left walk)"
      by (intro card_Diff1_less) simp_all
    with src left True show ?thesis by simp
  next
    case False
    then have "?left walk - {at} = ?left walk" by auto
    with src left False show ?thesis by simp
  qed
qed simp

definition find_cycle :: "'a precedence \<Rightarrow> 'a list \<Rightarrow> nat list \<Rightarrow> nat list" where
  "find_cycle precedes items emitted =
     (case find (\<lambda>i. i \<notin> set emitted) [0..<length items] of
        None \<Rightarrow> []
      | Some at \<Rightarrow> find_cycle_walk precedes items emitted at [])"

definition next_ready :: "'a precedence \<Rightarrow> 'a list \<Rightarrow> nat list \<Rightarrow> nat option" where
  "next_ready precedes items emitted =
     find (\<lambda>i. i \<notin> set emitted \<and> list_all (\<lambda>from. from \<in> set emitted) (predecessors precedes items i))
       [0..<length items]"

text \<open>The loop of \<open>precedenceOrder\<close>; \<open>Inl\<close> is the outcome \<open>ok: false\<close> with its cycle.\<close>

function emit_order :: "'a precedence \<Rightarrow> 'a list \<Rightarrow> nat list \<Rightarrow> nat list + nat list" where
  "emit_order precedes items emitted =
     (if length emitted < length items then
        (case next_ready precedes items emitted of
           None \<Rightarrow> Inl (find_cycle precedes items emitted)
         | Some i \<Rightarrow> emit_order precedes items (emitted @ [i]))
      else Inr emitted)"
  by pat_completeness auto
termination
  by (relation "measure (\<lambda>(precedes, items, emitted). length items - length emitted)") auto

definition precedence_order :: "'a precedence \<Rightarrow> 'a list \<Rightarrow> 'a list + 'a list" where
  "precedence_order precedes items =
     (case emit_order precedes items [] of
        Inl cycle \<Rightarrow> Inl (map (\<lambda>i. items ! i) cycle)
      | Inr ordered \<Rightarrow> Inr (map (\<lambda>i. items ! i) ordered))"

definition evaluation_order :: "('a \<Rightarrow> compiled_match) \<Rightarrow> 'a list \<Rightarrow> 'a list + 'a list" where
  "evaluation_order match_of items =
     (let matches = map match_of items in
      precedence_order (\<lambda>_ _ i j. compare_specificity (matches ! i) (matches ! j) = Narrower) items)"

declare find_cycle_walk.simps [simp del] emit_order.simps [simp del]

section \<open>The order\<close>

definition edge :: "'a precedence \<Rightarrow> 'a list \<Rightarrow> nat \<Rightarrow> nat \<Rightarrow> bool" where
  "edge precedes items i j \<longleftrightarrow>
     i < length items \<and> j < length items \<and> i \<noteq> j \<and> precedes (items ! i) (items ! j) i j"

lemma set_predecessors: "j < length items \<Longrightarrow> i \<in> set (predecessors p items j) \<longleftrightarrow> edge p items i j"
  by (auto simp: predecessors_def edge_def)

text \<open>
  What the loop has emitted: distinct indices, closed under predecessors, each the first
  ready index in the order of declaration.
\<close>

definition ready_before :: "'a precedence \<Rightarrow> 'a list \<Rightarrow> nat list \<Rightarrow> nat \<Rightarrow> bool" where
  "ready_before p items em i \<longleftrightarrow>
     i < length items \<and> i \<notin> set em \<and> (\<forall>k. edge p items k i \<longrightarrow> k \<in> set em)"

definition emitted_wf :: "'a precedence \<Rightarrow> 'a list \<Rightarrow> nat list \<Rightarrow> bool" where
  "emitted_wf p items em \<longleftrightarrow>
     (\<forall>n < length em. ready_before p items (take n em) (em ! n) \<and>
        (\<forall>i < em ! n. \<not> ready_before p items (take n em) i))"

lemma find_upt_Some:
  "find P [0..<n] = Some i \<longleftrightarrow> i < n \<and> P i \<and> (\<forall>k<i. \<not> P k)"
  by (auto simp: find_Some_iff)

lemma next_ready_Some:
  "next_ready p items em = Some i \<longleftrightarrow>
     ready_before p items em i \<and> (\<forall>k<i. \<not> ready_before p items em k)"
  by (auto simp: next_ready_def find_upt_Some ready_before_def list_all_iff set_predecessors)

lemma next_ready_None:
  "next_ready p items em = None \<longleftrightarrow> (\<forall>i. \<not> ready_before p items em i)"
  by (auto simp: next_ready_def find_None_conv ready_before_def list_all_iff set_predecessors)

lemma emitted_wf_step:
  assumes "emitted_wf p items em" "next_ready p items em = Some i"
  shows "emitted_wf p items (em @ [i])"
  using assms by (auto simp: emitted_wf_def next_ready_Some nth_append less_Suc_eq)

lemma emitted_wf_distinct:
  assumes "emitted_wf p items em"
  shows "distinct em \<and> set em \<subseteq> {0..<length items}"
proof
  have r: "ready_before p items (take n em) (em ! n)" if "n < length em" for n
    using assms that by (simp add: emitted_wf_def)
  show "distinct em"
  proof (rule distinct_conv_nth [THEN iffD2], intro allI impI)
    fix i j
    assume "i < length em" "j < length em" "i \<noteq> j"
    then show "em ! i \<noteq> em ! j"
    proof (induction i j rule: linorder_wlog)
      case (le i j)
      then have "em ! i \<in> set (take j em)"
        by (auto simp: in_set_conv_nth intro!: exI [of _ i])
      with r [of j] le show ?case by (auto simp: ready_before_def)
    next
      case (sym i j)
      then show ?case by metis
    qed
  qed
  show "set em \<subseteq> {0..<length items}"
    using r by (auto simp: in_set_conv_nth ready_before_def)
qed

lemma emitted_wf_before:
  assumes "emitted_wf p items em" "n < length em" "edge p items k (em ! n)"
  shows "\<exists>m<n. em ! m = k"
proof -
  have "k \<in> set (take n em)"
    using assms by (simp add: emitted_wf_def ready_before_def)
  then show ?thesis
    by (auto simp: in_set_conv_nth)
qed

lemma emit_order_Inr:
  "emit_order p items em = Inr out \<Longrightarrow> emitted_wf p items em \<Longrightarrow> length em \<le> length items \<Longrightarrow>
   emitted_wf p items out \<and> length out = length items"
proof (induction p items em rule: emit_order.induct)
  case (1 p items em)
  show ?case
  proof (cases "length em < length items \<and> next_ready p items em \<noteq> None")
    case True
    then obtain i where i: "next_ready p items em = Some i" by auto
    with True 1(2) have "emit_order p items (em @ [i]) = Inr out"
      by (simp add: emit_order.simps [of p items em])
    with True i 1(1) [OF _ i] 1(3) show ?thesis
      by (simp add: emitted_wf_step)
  next
    case False
    with 1(2-) show ?thesis
      by (simp add: emit_order.simps [of p items em] split: if_splits)
  qed
qed

text \<open>The loop is stuck: every remaining index waits for a remaining one.\<close>

lemma emit_order_Inl:
  "emit_order p items em = Inl cycle \<Longrightarrow> emitted_wf p items em \<Longrightarrow>
   \<exists>stuck. emitted_wf p items stuck \<and> length stuck < length items \<and>
     next_ready p items stuck = None \<and> cycle = find_cycle p items stuck"
proof (induction p items em rule: emit_order.induct)
  case (1 p items em)
  show ?case
  proof (cases "length em < length items \<and> next_ready p items em \<noteq> None")
    case True
    then obtain i where i: "next_ready p items em = Some i" by auto
    with True 1(2) have "emit_order p items (em @ [i]) = Inl cycle"
      by (simp add: emit_order.simps [of p items em])
    with True i 1(1) [OF _ i] 1(3) show ?thesis
      by (simp add: emitted_wf_step)
  next
    case False
    with 1(2-) have "length em < length items" "next_ready p items em = None"
        "cycle = find_cycle p items em"
      by (auto simp: emit_order.simps [of p items em] split: if_splits)
    with 1(3) show ?thesis by blast
  qed
qed

section \<open>The cycle\<close>

text \<open>
  The walk of \<open>findCycle\<close>: every element is an unemitted predecessor of the one before it,
  and \<open>at\<close> is one of the last.
\<close>

definition walk_wf :: "'a precedence \<Rightarrow> 'a list \<Rightarrow> nat list \<Rightarrow> nat list \<Rightarrow> nat \<Rightarrow> bool" where
  "walk_wf p items em walk at \<longleftrightarrow>
     distinct walk \<and> successively (\<lambda>later earlier. edge p items earlier later) (walk @ [at]) \<and>
     set (walk @ [at]) \<subseteq> {0..<length items} - set em"

text \<open>A cycle of the relation: each index comes first of the next, the last of the first.\<close>

definition is_cycle :: "'a precedence \<Rightarrow> 'a list \<Rightarrow> nat list \<Rightarrow> bool" where
  "is_cycle p items c \<longleftrightarrow>
     c \<noteq> [] \<and> distinct c \<and> successively (edge p items) c \<and> edge p items (last c) (hd c)"

definition stuck_at :: "'a precedence \<Rightarrow> 'a list \<Rightarrow> nat list \<Rightarrow> bool" where
  "stuck_at p items em \<longleftrightarrow> next_ready p items em = None"

lemma stuck_predecessor:
  assumes "stuck_at p items em" "at < length items" "at \<notin> set em"
  shows "\<exists>i. find (\<lambda>i. i \<notin> set em) (predecessors p items at) = Some i \<and> edge p items i at \<and>
    i \<notin> set em \<and> i < length items"
proof -
  have "\<not> ready_before p items em at"
    using assms(1) by (simp add: stuck_at_def next_ready_None)
  then have "\<exists>i\<in>set (predecessors p items at). i \<notin> set em"
    using assms(2,3) by (auto simp: ready_before_def set_predecessors)
  then obtain i where i: "find (\<lambda>i. i \<notin> set em) (predecessors p items at) = Some i"
    using find_total [of "\<lambda>i. i \<notin> set em" "predecessors p items at"] by (auto simp: list_ex_iff)
  from find_SomeD [OF this] show ?thesis
    using i assms(2) by (auto simp: set_predecessors) (auto simp: edge_def)
qed

lemma closing_walk_is_cycle:
  assumes "walk_wf p items em walk at" "at \<in> set walk"
  shows "is_cycle p items (rev (dropWhile (\<lambda>k. k \<noteq> at) walk))"
proof -
  obtain pre post where w: "walk = pre @ at # post" "at \<notin> set pre"
    using split_list_first [OF assms(2)] by blast
  define c where "c = at # post"
  have c: "dropWhile (\<lambda>k. k \<noteq> at) walk = c" "c \<noteq> []" "hd c = at"
    using w by (auto simp: c_def dropWhile_append)
  have "successively (\<lambda>l e. edge p items e l) (c @ [at])" "distinct c"
    using assms(1) w by (auto simp: walk_wf_def successively_append_iff c_def)
  then have "successively (\<lambda>l e. edge p items e l) c" "edge p items at (last c)"
    using c(2) by (simp_all add: successively_append_iff)
  with c \<open>distinct c\<close> show ?thesis
    by (simp add: is_cycle_def successively_rev last_rev hd_rev)
qed

lemma find_cycle_walk_is_cycle:
  "walk_wf p items em walk at \<Longrightarrow> stuck_at p items em \<Longrightarrow>
   is_cycle p items (find_cycle_walk p items em at walk)"
proof (induction p items em at walk rule: find_cycle_walk.induct)
  case (1 p items em at walk)
  show ?case
  proof (cases "at \<in> set walk")
    case True
    with 1(2) show ?thesis
      by (simp add: find_cycle_walk.simps closing_walk_is_cycle)
  next
    case False
    have "at < length items" "at \<notin> set em"
      using 1(2) by (auto simp: walk_wf_def)
    then obtain i where i: "find (\<lambda>i. i \<notin> set em) (predecessors p items at) = Some i"
        "edge p items i at" "i \<notin> set em" "i < length items"
      using stuck_predecessor 1(3) by blast
    then have "walk_wf p items em (walk @ [at]) i"
      using 1(2) False by (auto simp: walk_wf_def successively_append_iff)
    with 1(1) [OF False i(1)] 1(3) show ?thesis
      using False i(1) by (simp add: find_cycle_walk.simps [of p items em at walk])
  qed
qed

lemma find_cycle_is_cycle:
  assumes "emitted_wf p items em" "length em < length items" "next_ready p items em = None"
  shows "is_cycle p items (find_cycle p items em)"
proof -
  have "\<exists>i\<in>set [0..<length items]. i \<notin> set em"
  proof (rule ccontr)
    assume "\<not> ?thesis"
    then have "card {0..<length items} \<le> card (set em)"
      by (intro card_mono) auto
    with assms(2) card_length [of em] show False by simp
  qed
  then obtain at where at: "find (\<lambda>i. i \<notin> set em) [0..<length items] = Some at"
    using find_total [of "\<lambda>i. i \<notin> set em" "[0..<length items]"] by (auto simp: list_ex_iff)
  then have "walk_wf p items em [] at"
    by (auto simp: walk_wf_def dest!: find_SomeD)
  with at assms(3) show ?thesis
    by (simp add: find_cycle_def find_cycle_walk_is_cycle stuck_at_def)
qed

lemma successively_rtrancl:
  "successively R c \<Longrightarrow> c \<noteq> [] \<Longrightarrow> (hd c, last c) \<in> {(a, b). R a b}\<^sup>*"
proof (induction c rule: induct_list012)
  case (3 x y zs)
  then have "R x y" "(y, last (y # zs)) \<in> {(a, b). R a b}\<^sup>*" by auto
  then show ?case
    by (auto intro: converse_rtrancl_into_rtrancl)
qed auto

lemma cycle_not_acyclic:
  assumes "is_cycle p items c"
  shows "\<not> acyclicP (edge p items)"
proof -
  have "(hd c, last c) \<in> {(a, b). edge p items a b}\<^sup>*" "(last c, hd c) \<in> {(a, b). edge p items a b}"
    using assms successively_rtrancl by (auto simp: is_cycle_def)
  then show ?thesis
    unfolding acyclic_def by (meson rtrancl_into_trancl1)
qed

lemma emitted_wf_perm:
  assumes "emitted_wf p items out" "length out = length items"
  shows "distinct out" "set out = {0..<length items}"
proof -
  show d: "distinct out" using emitted_wf_distinct [OF assms(1)] by blast
  show "set out = {0..<length items}"
  proof (rule card_subset_eq)
    show "set out \<subseteq> {0..<length items}" using emitted_wf_distinct [OF assms(1)] by blast
    show "card (set out) = card {0..<length items}" using d assms(2) by (simp add: distinct_card)
  qed simp
qed

lemma emitted_wf_acyclic:
  assumes "emitted_wf p items out" "length out = length items"
  shows "acyclicP (edge p items)"
proof -
  note perm = emitted_wf_perm [OF assms]
  define pos where "pos i = (THE n. n < length out \<and> out ! n = i)" for i
  have pos: "pos (out ! n) = n" if "n < length out" for n
    unfolding pos_def using that perm(1) by (auto simp: nth_eq_iff_index_eq)
  have "pos i < pos j" if "edge p items i j" for i j
  proof -
    have "j \<in> set out" using that perm(2) by (simp add: edge_def)
    then obtain n where n: "n < length out" "out ! n = j" by (auto simp: in_set_conv_nth)
    with emitted_wf_before [OF assms(1) n(1)] that obtain m where "m < n" "out ! m = i" by blast
    with n pos show ?thesis by (metis order.strict_trans)
  qed
  then have "{(a, b). edge p items a b} \<subseteq> measure pos" by auto
  then show ?thesis
    using acyclic_subset wf_acyclic wf_measure by blast
qed

section \<open>Properties\<close>

lemma precedence_order_sorted:
  assumes "precedence_order p items = Inr ordered"
  shows "\<exists>out. ordered = map (\<lambda>i. items ! i) out \<and> distinct out \<and> set out = {0..<length items} \<and>
    sorted_wrt (\<lambda>i j. \<not> edge p items j i) out \<and> emitted_wf p items out"
proof -
  obtain out where out: "emit_order p items [] = Inr out" "ordered = map (\<lambda>i. items ! i) out"
    using assms by (auto simp: precedence_order_def split: sum.splits)
  then have wf: "emitted_wf p items out" "length out = length items"
    using emit_order_Inr [of p items "[]"] by (simp_all add: emitted_wf_def)
  note perm = emitted_wf_perm [OF wf]
  have "sorted_wrt (\<lambda>i j. \<not> edge p items j i) out"
    unfolding sorted_wrt_iff_nth_less
    using emitted_wf_before [OF wf(1)] perm(1) by (metis nth_eq_iff_index_eq less_asym less_trans)
  with perm out wf show ?thesis by blast
qed

text \<open>
  C39: a successful sort is the order it promises. The result is the items in a permutation of
  their indices in which whatever comes first of another element stands before it, and every
  position holds the earliest declared item whose predecessors have all been laid out.
\<close>

theorem precedence_order_sorts:
  assumes "precedence_order p items = Inr ordered"
  shows "\<exists>out. ordered = map (\<lambda>i. items ! i) out \<and> distinct out \<and> set out = {0..<length items} \<and>
    sorted_wrt (\<lambda>i j. \<not> edge p items j i) out \<and> emitted_wf p items out"
  using assms by (rule precedence_order_sorted)

lemma precedence_order_cases:
  "case precedence_order p items of
     Inl cycle \<Rightarrow> (\<exists>c. cycle = map (\<lambda>i. items ! i) c \<and> is_cycle p items c \<and> \<not> acyclicP (edge p items))
   | Inr ordered \<Rightarrow> acyclicP (edge p items)"
proof (cases "emit_order p items []")
  case (Inl c)
  then obtain em where "emitted_wf p items em" "length em < length items"
      "next_ready p items em = None" "c = find_cycle p items em"
    using emit_order_Inl [of p items "[]"] by (auto simp: emitted_wf_def)
  then have "is_cycle p items c"
    using find_cycle_is_cycle by blast
  with Inl show ?thesis
    using cycle_not_acyclic by (auto simp: precedence_order_def)
next
  case (Inr out)
  with emit_order_Inr [of p items "[]"] show ?thesis
    using emitted_wf_acyclic by (auto simp: precedence_order_def emitted_wf_def)
qed

text \<open>
  the sort fails exactly on a cyclic relation, and then names a real cycle: distinct
  items, each before the next and the last before the first.
\<close>

theorem precedence_order_outcome:
  "case precedence_order p items of
     Inl cycle \<Rightarrow> (\<exists>c. cycle = map (\<lambda>i. items ! i) c \<and> is_cycle p items c \<and> \<not> acyclicP (edge p items))
   | Inr ordered \<Rightarrow> acyclicP (edge p items)"
  by (rule precedence_order_cases)

lemma precedence_order_total:
  "acyclicP (edge p items) \<Longrightarrow> \<exists>ordered. precedence_order p items = Inr ordered"
  using precedence_order_cases [where p = p and items = items] by (cases "precedence_order p items") auto

text \<open>
  The strict order of any containment decision, read through a key of the items, has no
  cycle: the sort by specificity alone cannot fail.
\<close>

lemma acyclic_by_key:
  assumes "acyclicP (\<lambda>a b. R a b)"
  shows "acyclicP (edge (\<lambda>_ _ i j. R (key i) (key j)) items)"
proof -
  have "(i, j) \<in> {(a, b). edge (\<lambda>_ _ i j. R (key i) (key j)) items a b}\<^sup>+ \<Longrightarrow>
      (key i, key j) \<in> {(a, b). R a b}\<^sup>+" for i j
    by (induction rule: trancl.induct) (auto simp: edge_def intro: trancl.intros)
  then show ?thesis
    using assms by (auto simp: acyclic_def)
qed

lemma compare_specificity_narrower:
  "compare_specificity a b = Narrower \<longleftrightarrow> match_subsumes a b \<and> \<not> match_subsumes b a"
  by (simp add: compare_specificity_def order_of_def)

lemma compare_target_specificity_narrower:
  "compare_target_specificity a b = Narrower \<longleftrightarrow> target_sets_subsume a b \<and> \<not> target_sets_subsume b a"
  by (simp add: compare_target_specificity_def order_of_def)

text \<open>
  Ordering candidates by specificity alone always succeeds. Containment is transitive,
  so "narrower" has no cycle, and evaluationOrder lays out every list of conditions, each
  narrower one before the wider ones it is contained in.
\<close>

theorem evaluation_order_total:
  "\<exists>out. evaluation_order match_of items = Inr (map (\<lambda>i. items ! i) out) \<and> distinct out \<and>
     set out = {0..<length items} \<and>
     sorted_wrt (\<lambda>i j. compare_specificity (match_of (items ! j)) (match_of (items ! i)) \<noteq> Narrower) out"
proof -
  let ?p = "\<lambda>_ _ i j. compare_specificity (map match_of items ! i) (map match_of items ! j) = Narrower"
  have "acyclicP (edge ?p items)"
    unfolding compare_specificity_narrower by (rule acyclic_by_key) (rule match.strict_acyclic)
  then obtain ordered where ord: "precedence_order ?p items = Inr ordered"
    using precedence_order_total by blast
  then obtain out where out: "ordered = map (\<lambda>i. items ! i) out" "distinct out"
      "set out = {0..<length items}" "sorted_wrt (\<lambda>i j. \<not> edge ?p items j i) out"
    using precedence_order_sorted by blast
  have "sorted_wrt (\<lambda>i j. compare_specificity (match_of (items ! j)) (match_of (items ! i)) \<noteq> Narrower) out"
  proof (rule sorted_wrt_mono_rel [OF _ out(4)])
    fix i j
    assume "i \<in> set out" "j \<in> set out" "\<not> edge ?p items j i"
    with out(3) show "compare_specificity (match_of (items ! j)) (match_of (items ! i)) \<noteq> Narrower"
      by (cases "i = j") (auto simp: edge_def compare_specificity_narrower)
  qed
  with ord out show ?thesis
    by (auto simp: evaluation_order_def Let_def)
qed

theorem precedence_order_sorts_witness:
  "\<exists>out. [''b'', ''a'', ''c''] = map (\<lambda>i. [''a'', ''b'', ''c''] ! i) out \<and> distinct out \<and>
     sorted_wrt (\<lambda>i j. \<not> edge (\<lambda>x y i j. x = ''b'' \<and> y = ''a'') [''a'', ''b'', ''c''] j i) out"
proof -
  have "precedence_order (\<lambda>x y i j. x = ''b'' \<and> y = ''a'') [''a'', ''b'', ''c''] = Inr [''b'', ''a'', ''c'']"
    by code_simp
  from precedence_order_sorts [OF this] show ?thesis by (elim exE conjE, intro exI conjI)
qed

end
