(* ===== verification/JsonText.thy ===== *)
theory JsonText
  imports AuthzTypes
begin

text \<open>
  \<open>JSON.stringify\<close>, for the texts that identify something: the keys of the questions a broker
  asks, the keys of approvals, and the descriptions of requests. A value is written in one way
  only, and no text of a value is the beginning of the text of another: two values without
  numbers with the same text are the same (\<open>json_stringify_inject\<close>). Characters below U+0100.
\<close>

section \<open>Writing\<close>

definition hex_lower :: "nat \<Rightarrow> char" where
  "hex_lower n = char_of (if n < 10 then 48 + n else 87 + n)"

definition json_escape :: "char \<Rightarrow> string" where
  "json_escape c =
     (let n = (of_char c :: nat) in
      if n = 34 then [CHR 0x5C, CHR 0x22]
      else if n = 92 then [CHR 0x5C, CHR 0x5C]
      else if n = 8 then [CHR 0x5C, CHR ''b'']
      else if n = 9 then [CHR 0x5C, CHR ''t'']
      else if n = 10 then [CHR 0x5C, CHR ''n'']
      else if n = 12 then [CHR 0x5C, CHR ''f'']
      else if n = 13 then [CHR 0x5C, CHR ''r'']
      else if n < 32 then [CHR 0x5C, CHR ''u'', CHR ''0'', CHR ''0'', hex_lower (n div 16), hex_lower (n mod 16)]
      else [c])"

definition json_quote :: "string \<Rightarrow> string" where
  "json_quote s = CHR 0x22 # concat (map json_escape s) @ [CHR 0x22]"

fun json_stringify :: "json \<Rightarrow> string" where
  "json_stringify JNull = ''null''"
| "json_stringify (JBool b) = (if b then ''true'' else ''false'')"
| "json_stringify (JNum n) = n"
| "json_stringify (JStr s) = json_quote s"
| "json_stringify (JArr xs) = ''['' @ join_with '','' (map json_stringify xs) @ '']''"
| "json_stringify (JObj ms) =
     ''{'' @ join_with '','' (map (\<lambda>(k, v). json_quote k @ '':'' @ json_stringify v) ms) @ ''}''"

text \<open>A text or \<open>null\<close>.\<close>

definition json_nullable :: "string option \<Rightarrow> json" where
  "json_nullable v = (case v of None \<Rightarrow> JNull | Some s \<Rightarrow> JStr s)"

lemma json_nullable_inject [simp]: "json_nullable v = json_nullable w \<longleftrightarrow> v = w"
  by (cases v; cases w) (simp_all add: json_nullable_def)

section \<open>Reading a quoted text\<close>

definition hex_lower_value :: "char \<Rightarrow> nat" where
  "hex_lower_value c = (if of_char c < (87 :: nat) then of_char c - 48 else of_char c - 87)"

lemma hex_lower_value [simp]: "n < 16 \<Longrightarrow> hex_lower_value (hex_lower n) = n"
  by (simp add: hex_lower_value_def hex_lower_def)

text \<open>The text up to the closing quote, and what follows it.\<close>

fun json_unquote :: "string \<Rightarrow> string \<times> string" where
  "json_unquote [] = ([], [])"
| "json_unquote (c # cs) =
     (if c = CHR 0x22 then ([], cs)
      else if c = CHR 0x5C then
        (case cs of
           [] \<Rightarrow> ([], [])
         | d # rest \<Rightarrow>
             (if d = CHR ''u'' then
                (case rest of
                   p # q # x # y # rest' \<Rightarrow>
                     map_prod ((#) (char_of (hex_lower_value x * 16 + hex_lower_value y))) id (json_unquote rest')
                 | _ \<Rightarrow> ([], []))
              else map_prod ((#) (if d = CHR ''b'' then CHR 0x08 else if d = CHR ''t'' then CHR 0x09
                    else if d = CHR ''n'' then CHR 0x0A else if d = CHR ''f'' then CHR 0x0C
                    else if d = CHR ''r'' then CHR 0x0D else d)) id (json_unquote rest)))
      else map_prod ((#) c) id (json_unquote cs))"

lemma char_of_code: "of_char c = (of_char d :: nat) \<Longrightarrow> c = d"
  by (metis char_of_char)

lemma json_escape_cases:
  obtains (short) "c \<in> {CHR 0x22, CHR 0x5C, CHR 0x08, CHR 0x09, CHR 0x0A, CHR 0x0C, CHR 0x0D}"
    | (hex) "json_escape c = [CHR 0x5C, CHR ''u'', CHR ''0'', CHR ''0'', hex_lower (of_char c div 16),
        hex_lower (of_char c mod 16)]" "of_char c < (32 :: nat)"
    | (plain) "json_escape c = [c]" "c \<noteq> CHR 0x22" "c \<noteq> CHR 0x5C" "\<not> of_char c < (32 :: nat)"
proof -
  let ?n = "of_char c :: nat"
  have code: "?n = 34 \<Longrightarrow> c = CHR 0x22" "?n = 92 \<Longrightarrow> c = CHR 0x5C" "?n = 8 \<Longrightarrow> c = CHR 0x08"
    "?n = 9 \<Longrightarrow> c = CHR 0x09" "?n = 10 \<Longrightarrow> c = CHR 0x0A" "?n = 12 \<Longrightarrow> c = CHR 0x0C" "?n = 13 \<Longrightarrow> c = CHR 0x0D"
    by (rule char_of_code, simp)+
  consider "?n \<in> {34, 92, 8, 9, 10, 12, 13}" | "?n \<notin> {34, 92, 8, 9, 10, 12, 13}" "?n < 32"
    | "?n \<notin> {34, 92, 8, 9, 10, 12, 13}" "\<not> ?n < 32"
    by blast
  then show ?thesis
  proof cases
    case 1
    then show ?thesis using code by (intro short) blast
  next
    case 2
    then show ?thesis by (intro hex) (simp_all add: json_escape_def Let_def)
  next
    case 3
    then show ?thesis by (intro plain) (auto simp: json_escape_def Let_def)
  qed
qed

lemma json_unquote_escape: "json_unquote (json_escape c @ rest) = map_prod ((#) c) id (json_unquote rest)"
proof (cases c rule: json_escape_cases)
  case hex
  have "of_char c div 16 < (16 :: nat)" "of_char c mod 16 < (16 :: nat)" using hex(2) by simp_all
  with hex(1) show ?thesis by simp
next
  case short
  then show ?thesis by (auto simp: json_escape_def Let_def)
qed simp

lemma json_unquote_text: "json_unquote (concat (map json_escape s) @ CHR 0x22 # rest) = (s, rest)"
  by (induction s) (simp_all add: json_unquote_escape)

lemma json_quote_inject:
  assumes "json_quote s @ r = json_quote t @ r'"
  shows "s = t \<and> r = r'"
proof -
  have "concat (map json_escape s) @ CHR 0x22 # r = concat (map json_escape t) @ CHR 0x22 # r'"
    using assms by (simp add: json_quote_def)
  then have "json_unquote (concat (map json_escape s) @ CHR 0x22 # r) = json_unquote (concat (map json_escape t) @ CHR 0x22 # r')"
    by (rule arg_cong)
  then show ?thesis by (simp only: json_unquote_text prod.inject)
qed

section \<open>One value, one text\<close>

text \<open>The elements of a list, each recognised by its text, between a separator and a closing mark.\<close>

lemma join_with_Cons: "join_with [c] (t # ts) = t @ concat (map (\<lambda>u. c # u) ts)"
proof (induction ts arbitrary: t)
  case (Cons u ts)
  then show ?case by (simp only: join_with.simps) simp
qed simp

lemma concat_delimited:
  assumes "\<And>x y r r'. x \<in> set xs \<Longrightarrow> f x @ r = f y @ r' \<Longrightarrow> P y \<Longrightarrow> x = y \<and> r = r'"
    and "list_all P ys" and "c \<noteq> d"
    and "concat (map (\<lambda>x. c # f x) xs) @ d # r = concat (map (\<lambda>x. c # f x) ys) @ d # r'"
  shows "xs = ys \<and> r = r'"
  using assms
proof (induction xs arbitrary: ys)
  case Nil
  then show ?case by (cases ys) auto
next
  case (Cons x xs)
  obtain y ys' where ys: "ys = y # ys'" using Cons.prems(3,4) by (cases ys) auto
  have "f x @ (concat (map (\<lambda>x. c # f x) xs) @ d # r) = f y @ (concat (map (\<lambda>x. c # f x) ys') @ d # r')"
    using Cons.prems(4) by (simp add: ys)
  from Cons.prems(1) [OF _ this] Cons.prems(2)
  have "x = y" "concat (map (\<lambda>x. c # f x) xs) @ d # r = concat (map (\<lambda>x. c # f x) ys') @ d # r'"
    by (simp_all add: ys)
  moreover have "xs = ys' \<and> r = r'"
    using Cons.prems(1,2,3) by (intro Cons.IH [OF _ _ _ calculation(2)]) (auto simp: ys)
  ultimately show ?case by (simp add: ys)
qed

lemma join_delimited:
  assumes rec: "\<And>x y r r'. x \<in> set xs \<Longrightarrow> f x @ r = f y @ r' \<Longrightarrow> P y \<Longrightarrow> x = y \<and> r = r'"
    and "list_all P ys" and "c \<noteq> d" and first: "\<And>x r r'. x \<in> set xs \<or> P x \<Longrightarrow> f x @ r \<noteq> d # r'"
    and eq: "join_with [c] (map f xs) @ d # r = join_with [c] (map f ys) @ d # r'"
  shows "xs = ys \<and> r = r'"
proof -
  have join: "join_with [c] (map f (z # zs)) = f z @ concat (map (\<lambda>x. c # f x) zs)" for z zs
    by (simp only: list.map join_with_Cons) (simp add: comp_def)
  show ?thesis
  proof (cases xs)
    case xs: Nil
    show ?thesis
    proof (cases ys)
      case Nil
      then show ?thesis using eq by (simp add: xs)
    next
      case (Cons y ys')
      then have "f y @ (concat (map (\<lambda>x. c # f x) ys') @ d # r') = d # r" using eq by (simp only: xs Cons join) simp
      then show ?thesis using first [of y] assms(2) by (simp add: Cons)
    qed
  next
    case (Cons x xs')
    note xs = this
    show ?thesis
    proof (cases ys)
      case Nil
      then have "f x @ (concat (map (\<lambda>x. c # f x) xs') @ d # r) = d # r'" using eq by (simp only: xs join) simp
      then show ?thesis using first [of x] by (simp add: xs)
    next
      case (Cons y ys')
      have "f x @ (concat (map (\<lambda>x. c # f x) xs') @ d # r) = f y @ (concat (map (\<lambda>x. c # f x) ys') @ d # r')"
        using eq by (simp only: xs Cons join append.assoc)
      from rec [OF _ this] assms(2)
      have "x = y" "concat (map (\<lambda>x. c # f x) xs') @ d # r = concat (map (\<lambda>x. c # f x) ys') @ d # r'"
        by (simp_all add: xs Cons)
      moreover have "xs' = ys' \<and> r = r'"
        using rec assms(2,3) by (intro concat_delimited [where P = P, OF _ _ _ calculation(2)]) (auto simp: xs Cons)
      ultimately show ?thesis by (simp add: xs Cons)
    qed
  qed
qed

text \<open>Values without numbers.\<close>

fun numberless :: "json \<Rightarrow> bool" where
  "numberless (JNum n) = False"
| "numberless (JArr xs) = list_all numberless xs"
| "numberless (JObj ms) = list_all (\<lambda>(k, v). numberless v) ms"
| "numberless v = True"

lemma json_first:
  "numberless v \<Longrightarrow> json_stringify v \<noteq> [] \<and> hd (json_stringify v) \<notin> {CHR '']'', CHR ''}'', CHR '',''}"
  by (cases v) (simp_all add: json_quote_def)

text \<open>The first character tells the kind of the value.\<close>

fun json_kind :: "json \<Rightarrow> char" where
  "json_kind JNull = CHR ''n''"
| "json_kind (JBool b) = (if b then CHR ''t'' else CHR ''f'')"
| "json_kind (JNum n) = CHR ''0''"
| "json_kind (JStr s) = CHR 0x22"
| "json_kind (JArr xs) = CHR ''[''"
| "json_kind (JObj ms) = CHR ''{''"

lemma json_kind_hd: "numberless v \<Longrightarrow> hd (json_stringify v @ r) = json_kind v"
  by (cases v) (simp_all add: json_quote_def)

lemma json_same_kind:
  "numberless v \<Longrightarrow> numberless w \<Longrightarrow> json_stringify v @ r = json_stringify w @ r' \<Longrightarrow> json_kind v = json_kind w"
  using json_kind_hd [of v r] json_kind_hd [of w r'] by simp

lemma json_text_unique:
  assumes "numberless v" "numberless w" "json_stringify v @ r = json_stringify w @ r'"
  shows "v = w \<and> r = r'"
  using assms
proof (induction v arbitrary: w r r')
  case (JArr xs)
  from json_same_kind [OF this(2-4)] JArr.prems(2) obtain ys where w: "w = JArr ys" by (cases w) (auto split: if_splits)
  have "xs = ys \<and> r = r'"
  proof (rule join_delimited)
    show "x = y \<and> s = s'" if "x \<in> set xs" "json_stringify x @ s = json_stringify y @ s'" "numberless y" for x y s s'
      using JArr.IH [OF that(1) _ that(3,2)] JArr.prems(1) that(1) by (auto simp: list_all_iff)
    show "list_all numberless ys" using JArr.prems(2) by (simp add: w)
    show "join_with [CHR '',''] (map json_stringify xs) @ CHR '']'' # r =
        join_with [CHR '',''] (map json_stringify ys) @ CHR '']'' # r'"
      using JArr.prems(3) by (simp add: w)
    show "json_stringify x @ s \<noteq> CHR '']'' # s'" if "x \<in> set xs \<or> numberless x" for x s s'
      using json_first [of x] that JArr.prems(1) by (cases "json_stringify x") (auto simp: list_all_iff)
  qed simp
  then show ?case by (simp add: w)
next
  case (JObj ms)
  from json_same_kind [OF this(2-4)] JObj.prems(2) obtain ns where w: "w = JObj ns" by (cases w) (auto split: if_splits)
  let ?f = "\<lambda>(k, v). json_quote k @ '':'' @ json_stringify v"
  have "ms = ns \<and> r = r'"
  proof (rule join_delimited)
    show "m = n \<and> s = s'" if m: "m \<in> set ms" and eq: "?f m @ s = ?f n @ s'" and n: "numberless (snd n)" for m n s s'
    proof -
      obtain k v l u where kv: "m = (k, v)" "n = (l, u)" by (cases m; cases n)
      have "json_quote k @ ('':'' @ json_stringify v @ s) = json_quote l @ ('':'' @ json_stringify u @ s')"
        using eq by (simp add: kv)
      from json_quote_inject [OF this] have "k = l" and vu: "json_stringify v @ s = json_stringify u @ s'" by simp_all
      moreover have "numberless v" using JObj.prems(1) m by (auto simp: kv list_all_iff)
      ultimately show ?thesis using JObj.IH [OF m _ _ _ vu] n by (auto simp: kv)
    qed
    show "list_all (\<lambda>m. numberless (snd m)) ns" using JObj.prems(2) by (auto simp: w list_all_iff)
    show "join_with [CHR '',''] (map ?f ms) @ CHR ''}'' # r = join_with [CHR '',''] (map ?f ns) @ CHR ''}'' # r'"
      using JObj.prems(3) by (simp add: w)
    show "?f m @ s \<noteq> CHR ''}'' # s'" for m s s'
      by (simp add: json_quote_def split: prod.splits)
  qed simp
  then show ?case by (simp add: w)
next
  case (JStr s)
  from json_same_kind [OF this] JStr.prems(2) obtain t where w: "w = JStr t" by (cases w) (auto split: if_splits)
  have "json_quote s @ r = json_quote t @ r'" using JStr.prems(3) by (simp only: w json_stringify.simps)
  from json_quote_inject [OF this] show ?case by (simp only: w)
next
  case (JBool b)
  from json_same_kind [OF this] JBool.prems(2) have "w = JBool b" by (cases w) (auto split: if_splits)
  with JBool show ?case by simp
next
  case JNull
  from json_same_kind [OF this] JNull.prems(2) have "w = JNull" by (cases w) (auto split: if_splits)
  with JNull show ?case by simp
next
  case (JNum n)
  then show ?case by (simp only: numberless.simps)
qed

lemma json_stringify_inject:
  "numberless v \<Longrightarrow> numberless w \<Longrightarrow> json_stringify v = json_stringify w \<longleftrightarrow> v = w"
  using json_text_unique [of v w "[]" "[]"] by auto

lemma numberless_nullable [simp]: "numberless (json_nullable v)"
  by (cases v) (simp_all add: json_nullable_def)

lemma json_nullable_text [simp]:
  "json_stringify (json_nullable v) = json_stringify (json_nullable w) \<longleftrightarrow> v = w"
  by (simp add: json_stringify_inject)

end
