(* ===== verification/Witness.thy ===== *)
theory Witness
  imports Specificity JsonText
begin

text \<open>
  Witness requests (\<open>src/network/authz/witness.ts\<close>): for two conditions that are reported to
  intersect, a concrete request both accept, and for two scopes a common address. The
  construction mirrors the intersection decision; it may fail (\<open>None\<close>) where the decision is
  only conservative, and what it returns is proved to be accepted by both sides.
\<close>

definition default_method :: string where
  "default_method = ''GET''"

definition default_port :: nat where
  "default_port = 443"

fun method_witness :: "string list option \<Rightarrow> string list option \<Rightarrow> string option" where
  "method_witness None None = Some default_method"
| "method_witness None (Some b) = (case b of [] \<Rightarrow> None | m # ms \<Rightarrow> Some m)"
| "method_witness (Some a) None = (case a of [] \<Rightarrow> None | m # ms \<Rightarrow> Some m)"
| "method_witness (Some a) (Some b) = find (\<lambda>m. m \<in> set b) a"

section \<open>Paths\<close>

definition path_pattern_witness :: "compiled_path \<Rightarrow> compiled_path \<Rightarrow> string list option" where
  "path_pattern_witness a b =
     (let m = length (cp_segments a); n = length (cp_segments b); shared = min m n; total = max m n;
          longer = (if m \<ge> n then a else b)
      in case map_option_list (\<lambda>i. segment_set_intersection_sample (cp_segments a ! i) (cp_segments b ! i))
                [0..<shared] of
           None \<Rightarrow> None
         | Some front \<Rightarrow>
             (case map_option_list (\<lambda>i. segment_set_sample (cp_segments longer ! i)) [shared..<total] of
                None \<Rightarrow> None
              | Some rear \<Rightarrow>
                  (let tokens = front @ rear in
                   if join_path tokens = '''' \<and> cp_double_star a \<and> cp_double_star b
                   then Some (tokens @ [witness_segment]) else Some tokens)))"

definition path_witness :: "compiled_path list \<Rightarrow> compiled_path list \<Rightarrow> string option" where
  "path_witness as bs =
     first_some (\<lambda>pa. first_some (\<lambda>pb.
       if \<not> path_patterns_intersect pa pb then None
       else map_option join_path (path_pattern_witness pa pb)) bs) as"

section \<open>Bodies\<close>

text \<open>Outside \<open>Some\<close>: the formats do not intersect; inside, \<open>None\<close> is "no body condition".\<close>

definition intersect_format :: "body_format option \<Rightarrow> body_format option \<Rightarrow> body_format option option" where
  "intersect_format a b =
     (if a = None then Some b
      else if b = None then Some a
      else if a = b then Some a
      else if a = Some FormatOpaque then Some b
      else if b = Some FormatOpaque then Some a
      else None)"

definition merge_pointer ::
  "string \<times> scalar list \<Rightarrow> (string \<times> scalar list) list \<Rightarrow> (string \<times> scalar list) list"
where
  "merge_pointer e merged =
     (case e of (pointer, values) \<Rightarrow>
        (case map_of merged pointer of
           None \<Rightarrow> AList.update pointer values merged
         | Some existing \<Rightarrow>
             AList.update pointer (filter (\<lambda>v. scalar_key v \<in> scalar_key ` set values) existing) merged))"

definition merged_pointers :: "normalized_body \<Rightarrow> normalized_body \<Rightarrow> (string \<times> scalar list) list" where
  "merged_pointers a b = fold merge_pointer (nb_pointers b) (amap_merge [] (nb_pointers a))"

text \<open>
  \<open>pickArguments\<close>: for every argument name either condition requires, a value both permit.
\<close>

definition pick_arguments ::
  "(string \<times> string list) list option \<Rightarrow> (string \<times> string list) list option \<Rightarrow> (string \<times> string) list option"
where
  "pick_arguments a b =
     (let ea = (case a of None \<Rightarrow> [] | Some x \<Rightarrow> x); eb = (case b of None \<Rightarrow> [] | Some x \<Rightarrow> x) in
      map_option_list (\<lambda>name.
          map_option (Pair name)
            (case map_of ea name of
               None \<Rightarrow> (case map_of eb name of Some (v # vs) \<Rightarrow> Some v | _ \<Rightarrow> None)
             | Some va \<Rightarrow>
                 (case map_of eb name of
                    None \<Rightarrow> (case va of [] \<Rightarrow> None | v # vs \<Rightarrow> Some v)
                  | Some vb \<Rightarrow> find (\<lambda>v. v \<in> set vb) va)))
        (js_unique (map fst ea @ map fst eb)))"

fun operation_text :: "graphql_operation \<Rightarrow> string" where
  "operation_text Query = ''query''"
| "operation_text Mutation = ''mutation''"
| "operation_text Subscription = ''subscription''"

text \<open>The loop of \<open>renderDocument\<close>, from the leaf (the last element) outwards.\<close>

definition render_field :: "field_occurrence \<Rightarrow> string \<Rightarrow> string" where
  "render_field f inner =
     (let name = after_last CHR ''/'' (fo_path f);
          args = (if fo_argument_values f = [] then ''''
                  else ''('' @ join_with '', '' (map (\<lambda>(k, v). k @ '': '' @ json_quote v) (fo_argument_values f)) @ '')'')
      in if inner = '''' then name @ args else name @ args @ '' { '' @ inner @ '' }'')"

definition render_document :: "graphql_operation \<Rightarrow> field_occurrence list \<Rightarrow> string" where
  "render_document operation occs =
     operation_text operation @ '' { '' @ foldr render_field occs '''' @ '' }''"

record witness_document =
  wd_at :: string
  wd_facts :: graphql_document
  wd_text :: string

definition document_for_leaf ::
  "normalized_graphql \<Rightarrow> normalized_graphql option \<Rightarrow> graphql_operation \<Rightarrow> string \<Rightarrow> witness_document option"
where
  "document_for_leaf a b operation leaf =
     (let chain = graphql_path_chain leaf in
      case map_option_list (\<lambda>index.
          (case pick_arguments (map_of (ng_field_arguments a) (chain ! index))
                  (case b of None \<Rightarrow> None | Some gb \<Rightarrow> map_of (ng_field_arguments gb) (chain ! index)) of
             None \<Rightarrow> None
           | Some values \<Rightarrow>
               Some \<lparr>fo_path = chain ! index, fo_leaf = (index = length chain - 1),
                     fo_argument_values = values, fo_unresolved = []\<rparr>))
        [0..<length chain] of
        None \<Rightarrow> None
      | Some occs \<Rightarrow>
          Some \<lparr>wd_at = ng_at a,
                wd_facts = \<lparr>gd_operations = [operation], gd_fields = occs\<rparr>,
                wd_text = render_document operation occs\<rparr>)"

definition document_for :: "normalized_graphql \<Rightarrow> normalized_graphql option \<Rightarrow> witness_document option" where
  "document_for a b =
     (case (case b of
              None \<Rightarrow> (case ng_operations a of [] \<Rightarrow> None | op # ops \<Rightarrow> Some op)
            | Some gb \<Rightarrow> find (\<lambda>op. op \<in> set (ng_operations gb)) (ng_operations a)) of
        None \<Rightarrow> None
      | Some operation \<Rightarrow>
          first_some (\<lambda>leaf.
            if (case b of None \<Rightarrow> False | Some gb \<Rightarrow> leaf \<notin> set (ng_field_paths gb)) then None
            else document_for_leaf a b operation leaf) (ng_field_paths a))"

fun requested_documents ::
  "normalized_graphql option \<Rightarrow> normalized_graphql option \<Rightarrow> (normalized_graphql \<times> normalized_graphql option) list"
where
  "requested_documents None None = []"
| "requested_documents None (Some b) = [(b, None)]"
| "requested_documents (Some a) None = [(a, None)]"
| "requested_documents (Some a) (Some b) =
     (if ng_at a = ng_at b then [(a, Some b)] else [(a, None), (b, None)])"

definition merged_graphql ::
  "normalized_graphql option \<Rightarrow> normalized_graphql option \<Rightarrow> witness_document list option"
where
  "merged_graphql a b = map_option_list (\<lambda>(first, second). document_for first second) (requested_documents a b)"

text \<open>
  \<open>setPointer\<close>: the object is mutated in place; a failure makes every caller give up, so the
  functional update returns \<open>None\<close> there. The boolean tells whether a property was defined.
\<close>

fun set_tokens :: "(string \<times> json) list \<Rightarrow> string list \<Rightarrow> scalar \<Rightarrow> ((string \<times> json) list \<times> bool) option" where
  "set_tokens m [] v = None"
| "set_tokens m [key] v =
     (case map_of m key of
        None \<Rightarrow> Some (m @ [(key, json_of_scalar v)], True)
      | Some existing \<Rightarrow>
          (case scalar_of_json existing of
             None \<Rightarrow> None
           | Some e \<Rightarrow> (if scalar_key e = scalar_key v then Some (m, False) else None)))"
| "set_tokens m (t # u # ts) v =
     (case map_of m t of
        None \<Rightarrow>
          (case set_tokens [] (u # ts) v of None \<Rightarrow> None | Some (c, d) \<Rightarrow> Some (m @ [(t, JObj c)], d))
      | Some (JObj c) \<Rightarrow>
          (case set_tokens c (u # ts) v of None \<Rightarrow> None | Some (c', d) \<Rightarrow> Some (AList.update t (JObj c') m, d))
      | Some _ \<Rightarrow> None)"

definition set_pointer :: "string \<Rightarrow> scalar \<Rightarrow> json \<times> bool \<Rightarrow> (json \<times> bool) option" where
  "set_pointer pointer v root =
     (case root of (value, constrained) \<Rightarrow>
        (case pointer of
           [] \<Rightarrow>
             (if \<not> constrained then Some (json_of_scalar v, True)
              else (case scalar_of_json value of
                      None \<Rightarrow> None
                    | Some e \<Rightarrow> (if scalar_key e = scalar_key v then Some (value, constrained) else None)))
         | c # rest \<Rightarrow>
             (if c \<noteq> CHR ''/'' then None
              else (case value of
                      JObj m \<Rightarrow>
                        (case set_tokens m (map unescape_token (split_on CHR ''/'' rest)) v of
                           None \<Rightarrow> None
                         | Some (m', defined) \<Rightarrow> Some (JObj m', constrained \<or> defined))
                    | _ \<Rightarrow> None))))"

definition set_first :: "string \<times> scalar list \<Rightarrow> json \<times> bool \<Rightarrow> (json \<times> bool) option" where
  "set_first e root =
     (case e of (pointer, values) \<Rightarrow>
        (case values of [] \<Rightarrow> None | v # vs \<Rightarrow> set_pointer pointer v root))"

definition set_document :: "witness_document \<Rightarrow> json \<times> bool \<Rightarrow> (json \<times> bool) option" where
  "set_document d root = set_pointer (wd_at d) (SStr (wd_text d)) root"

definition body_witness :: "normalized_body \<Rightarrow> normalized_body \<Rightarrow> request_body option" where
  "body_witness a b =
     (case intersect_format (nb_format a) (nb_format b) of
        None \<Rightarrow> None
      | Some None \<Rightarrow> Some BodyAbsent
      | Some (Some FormatNone) \<Rightarrow> Some BodyEmpty
      | Some (Some format) \<Rightarrow>
          (case fold_option set_first (merged_pointers a b) (JObj [], False) of
             None \<Rightarrow> None
           | Some root \<Rightarrow>
               (case merged_graphql (nb_graphql a) (nb_graphql b) of
                  None \<Rightarrow> None
                | Some documents \<Rightarrow>
                    (case fold_option set_document documents root of
                       None \<Rightarrow> None
                     | Some (value, constrained) \<Rightarrow>
                         Some (BodyJson value (amap_merge [] (map (\<lambda>d. (wd_at d, wd_facts d)) documents)))))))"

definition match_intersection_witness :: "compiled_match \<Rightarrow> compiled_match \<Rightarrow> authz_request option" where
  "match_intersection_witness a b =
     (case method_witness (cm_methods a) (cm_methods b) of
        None \<Rightarrow> None
      | Some method \<Rightarrow>
          (case path_witness (cm_paths a) (cm_paths b) of
             None \<Rightarrow> None
           | Some path \<Rightarrow>
               (case body_witness (cm_body a) (cm_body b) of
                  None \<Rightarrow> None
                | Some body \<Rightarrow> Some \<lparr>rq_method = method, rq_path = path, rq_body = body\<rparr>)))"

section \<open>Targets\<close>

definition host_witness :: "target \<Rightarrow> target \<Rightarrow> string option" where
  "host_witness a b =
     (if \<not> host_patterns_intersect (tg_host a) (tg_host b) then None
      else if \<not> ports_intersect (tg_port a) (tg_port b) then None
      else (case (tg_host a, tg_host b) of
              (ExactHost h, _) \<Rightarrow> Some h
            | (SuffixHost s, ExactHost h) \<Rightarrow> Some h
            | (SuffixHost s, SuffixHost t) \<Rightarrow>
                Some (witness_segment @ ''.'' @ (if length s \<ge> length t then s else t))))"

definition target_intersection_witness :: "target list \<Rightarrow> target list \<Rightarrow> target_address option" where
  "target_intersection_witness as bs =
     first_some (\<lambda>ta. first_some (\<lambda>tb.
       if \<not> targets_intersect ta tb then None
       else (case host_witness ta tb of
               None \<Rightarrow> None
             | Some host \<Rightarrow>
                 Some \<lparr>ta_host = host,
                       ta_port = (case tg_port ta of Some p \<Rightarrow> p
                                  | None \<Rightarrow> (case tg_port tb of Some p \<Rightarrow> p | None \<Rightarrow> default_port))\<rparr>)) bs) as"

section \<open>Descriptions\<close>

definition describe_body :: "request_body \<Rightarrow> string" where
  "describe_body body =
     (case body of
        BodyAbsent \<Rightarrow> ''no body condition''
      | BodyEmpty \<Rightarrow> ''body: length 0''
      | BodyBinary \<Rightarrow> ''body: arbitrary bytes that do not parse as JSON''
      | BodyJson value documents \<Rightarrow> ''body: '' @ json_stringify value)"

definition describe_request :: "authz_request \<Rightarrow> string list" where
  "describe_request r = [rq_method r @ '' '' @ rq_path r, describe_body (rq_body r)]"

definition describe_target_address :: "target_address \<Rightarrow> string" where
  "describe_target_address a = ta_host a @ '':'' @ nat_text (ta_port a)"

section \<open>Addresses\<close>

lemma host_witness_matches:
  assumes "host_witness a b = Some h"
  shows "host_matches (tg_host a) h \<and> host_matches (tg_host b) h"
proof -
  have i: "host_pattern_subsumes (tg_host a) (tg_host b) \<or> host_pattern_subsumes (tg_host b) (tg_host a)"
    using assms by (auto simp: host_witness_def host_patterns_intersect_def split: if_splits)
  show ?thesis
  proof (cases "tg_host a"; cases "tg_host b")
    fix s t
    assume ab: "tg_host a = SuffixHost s" "tg_host b = SuffixHost t"
    with assms have h: "h = witness_segment @ ''.'' @ (if length s \<ge> length t then s else t)"
      by (auto simp: host_witness_def split: if_splits)
    have "suffix (''.'' @ s) h \<and> suffix (''.'' @ t) h"
      using i ab h by (auto simp: suffix_def split: if_splits)
    then show ?thesis
      using ab h by (auto simp: witness_segment_def suffix_def split: if_splits)
  qed (use assms i in \<open>auto simp: host_witness_def split: if_splits\<close>)
qed

lemma host_witness_total: "targets_intersect a b \<Longrightarrow> \<exists>h. host_witness a b = Some h"
  by (cases "tg_host a"; cases "tg_host b") (auto simp: host_witness_def targets_intersect_def)

text \<open>
  two scopes are reported to overlap exactly when they share an address, and then the
  witness is one: targetIntersectionWitness returns an address that belongs to both target
  lists, and returns none only when no target of one intersects a target of the other.
\<close>

theorem target_intersection_witness_spec:
  "case target_intersection_witness as bs of
     None \<Rightarrow> \<not> target_sets_intersect as bs \<and>
       Collect (target_set_accepts as) \<inter> Collect (target_set_accepts bs) = {}
   | Some address \<Rightarrow>
       target_set_accepts as address \<and> target_set_accepts bs address \<and> target_sets_intersect as bs"
proof (cases "target_intersection_witness as bs")
  case None
  then have "\<not> targets_intersect a b" if "a \<in> set as" "b \<in> set bs" for a b
    using host_witness_total [of a b] that
    by (fastforce simp: target_intersection_witness_def first_some_None split: if_splits option.splits)
  then have "\<not> target_sets_intersect as bs"
    by (auto simp: target_sets_iffs)
  with None target_sets.inter_complete show ?thesis by auto
next
  case (Some address)
  then obtain ta tb h where t: "ta \<in> set as" "tb \<in> set bs" "targets_intersect ta tb"
      "host_witness ta tb = Some h" "ta_host address = h"
      "ta_port address = (case tg_port ta of Some p \<Rightarrow> p
         | None \<Rightarrow> (case tg_port tb of Some p \<Rightarrow> p | None \<Rightarrow> default_port))"
    by (auto simp: target_intersection_witness_def dest!: first_some_SomeD split: if_splits option.splits)
  then have "target_accepts ta address" "target_accepts tb address"
    using host_witness_matches [OF t(4)]
    by (auto simp: target_accepts_def port_accepts_def targets_intersect_def ports_intersect_def
        split: option.splits)
  with t show ?thesis
    by (auto simp: Some target_sets_iffs)
qed

section \<open>Paths\<close>

lemma path_pattern_witness_shape:
  assumes "path_pattern_witness a b = Some tokens"
  shows "\<exists>front rear. tokens = (if join_path (front @ rear) = [] \<and> cp_double_star a \<and> cp_double_star b
       then front @ rear @ [witness_segment] else front @ rear) \<and>
    length front = min (length (cp_segments a)) (length (cp_segments b)) \<and>
    length rear = max (length (cp_segments a)) (length (cp_segments b)) - length front \<and>
    (\<forall>i<length front. segment_set_intersection_sample (cp_segments a ! i) (cp_segments b ! i) = Some (front ! i)) \<and>
    (\<forall>i<length rear. segment_set_sample (cp_segments (if length (cp_segments a) \<ge> length (cp_segments b) then a else b)
        ! (length front + i)) = Some (rear ! i))"
proof -
  let ?m = "length (cp_segments a)" and ?n = "length (cp_segments b)"
  let ?F = "\<lambda>i. segment_set_intersection_sample (cp_segments a ! i) (cp_segments b ! i)"
  let ?G = "\<lambda>i. segment_set_sample (cp_segments (if ?m \<ge> ?n then a else b) ! i)"
  obtain front where f: "map_option_list ?F [0..<min ?m ?n] = Some front"
    using assms by (cases "map_option_list ?F [0..<min ?m ?n]") (simp_all add: path_pattern_witness_def)
  obtain rear where r: "map_option_list ?G [min ?m ?n..<max ?m ?n] = Some rear"
    using assms f
    by (cases "map_option_list ?G [min ?m ?n..<max ?m ?n]") (simp_all add: path_pattern_witness_def Let_def)
  have "tokens = (if join_path (front @ rear) = [] \<and> cp_double_star a \<and> cp_double_star b
      then front @ rear @ [witness_segment] else front @ rear)"
    using assms f r by (simp add: path_pattern_witness_def Let_def) (auto split: if_splits)
  then show ?thesis
    using map_option_list_SomeD [OF f] map_option_list_SomeD [OF r]
    by (intro exI [of _ front] exI [of _ rear]) auto
qed

lemma sample_slash_free: "segment_ok s \<Longrightarrow> segment_set_sample s = Some t \<Longrightarrow> CHR ''/'' \<notin> set t"
  using segment_set_sample_matches by fastforce

lemma intersection_sample_slash_free:
  "segment_ok s \<Longrightarrow> segment_ok u \<Longrightarrow> segment_set_intersection_sample s u = Some t \<Longrightarrow> CHR ''/'' \<notin> set t"
  by (cases s; cases u) (auto dest: find_SomeD sample_slash_free [rotated] simp: witness_segment_def)

lemma path_pattern_witness_matches:
  assumes w: "path_pattern_witness a b = Some tokens" and ok: "path_ok a" "path_ok b"
    and i: "path_patterns_intersect a b"
  shows "valid_tokens tokens \<and> tokens_match a tokens \<and> tokens_match b tokens"
proof -
  let ?m = "length (cp_segments a)" and ?n = "length (cp_segments b)"
  let ?l = "if ?m \<ge> ?n then a else b"
  obtain front rear where
    t: "tokens = (if join_path (front @ rear) = [] \<and> cp_double_star a \<and> cp_double_star b
          then front @ rear @ [witness_segment] else front @ rear)"
    and len: "length front = min ?m ?n" "length rear = max ?m ?n - length front"
    and f: "\<And>i. i < length front \<Longrightarrow>
          segment_set_intersection_sample (cp_segments a ! i) (cp_segments b ! i) = Some (front ! i)"
    and r: "\<And>i. i < length rear \<Longrightarrow> segment_set_sample (cp_segments ?l ! (length front + i)) = Some (rear ! i)"
    using path_pattern_witness_shape [OF w] by blast
  have front: "segment_set_matches (cp_segments a ! i) (front ! i) \<and>
      segment_set_matches (cp_segments b ! i) (front ! i) \<and> CHR ''/'' \<notin> set (front ! i)"
    if "i < length front" for i
    using segment_set_intersection_sampleD [OF f [OF that]] len that ok
      intersection_sample_slash_free [OF _ _ f [OF that]] by (simp add: path_ok_def)
  have rear: "segment_set_matches (cp_segments ?l ! (length front + i)) (rear ! i) \<and> CHR ''/'' \<notin> set (rear ! i)"
    if "i < length rear" for i
    using segment_set_sampleD [OF r [OF that]] len that ok sample_slash_free [OF _ r [OF that]]
    by (auto simp: path_ok_def)
  have total: "length (front @ rear) = max ?m ?n" using len by simp
  have seg: "segment_set_matches (cp_segments c ! i) ((front @ rear) ! i)"
    if "c = a \<or> c = b" "i < length (cp_segments c)" for c i
    using front [of i] rear [of "i - length front"] len that
    by (cases "i < length front") (auto simp: nth_append min_def max_def split: if_splits)
  have star: "cp_double_star a \<or> cp_double_star b \<or> ?m = ?n"
    "\<not> cp_double_star a \<longrightarrow> ?m \<ge> ?n" "\<not> cp_double_star b \<longrightarrow> ?n \<ge> ?m"
    using i by (auto simp: path_patterns_intersect_def Let_def split: if_splits)
  have base: "tokens_match a (front @ rear)" "tokens_match b (front @ rear)"
    using seg star total by (auto simp: tokens_match_iff max_def)
  have slash: "\<forall>x\<in>set (front @ rear). CHR ''/'' \<notin> set x"
    using front rear by (auto simp: in_set_conv_nth)
  show ?thesis
  proof (cases "join_path (front @ rear) = [] \<and> cp_double_star a \<and> cp_double_star b")
    case True
    with base slash t show ?thesis
      by (auto simp: tokens_match_iff valid_tokens_def nth_append witness_segment_def)
  next
    case False
    then have "front @ rear \<noteq> []"
      using total ok star by (auto simp: path_ok_def join_path_def)
    with False base slash t show ?thesis by (auto simp: valid_tokens_def)
  qed
qed

lemma path_pattern_witness_total:
  assumes i: "path_patterns_intersect a b" and ok: "path_ok a" "path_ok b"
  shows "\<exists>tokens. path_pattern_witness a b = Some tokens"
proof -
  let ?m = "length (cp_segments a)" and ?n = "length (cp_segments b)"
  let ?l = "if ?m \<ge> ?n then a else b"
  have "segment_sets_intersect (cp_segments a ! k) (cp_segments b ! k)" if "k < min ?m ?n" for k
    using i that by (auto simp: path_patterns_intersect_def Let_def prefix_iffs split: if_splits)
  then have "\<exists>front. map_option_list (\<lambda>i. segment_set_intersection_sample (cp_segments a ! i) (cp_segments b ! i))
      [0..<min ?m ?n] = Some front"
    by (intro map_option_list_total segment_set_intersection_sample_total) simp
  moreover have "\<exists>rear. map_option_list (\<lambda>i. segment_set_sample (cp_segments ?l ! i))
      [min ?m ?n..<max ?m ?n] = Some rear"
  proof (rule map_option_list_total)
    fix k
    assume "k \<in> set [min ?m ?n..<max ?m ?n]"
    then have "segment_ok (cp_segments ?l ! k)"
      using ok by (auto simp: path_ok_def)
    then show "\<exists>t. segment_set_sample (cp_segments ?l ! k) = Some t"
      using segment_set_sample_matches by blast
  qed
  ultimately show ?thesis
    by (auto simp: path_pattern_witness_def Let_def)
qed

lemma path_witness_matches:
  assumes "path_witness as bs = Some path" "\<forall>p\<in>set as. path_ok p" "\<forall>p\<in>set bs. path_ok p"
  shows "paths_match as path \<and> paths_match bs path"
proof -
  obtain a b tokens where ab: "a \<in> set as" "b \<in> set bs" "path_patterns_intersect a b"
      "path_pattern_witness a b = Some tokens" "path = join_path tokens"
    using assms(1) by (auto simp: path_witness_def dest!: first_some_SomeD split: if_splits)
  then have "valid_tokens tokens \<and> tokens_match a tokens \<and> tokens_match b tokens"
    using assms path_pattern_witness_matches by blast
  with ab show ?thesis
    by (auto simp: paths_match_def list_ex_iff compiled_path_matches_def split_join_path)
qed

lemma path_witness_None:
  assumes "path_witness as bs = None" "\<forall>p\<in>set as. path_ok p" "\<forall>p\<in>set bs. path_ok p"
  shows "\<not> paths_intersect as bs"
proof
  assume "paths_intersect as bs"
  then obtain a b where ab: "a \<in> set as" "b \<in> set bs" "path_patterns_intersect a b"
    by (auto simp: paths_iffs)
  have "\<forall>pa\<in>set as. \<forall>pb\<in>set bs. (if \<not> path_patterns_intersect pa pb then None
      else map_option join_path (path_pattern_witness pa pb)) = None"
    using assms(1) by (simp add: path_witness_def first_some_None)
  from bspec [OF bspec [OF this ab(1)] ab(2)] path_pattern_witness_total [OF ab(3)] ab assms show False
    by auto
qed

text \<open>
  Path sets are decided exactly for intersection too. On patterns a configuration can
  contain, pathsIntersect answers true if and only if some path is matched by both sets, and
  then the witness path is such a path.
\<close>

theorem path_witness_exact:
  assumes "list_all path_ok as" "list_all path_ok bs"
  shows "(paths_intersect as bs \<longleftrightarrow> Collect (paths_match as) \<inter> Collect (paths_match bs) \<noteq> {}) \<and>
    (case path_witness as bs of
       None \<Rightarrow> \<not> paths_intersect as bs
     | Some path \<Rightarrow> paths_match as path \<and> paths_match bs path)"
proof (cases "path_witness as bs")
  case None
  then have "\<not> paths_intersect as bs"
    using path_witness_None [OF None] assms by (simp add: list_all_iff)
  with None show ?thesis
    using paths.inter_complete by auto
next
  case (Some path)
  then have "paths_match as path \<and> paths_match bs path"
    using path_witness_matches [OF Some] assms by (simp add: list_all_iff)
  with Some show ?thesis
    using paths.inter_complete by auto
qed

theorem path_witness_exact_witness:
  "\<exists>a b. compile_path_pattern ''/v1/*/issues'' [] = Inr a \<and>
     compile_path_pattern ''/v1/{org}/**'' [(''org'', [''acme''])] = Inr b \<and>
     path_witness [a] [b] = Some ''/v1/acme/issues'' \<and>
     Collect (paths_match [a]) \<inter> Collect (paths_match [b]) \<noteq> {}"
proof -
  define a where "a = \<lparr>cp_source = ''/v1/*/issues'',
    cp_segments = [FiniteSegments [[]], FiniteSegments [''v1''], AllSegments, FiniteSegments [''issues'']],
    cp_double_star = False\<rparr>"
  define b where "b = \<lparr>cp_source = ''/v1/{org}/**'',
    cp_segments = [FiniteSegments [[]], FiniteSegments [''v1''], FiniteSegments [''acme'']],
    cp_double_star = True\<rparr>"
  have ab: "compile_path_pattern ''/v1/*/issues'' [] = Inr a"
    "compile_path_pattern ''/v1/{org}/**'' [(''org'', [''acme''])] = Inr b"
    "path_witness [a] [b] = Some ''/v1/acme/issues''" "paths_intersect [a] [b]"
    unfolding a_def b_def by code_simp+
  have "list_all path_ok [a]" "list_all path_ok [b]"
    by (simp_all add: a_def b_def path_ok_def)
  from ab path_witness_exact [OF this] show ?thesis by blast
qed
section \<open>Values at pointers\<close>

text \<open>The value at a list of unescaped tokens; a witness value only nests objects.\<close>

fun get_tokens :: "json \<Rightarrow> string list \<Rightarrow> json option" where
  "get_tokens j [] = Some j"
| "get_tokens (JObj m) (t # ts) = (case map_of m t of None \<Rightarrow> None | Some c \<Rightarrow> get_tokens c ts)"
| "get_tokens _ (t # ts) = None"

definition get_pointer :: "json \<Rightarrow> string \<Rightarrow> json option" where
  "get_pointer j p =
     (case p of [] \<Rightarrow> Some j
      | c # rest \<Rightarrow> (if c \<noteq> CHR ''/'' then None else get_tokens j (map unescape_token (split_on CHR ''/'' rest))))"

lemma get_resolve_tokens: "get_tokens j (map unescape_token raws) = Some v \<Longrightarrow> resolve_tokens j raws = Some v"
proof (induction raws arbitrary: j)
  case (Cons raw raws)
  then show ?case by (cases j) (auto simp: Let_def split: option.splits)
qed simp

lemma get_resolve_pointer: "get_pointer j p = Some v \<Longrightarrow> resolve_pointer j p = Some v"
  by (cases p) (auto simp: get_pointer_def resolve_pointer_def get_resolve_tokens split: if_splits)

lemma scalar_of_json_iff: "scalar_of_json j = Some v \<longleftrightarrow> j = json_of_scalar v"
  by (cases j; cases v) auto

lemma json_of_scalar_not_obj [simp]: "json_of_scalar v \<noteq> JObj m" "JObj m \<noteq> json_of_scalar v"
  by (cases v; simp)+

lemma set_tokens_get: "set_tokens m ts v = Some (m', d) \<Longrightarrow> get_tokens (JObj m') ts = Some (json_of_scalar v)"
proof (induction m ts v arbitrary: m' d rule: set_tokens.induct)
  case (2 m key v)
  then show ?case
    by (auto simp: scalar_of_json_iff map_add_def split: option.splits if_splits)
next
  case (3 m t u ts v)
  then show ?case
    by (auto simp: map_add_def split: option.splits json.splits)
qed simp

lemma set_tokens_keeps:
  "set_tokens m ts v = Some (m', d) \<Longrightarrow> get_tokens (JObj m) us = Some (json_of_scalar w) \<Longrightarrow>
   get_tokens (JObj m') us = Some (json_of_scalar w)"
proof (induction m ts v arbitrary: m' d us w rule: set_tokens.induct)
  case (2 m key v)
  then show ?case
    by (cases us) (auto simp: map_add_def split: option.splits if_splits)
next
  case (3 m t u ts v)
  show ?case
  proof (cases us)
    case Nil
    with 3 show ?thesis by simp
  next
    case (Cons x xs)
    then obtain c where c: "map_of m x = Some c" "get_tokens c xs = Some (json_of_scalar w)"
      using 3(4) by (auto split: option.splits)
    show ?thesis
    proof (cases "x = t")
      case False
      with 3(3) c Cons show ?thesis
        by (auto simp: map_add_def split: option.splits json.splits)
    next
      case True
      with 3(3) c obtain cm c' where "c = JObj cm" "set_tokens cm (u # ts) v = Some (c', d)"
          "m' = AList.update t (JObj c') m"
        by (auto split: option.splits json.splits)
      with c True Cons 3(2) show ?thesis by auto
    qed
  qed
qed simp

lemma set_tokens_fresh: "set_tokens [] ts v = Some (m', d) \<Longrightarrow> d"
  by (induction "[] :: (string \<times> json) list" ts v arbitrary: m' rule: set_tokens.induct)
    (auto split: option.splits)

text \<open>An unconstrained root is still the empty object.\<close>

definition root_ok :: "json \<times> bool \<Rightarrow> bool" where
  "root_ok root \<longleftrightarrow> snd root \<or> fst root = JObj []"

definition kept :: "json \<Rightarrow> json \<Rightarrow> bool" where
  "kept j j' \<longleftrightarrow> (\<forall>q w. get_pointer j q = Some (json_of_scalar w) \<longrightarrow> get_pointer j' q = Some (json_of_scalar w))"

lemma kept_trans: "kept a b \<Longrightarrow> kept b c \<Longrightarrow> kept a c"
  by (simp add: kept_def)

lemma kept_refl [simp]: "kept j j"
  by (simp add: kept_def)

lemma kept_empty [simp]: "kept (JObj []) j"
proof -
  have "get_tokens (JObj []) ts \<noteq> Some (json_of_scalar w)" for ts w
    by (cases ts) auto
  then show ?thesis
    by (auto simp: kept_def get_pointer_def split: list.splits if_splits)
qed

lemma set_pointer_step:
  assumes "set_pointer p v root = Some root'" "root_ok root"
  shows "root_ok root' \<and> kept (fst root) (fst root') \<and> get_pointer (fst root') p = Some (json_of_scalar v)"
proof (cases p)
  case Nil
  with assms show ?thesis
    by (cases root) (auto simp: set_pointer_def root_ok_def get_pointer_def scalar_of_json_iff
        split: if_splits option.splits)
next
  case (Cons c rest)
  let ?ts = "map unescape_token (split_on CHR ''/'' rest)"
  obtain m con m' d where m: "root = (JObj m, con)" "set_tokens m ?ts v = Some (m', d)"
      "root' = (JObj m', con \<or> d)" "c = CHR ''/''"
    using assms(1) Cons by (cases root) (auto simp: set_pointer_def split: if_splits json.splits option.splits)
  have "get_pointer (JObj m) q = Some (json_of_scalar w) \<Longrightarrow> get_pointer (JObj m') q = Some (json_of_scalar w)"
    for q w
    using set_tokens_keeps [OF m(2)] by (cases q) (auto simp: get_pointer_def split: if_splits)
  moreover have "root_ok root'"
    using assms(2) m set_tokens_fresh by (auto simp: root_ok_def)
  ultimately show ?thesis
    using m Cons set_tokens_get [OF m(2)] by (auto simp: kept_def get_pointer_def)
qed

lemma fold_set_pointer:
  assumes step: "\<And>e r r'. f e r = Some r' \<Longrightarrow> \<exists>v\<in>vals e. set_pointer (ptr e) v r = Some r'"
  shows "fold_option f es root = Some root' \<Longrightarrow> root_ok root \<Longrightarrow>
    root_ok root' \<and> kept (fst root) (fst root') \<and>
    (\<forall>e\<in>set es. \<exists>v\<in>vals e. get_pointer (fst root') (ptr e) = Some (json_of_scalar v))"
proof (induction es arbitrary: root)
  case Nil
  then show ?case by (simp add: kept_def)
next
  case (Cons e es)
  then obtain r where r: "f e root = Some r" "fold_option f es r = Some root'"
    by (auto split: option.splits)
  obtain v where v: "v \<in> vals e" "set_pointer (ptr e) v root = Some r"
    using step [OF r(1)] by blast
  note s = set_pointer_step [OF v(2) Cons.prems(2)]
  with Cons.IH [OF r(2)] v(1) show ?case
    by (auto intro: kept_trans simp: kept_def)
qed
lemma map_option_list_upt:
  "map_option_list f [0..<n] = Some ys \<Longrightarrow> length ys = n \<and> (\<forall>i<n. f i = Some (ys ! i))"
  by (drule map_option_list_SomeD) auto

section \<open>Merged conditions\<close>

lemma map_of_merge_pointers:
  "distinct (map fst bs) \<Longrightarrow>
   map_of (fold merge_pointer bs m) k =
     (case map_of bs k of
        None \<Rightarrow> map_of m k
      | Some vb \<Rightarrow> (case map_of m k of None \<Rightarrow> Some vb
                   | Some e \<Rightarrow> Some (filter (\<lambda>v. scalar_key v \<in> scalar_key ` set vb) e)))"
proof (induction bs arbitrary: m)
  case (Cons b bs)
  obtain p vs where b: "b = (p, vs)" by (cases b)
  have "map_of bs p = None" if "k = p"
    using Cons.prems b by (auto simp: map_of_eq_None_iff)
  with Cons b show ?case
    by (auto simp: merge_pointer_def split: option.splits)
qed simp

lemma merged_pointers_covers:
  assumes "distinct (map fst (nb_pointers a))" "distinct (map fst (nb_pointers b))"
    and "(p, vs) \<in> set (nb_pointers a) \<or> (p, vs) \<in> set (nb_pointers b)"
  shows "\<exists>ws. (p, ws) \<in> set (merged_pointers a b) \<and> set ws \<subseteq> set vs"
proof -
  have mem: "map_of (nb_pointers a) p = Some vs \<or> map_of (nb_pointers b) p = Some vs"
    using assms by simp
  have "map_of (amap_merge [] (nb_pointers a)) p = map_of (nb_pointers a) p"
    using assms(1) by (simp add: map_of_amap_merge)
  then have "\<exists>ws. map_of (merged_pointers a b) p = Some ws \<and> set ws \<subseteq> set vs"
    using mem unfolding merged_pointers_def map_of_merge_pointers [OF assms(2)]
    by (auto split: option.splits)
  then show ?thesis
    by (auto dest: map_of_SomeD)
qed

definition arguments_wf :: "field_arguments \<Rightarrow> bool" where
  "arguments_wf fa \<longleftrightarrow> (\<forall>(path, args)\<in>set fa. distinct (map fst args))"

lemma pick_arguments_ok:
  assumes "pick_arguments a b = Some picked"
    and "c = a \<or> c = b" "c = Some args" "distinct (map fst args)" "(n, vs) \<in> set args"
  shows "\<exists>v\<in>set vs. map_of picked n = Some v"
proof -
  define ea where "ea = (case a of None \<Rightarrow> [] | Some x \<Rightarrow> x)"
  define eb where "eb = (case b of None \<Rightarrow> [] | Some x \<Rightarrow> x)"
  define names where "names = js_unique (map fst ea @ map fst eb)"
  define pick where "pick name = (case map_of ea name of
      None \<Rightarrow> (case map_of eb name of Some (v # vs) \<Rightarrow> Some v | _ \<Rightarrow> None)
    | Some va \<Rightarrow> (case map_of eb name of None \<Rightarrow> (case va of [] \<Rightarrow> None | v # vs \<Rightarrow> Some v)
                 | Some vb \<Rightarrow> find (\<lambda>v. v \<in> set vb) va))" for name
  have all: "map_option_list (\<lambda>name. map_option (Pair name) (pick name)) names = Some picked"
    using assms(1) unfolding pick_arguments_def Let_def ea_def eb_def names_def pick_def .
  note P = map_option_list_SomeD [OF all]
  have fsts: "map fst picked = names"
  proof (rule nth_equalityI)
    fix i
    assume "i < length (map fst picked)"
    then obtain z where "pick (names ! i) = Some z" "(names ! i, z) = picked ! i" "i < length picked"
      using P by auto
    then show "map fst picked ! i = names ! i" by (metis fst_conv nth_map)
  qed (simp add: P)
  have "n \<in> set names"
    using assms(2,3,5) by (force simp: names_def ea_def eb_def split: option.splits)
  then obtain i where i: "i < length names" "names ! i = n" by (auto simp: in_set_conv_nth)
  with P have "\<exists>z. pick n = Some z \<and> (n, z) = picked ! i" by auto
  then obtain v where v: "picked ! i = (n, v)" "pick n = Some v" by force
  then have "(n, v) \<in> set picked" using i P by (metis nth_mem)
  moreover have "distinct (map fst picked)" by (simp add: fsts names_def)
  ultimately have "map_of picked n = Some v" by simp
  moreover have "map_of args n = Some vs" using assms(4,5) by simp
  then have "v \<in> set vs"
    using v(2) assms(2,3) unfolding pick_def ea_def eb_def
    by (auto split: option.splits list.splits dest: find_SomeD)
  ultimately show ?thesis by blast
qed

lemma chain_paths_permitted:
  assumes "leaf \<in> set ps" "i < length (graphql_path_chain leaf)"
  shows "path_permitted ps \<lparr>fo_path = graphql_path_chain leaf ! i,
    fo_leaf = (i = length (graphql_path_chain leaf) - 1), fo_argument_values = vs, fo_unresolved = us\<rparr>"
  using assms by (auto simp: path_permitted_def graphql_path_chain_def nth_append intro!: bexI [of _ leaf])

lemma document_for_leaf_satisfies:
  assumes d: "document_for_leaf a b operation leaf = Some doc"
    and wf: "arguments_wf (ng_field_arguments a)" "\<And>g. b = Some g \<Longrightarrow> arguments_wf (ng_field_arguments g)"
    and c: "c = a \<or> b = Some c" "operation \<in> set (ng_operations c)" "leaf \<in> set (ng_field_paths c)"
  shows "satisfies_document c (wd_facts doc) = TrueT"
proof -
  let ?chain = "graphql_path_chain leaf"
  let ?pick = "\<lambda>i. pick_arguments (map_of (ng_field_arguments a) (?chain ! i))
                  (case b of None \<Rightarrow> None | Some gb \<Rightarrow> map_of (ng_field_arguments gb) (?chain ! i))"
  let ?f = "\<lambda>i. case ?pick i of None \<Rightarrow> None
     | Some values \<Rightarrow> Some \<lparr>fo_path = ?chain ! i, fo_leaf = (i = length ?chain - 1),
                     fo_argument_values = values, fo_unresolved = []\<rparr>"
  obtain occs where occs: "map_option_list ?f [0..<length ?chain] = Some occs"
      "wd_facts doc = \<lparr>gd_operations = [operation], gd_fields = occs\<rparr>"
    using d by (auto simp: document_for_leaf_def Let_def split: option.splits)
  note P = map_option_list_upt [OF occs(1)]
  have occ: "\<exists>values. ?pick i = Some values \<and> occs ! i = \<lparr>fo_path = ?chain ! i, fo_leaf = (i = length ?chain - 1),
      fo_argument_values = values, fo_unresolved = []\<rparr>" if "i < length ?chain" for i
  proof -
    have "?f i = Some (occs ! i)" using P that by auto
    then show ?thesis by (auto split: option.splits)
  qed
  have len: "length occs = length ?chain" "?chain \<noteq> []" using P by (auto simp: graphql_path_chain_def)
  have args: "arguments_wf (ng_field_arguments c)" using wf c(1) by auto
  have "selection_satisfies (ng_field_paths c) (ng_field_arguments c) (Some \<lparr>gd_operations = [operation], gd_fields = occs\<rparr>) = TrueT"
  proof (rule selection_satisfies_TrueI)
    have "fo_leaf (occs ! (length ?chain - 1))"
      using occ [of "length ?chain - 1"] len by auto
    then have "\<exists>f\<in>set occs. fo_leaf f"
      using len by (metis diff_less length_greater_0_conv nth_mem zero_less_one)
    moreover have "fo_unresolved f = []" if f: "f \<in> set occs" for f
    proof -
      obtain i where "i < length ?chain" "f = occs ! i"
        using f len by (auto simp: in_set_conv_nth)
      with occ [of i] show ?thesis by auto
    qed
    ultimately show "\<not> selection_unknown (ng_field_arguments c) \<lparr>gd_operations = [operation], gd_fields = occs\<rparr>"
      by (auto simp: selection_unknown_def argument_unknown_def)
    show "selection_permitted (ng_field_paths c) (ng_field_arguments c) \<lparr>gd_operations = [operation], gd_fields = occs\<rparr>"
      unfolding selection_permitted_def
    proof (intro ballI conjI)
      fix f
      assume "f \<in> set (gd_fields \<lparr>gd_operations = [operation], gd_fields = occs\<rparr>)"
      then obtain i vals where i: "i < length ?chain" "?pick i = Some vals"
          "f = \<lparr>fo_path = ?chain ! i, fo_leaf = (i = length ?chain - 1), fo_argument_values = vals, fo_unresolved = []\<rparr>"
        using occ len by (metis in_set_conv_nth graphql_document.select_convs(2))
      then show "path_permitted (ng_field_paths c) f"
        using chain_paths_permitted c(3) by simp
      fix cond
      assume "cond \<in> set (arguments_of (ng_field_arguments c) (fo_path f))"
      then obtain cargs where cargs: "map_of (ng_field_arguments c) (?chain ! i) = Some cargs" "cond \<in> set cargs"
        using i(3) by (cases "map_of (ng_field_arguments c) (?chain ! i)") (auto simp: arguments_of_def)
      then have "distinct (map fst cargs)"
        using args by (auto simp: arguments_wf_def dest: map_of_SomeD)
      with i cargs c(1) show "argument_ok f cond"
        using pick_arguments_ok [OF i(2), of "map_of (ng_field_arguments c) (?chain ! i)" cargs "fst cond" "snd cond"]
        by (auto simp: argument_ok_def)
    qed
  qed
  then show ?thesis
    using occs(2) c(2) by (intro satisfies_document_TrueI) auto
qed
lemma document_for_satisfies:
  assumes d: "document_for a b = Some doc"
    and wf: "arguments_wf (ng_field_arguments a)" "\<And>g. b = Some g \<Longrightarrow> arguments_wf (ng_field_arguments g)"
  shows "wd_at doc = ng_at a \<and> satisfies_document a (wd_facts doc) = TrueT \<and>
    (\<forall>g. b = Some g \<longrightarrow> satisfies_document g (wd_facts doc) = TrueT)"
proof -
  obtain operation where op: "(case b of
        None \<Rightarrow> (case ng_operations a of [] \<Rightarrow> None | op # ops \<Rightarrow> Some op)
      | Some gb \<Rightarrow> find (\<lambda>op. op \<in> set (ng_operations gb)) (ng_operations a)) = Some operation"
    and f: "first_some (\<lambda>leaf.
            if (case b of None \<Rightarrow> False | Some gb \<Rightarrow> leaf \<notin> set (ng_field_paths gb)) then None
            else document_for_leaf a b operation leaf) (ng_field_paths a) = Some doc"
    using d unfolding document_for_def by (auto split: option.splits)
  obtain leaf where leaf: "leaf \<in> set (ng_field_paths a)" "document_for_leaf a b operation leaf = Some doc"
      "\<And>g. b = Some g \<Longrightarrow> leaf \<in> set (ng_field_paths g)"
    using first_some_SomeD [OF f] by (cases b) (auto split: if_splits)
  have ops: "operation \<in> set (ng_operations a)" "\<And>g. b = Some g \<Longrightarrow> operation \<in> set (ng_operations g)"
    using op by (auto split: option.splits list.splits dest: find_SomeD)
  have "wd_at doc = ng_at a"
    using leaf(2) by (auto simp: document_for_leaf_def Let_def split: option.splits)
  with document_for_leaf_satisfies [OF leaf(2) wf] ops leaf show ?thesis
    by blast
qed

lemma merged_graphql_ok:
  assumes m: "merged_graphql a b = Some docs"
    and wf: "\<And>g. a = Some g \<or> b = Some g \<Longrightarrow> arguments_wf (ng_field_arguments g)"
    and c: "a = Some c \<or> b = Some c"
  shows "\<exists>doc\<in>set docs. wd_at doc = ng_at c \<and> satisfies_document c (wd_facts doc) = TrueT"
    and "distinct (map wd_at docs)"
proof -
  let ?ok = "\<lambda>doc g. wd_at doc = ng_at g \<and> satisfies_document g (wd_facts doc) = TrueT"
  have one: "?ok doc g" if "document_for g h = Some doc" "a = Some g \<or> b = Some g" "h = None \<or> a = h \<or> b = h"
    for doc g h
    using document_for_satisfies [OF that(1)] wf that by auto
  have two: "?ok doc g \<and> ?ok doc h" if "document_for g (Some h) = Some doc" "a = Some g" "b = Some h" "ng_at g = ng_at h"
    for doc g h
    using document_for_satisfies [OF that(1)] wf that by auto
  have "(\<exists>doc\<in>set docs. ?ok doc c) \<and> distinct (map wd_at docs)"
    using m c one two unfolding merged_graphql_def
    by (cases a; cases b) (auto split: option.splits if_splits)
  then show "\<exists>doc\<in>set docs. ?ok doc c" "distinct (map wd_at docs)" by blast+
qed

section \<open>Bodies and matches\<close>

text \<open>
  What configuration validation guarantees of a condition: values only with the json format,
  one entry per pointer and per argument, and slash-free segment sets.
\<close>

definition body_valid :: "normalized_body \<Rightarrow> bool" where
  "body_valid c \<longleftrightarrow>
     (nb_format c = Some FormatJson \<or> nb_pointers c = [] \<and> nb_graphql c = None) \<and>
     distinct (map fst (nb_pointers c)) \<and>
     (case nb_graphql c of None \<Rightarrow> True | Some g \<Rightarrow> arguments_wf (ng_field_arguments g))"

definition match_valid :: "compiled_match \<Rightarrow> bool" where
  "match_valid m \<longleftrightarrow> list_all path_ok (cm_paths m) \<and> body_valid (cm_body m)"

lemma body_witness_json:
  assumes v: "body_valid a" "body_valid b" and q: "\<not> has_query_string path"
    and p: "fold_option set_first (merged_pointers a b) (JObj [], False) = Some root"
    and g: "merged_graphql (nb_graphql a) (nb_graphql b) = Some docs"
    and d: "fold_option set_document docs root = Some (value, constrained)"
    and c: "c = a \<or> c = b"
  shows "evaluate_content c (BodyJson value (amap_merge [] (map (\<lambda>d. (wd_at d, wd_facts d)) docs))) path = TrueT"
proof (rule evaluate_content_TrueI)
  have "root_ok root \<and> kept (fst (JObj [], False)) (fst root) \<and>
      (\<forall>e\<in>set (merged_pointers a b). \<exists>v\<in>set (snd e). get_pointer (fst root) (fst e) = Some (json_of_scalar v))"
  proof (rule fold_set_pointer [OF _ p])
    show "\<exists>v\<in>set (snd e). set_pointer (fst e) v r = Some r'" if "set_first e r = Some r'" for e r r'
      using that by (cases e) (auto simp: set_first_def split: list.splits)
  qed (simp add: root_ok_def)
  moreover have "root_ok (value, constrained) \<and> kept (fst root) (fst (value, constrained)) \<and>
      (\<forall>e\<in>set docs. \<exists>v\<in>{SStr (wd_text e)}. get_pointer (fst (value, constrained)) (wd_at e) = Some (json_of_scalar v))"
    by (rule fold_set_pointer [OF _ d]) (use calculation in \<open>auto simp: set_document_def\<close>)
  ultimately have ptr: "\<exists>v\<in>set vs. get_pointer value p = Some (json_of_scalar v)"
    if "(p, vs) \<in> set (merged_pointers a b)" for p vs
    using that by (fastforce simp: kept_def)
  fix p vs
  assume "(p, vs) \<in> set (nb_pointers c)"
  then obtain ws where "(p, ws) \<in> set (merged_pointers a b)" "set ws \<subseteq> set vs"
    using merged_pointers_covers [of a b p vs] v c by (auto simp: body_valid_def)
  with ptr show "evaluate_pointer value p vs = TrueT"
    by (fastforce simp: evaluate_pointer_def scalar_of_json_iff dest!: get_resolve_pointer
        split: option.splits)
next
  fix g
  assume "nb_graphql c = Some g"
  then have c': "nb_graphql a = Some g \<or> nb_graphql b = Some g" using c by auto
  have wf: "arguments_wf (ng_field_arguments h)" if "nb_graphql a = Some h \<or> nb_graphql b = Some h" for h
    using that v by (auto simp: body_valid_def)
  obtain doc where doc: "doc \<in> set docs" "wd_at doc = ng_at g" "satisfies_document g (wd_facts doc) = TrueT"
    using merged_graphql_ok(1) [OF g wf c'] by blast
  have "distinct (map fst (map (\<lambda>d. (wd_at d, wd_facts d)) docs))"
    using merged_graphql_ok(2) [OF g wf c'] by (simp add: comp_def)
  with doc have "map_of (amap_merge [] (map (\<lambda>d. (wd_at d, wd_facts d)) docs)) (ng_at g) = Some (wd_facts doc)"
    by (simp add: map_of_amap_merge) (metis (mono_tags, lifting) image_eqI)
  with doc(3) q show "evaluate_graphql g value (amap_merge [] (map (\<lambda>d. (wd_at d, wd_facts d)) docs)) path = TrueT"
    by (simp add: evaluate_graphql_def)
qed

lemma body_witness_accepted:
  assumes w: "body_witness a b = Some body" and v: "body_valid a" "body_valid b"
    and q: "\<not> has_query_string path" and c: "c = a \<or> c = b"
  shows "evaluate_body c body path = TrueT"
proof (cases "nb_format c")
  case None
  then show ?thesis by (simp add: evaluate_body_def)
next
  case (Some f)
  consider (empty) "intersect_format (nb_format a) (nb_format b) = Some (Some FormatNone)" "body = BodyEmpty"
    | (json) val docs where "body = BodyJson val docs" "evaluate_content c body path = TrueT"
        "intersect_format (nb_format a) (nb_format b) \<noteq> Some (Some FormatNone)"
        "intersect_format (nb_format a) (nb_format b) \<noteq> None"
  proof -
    have "intersect_format (nb_format a) (nb_format b) \<noteq> Some None"
      using Some c by (auto simp: intersect_format_def split: if_splits)
    then show ?thesis
      using w that body_witness_json [OF v q _ _ _ c]
      by (auto simp: body_witness_def split: option.splits body_format.splits)
  qed
  then show ?thesis
  proof cases
    case empty
    then have "f \<noteq> FormatJson"
      using Some c by (auto simp: intersect_format_def split: if_splits)
    with Some empty v c have "evaluate_content c body path = TrueT"
      by (auto simp: body_valid_def evaluate_content_trivial)
    with Some empty \<open>f \<noteq> FormatJson\<close> show ?thesis
      by (intro evaluate_body_TrueI) auto
  next
    case (json val docs)
    then have "f \<noteq> FormatNone"
      using Some c by (auto simp: intersect_format_def split: if_splits)
    with Some json show ?thesis
      by (intro evaluate_body_TrueI) auto
  qed
qed

lemma method_witness_accepted:
  "method_witness a b = Some m \<Longrightarrow> method_accepts a m \<and> method_accepts b m"
  by (cases a; cases b) (auto simp: method_accepts_def split: list.splits dest: find_SomeD)

text \<open>
  the witness of two conflicting rules is real. A request built by
  matchIntersectionWitness for two validated conditions is accepted by both of them, so an
  overlap error that shows one is never spurious.
\<close>

theorem match_intersection_witness_accepted:
  assumes "match_intersection_witness a b = Some r" "match_valid a" "match_valid b"
    and "\<not> has_query_string (rq_path r)"
  shows "accepts a r \<and> accepts b r"
proof -
  obtain body where w: "method_witness (cm_methods a) (cm_methods b) = Some (rq_method r)"
      "path_witness (cm_paths a) (cm_paths b) = Some (rq_path r)"
      "body_witness (cm_body a) (cm_body b) = Some body" "rq_body r = body"
    using assms(1) by (auto simp: match_intersection_witness_def split: option.splits)
  then show ?thesis
    using assms method_witness_accepted [OF w(1)] path_witness_matches [OF w(2)]
      body_witness_accepted [OF w(3), of "rq_path r"]
    by (auto simp: accepts_iff body_accepts_def match_valid_def list_all_iff)
qed

theorem match_intersection_witness_accepted_witness:
  "\<exists>a b r. compile_match private_issue = Inr a \<and> compile_match json_under_v1 = Inr b \<and>
     match_intersection_witness a b = Some r \<and> rq_path r = ''/v1/acme/issues'' \<and> accepts a r \<and> accepts b r"
proof -
  have "case compile_match private_issue of Inl e \<Rightarrow> False | Inr a \<Rightarrow>
      (case compile_match json_under_v1 of Inl e \<Rightarrow> False | Inr b \<Rightarrow>
      (case match_intersection_witness a b of None \<Rightarrow> False | Some r \<Rightarrow>
       rq_path r = ''/v1/acme/issues'' \<and> \<not> has_query_string (rq_path r) \<and>
       body_valid (cm_body a) \<and> body_valid (cm_body b) \<and>
       list_all (\<lambda>p. cp_segments p \<noteq> [] \<and> list_all segment_ok (cp_segments p)) (cm_paths a) \<and>
       list_all (\<lambda>p. cp_segments p \<noteq> [] \<and> list_all segment_ok (cp_segments p)) (cm_paths b)))"
    unfolding body_valid_def arguments_wf_def by code_simp
  then obtain a b r where ab: "compile_match private_issue = Inr a" "compile_match json_under_v1 = Inr b"
      "match_intersection_witness a b = Some r" "rq_path r = ''/v1/acme/issues''"
      "\<not> has_query_string (rq_path r)" "match_valid a" "match_valid b"
    by (cases "compile_match private_issue"; cases "compile_match json_under_v1")
      (auto simp: match_valid_def path_ok_def list_all_iff split: option.splits)
  with match_intersection_witness_accepted [OF ab(3,6,7,5)] show ?thesis by blast
qed

end
