(* ===== verification/RuleChecks.thy ===== *)
theory RuleChecks
  imports AuthzConfig Witness
begin

text \<open>
  Compilation and checking of one scope (\<open>src/network/authz/validate.ts\<close>, from
  \<open>compileScope\<close> to \<open>checkInjects\<close>). A check pushes onto a shared list of diagnostics; here it
  returns the diagnostics it would push, and its caller concatenates them in the same order.
  A diagnostic is a constructor with the values its message shows; the wording is not
  modelled.
\<close>

section \<open>Diagnostics\<close>

text \<open>The failures of \<open>checkBodyConditions\<close> and \<open>checkGraphqlCondition\<close>.\<close>

datatype condition_error =
    EqualsPointerInvalid string
  | EqualsScalarInvalid string
  | OneOfPointerInvalid string
  | OneOfEmpty string
  | OneOfScalarInvalid string
  | GraphqlUnknownKey string
  | GraphqlAtInvalid string
  | OperationsEmpty
  | FieldPathsMissing
  | FieldPathsEmpty
  | FieldPathInvalid string
  | ArgumentPathInvalid string
  | ArgumentPathUnreachable string
  | ArgumentsEmpty string
  | ArgumentNameInvalid string string
  | ArgumentValuesEmpty string string

datatype site = SiteDefaults | SiteScope string | SiteRule string

datatype body_field = FieldEquals | FieldOneOf | FieldAbsent | FieldGraphql

datatype diagnostic =
    NoTargets string
  | TargetInvalid string target_error
  | RuleKeyInvalid string string
  | PathPatternInvalid string pattern_error
  | NoPaths string
  | CaptureUnused string string
  | CaptureEmpty string string
  | MethodUnknown string string
  | BodyConditionNeedsJson string body_format body_field
  | MatchConditionInvalid string condition_error
  | MatchInvalid string pattern_error
  | ExpectNeedsJson string nat
  | ExpectConditionInvalid string nat condition_error
  | AllowViolationNeedsAudit string
  | AllowedEmpty string nat
  | PointerTooLong string nat body_field string
  | AbsentInvalid string nat string
  | AbsentRoot string nat
  | AbsentRequired string nat string
  | LimitExceeded site limit_key nat nat
  | InjectInvalid site string inject_error
  | InjectUnknownSecret site string
  | InjectMultipleValues site string
  | InjectNotInjectable site string secret_disposition
  | MaskProxyRequired string secret_disposition
  | ScopeConflict string string bool "target_address option"
  | IdCollision string
  | RuleConflict string string "authz_request option"
  | PrecedenceCycle string "string list"
  | OverridesSelf string
  | OverridesMissing string string
  | OverridesDisjoint string string
  | OverridesTooMany string nat nat
  | CoveredByAllow string string

fun is_error :: "diagnostic \<Rightarrow> bool" where
  "is_error (MethodUnknown rid m) = False"
| "is_error (OverridesTooMany scope n k) = False"
| "is_error (CoveredByAllow narrow wide) = False"
| "is_error d = True"

section \<open>Body conditions\<close>

fun tildes_ok :: "string \<Rightarrow> bool" where
  "tildes_ok [] = True"
| "tildes_ok (c # cs) =
     ((c = CHR ''~'' \<longrightarrow> (case cs of [] \<Rightarrow> False | d # ds \<Rightarrow> d = CHR ''0'' \<or> d = CHR ''1'')) \<and> tildes_ok cs)"

definition is_valid_json_pointer :: "string \<Rightarrow> bool" where
  "is_valid_json_pointer p \<longleftrightarrow> p = '''' \<or> prefix ''/'' p \<and> tildes_ok p"

fun is_finite_json_scalar :: "scalar \<Rightarrow> bool" where
  "is_finite_json_scalar (SNum n) = (n \<notin> {''NaN'', ''Infinity'', ''-Infinity''})"
| "is_finite_json_scalar v = True"

definition opt_list :: "'a list option \<Rightarrow> 'a list" where
  "opt_list x = (case x of None \<Rightarrow> [] | Some xs \<Rightarrow> xs)"

definition check_graphql_arguments ::
  "string list \<Rightarrow> string list \<Rightarrow> string \<times> (string \<times> string list) list \<Rightarrow> condition_error list"
where
  "check_graphql_arguments leaves ancestors e =
     (case e of (path, args) \<Rightarrow>
        (if \<not> is_graphql_field_path path then [ArgumentPathInvalid path]
         else if path \<notin> set leaves \<and> path \<notin> set ancestors then [ArgumentPathUnreachable path]
         else []) @
        (if args = [] then [ArgumentsEmpty path] else []) @
        concat (map (\<lambda>(name, values).
           (if \<not> is_graphql_name name then [ArgumentNameInvalid path name] else []) @
           (if values = [] then [ArgumentValuesEmpty path name] else [])) args))"

definition check_graphql_condition :: "graphql_match \<Rightarrow> condition_error list" where
  "check_graphql_condition g =
     (let leaves = js_unique (filter is_graphql_field_path (opt_list (gm_field_paths g)));
          ancestors = graphql_path_prefixes leaves
      in map GraphqlUnknownKey (gm_unknown_keys g) @
         (case gm_at g of None \<Rightarrow> []
          | Some at \<Rightarrow> (if \<not> is_valid_json_pointer at then [GraphqlAtInvalid at] else [])) @
         (if gm_operations g = [] then [OperationsEmpty] else []) @
         (case gm_field_paths g of None \<Rightarrow> [FieldPathsMissing]
          | Some ps \<Rightarrow> (if ps = [] then [FieldPathsEmpty] else [])) @
         map FieldPathInvalid (filter (\<lambda>p. \<not> is_graphql_field_path p) (opt_list (gm_field_paths g))) @
         concat (map (check_graphql_arguments leaves ancestors) (opt_list (gm_field_arguments g))))"

definition check_body_conditions ::
  "(string \<times> scalar) list option \<Rightarrow> (string \<times> scalar list) list option \<Rightarrow> graphql_match option \<Rightarrow>
   condition_error list"
where
  "check_body_conditions equals one_of graphql =
     concat (map (\<lambda>(pointer, v).
        (if \<not> is_valid_json_pointer pointer then [EqualsPointerInvalid pointer] else []) @
        (if \<not> is_finite_json_scalar v then [EqualsScalarInvalid pointer] else [])) (opt_list equals)) @
     concat (map (\<lambda>(pointer, vs).
        (if \<not> is_valid_json_pointer pointer then [OneOfPointerInvalid pointer] else []) @
        (if vs = [] then [OneOfEmpty pointer] else []) @
        (if \<not> list_all is_finite_json_scalar vs then [OneOfScalarInvalid pointer] else [])) (opt_list one_of)) @
     (case graphql of None \<Rightarrow> [] | Some g \<Rightarrow> check_graphql_condition g)"

text \<open>The result is the pair of the diagnostics and the flag \<open>broken\<close>.\<close>

definition check_body_match :: "string \<Rightarrow> body_match option \<Rightarrow> diagnostic list \<times> bool" where
  "check_body_match rid body =
     (case body of
        None \<Rightarrow> ([], False)
      | Some b \<Rightarrow>
          (let conditions = [(FieldEquals, opt_list (bm_equals b) \<noteq> []),
                             (FieldOneOf, opt_list (bm_one_of b) \<noteq> []),
                             (FieldGraphql, bm_graphql b \<noteq> None)];
               misplaced = map (\<lambda>(name, present). BodyConditionNeedsJson rid (bm_format b) name)
                  (filter (\<lambda>(name, present). \<not> (bm_format b = FormatJson \<or> \<not> present)) conditions);
               faults = check_body_conditions (bm_equals b) (bm_one_of b) (bm_graphql b)
           in (misplaced @ map (MatchConditionInvalid rid) faults, faults \<noteq> [] \<or> misplaced \<noteq> [])))"

section \<open>Matches\<close>

definition check_methods :: "string \<Rightarrow> string list option \<Rightarrow> diagnostic list" where
  "check_methods rid methods =
     map (MethodUnknown rid)
       (filter (\<lambda>m. normalize_method m \<notin> set known_http_methods) (opt_list methods))"

fun capture_name :: "pattern_segment \<Rightarrow> string list" where
  "capture_name (Capture name) = [name]"
| "capture_name s = []"

text \<open>The first loop of \<open>compileRuleMatch\<close>: its diagnostics, the names of the captures, \<open>broken\<close>.\<close>

fun check_paths :: "string \<Rightarrow> string list \<Rightarrow> diagnostic list \<times> string list \<times> bool" where
  "check_paths rid [] = ([], [], False)"
| "check_paths rid (source # rest) =
     (case check_paths rid rest of (ds, names, broken) \<Rightarrow>
        (case parse_path_pattern source of
           Inl e \<Rightarrow> (PathPatternInvalid rid e # ds, names, True)
         | Inr p \<Rightarrow> (ds, concat (map capture_name (pp_segments p)) @ names, broken)))"

definition check_captures :: "string \<Rightarrow> string list \<Rightarrow> (string \<times> string list) list \<Rightarrow> diagnostic list" where
  "check_captures rid names captures =
     concat (map (\<lambda>(name, values).
        if name \<notin> set names then [CaptureUnused rid name]
        else if values = [] then [CaptureEmpty rid name] else []) captures)"

definition compile_rule_match :: "string \<Rightarrow> rule_config \<Rightarrow> diagnostic list \<times> compiled_match option" where
  "compile_rule_match rid rule =
     (case check_paths rid (mc_paths (rc_match rule)) of (path_ds, names, path_broken) \<Rightarrow>
        (let no_paths = (mc_paths (rc_match rule) = []);
             captures_ds = check_captures rid names (opt_list (mc_captures (rc_match rule)));
             methods_ds = check_methods rid (mc_methods (rc_match rule))
         in case check_body_match rid (mc_body (rc_match rule)) of (body_ds, body_broken) \<Rightarrow>
              (let ds = path_ds @ (if no_paths then [NoPaths rid] else []) @ captures_ds @ methods_ds @ body_ds
               in if path_broken \<or> no_paths \<or> body_broken then (ds, None)
                  else (case compile_match (rc_match rule) of
                          Inl e \<Rightarrow> (ds @ [MatchInvalid rid e], None)
                        | Inr m \<Rightarrow> (ds, Some m)))))"

section \<open>Acceptance conditions\<close>

definition check_absent :: "string \<Rightarrow> nat \<Rightarrow> body_expect \<Rightarrow> diagnostic list" where
  "check_absent rid index e =
     (let required = map fst (opt_list (be_equals e)) @ map fst (opt_list (be_one_of e)) in
      concat (map (\<lambda>pointer.
        if \<not> is_valid_json_pointer pointer then [AbsentInvalid rid index pointer]
        else if pointer = '''' then [AbsentRoot rid index]
        else if pointer \<in> set required \<or> list_ex (\<lambda>other. prefix (pointer @ ''/'') other) required
        then [AbsentRequired rid index pointer]
        else []) (opt_list (be_absent e))))"

definition check_pointer_lengths :: "string \<Rightarrow> nat \<Rightarrow> body_expect \<Rightarrow> diagnostic list" where
  "check_pointer_lengths rid index e =
     concat (map (\<lambda>(field, pointers).
        map (PointerTooLong rid index field)
          (filter (\<lambda>p. \<not> length p \<le> max_body_expect_pointer_chars) pointers))
       [(FieldEquals, map fst (opt_list (be_equals e))),
        (FieldOneOf, map fst (opt_list (be_one_of e))),
        (FieldAbsent, opt_list (be_absent e))])"

definition check_expect_conditions :: "string \<Rightarrow> nat \<Rightarrow> expect \<Rightarrow> diagnostic list" where
  "check_expect_conditions rid index e =
     (case ex_check e of
        UnionShape u \<Rightarrow> (if us_allowed u = [] then [AllowedEmpty rid index] else [])
      | BodyCheck b \<Rightarrow>
          map (ExpectConditionInvalid rid index)
            (check_body_conditions (be_equals b) (be_one_of b) (be_graphql b)) @
          check_absent rid index b @ check_pointer_lengths rid index b
      | _ \<Rightarrow> [])"

definition check_expects :: "string \<Rightarrow> rule_config \<Rightarrow> audit_mode \<Rightarrow> diagnostic list" where
  "check_expects rid rule audit =
     (let expects = opt_list (rc_expect rule);
          format = map_option bm_format (mc_body (rc_match rule))
      in concat (map (\<lambda>(index, e).
           (if requires_json_body e \<and> format \<noteq> Some FormatJson then [ExpectNeedsJson rid index] else []) @
           check_expect_conditions rid index e) (enumerate 0 expects)) @
         (if \<not> list_ex (\<lambda>e. ex_on_violation e = Some VaAllow) expects then []
          else if audit \<noteq> AuditAlways then [AllowViolationNeedsAudit rid] else []))"

section \<open>Limits\<close>

definition check_limit ::
  "limits \<Rightarrow> site \<Rightarrow> resolved_limits \<Rightarrow> limit_key \<Rightarrow>
   diagnostic list \<times> resolved_limits \<Rightarrow> diagnostic list \<times> resolved_limits"
where
  "check_limit limits where inherited key state =
     (case state of (ds, effective) \<Rightarrow>
        (case limit_of limits key of
           None \<Rightarrow> (ds, effective)
         | Some v \<Rightarrow>
             (if v > resolved_limit inherited key
              then (ds @ [LimitExceeded where key v (resolved_limit inherited key)], effective)
              else (ds, set_limit key v effective))))"

definition check_limits ::
  "limits option \<Rightarrow> site \<Rightarrow> resolved_limits \<Rightarrow> diagnostic list \<times> resolved_limits"
where
  "check_limits limits where inherited =
     (case limits of
        None \<Rightarrow> ([], inherited)
      | Some l \<Rightarrow> fold (check_limit l where inherited) limit_keys ([], inherited))"

section \<open>Secrets and injections\<close>

definition merge_dispositions :: "disposition_map \<Rightarrow> disposition_map option \<Rightarrow> disposition_map" where
  "merge_dispositions base overlay =
     (case overlay of None \<Rightarrow> base | Some o' \<Rightarrow> amap_merge base o')"

definition disposition_of :: "disposition_map \<Rightarrow> string \<Rightarrow> secret_disposition" where
  "disposition_of dispositions name =
     (case map_of dispositions name of
        Some d \<Rightarrow> d
      | None \<Rightarrow> (case map_of dispositions ''*'' of Some d \<Rightarrow> d | None \<Rightarrow> SdMask))"

definition effective_inject :: "inject list option \<Rightarrow> inject list option \<Rightarrow> inject list" where
  "effective_inject scope rule =
     map snd (amap_merge [] (map (\<lambda>e. (ij_name e, e)) (opt_list scope @ opt_list rule)))"

text \<open>The keys of \<open>seenInjectFaults\<close>, one per prefix.\<close>

datatype inject_fault =
    FaultValue string
  | FaultUnknown string
  | FaultMulti string
  | FaultDisposition string secret_disposition

definition once :: "inject_fault \<Rightarrow> diagnostic \<Rightarrow> diagnostic list \<times> inject_fault list \<Rightarrow>
  diagnostic list \<times> inject_fault list"
where
  "once fault d state =
     (case state of (ds, seen) \<Rightarrow> if fault \<in> set seen then (ds, seen) else (ds @ [d], fault # seen))"

definition check_reference ::
  "site \<Rightarrow> disposition_map \<Rightarrow> (string \<times> secret_config) list \<Rightarrow> string \<Rightarrow>
   diagnostic list \<times> inject_fault list \<Rightarrow> diagnostic list \<times> inject_fault list"
where
  "check_reference where dispositions secrets name state =
     (case map_of secrets name of
        None \<Rightarrow> once (FaultUnknown name) (InjectUnknownSecret where name) state
      | Some secret \<Rightarrow>
          (let state1 = (if expands_to_multiple_values secret
                         then once (FaultMulti name) (InjectMultipleValues where name) state else state);
               disposition = disposition_of dispositions name
           in if disposition \<noteq> SdInject
              then once (FaultDisposition name disposition) (InjectNotInjectable where name disposition) state1
              else state1))"

definition check_inject ::
  "site \<Rightarrow> disposition_map \<Rightarrow> (string \<times> secret_config) list \<Rightarrow> inject \<Rightarrow>
   diagnostic list \<times> inject_fault list \<Rightarrow> diagnostic list \<times> inject_fault list"
where
  "check_inject where dispositions secrets entry state =
     (case parse_inject_value (ij_value entry) of
        Inl e \<Rightarrow> once (FaultValue (ij_value entry)) (InjectInvalid where (ij_name entry) e) state
      | Inr v \<Rightarrow> fold (check_reference where dispositions secrets) (inject_references v) state)"

definition check_injects ::
  "inject_fault list \<Rightarrow> site \<Rightarrow> inject list \<Rightarrow> disposition_map \<Rightarrow> (string \<times> secret_config) list \<Rightarrow>
   diagnostic list \<times> inject_fault list"
where
  "check_injects seen where injects dispositions secrets =
     fold (check_inject where dispositions secrets) injects ([], seen)"

section \<open>A scope\<close>

definition effective_audit :: "audit_mode option \<Rightarrow> audit_mode option \<Rightarrow> audit_mode option \<Rightarrow> audit_mode" where
  "effective_audit defaults scope rule =
     (case rule of Some a \<Rightarrow> a
      | None \<Rightarrow> (case scope of Some a \<Rightarrow> a
                 | None \<Rightarrow> (case defaults of Some a \<Rightarrow> a | None \<Rightarrow> default_audit_mode)))"

definition fallback_rule_id :: "string \<Rightarrow> string" where
  "fallback_rule_id scope_name = scope_name @ ''.'' @ fallback_rule_key"

definition rule_id :: "string \<Rightarrow> string \<Rightarrow> string" where
  "rule_id scope_name key = scope_name @ ''.'' @ key"

record compiled_rule =
  cr_scope_name :: string
  cr_key :: string
  cr_id :: string
  cr_config :: rule_config
  cr_match :: compiled_match

record compiled_scope =
  cs_name :: string
  cs_config :: scope_config
  cs_targets :: "target list"
  cs_rules :: "compiled_rule list"
  cs_dispositions :: disposition_map

record scope_context =
  cx_dispositions :: disposition_map
  cx_audit :: "audit_mode option"
  cx_secrets :: "(string \<times> secret_config) list"
  cx_limits :: resolved_limits

fun compile_targets :: "string \<Rightarrow> string list \<Rightarrow> diagnostic list \<times> target list" where
  "compile_targets name [] = ([], [])"
| "compile_targets name (source # rest) =
     (case compile_targets name rest of (ds, ts) \<Rightarrow>
        (case parse_target source of
           Inl e \<Rightarrow> (TargetInvalid name e # ds, ts)
         | Inr t \<Rightarrow> (ds, t # ts)))"

text \<open>
  One round of the loop over the rules; the state holds the diagnostics, the inject faults
  already reported in the scope, and the rules compiled so far.
\<close>

definition compile_rule ::
  "scope_context \<Rightarrow> string \<Rightarrow> scope_config \<Rightarrow> resolved_limits \<Rightarrow> disposition_map \<Rightarrow> string \<times> rule_config \<Rightarrow>
   diagnostic list \<times> inject_fault list \<times> compiled_rule list \<Rightarrow>
   diagnostic list \<times> inject_fault list \<times> compiled_rule list"
where
  "compile_rule context name config scope_limits dispositions entry state =
     (case (entry, state) of ((key, rule), (ds, seen, rules)) \<Rightarrow>
        (let rid = rule_id name key in
         if \<not> is_rule_key key then (ds @ [RuleKeyInvalid name key], seen, rules)
         else
           (let limit_ds = fst (check_limits (rc_limits rule) (SiteRule rid) scope_limits);
                rule_dispositions = merge_dispositions dispositions (rc_secrets rule);
                injects = check_injects seen (SiteRule rid) (effective_inject (sp_inject config) (rc_inject rule))
                            rule_dispositions (cx_secrets context);
                expect_ds = check_expects rid rule
                              (effective_audit (cx_audit context) (sp_audit config) (rc_audit rule));
                compiled = compile_rule_match rid rule;
                all = ds @ limit_ds @ fst injects @ expect_ds @ fst compiled
            in case snd compiled of
                 None \<Rightarrow> (all, snd injects, rules)
               | Some m \<Rightarrow>
                   (all, snd injects,
                    rules @ [\<lparr>cr_scope_name = name, cr_key = key, cr_id = rid, cr_config = rule, cr_match = m\<rparr>]))))"

definition compile_scope ::
  "scope_context \<Rightarrow> string \<Rightarrow> scope_config \<Rightarrow> diagnostic list \<times> compiled_scope"
where
  "compile_scope context name config =
     (let no_targets = (if sp_targets config = [] then [NoTargets name] else []);
          targets = compile_targets name (sp_targets config);
          limits = check_limits (sp_limits config) (SiteScope name) (cx_limits context);
          dispositions = merge_dispositions (cx_dispositions context) (sp_secrets config);
          injects = check_injects [] (SiteScope name) (opt_list (sp_inject config)) dispositions (cx_secrets context)
      in case fold (compile_rule context name config (snd limits) dispositions) (opt_list (sp_rules config))
                ([], snd injects, []) of
           (rule_ds, seen, rules) \<Rightarrow>
             (no_targets @ fst targets @ fst limits @ fst injects @ rule_ds,
              \<lparr>cs_name = name, cs_config = config, cs_targets = snd targets, cs_rules = rules,
               cs_dispositions = dispositions\<rparr>))"

end
