(* ===== verification/ConfigChecks.thy ===== *)
theory ConfigChecks
  imports RuleChecks
begin

text \<open>
  The checks across scopes and rules, and the compilation of a whole configuration
  (\<open>src/network/authz/validate.ts\<close>, \<open>compileAuthzConfig\<close> and \<open>checkMaskProxy\<close> to
  \<open>checkCoveringAllow\<close>). What an accepted configuration, one without an error, guarantees is
  proved in \<open>Accepted\<close>.
\<close>

section \<open>Masking at the proxy\<close>

definition mask_levels :: "compiled_scope \<Rightarrow> disposition_map list" where
  "mask_levels scope =
     cs_dispositions scope #
     map (\<lambda>rule. merge_dispositions (cs_dispositions scope) (rc_secrets (cr_config rule))) (cs_rules scope)"

definition masking_disposition :: "string \<times> secret_disposition \<Rightarrow> secret_disposition option" where
  "masking_disposition e = (if snd e \<noteq> SdMask \<and> snd e \<noteq> SdForbid then None else Some (snd e))"

definition check_mask_proxy :: "authz_config \<Rightarrow> compiled_scope list \<Rightarrow> diagnostic list" where
  "check_mask_proxy config scopes =
     (case ac_mask config of
        None \<Rightarrow> []
      | Some m \<Rightarrow>
          (if mk_proxy m \<noteq> Some False then []
           else (case first_some (\<lambda>scope.
                    first_some (\<lambda>level. map_option (MaskProxyRequired (cs_name scope))
                      (first_some masking_disposition level)) (mask_levels scope)) scopes of
                   None \<Rightarrow> [] | Some d \<Rightarrow> [d])))"

section \<open>Pairs of scopes and rules\<close>

text \<open>\<open>for (i) for (j = i + 1)\<close>: the ordered pairs of a list.\<close>

fun pairs :: "'a list \<Rightarrow> ('a \<times> 'a) list" where
  "pairs [] = []"
| "pairs (x # xs) = map (Pair x) xs @ pairs xs"

definition check_scope_pair :: "compiled_scope \<times> compiled_scope \<Rightarrow> diagnostic list" where
  "check_scope_pair p =
     (case p of (a, b) \<Rightarrow>
        (if \<not> target_sets_intersect (cs_targets a) (cs_targets b) then []
         else (let order = compare_target_specificity (cs_targets a) (cs_targets b) in
           if order = Narrower \<or> order = Wider then []
           else [ScopeConflict (cs_name a) (cs_name b) (order = Equivalent)
                   (target_intersection_witness (cs_targets a) (cs_targets b))])))"

definition check_scope_overlaps :: "compiled_scope list \<Rightarrow> diagnostic list" where
  "check_scope_overlaps scopes = concat (map check_scope_pair (pairs scopes))"

definition id_declarations :: "compiled_scope list \<Rightarrow> string list" where
  "id_declarations scopes =
     concat (map (\<lambda>scope. fallback_rule_id (cs_name scope) # map cr_id (cs_rules scope)) scopes)"

fun check_ids :: "string list \<Rightarrow> string list \<Rightarrow> diagnostic list" where
  "check_ids seen [] = []"
| "check_ids seen (i # rest) =
     (if i \<notin> set seen then check_ids (seen @ [i]) rest else IdCollision i # check_ids seen rest)"

definition check_effective_id_collisions :: "compiled_scope list \<Rightarrow> diagnostic list" where
  "check_effective_id_collisions scopes = check_ids [] (id_declarations scopes)"

definition overrides_of :: "compiled_rule \<Rightarrow> string list" where
  "overrides_of rule = opt_list (rc_overrides (cr_config rule))"

definition either_names_the_other :: "compiled_rule \<Rightarrow> compiled_rule \<Rightarrow> bool" where
  "either_names_the_other a b \<longleftrightarrow> cr_key b \<in> set (overrides_of a) \<or> cr_key a \<in> set (overrides_of b)"

definition check_rule_pair :: "compiled_rule \<times> compiled_rule \<Rightarrow> diagnostic list" where
  "check_rule_pair p =
     (case p of (a, b) \<Rightarrow>
        (if \<not> matches_intersect (cr_match a) (cr_match b) then []
         else if compare_specificity (cr_match a) (cr_match b) \<noteq> Incomparable then []
         else if either_names_the_other a b then []
         else [RuleConflict (cr_id a) (cr_id b) (match_intersection_witness (cr_match a) (cr_match b))]))"

definition check_rule_overlaps :: "compiled_scope \<Rightarrow> diagnostic list" where
  "check_rule_overlaps scope = concat (map check_rule_pair (pairs (cs_rules scope)))"

definition rule_precedes :: "compiled_rule \<Rightarrow> compiled_rule \<Rightarrow> bool" where
  "rule_precedes a b =
     (if cr_key b \<in> set (overrides_of a) then True
      else if cr_key a \<in> set (overrides_of b) then False
      else compare_specificity (cr_match a) (cr_match b) = Narrower)"

definition check_precedence_cycles :: "compiled_scope \<Rightarrow> diagnostic list" where
  "check_precedence_cycles scope =
     (case precedence_order (\<lambda>a b i j. rule_precedes a b) (cs_rules scope) of
        Inr ordered \<Rightarrow> []
      | Inl cycle \<Rightarrow> [PrecedenceCycle (cs_name scope) (map cr_key cycle)])"

text \<open>\<open>byKey\<close>: \<open>new Map\<close> of pairs keeps the last rule of a key.\<close>

definition check_override :: "compiled_scope \<Rightarrow> compiled_rule \<Rightarrow> string \<Rightarrow> diagnostic list" where
  "check_override scope rule key =
     (if key = cr_key rule then [OverridesSelf (cr_id rule)]
      else (case map_of (rev (map (\<lambda>r. (cr_key r, r)) (cs_rules scope))) key of
              None \<Rightarrow> [OverridesMissing (cr_id rule) key]
            | Some other \<Rightarrow>
                (if \<not> matches_intersect (cr_match rule) (cr_match other)
                 then [OverridesDisjoint (cr_id rule) (cr_id other)] else [])))"

definition check_overrides :: "compiled_scope \<Rightarrow> diagnostic list" where
  "check_overrides scope =
     (let rules = cs_rules scope; total = sum_list (map (\<lambda>r. length (overrides_of r)) rules) in
      concat (map (\<lambda>rule. concat (map (check_override scope rule) (overrides_of rule))) rules) @
      (if total > length rules \<and> length rules > 0
       then [OverridesTooMany (cs_name scope) total (length rules)] else []))"

text \<open>\<open>wide === narrow\<close> is identity of the compiled rule, that is of its position.\<close>

definition check_covering_allow :: "compiled_scope \<Rightarrow> diagnostic list" where
  "check_covering_allow scope =
     (let rules = cs_rules scope in
      concat (map (\<lambda>i.
        let narrow = rules ! i in
        if mc_body (rc_match (cr_config narrow)) = None then []
        else concat (map (\<lambda>j.
          let wide = rules ! j in
          if j = i then []
          else if rc_on_match (cr_config wide) \<noteq> ActAllow then []
          else if mc_body (rc_match (cr_config wide)) \<noteq> None then []
          else if \<not> match_subsumes (cr_match narrow) (cr_match wide) then []
          else [CoveredByAllow (cr_id narrow) (cr_id wide)]) [0..<length rules]))
        [0..<length rules]))"

section \<open>A configuration\<close>

record compile_outcome =
  co_scopes :: "compiled_scope list"
  co_diagnostics :: "diagnostic list"

definition base_dispositions :: "authz_config \<Rightarrow> disposition_map" where
  "base_dispositions config =
     amap_merge default_secret_dispositions
       (case nc_defaults (ac_network config) of None \<Rightarrow> [] | Some d \<Rightarrow> opt_list (nd_secrets d))"

definition compile_authz_config :: "authz_config \<Rightarrow> compile_outcome" where
  "compile_authz_config config =
     (let defaults = nc_defaults (ac_network config);
          limits = check_limits (case defaults of None \<Rightarrow> None | Some d \<Rightarrow> nd_limits d) SiteDefaults limit_ceilings;
          context = \<lparr>cx_dispositions = base_dispositions config,
                     cx_audit = (case defaults of None \<Rightarrow> None | Some d \<Rightarrow> nd_audit d),
                     cx_secrets = opt_list (ac_secrets config),
                     cx_limits = snd limits\<rparr>;
          compiled = map (\<lambda>(name, scope). compile_scope context name scope) (nc_scopes (ac_network config));
          scopes = map snd compiled
      in \<lparr>co_scopes = scopes,
          co_diagnostics =
            fst limits @ concat (map fst compiled) @
            check_scope_overlaps scopes @ check_effective_id_collisions scopes @
            concat (map (\<lambda>scope. check_rule_overlaps scope @ check_overrides scope @
                                 check_precedence_cycles scope @ check_covering_allow scope) scopes) @
            check_mask_proxy config scopes\<rparr>)"

definition validate_authz_config :: "authz_config \<Rightarrow> diagnostic list" where
  "validate_authz_config config = co_diagnostics (compile_authz_config config)"

text \<open>A configuration a session starts with: no diagnostic is an error.\<close>

definition accepted :: "authz_config \<Rightarrow> bool" where
  "accepted config \<longleftrightarrow> \<not> list_ex is_error (validate_authz_config config)"

end
