(* ===== verification/Accepted.thy ===== *)
theory Accepted
  imports ConfigChecks
begin

text \<open>
  What a configuration without an error guarantees (\<open>src/network/authz/validate.ts\<close>): no
  rule is dropped on the way, the scopes that compete for an address and the rules that
  compete for a request are ordered, every precedence can be laid out, effective ids are
  unique, and whatever is injected is injectable. Each guarantee is what a later stage
  (\<open>resolve.ts\<close>, the broker) relies on.
\<close>

section \<open>Lists without an error\<close>

definition err_free :: "diagnostic list \<Rightarrow> bool" where
  "err_free ds \<longleftrightarrow> \<not> list_ex is_error ds"

lemma err_free_simps [simp]:
  "err_free []"
  "err_free (d # ds) \<longleftrightarrow> \<not> is_error d \<and> err_free ds"
  "err_free (xs @ ys) \<longleftrightarrow> err_free xs \<and> err_free ys"
  by (auto simp: err_free_def)

lemma err_free_concat [simp]: "err_free (concat xss) \<longleftrightarrow> (\<forall>xs\<in>set xss. err_free xs)"
  by (induction xss) auto

lemma err_free_map: "(\<And>x. is_error (f x)) \<Longrightarrow> err_free (map f xs) \<longleftrightarrow> xs = []"
  by (cases xs) auto

lemma accepted_err_free: "accepted config \<longleftrightarrow> err_free (validate_authz_config config)"
  by (simp add: accepted_def err_free_def)

section \<open>Rules\<close>

lemma check_paths_clean:
  "err_free (fst (check_paths rid ps)) \<Longrightarrow>
   \<not> snd (snd (check_paths rid ps)) \<and> (\<forall>p\<in>set ps. \<exists>q. parse_path_pattern p = Inr q)"
  by (induction ps) (auto split: sum.splits prod.splits)

lemma check_body_match_clean:
  assumes "err_free (fst (check_body_match rid body))"
  shows "\<not> snd (check_body_match rid body)"
proof (cases body)
  case (Some b)
  then show ?thesis
    using assms by (auto simp: check_body_match_def Let_def err_free_map split: if_splits)
qed (simp add: check_body_match_def)

lemma compile_rule_match_clean:
  assumes "err_free (fst (compile_rule_match rid rule))"
  shows "\<exists>m. snd (compile_rule_match rid rule) = Some m \<and> compile_match (rc_match rule) = Inr m \<and>
    mc_paths (rc_match rule) \<noteq> [] \<and> err_free (fst (check_body_match rid (mc_body (rc_match rule)))) \<and>
    err_free (check_captures rid (fst (snd (check_paths rid (mc_paths (rc_match rule)))))
      (opt_list (mc_captures (rc_match rule))))"
  using assms check_paths_clean [of rid "mc_paths (rc_match rule)"]
    check_body_match_clean [of rid "mc_body (rc_match rule)"]
  by (auto simp: compile_rule_match_def Let_def split: prod.splits sum.splits if_splits)

section \<open>Injections\<close>

text \<open>What \<open>checkInjects\<close> wants of one injection.\<close>

definition inject_ok :: "disposition_map \<Rightarrow> (string \<times> secret_config) list \<Rightarrow> inject \<Rightarrow> bool" where
  "inject_ok dispositions secrets e \<longleftrightarrow>
     (\<exists>v. parse_inject_value (ij_value e) = Inr v \<and>
        (\<forall>n\<in>set (inject_references v). \<exists>secret. map_of secrets n = Some secret \<and>
           \<not> expands_to_multiple_values secret \<and> disposition_of dispositions n = SdInject))"

lemma check_reference_clean:
  assumes "err_free (fst (check_reference w dispositions secrets n (ds, [])))"
  shows "check_reference w dispositions secrets n (ds, []) = (ds, []) \<and>
    (\<exists>secret. map_of secrets n = Some secret \<and> \<not> expands_to_multiple_values secret \<and>
       disposition_of dispositions n = SdInject)"
  using assms
  by (auto simp: check_reference_def once_def Let_def split: option.splits if_splits)

lemma check_reference_grows:
  "\<exists>new. fst (check_reference w dispositions secrets n state) = fst state @ new"
  by (cases state)
    (auto simp: check_reference_def once_def Let_def split: option.splits if_splits)

lemma fold_grows:
  fixes f :: "'a \<Rightarrow> diagnostic list \<times> 's \<Rightarrow> diagnostic list \<times> 's"
  assumes "\<And>x state. \<exists>new. fst (f x state) = fst state @ new"
  shows "\<exists>new. fst (fold f xs state) = fst state @ new"
proof (induction xs arbitrary: state)
  case (Cons x xs)
  obtain new where "fst (f x state) = fst state @ new" using assms by blast
  moreover obtain new' where "fst (fold f xs (f x state)) = fst (f x state) @ new'" using Cons by blast
  ultimately show ?case by simp
qed simp

lemma fold_clean:
  fixes f :: "'a \<Rightarrow> diagnostic list \<times> 's list \<Rightarrow> diagnostic list \<times> 's list"
  assumes grows: "\<And>x state. \<exists>new. fst (f x state) = fst state @ new"
    and clean: "\<And>x ds. err_free (fst (f x (ds, []))) \<Longrightarrow> f x (ds, []) = (ds, []) \<and> P x"
  shows "err_free (fst (fold f xs (ds, []))) \<Longrightarrow> fold f xs (ds, []) = (ds, []) \<and> (\<forall>x\<in>set xs. P x)"
proof (induction xs)
  case (Cons x xs)
  obtain new where "fst (fold f xs (f x (ds, []))) = fst (f x (ds, [])) @ new"
    using fold_grows [of f, OF grows] by blast
  with Cons.prems have "err_free (fst (f x (ds, [])))" by simp
  from clean [OF this] Cons show ?case by simp
qed simp

lemma check_inject_grows: "\<exists>new. fst (check_inject w dispositions secrets e state) = fst state @ new"
proof (cases "parse_inject_value (ij_value e)")
  case (Inl err)
  then show ?thesis
    by (cases state) (auto simp: check_inject_def once_def)
next
  case (Inr v)
  then show ?thesis
    using fold_grows [of "check_reference w dispositions secrets", OF check_reference_grows]
    by (simp add: check_inject_def)
qed

lemma check_inject_clean:
  assumes "err_free (fst (check_inject w dispositions secrets e (ds, [])))"
  shows "check_inject w dispositions secrets e (ds, []) = (ds, []) \<and> inject_ok dispositions secrets e"
proof (cases "parse_inject_value (ij_value e)")
  case (Inl err)
  then show ?thesis using assms by (simp add: check_inject_def once_def)
next
  case (Inr v)
  show ?thesis
    using fold_clean [of "check_reference w dispositions secrets", OF check_reference_grows check_reference_clean,
        where xs = "inject_references v" and ds = ds] assms Inr
    by (auto simp: check_inject_def inject_ok_def)
qed

lemma check_injects_clean:
  "err_free (fst (check_injects [] w injects dispositions secrets)) \<Longrightarrow>
   check_injects [] w injects dispositions secrets = ([], []) \<and>
   (\<forall>e\<in>set injects. inject_ok dispositions secrets e)"
  unfolding check_injects_def
  by (rule fold_clean [of "check_inject w dispositions secrets", OF check_inject_grows check_inject_clean])

section \<open>Scopes\<close>

text \<open>What the loop over the rules establishes of one rule, when it reports no error.\<close>

definition rule_ok ::
  "scope_context \<Rightarrow> string \<Rightarrow> scope_config \<Rightarrow> resolved_limits \<Rightarrow> disposition_map \<Rightarrow>
   string \<times> rule_config \<Rightarrow> compiled_rule \<Rightarrow> bool"
where
  "rule_ok context name config scope_limits dispositions entry r \<longleftrightarrow>
     is_rule_key (fst entry) \<and> cr_scope_name r = name \<and> cr_key r = fst entry \<and> cr_config r = snd entry \<and>
     cr_id r = rule_id name (fst entry) \<and>
     compile_match (rc_match (snd entry)) = Inr (cr_match r) \<and>
     err_free (fst (compile_rule_match (cr_id r) (snd entry))) \<and>
     err_free (fst (check_limits (rc_limits (snd entry)) (SiteRule (cr_id r)) scope_limits)) \<and>
     err_free (check_expects (cr_id r) (snd entry)
        (effective_audit (cx_audit context) (sp_audit config) (rc_audit (snd entry)))) \<and>
     (\<forall>e\<in>set (effective_inject (sp_inject config) (rc_inject (snd entry))).
        inject_ok (merge_dispositions dispositions (rc_secrets (snd entry))) (cx_secrets context) e)"

lemma compile_rule_grows:
  "\<exists>new. fst (compile_rule context name config l d e state) = fst state @ new"
  by (cases e; cases state) (auto simp: compile_rule_def Let_def split: option.splits)

lemma compile_rule_clean:
  assumes "err_free (fst (compile_rule context name config l d e (ds, [], rules)))"
  shows "\<exists>r ds'. compile_rule context name config l d e (ds, [], rules) = (ds', [], rules @ [r]) \<and>
    rule_ok context name config l d e r"
proof -
  obtain key rule where e: "e = (key, rule)" by (cases e)
  have key: "is_rule_key key"
    using assms by (auto simp: compile_rule_def e Let_def split: if_splits)
  let ?rid = "rule_id name key"
  have parts: "err_free (fst (check_limits (rc_limits rule) (SiteRule ?rid) l))"
    "err_free (fst (check_injects [] (SiteRule ?rid) (effective_inject (sp_inject config) (rc_inject rule))
       (merge_dispositions d (rc_secrets rule)) (cx_secrets context)))"
    "err_free (check_expects ?rid rule (effective_audit (cx_audit context) (sp_audit config) (rc_audit rule)))"
    "err_free (fst (compile_rule_match ?rid rule))"
    using assms key by (auto simp: compile_rule_def e Let_def split: option.splits)
  obtain m where "snd (compile_rule_match ?rid rule) = Some m" "compile_match (rc_match rule) = Inr m"
    using compile_rule_match_clean [OF parts(4)] by blast
  with parts key check_injects_clean [OF parts(2)] show ?thesis
    by (auto simp: compile_rule_def e Let_def rule_ok_def)
qed

lemma compile_rules_clean:
  "err_free (fst (fold (compile_rule context name config l d) entries (ds, [], rules))) \<Longrightarrow>
   \<exists>new. snd (snd (fold (compile_rule context name config l d) entries (ds, [], rules))) = rules @ new \<and>
     list_all2 (rule_ok context name config l d) entries new"
proof (induction entries arbitrary: ds rules)
  case (Cons e entries)
  obtain tail where
    "fst (fold (compile_rule context name config l d) entries (compile_rule context name config l d e (ds, [], rules))) =
     fst (compile_rule context name config l d e (ds, [], rules)) @ tail"
    using fold_grows [of "compile_rule context name config l d", OF compile_rule_grows] by blast
  with Cons.prems have "err_free (fst (compile_rule context name config l d e (ds, [], rules)))" by simp
  from compile_rule_clean [OF this] obtain r ds' where
    r: "compile_rule context name config l d e (ds, [], rules) = (ds', [], rules @ [r])"
       "rule_ok context name config l d e r" by blast
  with Cons.IH [of ds' "rules @ [r]"] Cons.prems show ?case by auto
qed simp

lemma compile_targets_clean:
  "err_free (fst (compile_targets name sources)) \<Longrightarrow>
   list_all2 (\<lambda>s t. parse_target s = Inr t) sources (snd (compile_targets name sources))"
  by (induction sources) (auto split: prod.splits sum.splits)

definition scope_ok :: "scope_context \<Rightarrow> string \<Rightarrow> scope_config \<Rightarrow> compiled_scope \<Rightarrow> bool" where
  "scope_ok context name config s \<longleftrightarrow>
     cs_name s = name \<and> cs_config s = config \<and> sp_targets config \<noteq> [] \<and>
     list_all2 (\<lambda>src t. parse_target src = Inr t) (sp_targets config) (cs_targets s) \<and>
     cs_dispositions s = merge_dispositions (cx_dispositions context) (sp_secrets config) \<and>
     err_free (fst (check_limits (sp_limits config) (SiteScope name) (cx_limits context))) \<and>
     (\<forall>e\<in>set (opt_list (sp_inject config)). inject_ok (cs_dispositions s) (cx_secrets context) e) \<and>
     list_all2 (rule_ok context name config
       (snd (check_limits (sp_limits config) (SiteScope name) (cx_limits context))) (cs_dispositions s))
       (opt_list (sp_rules config)) (cs_rules s)"

lemma compile_scope_clean:
  assumes "err_free (fst (compile_scope context name config))"
  shows "scope_ok context name config (snd (compile_scope context name config))"
proof -
  let ?d = "merge_dispositions (cx_dispositions context) (sp_secrets config)"
  let ?l = "check_limits (sp_limits config) (SiteScope name) (cx_limits context)"
  let ?i = "check_injects [] (SiteScope name) (opt_list (sp_inject config)) ?d (cx_secrets context)"
  have parts: "sp_targets config \<noteq> []" "err_free (fst (compile_targets name (sp_targets config)))"
    "err_free (fst ?l)" "err_free (fst ?i)"
    using assms by (auto simp: compile_scope_def Let_def split: prod.splits if_splits)
  note i = check_injects_clean [OF parts(4)]
  let ?r = "fold (compile_rule context name config (snd ?l) ?d) (opt_list (sp_rules config)) ([], [], [])"
  have "err_free (fst ?r)"
    using assms i by (auto simp: compile_scope_def Let_def split: prod.splits)
  from compile_rules_clean [OF this]
  have "list_all2 (rule_ok context name config (snd ?l) ?d) (opt_list (sp_rules config)) (snd (snd ?r))" by auto
  with parts i compile_targets_clean [OF parts(2)] show ?thesis
    by (auto simp: scope_ok_def compile_scope_def Let_def split: prod.splits)
qed

section \<open>Configurations\<close>

definition context_of :: "authz_config \<Rightarrow> scope_context" where
  "context_of config =
     \<lparr>cx_dispositions = base_dispositions config,
      cx_audit = (case nc_defaults (ac_network config) of None \<Rightarrow> None | Some d \<Rightarrow> nd_audit d),
      cx_secrets = opt_list (ac_secrets config),
      cx_limits = snd (check_limits (case nc_defaults (ac_network config) of None \<Rightarrow> None | Some d \<Rightarrow> nd_limits d)
                         SiteDefaults limit_ceilings)\<rparr>"

abbreviation scopes_of :: "authz_config \<Rightarrow> compiled_scope list" where
  "scopes_of config \<equiv> co_scopes (compile_authz_config config)"

lemma scopes_of_eq:
  "scopes_of config = map (\<lambda>(name, scope). snd (compile_scope (context_of config) name scope)) (nc_scopes (ac_network config))"
  by (simp add: compile_authz_config_def Let_def context_of_def comp_def case_prod_unfold)

lemma accepted_parts:
  assumes "accepted config"
  shows "err_free (fst (check_limits (case nc_defaults (ac_network config) of None \<Rightarrow> None | Some d \<Rightarrow> nd_limits d)
      SiteDefaults limit_ceilings))"
    and "(name, scope) \<in> set (nc_scopes (ac_network config)) \<Longrightarrow>
      err_free (fst (compile_scope (context_of config) name scope))"
    and "err_free (check_scope_overlaps (scopes_of config))"
    and "err_free (check_effective_id_collisions (scopes_of config))"
    and "s \<in> set (scopes_of config) \<Longrightarrow> err_free (check_rule_overlaps s) \<and> err_free (check_overrides s) \<and>
      err_free (check_precedence_cycles s)"
    and "err_free (check_mask_proxy config (scopes_of config))"
  using assms
  unfolding accepted_err_free validate_authz_config_def compile_authz_config_def Let_def context_of_def
  by (auto simp: case_prod_unfold)

lemma accepted_scope_ok:
  assumes "accepted config" "s \<in> set (scopes_of config)"
  shows "\<exists>name scope. (name, scope) \<in> set (nc_scopes (ac_network config)) \<and>
    scope_ok (context_of config) name scope s"
proof -
  obtain name scope where "(name, scope) \<in> set (nc_scopes (ac_network config))"
      "s = snd (compile_scope (context_of config) name scope)"
    using assms(2) unfolding scopes_of_eq by auto
  with accepted_parts(2) [OF assms(1)] compile_scope_clean show ?thesis by blast
qed

section \<open>Guarantees\<close>

lemma pairs_nth: "i < j \<Longrightarrow> j < length xs \<Longrightarrow> (xs ! i, xs ! j) \<in> set (pairs xs)"
proof (induction xs arbitrary: i j)
  case (Cons x xs)
  then obtain j' where j: "j = Suc j'" by (cases j) auto
  show ?case
  proof (cases i)
    case 0
    with j Cons.prems show ?thesis by simp
  next
    case (Suc i')
    with j Cons show ?thesis by simp
  qed
qed simp

lemma check_ids_clean: "err_free (check_ids seen ids) \<Longrightarrow> distinct ids \<and> set ids \<inter> set seen = {}"
  by (induction seen ids rule: check_ids.induct) (auto split: if_splits)

lemma accepted_scopes_compared:
  assumes "accepted config" "i < j" "j < length (scopes_of config)"
    and "target_set_accepts (cs_targets (scopes_of config ! i)) address"
    and "target_set_accepts (cs_targets (scopes_of config ! j)) address"
  shows "compare_target_specificity (cs_targets (scopes_of config ! i)) (cs_targets (scopes_of config ! j))
    \<in> {Narrower, Wider}"
proof -
  have "err_free (check_scope_pair (scopes_of config ! i, scopes_of config ! j))"
    using accepted_parts(3) [OF assms(1)] pairs_nth [OF assms(2,3)]
    by (auto simp: check_scope_overlaps_def)
  moreover have "target_sets_intersect (cs_targets (scopes_of config ! i)) (cs_targets (scopes_of config ! j))"
    using assms target_sets.inter_complete by blast
  ultimately show ?thesis
    by (auto simp: check_scope_pair_def Let_def split: if_splits)
qed

text \<open>
  the scopes of an accepted configuration never compete on equal terms. If two of them
  own an address, the targets of one are strictly contained in those of the other.
\<close>

theorem accepted_scopes_nested:
  assumes "accepted config" "i < j" "j < length (scopes_of config)"
    and "target_set_accepts (cs_targets (scopes_of config ! i)) address"
    and "target_set_accepts (cs_targets (scopes_of config ! j)) address"
  shows "compare_target_specificity (cs_targets (scopes_of config ! i)) (cs_targets (scopes_of config ! j))
    \<in> {Narrower, Wider}"
  using assms by (rule accepted_scopes_compared)


lemma accepted_precedence:
  assumes "accepted config" "s \<in> set (scopes_of config)"
  shows "acyclicP (edge (\<lambda>a b i j. rule_precedes a b) (cs_rules s))"
  using accepted_parts(5) [OF assms] precedence_order_cases [where p = "\<lambda>a b i j. rule_precedes a b" and items = "cs_rules s"]
  by (auto simp: check_precedence_cycles_def split: sum.splits)

text \<open>
  effective ids are unique. In an accepted configuration no two rules, and no rule and
  fallback, of any scopes have the same id, although scope names and keys both may contain
  the dot that joins them: an approval given under an id reaches one rule only.
\<close>

theorem accepted_ids_unique:
  assumes "accepted config"
  shows "distinct (id_declarations (scopes_of config))"
  using accepted_parts(4) [OF assms] check_ids_clean
  by (auto simp: check_effective_id_collisions_def)

text \<open>
  only secrets marked for injection are injected. In an accepted configuration no rule
  is dropped, and every header a rule adds, its own or inherited from the scope, refers to
  registered, single-valued secrets whose effective disposition for that rule is inject.
\<close>

theorem accepted_injects_injectable:
  assumes "accepted config" "s \<in> set (scopes_of config)"
  shows "map (\<lambda>r. (cr_key r, cr_config r)) (cs_rules s) = opt_list (sp_rules (cs_config s)) \<and>
    list_all (\<lambda>r. list_all
      (inject_ok (merge_dispositions (cs_dispositions s) (rc_secrets (cr_config r))) (opt_list (ac_secrets config)))
      (effective_inject (sp_inject (cs_config s)) (rc_inject (cr_config r)))) (cs_rules s)"
proof -
  obtain name scope where ok: "scope_ok (context_of config) name scope s"
    using accepted_scope_ok assms by blast
  then have "map (\<lambda>r. (cr_key r, cr_config r)) (cs_rules s) = opt_list (sp_rules (cs_config s))"
    by (intro nth_equalityI) (auto simp: scope_ok_def list_all2_conv_all_nth rule_ok_def prod_eq_iff)
  moreover have "list_all (inject_ok (merge_dispositions (cs_dispositions s) (rc_secrets (cr_config r)))
      (opt_list (ac_secrets config))) (effective_inject (sp_inject (cs_config s)) (rc_inject (cr_config r)))"
    if "r \<in> set (cs_rules s)" for r
    using ok that by (auto simp: scope_ok_def list_all2_conv_all_nth rule_ok_def in_set_conv_nth
        context_of_def list_all_iff)
  ultimately show ?thesis
    by (simp add: list_all_iff)
qed

section \<open>An accepted configuration\<close>

definition rule_of :: "string list \<Rightarrow> string list \<Rightarrow> action \<Rightarrow> rule_config" where
  "rule_of methods paths act =
     \<lparr>rc_match = \<lparr>mc_methods = Some methods, mc_paths = paths, mc_captures = None, mc_body = None\<rparr>,
      rc_on_match = act, rc_on_indeterminate = None, rc_expect = None, rc_limits = None,
      rc_secrets = None, rc_inject = None, rc_audit = None, rc_overrides = None\<rparr>"

definition scope_of :: "string list \<Rightarrow> disposition_map \<Rightarrow> inject list \<Rightarrow> (string \<times> rule_config) list \<Rightarrow> scope_config" where
  "scope_of targets secrets injects rules =
     \<lparr>sp_targets = targets, sp_fallback = None, sp_web_socket = None, sp_limits = None,
      sp_secrets = Some secrets, sp_inject = Some injects, sp_audit = None, sp_rules = Some rules\<rparr>"

definition example_config :: authz_config where
  "example_config =
     \<lparr>ac_secrets = Some [(''gh'', \<lparr>sc_from = ''env:GH_TOKEN'', sc_required = None\<rparr>)],
      ac_mask = None,
      ac_network =
        \<lparr>nc_scopes =
           [(''web'', scope_of [''*.github.com''] [] [] []),
            (''api'', scope_of [''api.github.com''] [(''gh'', SdInject)]
               [\<lparr>ij_name = ''authorization'', ij_value = ''template:token ${gh}''\<rparr>]
               [(''read'', rule_of [''GET''] [''/repos/**''] ActAllow),
                (''issues'', rule_of [''GET''] [''/repos/acme/*''] ActReview)])],
         nc_fallback = None, nc_defaults = None\<rparr>\<rparr>"

text \<open>
  The diagnostics of a configuration without defaults, for any inherited budget: evaluating
  them does not touch the large numbers of the ceilings.
\<close>

definition diagnostics_under :: "resolved_limits \<Rightarrow> authz_config \<Rightarrow> diagnostic list" where
  "diagnostics_under l config =
     (let compiled = map (\<lambda>(name, scope). compile_scope ((context_of config)\<lparr>cx_limits := l\<rparr>) name scope)
                       (nc_scopes (ac_network config));
          scopes = map snd compiled
      in concat (map fst compiled) @
         check_scope_overlaps scopes @ check_effective_id_collisions scopes @
         concat (map (\<lambda>scope. check_rule_overlaps scope @ check_overrides scope @
                              check_precedence_cycles scope @ check_covering_allow scope) scopes) @
         check_mask_proxy config scopes)"

lemma accepted_under:
  assumes "nc_defaults (ac_network config) = None" "\<And>l. err_free (diagnostics_under l config)"
  shows "accepted config"
  using assms(2) [of limit_ceilings] assms(1)
  by (simp add: accepted_err_free validate_authz_config_def compile_authz_config_def diagnostics_under_def
      Let_def context_of_def check_limits_def)

lemma context_of_example:
  "(context_of example_config)\<lparr>cx_limits := l\<rparr> =
     \<lparr>cx_dispositions = [(''*'', SdMask)], cx_audit = None,
      cx_secrets = [(''gh'', \<lparr>sc_from = ''env:GH_TOKEN'', sc_required = None\<rparr>)], cx_limits = l\<rparr>"
  by (simp add: context_of_def example_config_def base_dispositions_def amap_merge_def
      default_secret_dispositions_def opt_list_def)

lemma example_clean: "err_free (diagnostics_under l example_config)"
  unfolding diagnostics_under_def context_of_example
  by code_simp

lemma example_accepted: "accepted example_config"
  by (rule accepted_under [OF _ example_clean]) (simp add: example_config_def)
text \<open>The compiled scopes of the example, again for any budget.\<close>

definition example_scopes :: "resolved_limits \<Rightarrow> compiled_scope list" where
  "example_scopes l =
     map (\<lambda>(name, scope). snd (compile_scope
         \<lparr>cx_dispositions = [(''*'', SdMask)], cx_audit = None,
          cx_secrets = [(''gh'', \<lparr>sc_from = ''env:GH_TOKEN'', sc_required = None\<rparr>)], cx_limits = l\<rparr> name scope))
       (nc_scopes (ac_network example_config))"

lemma scopes_of_example: "\<exists>l. scopes_of example_config = example_scopes l"
proof -
  have "(context_of example_config) = (context_of example_config)\<lparr>cx_limits := cx_limits (context_of example_config)\<rparr>"
    by simp
  then show ?thesis
    unfolding scopes_of_eq example_scopes_def using context_of_example by metis
qed

definition example_address :: target_address where
  "example_address = \<lparr>ta_host = ''api.github.com'', ta_port = 1\<rparr>"

definition example_get :: authz_request where
  "example_get = \<lparr>rq_method = ''GET'', rq_path = ''/repos/acme/web'', rq_body = BodyAbsent\<rparr>"

lemma example_lengths: "length (example_scopes l) = 2" "length (cs_rules (example_scopes l ! 1)) = 2"
  by code_simp+

lemma example_owns:
  "target_set_accepts (cs_targets (example_scopes l ! 0)) example_address"
  "target_set_accepts (cs_targets (example_scopes l ! 1)) example_address"
  by code_simp+

lemma example_matches:
  "accepts (cr_match (cs_rules (example_scopes l ! 1) ! 0)) example_get"
  "accepts (cr_match (cs_rules (example_scopes l ! 1) ! 1)) example_get"
  by code_simp+

theorem accepted_scopes_nested_witness:
  "accepted example_config \<and>
   compare_target_specificity (cs_targets (scopes_of example_config ! 0)) (cs_targets (scopes_of example_config ! 1))
     \<in> {Narrower, Wider}"
proof -
  obtain l where l: "scopes_of example_config = example_scopes l" using scopes_of_example by blast
  from accepted_scopes_nested [OF example_accepted, of 0 1 example_address]
  show ?thesis
    using l example_lengths example_owns example_accepted by simp
qed


theorem accepted_ids_unique_witness:
  "accepted example_config \<and> distinct (id_declarations (scopes_of example_config))"
  using accepted_ids_unique [OF example_accepted] example_accepted by simp

theorem accepted_injects_injectable_witness:
  "\<exists>s\<in>set (scopes_of example_config). map cr_key (cs_rules s) = [''read'', ''issues''] \<and>
     map (\<lambda>r. (cr_key r, cr_config r)) (cs_rules s) = opt_list (sp_rules (cs_config s))"
proof -
  obtain l where l: "scopes_of example_config = example_scopes l" using scopes_of_example by blast
  let ?s = "example_scopes l ! 1"
  have s: "?s \<in> set (scopes_of example_config)"
    using l example_lengths by simp
  have "map cr_key (cs_rules ?s) = [''read'', ''issues'']"
    by code_simp
  then show ?thesis
    using accepted_injects_injectable [OF example_accepted s] by (intro bexI [OF _ s] conjI) simp_all
qed

end
