(* ===== verification/Resolve.thy ===== *)
theory Resolve
  imports Accepted
begin

text \<open>
  The resolved document and the decision on it (\<open>src/network/authz/resolve.ts\<close>): inheritance
  from defaults to scopes to rules is folded once, the precedence of the rules is stored as
  pairs, and \<open>decide\<close> selects a scope, orders the candidates of the request and takes the
  first that is not false. An exception is \<open>None\<close>; it is proved that a resolved document
  never raises one. The documents of the nested Docker daemon (\<open>dind.ts\<close>) are resolved here
  too.
\<close>

record resolved_graphql =
  rg_at :: string
  rg_operations :: "graphql_operation list"
  rg_field_paths :: "string list"
  rg_field_arguments :: field_arguments

record resolved_body_expect =
  rb_equals :: "(string \<times> scalar) list"
  rb_one_of :: "(string \<times> scalar list) list"
  rb_absent :: "string list"
  rb_graphql :: "resolved_graphql option"

datatype resolved_check =
    RcEmptyBody
  | RcJsonRoot json_root_type
  | RcBody resolved_body_expect
  | RcUnionShape union_shape

record resolved_expect =
  re_check :: resolved_check
  re_on_violation :: violation_action

record resolved_match =
  rm_methods :: "string list option"
  rm_paths :: "compiled_path list"
  rm_body_format :: "body_format option"
  rm_equals :: "(string \<times> scalar) list"
  rm_one_of :: "(string \<times> scalar list) list"
  rm_graphql :: "resolved_graphql option"

record resolved_rule =
  rr_id :: string
  rr_key :: string
  rr_precedes :: "string list"
  rr_match :: resolved_match
  rr_on_match :: action
  rr_on_indeterminate :: indeterminate_action
  rr_expect :: "resolved_expect list"
  rr_limits :: resolved_limits
  rr_secrets :: disposition_map
  rr_inject :: "inject list"
  rr_audit :: audit_mode

record resolved_scope =
  rs_name :: string
  rs_targets :: "target list"
  rs_fallback :: action
  rs_web_socket :: websocket_policy
  rs_fallback_rule_id :: string
  rs_limits :: resolved_limits
  rs_secrets :: disposition_map
  rs_inject :: "inject list"
  rs_audit :: audit_mode
  rs_rules :: "resolved_rule list"

record resolved_defaults =
  rd_limits :: resolved_limits
  rd_secrets :: disposition_map
  rd_audit :: audit_mode

record resolved_document =
  doc_fallback :: network_fallback
  doc_defaults :: resolved_defaults
  doc_scopes :: "resolved_scope list"

text \<open>The errors of the resolution itself, after the diagnostics of the checks.\<close>

datatype resolve_diagnostic =
    Checked diagnostic
  | RulesCyclic string "string list"
  | ScopesCyclic "string list"

record resolve_outcome =
  ro_document :: "resolved_document option"
  ro_diagnostics :: "resolve_diagnostic list"

section \<open>Resolution\<close>

definition merge_limits :: "resolved_limits \<Rightarrow> limits option \<Rightarrow> resolved_limits" where
  "merge_limits base overlay =
     (case overlay of
        None \<Rightarrow> base
      | Some l \<Rightarrow>
          fold (\<lambda>key merged. case limit_of l key of None \<Rightarrow> merged | Some v \<Rightarrow> set_limit key v merged)
            limit_keys base)"

definition to_resolved_graphql :: "normalized_graphql option \<Rightarrow> resolved_graphql option" where
  "to_resolved_graphql graphql =
     map_option (\<lambda>g. \<lparr>rg_at = ng_at g, rg_operations = ng_operations g,
                      rg_field_paths = ng_field_paths g,
                      rg_field_arguments =
                        amap_merge [] (map (\<lambda>(path, args). (path, amap_merge [] args)) (ng_field_arguments g))\<rparr>)
       graphql"

text \<open>\<open>copyOneOf\<close> and \<open>{...record}\<close> copy; a missing record is the empty one.\<close>

definition copy_one_of :: "(string \<times> scalar list) list option \<Rightarrow> (string \<times> scalar list) list" where
  "copy_one_of one_of = amap_merge [] (opt_list one_of)"

definition to_resolved_match :: "compiled_match \<Rightarrow> body_match option \<Rightarrow> resolved_match" where
  "to_resolved_match m body =
     \<lparr>rm_methods = cm_methods m,
      rm_paths = cm_paths m,
      rm_body_format = nb_format (cm_body m),
      rm_equals = amap_merge [] (case body of None \<Rightarrow> [] | Some b \<Rightarrow> opt_list (bm_equals b)),
      rm_one_of = copy_one_of (case body of None \<Rightarrow> None | Some b \<Rightarrow> bm_one_of b),
      rm_graphql = to_resolved_graphql (nb_graphql (cm_body m))\<rparr>"

definition resolve_expect :: "expect \<Rightarrow> resolved_expect" where
  "resolve_expect e =
     \<lparr>re_check =
        (case ex_check e of
           EmptyBody \<Rightarrow> RcEmptyBody
         | JsonRoot t \<Rightarrow> RcJsonRoot t
         | UnionShape u \<Rightarrow> RcUnionShape u
         | BodyCheck b \<Rightarrow>
             RcBody \<lparr>rb_equals = amap_merge [] (opt_list (be_equals b)),
                     rb_one_of = copy_one_of (be_one_of b),
                     rb_absent = opt_list (be_absent b),
                     rb_graphql =
                       (case be_graphql b of
                          None \<Rightarrow> None
                        | Some g \<Rightarrow>
                            to_resolved_graphql (nb_graphql (normalize_body
                              (Some \<lparr>bm_format = FormatJson, bm_equals = None, bm_one_of = None,
                                     bm_graphql = Some g\<rparr>))))\<rparr>),
      re_on_violation = (case ex_on_violation e of None \<Rightarrow> VaDeny | Some v \<Rightarrow> v)\<rparr>"

definition resolved_body_match :: "resolved_match \<Rightarrow> body_match option" where
  "resolved_body_match m =
     (case rm_body_format m of
        None \<Rightarrow> None
      | Some format \<Rightarrow>
          Some \<lparr>bm_format = format,
                bm_equals = Some (rm_equals m),
                bm_one_of = Some (rm_one_of m),
                bm_graphql =
                  map_option (\<lambda>g. \<lparr>gm_at = Some (rg_at g), gm_operations = rg_operations g,
                                   gm_field_paths = Some (rg_field_paths g),
                                   gm_field_arguments = Some (rg_field_arguments g),
                                   gm_unknown_keys = []\<rparr>) (rm_graphql m)\<rparr>)"

record scope_inheritance =
  si_limits :: resolved_limits
  si_secrets :: disposition_map
  si_audit :: audit_mode
  si_inject :: "inject list"

definition resolve_rule :: "compiled_rule \<Rightarrow> string list \<Rightarrow> scope_inheritance \<Rightarrow> resolved_rule" where
  "resolve_rule rule precedes inherited =
     \<lparr>rr_id = cr_id rule,
      rr_key = cr_key rule,
      rr_precedes = precedes,
      rr_match = to_resolved_match (cr_match rule) (mc_body (rc_match (cr_config rule))),
      rr_on_match = rc_on_match (cr_config rule),
      rr_on_indeterminate = (case rc_on_indeterminate (cr_config rule) of None \<Rightarrow> IaDeny | Some a \<Rightarrow> a),
      rr_expect = map resolve_expect (opt_list (rc_expect (cr_config rule))),
      rr_limits = merge_limits (si_limits inherited) (rc_limits (cr_config rule)),
      rr_secrets = amap_merge (si_secrets inherited) (opt_list (rc_secrets (cr_config rule))),
      rr_inject = effective_inject (Some (si_inject inherited)) (rc_inject (cr_config rule)),
      rr_audit = (case rc_audit (cr_config rule) of None \<Rightarrow> si_audit inherited | Some a \<Rightarrow> a)\<rparr>"

definition precedence_edges :: "compiled_rule list \<Rightarrow> string list list" where
  "precedence_edges compiled =
     map (\<lambda>i. map (\<lambda>j. cr_key (compiled ! j))
                (filter (\<lambda>j. j \<noteq> i \<and> rule_precedes (compiled ! i) (compiled ! j)) [0..<length compiled]))
       [0..<length compiled]"

definition precedes :: "resolved_rule \<Rightarrow> resolved_rule \<Rightarrow> bool" where
  "precedes a b \<longleftrightarrow> rr_key b \<in> set (rr_precedes a)"

definition precedence_cycle :: "resolved_rule list \<Rightarrow> string list option" where
  "precedence_cycle rules =
     (case precedence_order (\<lambda>a b i j. precedes a b) rules of
        Inr ordered \<Rightarrow> None
      | Inl cycle \<Rightarrow> Some (map rr_id cycle))"

definition resolve_scope :: "compiled_scope \<Rightarrow> resolved_defaults \<Rightarrow> resolve_diagnostic + resolved_scope" where
  "resolve_scope scope defaults =
     (let config = cs_config scope;
          limits = merge_limits (rd_limits defaults) (sp_limits config);
          audit = (case sp_audit config of None \<Rightarrow> rd_audit defaults | Some a \<Rightarrow> a);
          injects = opt_list (sp_inject config);
          inherited = \<lparr>si_limits = limits, si_secrets = cs_dispositions scope, si_audit = audit, si_inject = injects\<rparr>;
          edges = precedence_edges (cs_rules scope);
          rules = map (\<lambda>i. resolve_rule (cs_rules scope ! i) (edges ! i) inherited) [0..<length (cs_rules scope)]
      in case precedence_cycle rules of
           Some ids \<Rightarrow> Inl (RulesCyclic (cs_name scope) ids)
         | None \<Rightarrow>
             Inr \<lparr>rs_name = cs_name scope,
                  rs_targets = cs_targets scope,
                  rs_fallback = (case sp_fallback config of None \<Rightarrow> ActDeny | Some a \<Rightarrow> a),
                  rs_web_socket = (case sp_web_socket config of None \<Rightarrow> WsDeny | Some w \<Rightarrow> w),
                  rs_fallback_rule_id = fallback_rule_id (cs_name scope),
                  rs_limits = limits,
                  rs_secrets = cs_dispositions scope,
                  rs_inject = injects,
                  rs_audit = audit,
                  rs_rules = rules\<rparr>)"

definition order_scopes :: "resolved_scope list \<Rightarrow> resolve_diagnostic + resolved_scope list" where
  "order_scopes scopes =
     (case precedence_order (\<lambda>a b i j. compare_target_specificity (rs_targets a) (rs_targets b) = Narrower) scopes of
        Inr ordered \<Rightarrow> Inr ordered
      | Inl cycle \<Rightarrow> Inl (ScopesCyclic (map rs_name cycle)))"

definition resolved_defaults_of :: "authz_config \<Rightarrow> resolved_defaults" where
  "resolved_defaults_of config =
     \<lparr>rd_limits = merge_limits limit_ceilings
        (case nc_defaults (ac_network config) of None \<Rightarrow> None | Some d \<Rightarrow> nd_limits d),
      rd_secrets = base_dispositions config,
      rd_audit = (case nc_defaults (ac_network config) of None \<Rightarrow> default_audit_mode
                  | Some d \<Rightarrow> (case nd_audit d of None \<Rightarrow> default_audit_mode | Some a \<Rightarrow> a))\<rparr>"

fun lefts :: "('a + 'b) list \<Rightarrow> 'a list" where
  "lefts [] = []"
| "lefts (Inl a # xs) = a # lefts xs"
| "lefts (Inr b # xs) = lefts xs"

fun rights :: "('a + 'b) list \<Rightarrow> 'b list" where
  "rights [] = []"
| "rights (Inl a # xs) = rights xs"
| "rights (Inr b # xs) = b # rights xs"

definition resolve_authz_config :: "authz_config \<Rightarrow> resolve_outcome" where
  "resolve_authz_config config =
     (let outcome = compile_authz_config config;
          diagnostics = map Checked (co_diagnostics outcome)
      in if list_ex is_error (co_diagnostics outcome)
         then \<lparr>ro_document = None, ro_diagnostics = diagnostics\<rparr>
         else
           (let defaults = resolved_defaults_of config;
                results = map (\<lambda>scope. resolve_scope scope defaults) (co_scopes outcome);
                faults = lefts results
            in if 0 < length faults then \<lparr>ro_document = None, ro_diagnostics = diagnostics @ faults\<rparr>
               else (case order_scopes (rights results) of
                       Inl e \<Rightarrow> \<lparr>ro_document = None, ro_diagnostics = diagnostics @ [e]\<rparr>
                     | Inr ordered \<Rightarrow>
                         \<lparr>ro_document = Some \<lparr>doc_fallback = (case nc_fallback (ac_network config) of
                                                              None \<Rightarrow> NfDeny | Some f \<Rightarrow> f),
                                             doc_defaults = defaults, doc_scopes = ordered\<rparr>,
                          ro_diagnostics = diagnostics\<rparr>)))"

section \<open>Redaction\<close>

definition redact_inject :: "inject \<Rightarrow> inject" where
  "redact_inject e =
     (case parse_inject_value (ij_value e) of
        Inl err \<Rightarrow> \<lparr>ij_name = ij_name e, ij_value = ''literal:''\<rparr>
      | Inr (InjectLiteral text) \<Rightarrow> \<lparr>ij_name = ij_name e, ij_value = ''literal:''\<rparr>
      | Inr (InjectSecret name) \<Rightarrow> \<lparr>ij_name = ij_name e, ij_value = ''secret:'' @ name\<rparr>
      | Inr (InjectTemplate text names) \<Rightarrow>
          \<lparr>ij_name = ij_name e,
           ij_value = ''template:'' @ concat (map (\<lambda>name. ''${'' @ name @ ''}'') names)\<rparr>)"

definition without_inject_literals :: "resolved_document \<Rightarrow> resolved_document" where
  "without_inject_literals document =
     document\<lparr>doc_scopes := map (\<lambda>scope. scope\<lparr>
        rs_inject := map redact_inject (rs_inject scope),
        rs_rules := map (\<lambda>rule. rule\<lparr>rr_inject := map redact_inject (rr_inject rule)\<rparr>) (rs_rules scope)\<rparr>)
      (doc_scopes document)\<rparr>"

section \<open>Decision\<close>

datatype transport = TransportHttp | TransportWebsocket

record decision_request =
  dr_method :: string
  dr_path :: string
  dr_body :: "request_body option"
  dr_transport :: "transport option"

datatype decision_reason = ByRule | ByIndeterminate | ByScopeFallback | ByNetworkFallback | ByWebsocketDenied

record decision =
  de_action :: action
  de_rule_id :: string
  de_reason :: decision_reason
  de_scope :: "resolved_scope option"
  de_rule :: "resolved_rule option"
  de_expect :: "resolved_expect list"
  de_inject :: "inject list"
  de_secrets :: disposition_map
  de_limits :: resolved_limits
  de_audit :: audit_mode

fun action_of_fallback :: "network_fallback \<Rightarrow> action" where
  "action_of_fallback NfReview = ActReview"
| "action_of_fallback NfDeny = ActDeny"

fun action_of_indeterminate :: "indeterminate_action \<Rightarrow> action" where
  "action_of_indeterminate IaReview = ActReview"
| "action_of_indeterminate IaDeny = ActDeny"

definition scope_matches_address :: "resolved_scope \<Rightarrow> target_address \<Rightarrow> bool" where
  "scope_matches_address scope address =
     list_ex (\<lambda>t. host_matches (tg_host t) (ta_host address) \<and>
                  (tg_port t = None \<or> tg_port t = Some (ta_port address))) (rs_targets scope)"

definition narrow_scope :: "target_address \<Rightarrow> resolved_scope \<Rightarrow> resolved_scope option \<Rightarrow> resolved_scope option" where
  "narrow_scope address scope best =
     (if \<not> scope_matches_address scope address then best
      else (case best of
              None \<Rightarrow> Some scope
            | Some b \<Rightarrow>
                (if compare_target_specificity (rs_targets scope) (rs_targets b) = Narrower
                 then Some scope else Some b)))"

definition select_scope :: "resolved_document \<Rightarrow> target_address \<Rightarrow> resolved_scope option" where
  "select_scope document address = fold (narrow_scope address) (doc_scopes document) None"

definition path_for_selection :: "string \<Rightarrow> string" where
  "path_for_selection path = before_first CHR ''?'' path"

definition is_candidate :: "resolved_match \<Rightarrow> string \<Rightarrow> string \<Rightarrow> bool" where
  "is_candidate m method path =
     (if (case rm_methods m of None \<Rightarrow> False | Some ms \<Rightarrow> method \<notin> set ms) then False
      else list_ex (\<lambda>p. compiled_path_matches p path) (rm_paths m))"

definition candidates :: "resolved_scope \<Rightarrow> decision_request \<Rightarrow> resolved_rule list" where
  "candidates scope request =
     filter (\<lambda>rule. is_candidate (rr_match rule) (dr_method request) (path_for_selection (dr_path request)))
       (rs_rules scope)"

definition ordered_candidates :: "resolved_scope \<Rightarrow> decision_request \<Rightarrow> resolved_rule list option" where
  "ordered_candidates scope request =
     (let cs = candidates scope request in
      if length cs < 2 then Some cs
      else (case precedence_order (\<lambda>a b i j. precedes a b) cs of
              Inr ordered \<Rightarrow> Some ordered
            | Inl cycle \<Rightarrow> None))"

text \<open>
  The default leaf. The cast \<open>request.body as RequestBody\<close> reads an absent property of
  \<open>undefined\<close> when a condition looks at a body that was not given: that raises.
\<close>

definition default_leaf :: "decision_request \<Rightarrow> resolved_rule \<Rightarrow> truth option" where
  "default_leaf request rule =
     (let condition = normalize_body (resolved_body_match (rr_match rule)) in
      case dr_body request of
        Some body \<Rightarrow> Some (evaluate_body condition body (dr_path request))
      | None \<Rightarrow> (if nb_format condition = None then Some TrueT else None))"

definition from_rule ::
  "resolved_scope \<Rightarrow> resolved_rule \<Rightarrow> action \<Rightarrow> decision_reason \<Rightarrow> resolved_expect list \<Rightarrow> decision"
where
  "from_rule scope rule action reason expect =
     \<lparr>de_action = action, de_rule_id = rr_id rule, de_reason = reason, de_scope = Some scope,
      de_rule = Some rule, de_expect = expect, de_inject = rr_inject rule, de_secrets = rr_secrets rule,
      de_limits = rr_limits rule, de_audit = rr_audit rule\<rparr>"

definition scope_fallback_decision :: "resolved_scope \<Rightarrow> decision" where
  "scope_fallback_decision scope =
     \<lparr>de_action = rs_fallback scope, de_rule_id = rs_fallback_rule_id scope, de_reason = ByScopeFallback,
      de_scope = Some scope, de_rule = None, de_expect = [], de_inject = rs_inject scope,
      de_secrets = rs_secrets scope, de_limits = rs_limits scope, de_audit = rs_audit scope\<rparr>"

fun first_decision ::
  "resolved_scope \<Rightarrow> (resolved_rule \<Rightarrow> truth option) \<Rightarrow> resolved_rule list \<Rightarrow> decision option"
where
  "first_decision scope leaf [] = Some (scope_fallback_decision scope)"
| "first_decision scope leaf (rule # rules) =
     (case leaf rule of
        None \<Rightarrow> None
      | Some FalseT \<Rightarrow> first_decision scope leaf rules
      | Some TrueT \<Rightarrow> Some (from_rule scope rule (rr_on_match rule) ByRule (rr_expect rule))
      | Some Indeterminate \<Rightarrow>
          Some (from_rule scope rule (action_of_indeterminate (rr_on_indeterminate rule)) ByIndeterminate []))"

definition outside_decision :: "resolved_document \<Rightarrow> action \<Rightarrow> decision_reason \<Rightarrow> decision" where
  "outside_decision document action reason =
     \<lparr>de_action = action, de_rule_id = fallback_rule_key, de_reason = reason, de_scope = None, de_rule = None,
      de_expect = [], de_inject = [], de_secrets = rd_secrets (doc_defaults document),
      de_limits = rd_limits (doc_defaults document), de_audit = rd_audit (doc_defaults document)\<rparr>"

definition websocket_denied :: "resolved_scope \<Rightarrow> decision" where
  "websocket_denied scope =
     \<lparr>de_action = ActDeny, de_rule_id = rs_fallback_rule_id scope, de_reason = ByWebsocketDenied,
      de_scope = Some scope, de_rule = None, de_expect = [], de_inject = [], de_secrets = rs_secrets scope,
      de_limits = rs_limits scope, de_audit = rs_audit scope\<rparr>"

definition decide ::
  "resolved_document \<Rightarrow> target_address \<Rightarrow> decision_request \<Rightarrow> (resolved_rule \<Rightarrow> truth) option \<Rightarrow> decision option"
where
  "decide document address request evaluate_rule_body =
     (let selected = select_scope document address;
          websocket = (dr_transport request = Some TransportWebsocket);
          leaf = (case evaluate_rule_body of Some f \<Rightarrow> (\<lambda>rule. Some (f rule)) | None \<Rightarrow> default_leaf request)
      in case selected of
           None \<Rightarrow>
             Some (if websocket then outside_decision document ActDeny ByWebsocketDenied
                   else outside_decision document (action_of_fallback (doc_fallback document)) ByNetworkFallback)
         | Some scope \<Rightarrow>
             (if websocket \<and> rs_web_socket scope \<noteq> WsAllow then Some (websocket_denied scope)
              else (case ordered_candidates scope request of
                      None \<Rightarrow> None
                    | Some rules \<Rightarrow> first_decision scope leaf rules)))"

section \<open>The nested Docker daemon\<close>

record dind_profile =
  dp_secrets :: "(string \<times> secret_config) list option"
  dp_mask :: "mask_config option"
  dp_network_scopes :: "(string \<times> scope_config) list option"

datatype dind_diagnostic = ReviewUnsupported string | FromResolution resolve_diagnostic

definition reject_review :: "bool \<Rightarrow> string \<Rightarrow> dind_diagnostic list" where
  "reject_review is_review field = (if is_review then [ReviewUnsupported field] else [])"

definition dind_rule_reviews :: "string \<Rightarrow> rule_config \<Rightarrow> dind_diagnostic list" where
  "dind_rule_reviews field_prefix rule =
     reject_review (rc_on_match rule = ActReview) (field_prefix @ ''.onMatch'') @
     reject_review (rc_on_indeterminate rule = Some IaReview) (field_prefix @ ''.onIndeterminate'') @
     concat (map (\<lambda>(index, e).
        reject_review (ex_on_violation e = Some VaReview)
          (field_prefix @ ''.expect['' @ nat_text index @ ''].onViolation''))
       (enumerate 0 (opt_list (rc_expect rule))))"

definition dind_reviews :: "(string \<times> scope_config) list \<Rightarrow> dind_diagnostic list" where
  "dind_reviews scopes =
     concat (map (\<lambda>(name, scope).
        reject_review (sp_fallback scope = Some ActReview) (name @ ''.fallback'') @
        concat (map (\<lambda>(key, rule). dind_rule_reviews (name @ ''.rules.'' @ key) rule)
          (opt_list (sp_rules scope)))) scopes)"

definition resolve_dind_authz_config ::
  "dind_profile \<Rightarrow> resolved_document option \<times> dind_diagnostic list"
where
  "resolve_dind_authz_config profile =
     (let scopes = opt_list (dp_network_scopes profile);
          diagnostics = dind_reviews scopes;
          result = resolve_authz_config
            \<lparr>ac_secrets = dp_secrets profile, ac_mask = dp_mask profile,
             ac_network = \<lparr>nc_scopes = scopes, nc_fallback = Some NfDeny, nc_defaults = None\<rparr>\<rparr>
      in (if length diagnostics > 0 then None else ro_document result,
          diagnostics @ map FromResolution (ro_diagnostics result)))"

end
