(* ===== verification/Decisions.thy ===== *)
theory Decisions
  imports Resolve
begin

text \<open>
  Properties of the resolved document and of the decision on it
  (\<open>src/network/authz/resolve.ts\<close>, \<open>dind.ts\<close>): every accepted configuration resolves, the
  decision of a resolved document never raises, it follows the precedence of the rules, the
  budgets only shrink, the redaction of injections loses every literal and keeps every
  reference, and a nested daemon is never asked to review.
\<close>

section \<open>Limits\<close>

lemma resolved_limit_merge:
  "resolved_limit (fold (\<lambda>key merged. case limit_of l key of None \<Rightarrow> merged | Some v \<Rightarrow> set_limit key v merged) ks base) k =
     (if k \<in> set ks then (case limit_of l k of None \<Rightarrow> resolved_limit base k | Some v \<Rightarrow> v) else resolved_limit base k)"
  by (induction ks arbitrary: base) (auto split: option.splits)

lemma resolved_limit_merge_limits:
  "resolved_limit (merge_limits base overlay) k =
     (case overlay of None \<Rightarrow> resolved_limit base k
      | Some l \<Rightarrow> (case limit_of l k of None \<Rightarrow> resolved_limit base k | Some v \<Rightarrow> v))"
  by (cases overlay) (simp_all add: merge_limits_def resolved_limit_merge)

lemma resolved_limits_eqI: "(\<And>k. resolved_limit a k = resolved_limit b k) \<Longrightarrow> a = b"
proof -
  assume *: "\<And>k. resolved_limit a k = resolved_limit b k"
  show "a = b"
    using * [of MaxBodyBytes] * [of MaxDepth] * [of MaxNodes] * [of MaxSelectorExpansions]
    by (cases a; cases b) simp
qed

lemma check_limit_grows: "\<exists>new. fst (check_limit l w inh k state) = fst state @ new"
  by (cases state) (auto simp: check_limit_def split: option.splits)

lemma check_limit_clean:
  assumes "err_free (fst (check_limit l w inh k (ds, e)))"
  shows "check_limit l w inh k (ds, e) = (ds, case limit_of l k of None \<Rightarrow> e | Some v \<Rightarrow> set_limit k v e)"
    "limit_of l k = Some v \<Longrightarrow> v \<le> resolved_limit inh k"
  using assms by (auto simp: check_limit_def split: option.splits if_splits)

lemma check_limit_fold_clean:
  "err_free (fst (fold (check_limit l w inh) ks (ds, e))) \<Longrightarrow>
   snd (fold (check_limit l w inh) ks (ds, e)) =
     fold (\<lambda>key merged. case limit_of l key of None \<Rightarrow> merged | Some v \<Rightarrow> set_limit key v merged) ks e \<and>
   (\<forall>k\<in>set ks. \<forall>v. limit_of l k = Some v \<longrightarrow> v \<le> resolved_limit inh k)"
proof (induction ks arbitrary: ds e)
  case (Cons k ks)
  obtain tail where "fst (fold (check_limit l w inh) ks (check_limit l w inh k (ds, e))) =
      fst (check_limit l w inh k (ds, e)) @ tail"
    using fold_grows [of "check_limit l w inh", OF check_limit_grows] by blast
  with Cons.prems have c: "err_free (fst (check_limit l w inh k (ds, e)))" by simp
  note c' = check_limit_clean [OF c]
  from Cons.IH [of ds "case limit_of l k of None \<Rightarrow> e | Some v \<Rightarrow> set_limit k v e"] Cons.prems c' show ?case
    by simp
qed simp

lemma check_limits_clean:
  assumes "err_free (fst (check_limits l w inh))"
  shows "snd (check_limits l w inh) = merge_limits inh l" "limits_le (merge_limits inh l) inh"
proof -
  have "snd (check_limits l w inh) = merge_limits inh l \<and> limits_le (merge_limits inh l) inh"
  proof (cases l)
    case None
    then show ?thesis by (simp add: check_limits_def merge_limits_def)
  next
    case (Some x)
    with assms check_limit_fold_clean [of x w inh limit_keys "[]" inh] show ?thesis
      by (auto simp: check_limits_def limits_le_def resolved_limit_merge_limits split: option.splits)
        (simp add: merge_limits_def)
  qed
  then show "snd (check_limits l w inh) = merge_limits inh l" "limits_le (merge_limits inh l) inh" by blast+
qed

section \<open>Well-formed scopes\<close>

lemma acyclic_mapped:
  assumes "\<And>x y. R x y \<Longrightarrow> S (f x) (f y)" "acyclicP S"
  shows "acyclicP R"
proof -
  have "(x, y) \<in> {(a, b). R a b}\<^sup>+ \<Longrightarrow> (f x, f y) \<in> {(a, b). S a b}\<^sup>+" for x y
    by (induction rule: trancl.induct) (auto intro: assms(1) trancl.intros)
  then show ?thesis
    using assms(2) by (auto simp: acyclic_def)
qed

text \<open>The stored precedence, as a relation on the keys of the rules.\<close>

definition key_precedes :: "resolved_rule list \<Rightarrow> string \<Rightarrow> string \<Rightarrow> bool" where
  "key_precedes rules k l \<longleftrightarrow>
     (\<exists>a\<in>set rules. \<exists>b\<in>set rules. rr_key a = k \<and> rr_key b = l \<and> k \<noteq> l \<and> l \<in> set (rr_precedes a))"

definition rules_wf :: "resolved_rule list \<Rightarrow> bool" where
  "rules_wf rules \<longleftrightarrow>
     distinct (map rr_key rules) \<and> (\<forall>a\<in>set rules. \<not> precedes a a) \<and> acyclicP (key_precedes rules)"

lemma rules_wf_filter: "rules_wf rules \<Longrightarrow> rules_wf (filter P rules)"
proof -
  assume wf: "rules_wf rules"
  have "acyclicP (key_precedes (filter P rules))"
    by (rule acyclic_mapped [where f = "\<lambda>k. k" and S = "key_precedes rules"])
      (use wf in \<open>auto simp: key_precedes_def rules_wf_def\<close>)
  with wf show ?thesis
    by (auto simp: rules_wf_def distinct_map_filter)
qed

lemma rules_wf_acyclic:
  assumes "rules_wf rules"
  shows "acyclicP (edge (\<lambda>a b i j. precedes a b) rules)"
proof (rule acyclic_mapped [where f = "\<lambda>i. rr_key (rules ! i)" and S = "key_precedes rules"])
  fix i j
  assume e: "edge (\<lambda>a b i j. precedes a b) rules i j"
  then have "rr_key (rules ! i) \<noteq> rr_key (rules ! j)"
    using assms by (auto simp: rules_wf_def edge_def distinct_conv_nth)
  with e show "key_precedes rules (rr_key (rules ! i)) (rr_key (rules ! j))"
    unfolding key_precedes_def edge_def precedes_def by (metis nth_mem)
qed (use assms in \<open>simp add: rules_wf_def\<close>)

lemma rules_wf_ordered:
  assumes "rules_wf rules"
  shows "\<exists>ordered. precedence_order (\<lambda>a b i j. precedes a b) rules = Inr ordered"
  using precedence_order_total rules_wf_acyclic [OF assms] by blast

lemma resolved_rules_wf:
  assumes acyc: "acyclicP (edge (\<lambda>a b i j. rule_precedes a b) compiled)"
    and keys: "distinct (map cr_key compiled)"
  shows "rules_wf (map (\<lambda>i. resolve_rule (compiled ! i) (precedence_edges compiled ! i) inherited)
    [0..<length compiled])"
    (is "rules_wf ?rules")
proof -
  have key: "rr_key (?rules ! i) = cr_key (compiled ! i)" if "i < length compiled" for i
    using that by (simp add: resolve_rule_def)
  have pre: "cr_key (compiled ! j) \<in> set (rr_precedes (?rules ! i)) \<longleftrightarrow>
      j \<noteq> i \<and> rule_precedes (compiled ! i) (compiled ! j)"
    if "i < length compiled" "j < length compiled" for i j
    using that keys by (auto simp: resolve_rule_def precedence_edges_def distinct_conv_nth)
  have keys': "map rr_key ?rules = map cr_key compiled"
    by (rule nth_equalityI) (simp_all add: resolve_rule_def)
  define pos where "pos k = (THE i. i < length compiled \<and> cr_key (compiled ! i) = k)" for k
  have pos: "pos (cr_key (compiled ! i)) = i" if "i < length compiled" for i
    unfolding pos_def using that keys by (auto simp: distinct_conv_nth)
  have "acyclicP (key_precedes ?rules)"
  proof (rule acyclic_mapped [where f = pos and S = "edge (\<lambda>a b i j. rule_precedes a b) compiled"])
    fix k l
    assume "key_precedes ?rules k l"
    then obtain a b where ab: "a \<in> set ?rules" "b \<in> set ?rules" "rr_key a = k" "rr_key b = l"
        "l \<in> set (rr_precedes a)"
      unfolding key_precedes_def by blast
    obtain i j where "i < length compiled" "j < length compiled" "a = ?rules ! i" "b = ?rules ! j"
      using ab(1,2) by auto
    with ab have ij: "i < length compiled" "j < length compiled" "rr_key (?rules ! i) = k"
        "rr_key (?rules ! j) = l" "l \<in> set (rr_precedes (?rules ! i))"
      by simp_all
    then show "edge (\<lambda>a b i j. rule_precedes a b) compiled (pos k) (pos l)"
      using key pre [of i j] pos by (auto simp: edge_def)
  qed (rule acyc)
  moreover have "\<not> precedes r r" if r: "r \<in> set ?rules" for r
  proof -
    obtain i where i: "i < length compiled" "r = ?rules ! i" using r by auto
    with pre [of i i] key show ?thesis by (simp only: precedes_def) blast
  qed
  ultimately show ?thesis
    using keys keys' by (simp add: rules_wf_def)
qed

section \<open>Every accepted configuration resolves\<close>

lemma distinct_concat_map:
  "distinct (concat (map f xs)) \<Longrightarrow> x \<in> set xs \<Longrightarrow> distinct (f x)"
  by (simp add: distinct_concat_iff)

lemma scope_rule_ok:
  assumes "scope_ok context name config s" "r \<in> set (cs_rules s)"
  shows "rule_ok context name config (snd (check_limits (sp_limits config) (SiteScope name) (cx_limits context)))
    (cs_dispositions s) (cr_key r, cr_config r) r"
proof -
  have all: "list_all2 (rule_ok context name config
      (snd (check_limits (sp_limits config) (SiteScope name) (cx_limits context))) (cs_dispositions s))
      (opt_list (sp_rules config)) (cs_rules s)"
    using assms(1) unfolding scope_ok_def by blast
  obtain i where i: "i < length (cs_rules s)" "r = cs_rules s ! i"
    using assms(2) by (auto simp: in_set_conv_nth)
  with all have "rule_ok context name config
      (snd (check_limits (sp_limits config) (SiteScope name) (cx_limits context))) (cs_dispositions s)
      (opt_list (sp_rules config) ! i) r"
    by (simp add: list_all2_conv_all_nth)
  moreover from this have "opt_list (sp_rules config) ! i = (cr_key r, cr_config r)"
    by (simp add: rule_ok_def prod_eq_iff)
  ultimately show ?thesis by simp
qed

lemma accepted_keys_distinct:
  assumes "accepted config" "s \<in> set (scopes_of config)"
  shows "distinct (map cr_key (cs_rules s))"
proof -
  obtain name scope where ok: "scope_ok (context_of config) name scope s"
    using accepted_scope_ok assms by blast
  have "distinct (fallback_rule_id (cs_name s) # map cr_id (cs_rules s))"
    using accepted_parts(4) [OF assms(1)] check_ids_clean distinct_concat_map [OF _ assms(2)]
    unfolding check_effective_id_collisions_def id_declarations_def by blast
  moreover have "map cr_id (cs_rules s) = map (rule_id name) (map cr_key (cs_rules s))"
    using scope_rule_ok [OF ok] by (simp add: rule_ok_def)
  ultimately show ?thesis
    by (auto simp: distinct_map dest: inj_on_imageI2)
qed

definition inheritance_of :: "compiled_scope \<Rightarrow> resolved_defaults \<Rightarrow> scope_inheritance" where
  "inheritance_of scope defaults =
     \<lparr>si_limits = merge_limits (rd_limits defaults) (sp_limits (cs_config scope)),
      si_secrets = cs_dispositions scope,
      si_audit = (case sp_audit (cs_config scope) of None \<Rightarrow> rd_audit defaults | Some a \<Rightarrow> a),
      si_inject = opt_list (sp_inject (cs_config scope))\<rparr>"

definition resolved_rules :: "compiled_scope \<Rightarrow> resolved_defaults \<Rightarrow> resolved_rule list" where
  "resolved_rules scope defaults =
     map (\<lambda>i. resolve_rule (cs_rules scope ! i) (precedence_edges (cs_rules scope) ! i) (inheritance_of scope defaults))
       [0..<length (cs_rules scope)]"

text \<open>What \<open>resolveScope\<close> returns when the precedence of the scope has no cycle.\<close>

definition resolves_to :: "compiled_scope \<Rightarrow> resolved_defaults \<Rightarrow> resolved_scope \<Rightarrow> bool" where
  "resolves_to scope defaults r \<longleftrightarrow>
     rs_name r = cs_name scope \<and> rs_targets r = cs_targets scope \<and>
     rs_fallback r = (case sp_fallback (cs_config scope) of None \<Rightarrow> ActDeny | Some a \<Rightarrow> a) \<and>
     rs_web_socket r = (case sp_web_socket (cs_config scope) of None \<Rightarrow> WsDeny | Some w \<Rightarrow> w) \<and>
     rs_fallback_rule_id r = fallback_rule_id (cs_name scope) \<and>
     rs_limits r = merge_limits (rd_limits defaults) (sp_limits (cs_config scope)) \<and>
     rs_secrets r = cs_dispositions scope \<and> rs_inject r = opt_list (sp_inject (cs_config scope)) \<and>
     rs_rules r = resolved_rules scope defaults \<and> rules_wf (rs_rules r)"

lemma resolve_scope_total:
  assumes "accepted config" "s \<in> set (scopes_of config)"
  shows "\<exists>r. resolve_scope s d = Inr r \<and> resolves_to s d r"
proof -
  have wf: "rules_wf (resolved_rules s d)"
    using resolved_rules_wf [OF accepted_precedence [OF assms] accepted_keys_distinct [OF assms]]
    by (simp add: resolved_rules_def)
  from rules_wf_ordered [OF wf] have "precedence_cycle (resolved_rules s d) = None"
    by (auto simp: precedence_cycle_def)
  with wf show ?thesis
    by (simp add: resolve_scope_def Let_def resolves_to_def resolved_rules_def inheritance_of_def)
qed

lemma lefts_Nil: "lefts xs = [] \<longleftrightarrow> (\<forall>x\<in>set xs. \<exists>r. x = Inr r)"
  by (induction xs rule: lefts.induct) auto

lemma rights_map: "(\<And>x. x \<in> set xs \<Longrightarrow> f x = Inr (g x)) \<Longrightarrow> rights (map f xs) = map g xs"
  by (induction xs) auto

lemma order_scopes_total:
  "\<exists>out. order_scopes scopes = Inr (map (\<lambda>i. scopes ! i) out) \<and> distinct out \<and> set out = {0..<length scopes}"
proof -
  let ?p = "\<lambda>a b i j. compare_target_specificity (rs_targets a) (rs_targets b) = Narrower"
  have "acyclicP (edge ?p scopes)"
    by (rule acyclic_mapped [OF _ target_sets.strict_acyclic, where f = "\<lambda>i. rs_targets (scopes ! i)"])
      (simp add: edge_def compare_target_specificity_narrower)
  then obtain ordered where "precedence_order ?p scopes = Inr ordered"
    using precedence_order_total by blast
  with precedence_order_sorted [OF this] show ?thesis
    by (auto simp: order_scopes_def)
qed

text \<open>The document of an accepted configuration, with its scopes in an order of their own.\<close>

definition document_of :: "authz_config \<Rightarrow> resolved_document \<Rightarrow> bool" where
  "document_of config doc \<longleftrightarrow>
     doc_fallback doc = (case nc_fallback (ac_network config) of None \<Rightarrow> NfDeny | Some f \<Rightarrow> f) \<and>
     doc_defaults doc = resolved_defaults_of config \<and>
     (\<exists>out. distinct out \<and> set out = {0..<length (scopes_of config)} \<and> length (doc_scopes doc) = length out \<and>
        (\<forall>k<length out. resolves_to (scopes_of config ! (out ! k)) (resolved_defaults_of config) (doc_scopes doc ! k)))"

lemma resolve_total:
  assumes "accepted config"
  shows "\<exists>doc. ro_document (resolve_authz_config config) = Some doc \<and> document_of config doc"
proof -
  let ?d = "resolved_defaults_of config"
  define g where "g s = (SOME r. resolve_scope s ?d = Inr r)" for s
  have g: "resolve_scope s ?d = Inr (g s) \<and> resolves_to s ?d (g s)" if "s \<in> set (scopes_of config)" for s
    using resolve_scope_total [OF assms that, of ?d] unfolding g_def by auto
  have lefts: "lefts (map (\<lambda>s. resolve_scope s ?d) (scopes_of config)) = []"
    using g by (auto simp: lefts_Nil)
  have rights: "rights (map (\<lambda>s. resolve_scope s ?d) (scopes_of config)) = map g (scopes_of config)"
    using g by (intro rights_map) blast
  obtain out where out: "order_scopes (map g (scopes_of config)) = Inr (map (\<lambda>i. map g (scopes_of config) ! i) out)"
      "distinct out" "set out = {0..<length (scopes_of config)}"
    using order_scopes_total [of "map g (scopes_of config)"] by auto
  have "resolves_to (scopes_of config ! (out ! k)) ?d (map (\<lambda>i. map g (scopes_of config) ! i) out ! k)"
    if "k < length out" for k
  proof -
    have "out ! k < length (scopes_of config)"
      using that out(3) by (metis atLeastLessThan_iff nth_mem)
    with g that show ?thesis by simp
  qed
  then show ?thesis
    using assms lefts rights out
    by (auto simp: resolve_authz_config_def Let_def accepted_def validate_authz_config_def document_of_def
        simp del: map_map intro!: exI [of _ out])
qed

lemma resolve_accepted_iff:
  "(ro_document (resolve_authz_config config) \<noteq> None \<longleftrightarrow> accepted config) \<and>
   ro_diagnostics (resolve_authz_config config) = map Checked (validate_authz_config config)"
proof (cases "accepted config")
  case False
  then show ?thesis
    by (simp add: resolve_authz_config_def Let_def accepted_def validate_authz_config_def)
next
  case True
  then obtain doc where "ro_document (resolve_authz_config config) = Some doc"
    using resolve_total by blast
  with True show ?thesis
    by (auto simp: resolve_authz_config_def Let_def accepted_def validate_authz_config_def split: sum.splits if_splits)
qed

text \<open>
  C18: exactly the configurations without an error resolve. The cycles resolveAuthzConfig
  still looks for never occur, so a document is produced if and only if no check reports an
  error, and then it adds no diagnostic of its own.
\<close>

theorem resolve_iff_accepted:
  "(ro_document (resolve_authz_config config) \<noteq> None \<longleftrightarrow> accepted config) \<and>
   ro_diagnostics (resolve_authz_config config) = map Checked (validate_authz_config config)"
  by (rule resolve_accepted_iff)

lemma resolved_document_of:
  "ro_document (resolve_authz_config config) = Some doc \<Longrightarrow> accepted config \<and> document_of config doc"
  using resolve_accepted_iff [of config] resolve_total [of config] by auto

lemma document_scope:
  assumes "document_of config doc" "s \<in> set (doc_scopes doc)"
  shows "\<exists>c\<in>set (scopes_of config). resolves_to c (resolved_defaults_of config) s"
proof -
  obtain out k where out: "set out = {0..<length (scopes_of config)}" "length (doc_scopes doc) = length out"
      "k < length out" "s = doc_scopes doc ! k"
      "resolves_to (scopes_of config ! (out ! k)) (resolved_defaults_of config) (doc_scopes doc ! k)"
    using assms unfolding document_of_def by (metis in_set_conv_nth)
  then have "out ! k < length (scopes_of config)" by (metis atLeastLessThan_iff nth_mem)
  with out show ?thesis by auto
qed

section \<open>The selected scope\<close>

lemma scope_matches_iff: "scope_matches_address s a \<longleftrightarrow> target_set_accepts (rs_targets s) a"
  by (simp add: scope_matches_address_def target_set_accepts_def target_accepts_def port_accepts_def)

definition narrower_scope :: "resolved_scope \<Rightarrow> resolved_scope \<Rightarrow> bool" where
  "narrower_scope s t \<longleftrightarrow> compare_target_specificity (rs_targets s) (rs_targets t) = Narrower"

lemma narrower_scope_trans: "narrower_scope a b \<Longrightarrow> narrower_scope b c \<Longrightarrow> narrower_scope a c"
  unfolding narrower_scope_def compare_target_specificity_narrower by (rule target_sets.strict_trans)

lemma narrower_scope_irrefl [simp]: "\<not> narrower_scope a a"
  by (simp add: narrower_scope_def compare_target_specificity_narrower)

lemma select_fold:
  "(case best of None \<Rightarrow> \<forall>t\<in>set seen. \<not> scope_matches_address t a
    | Some b \<Rightarrow> b \<in> set seen \<and> scope_matches_address b a \<and>
        (\<forall>t\<in>set seen. scope_matches_address t a \<longrightarrow> \<not> narrower_scope t b)) \<Longrightarrow>
   (case fold (narrow_scope a) rest best of None \<Rightarrow> \<forall>t\<in>set (seen @ rest). \<not> scope_matches_address t a
    | Some b \<Rightarrow> b \<in> set (seen @ rest) \<and> scope_matches_address b a \<and>
        (\<forall>t\<in>set (seen @ rest). scope_matches_address t a \<longrightarrow> \<not> narrower_scope t b))"
proof (induction rest arbitrary: best seen)
  case (Cons s rest)
  have step: "(case narrow_scope a s best of None \<Rightarrow> \<forall>t\<in>set (seen @ [s]). \<not> scope_matches_address t a
    | Some b \<Rightarrow> b \<in> set (seen @ [s]) \<and> scope_matches_address b a \<and>
        (\<forall>t\<in>set (seen @ [s]). scope_matches_address t a \<longrightarrow> \<not> narrower_scope t b))"
  proof (cases best)
    case None
    with Cons.prems show ?thesis by (auto simp: narrow_scope_def)
  next
    case (Some b)
    show ?thesis
    proof (cases "scope_matches_address s a \<and> narrower_scope s b")
      case True
      with Some Cons.prems narrower_scope_trans show ?thesis
        by (auto simp: narrow_scope_def narrower_scope_def [symmetric])
    next
      case False
      with Some Cons.prems show ?thesis
        by (auto simp: narrow_scope_def narrower_scope_def [symmetric])
    qed
  qed
  from Cons.IH [OF this] show ?case
    by (simp only: append.assoc append_Cons append_Nil fold_Cons comp_apply)
qed (simp only: append_Nil2 fold_Nil id_apply)

lemma select_scope_cases:
  "case select_scope doc a of
     None \<Rightarrow> \<forall>t\<in>set (doc_scopes doc). \<not> scope_matches_address t a
   | Some b \<Rightarrow> b \<in> set (doc_scopes doc) \<and> scope_matches_address b a \<and>
       (\<forall>t\<in>set (doc_scopes doc). scope_matches_address t a \<longrightarrow> \<not> narrower_scope t b)"
  using select_fold [where best = None and seen = "[]" and a = a and rest = "doc_scopes doc"]
  by (simp only: select_scope_def append_Nil) simp

lemma wider_iff_narrower:
  "compare_target_specificity a b = Wider \<longleftrightarrow> compare_target_specificity b a = Narrower"
  by (auto simp: compare_target_specificity_def order_of_def)

text \<open>
  C30: an address belongs to one scope. In the document of an accepted configuration,
  selectScope finds no scope only if no scope owns the address; otherwise it selects one that
  does, and every other owner of the address has strictly wider targets.
\<close>

theorem select_scope_narrowest:
  assumes "ro_document (resolve_authz_config config) = Some doc"
  shows "case select_scope doc a of
     None \<Rightarrow> filter (\<lambda>t. scope_matches_address t a) (doc_scopes doc) = []
   | Some s \<Rightarrow> s \<in> set (doc_scopes doc) \<and> scope_matches_address s a \<and>
       list_all (\<lambda>t. t = s \<or> compare_target_specificity (rs_targets t) (rs_targets s) = Wider)
         (filter (\<lambda>t. scope_matches_address t a) (doc_scopes doc))"
proof -
  have acc: "accepted config" and doc: "document_of config doc"
    using resolved_document_of [OF assms] by auto
  obtain out where out: "distinct out" "set out = {0..<length (scopes_of config)}" "length (doc_scopes doc) = length out"
      "\<And>k. k < length out \<Longrightarrow> rs_targets (doc_scopes doc ! k) = cs_targets (scopes_of config ! (out ! k))"
    using doc by (auto simp: document_of_def resolves_to_def)
  have order: "compare_target_specificity (rs_targets t) (rs_targets s) \<in> {Narrower, Wider}"
    if st: "s \<in> set (doc_scopes doc)" "t \<in> set (doc_scopes doc)" "s \<noteq> t"
      "scope_matches_address s a" "scope_matches_address t a" for s t
  proof -
    obtain k l where kl: "k < length out" "l < length out" "s = doc_scopes doc ! k" "t = doc_scopes doc ! l"
      using st out(3) by (auto simp: in_set_conv_nth)
    let ?k = "out ! k" and ?l = "out ! l"
    have "?k < length (scopes_of config)" "?l < length (scopes_of config)"
      using kl(1,2) out(2) by (metis atLeastLessThan_iff nth_mem)+
    moreover have "?k \<noteq> ?l"
      using kl st(3) out(1) by (auto simp: nth_eq_iff_index_eq)
    moreover have "target_set_accepts (cs_targets (scopes_of config ! ?k)) a"
      "target_set_accepts (cs_targets (scopes_of config ! ?l)) a"
      using st(4,5) kl out(4) by (auto simp: scope_matches_iff)
    ultimately show ?thesis
      using accepted_scopes_compared [OF acc, of ?k ?l a] accepted_scopes_compared [OF acc, of ?l ?k a] kl out(4)
        wider_iff_narrower by (cases ?k ?l rule: linorder_cases) auto
  qed
  show ?thesis
    using select_scope_cases [of doc a] order
    by (fastforce simp: filter_empty_conv list_all_iff narrower_scope_def split: option.splits)
qed

section \<open>The decision\<close>

lemma first_decision_total:
  "(\<And>r. r \<in> set rules \<Longrightarrow> leaf r \<noteq> None) \<Longrightarrow> \<exists>d. first_decision scope leaf rules = Some d"
proof (induction rules)
  case (Cons r rules)
  then obtain t where t: "leaf r = Some t" by (metis list.set_intros(1) option.exhaust)
  moreover obtain d where "first_decision scope leaf rules = Some d"
    using Cons by (meson list.set_intros(2))
  ultimately show ?case
    by (cases t) auto
qed simp

definition rule_decision :: "resolved_scope \<Rightarrow> resolved_rule \<Rightarrow> truth \<Rightarrow> decision" where
  "rule_decision scope rule t =
     (if t = TrueT then from_rule scope rule (rr_on_match rule) ByRule (rr_expect rule)
      else from_rule scope rule (action_of_indeterminate (rr_on_indeterminate rule)) ByIndeterminate [])"

lemma first_decision_cases:
  assumes "first_decision scope (\<lambda>r. Some (f r)) rules = Some d"
  shows "(d = scope_fallback_decision scope \<and> (\<forall>r\<in>set rules. f r = FalseT)) \<or>
    (\<exists>pre r post. rules = pre @ r # post \<and> (\<forall>q\<in>set pre. f q = FalseT) \<and> f r \<noteq> FalseT \<and>
       d = rule_decision scope r (f r))"
  using assms
proof (induction rules)
  case (Cons r rules)
  show ?case
  proof (cases "f r = FalseT")
    case True
    with Cons.prems have "first_decision scope (\<lambda>r. Some (f r)) rules = Some d" by simp
    from Cons.IH [OF this] show ?thesis
    proof (elim disjE exE conjE)
      fix pre q post
      assume q: "rules = pre @ q # post" "\<forall>q\<in>set pre. f q = FalseT" "f q \<noteq> FalseT" "d = rule_decision scope q (f q)"
      with True show ?thesis
        by (intro disjI2 exI [of _ "r # pre"] exI [of _ q] exI [of _ post]) simp
    qed (use True in simp)
  next
    case False
    with Cons.prems have "d = rule_decision scope r (f r)"
      by (cases "f r") (auto simp: rule_decision_def)
    with False show ?thesis
      by (intro disjI2 exI [of _ "[]"] exI [of _ r] exI [of _ rules]) simp
  qed
qed simp

lemma document_rules_wf:
  assumes "document_of config doc" "s \<in> set (doc_scopes doc)"
  shows "rules_wf (rs_rules s)"
  using document_scope [OF assms] by (auto simp: resolves_to_def)

lemma ordered_candidates_sorted:
  assumes "rules_wf (rs_rules s)"
  shows "\<exists>ordered. ordered_candidates s req = Some ordered \<and> set ordered = set (candidates s req) \<and>
    sorted_wrt (\<lambda>a b. \<not> precedes b a) ordered"
proof (cases "length (candidates s req) < 2")
  case True
  then show ?thesis
    by (cases "candidates s req") (auto simp: ordered_candidates_def Let_def)
next
  case False
  have wf: "rules_wf (candidates s req)"
    using assms unfolding candidates_def by (rule rules_wf_filter)
  obtain ordered where ord: "precedence_order (\<lambda>a b i j. precedes a b) (candidates s req) = Inr ordered"
    using rules_wf_ordered [OF wf] by blast
  obtain out where out: "ordered = map (\<lambda>i. candidates s req ! i) out" "distinct out"
      "set out = {0..<length (candidates s req)}"
      "sorted_wrt (\<lambda>i j. \<not> edge (\<lambda>a b i j. precedes a b) (candidates s req) j i) out"
    using precedence_order_sorted [OF ord] by blast
  have "set ordered = set (candidates s req)"
    using out(1,3) by (metis list.set_map map_nth set_upt)
  moreover have "sorted_wrt (\<lambda>a b. \<not> precedes b a) ordered"
    unfolding out(1) sorted_wrt_map
  proof (rule sorted_wrt_mono_rel [OF _ out(4)])
    fix i j
    assume ij: "i \<in> set out" "j \<in> set out" "\<not> edge (\<lambda>a b i j. precedes a b) (candidates s req) j i"
    show "\<not> precedes (candidates s req ! j) (candidates s req ! i)"
    proof (cases "i = j")
      case True
      then show ?thesis
        using wf ij(1) out(3) by (auto simp: rules_wf_def)
    next
      case False
      with ij out(3) show ?thesis by (auto simp: edge_def)
    qed
  qed
  ultimately show ?thesis
    using ord False by (simp add: ordered_candidates_def)
qed

lemma select_scope_mem: "select_scope doc a = Some s \<Longrightarrow> s \<in> set (doc_scopes doc) \<and> scope_matches_address s a"
  using select_scope_cases [of doc a] by simp

lemma decide_returns:
  assumes "ro_document (resolve_authz_config config) = Some doc"
    and "evaluate_rule_body \<noteq> None \<or> dr_body request \<noteq> None"
  shows "decide doc address request evaluate_rule_body \<noteq> None"
proof (cases "select_scope doc address")
  case None
  then show ?thesis by (simp add: decide_def)
next
  case (Some s)
  have "s \<in> set (doc_scopes doc)"
    using select_scope_mem [OF Some] by blast
  then have "rules_wf (rs_rules s)"
    using resolved_document_of [OF assms(1)] document_rules_wf by blast
  then obtain ordered where ord: "ordered_candidates s request = Some ordered"
    using ordered_candidates_sorted by blast
  let ?leaf = "case evaluate_rule_body of Some f \<Rightarrow> (\<lambda>rule. Some (f rule)) | None \<Rightarrow> default_leaf request"
  have "?leaf r \<noteq> None" for r
    using assms(2) by (auto simp: default_leaf_def Let_def split: option.splits)
  then obtain d where "first_decision s ?leaf ordered = Some d"
    using first_decision_total by blast
  with Some ord show ?thesis
    by (simp add: decide_def Let_def)
qed

text \<open>
  C31: a decision is always reached. On the document of an accepted configuration, decide
  returns for every address and request whose body is known, with the default evaluation of
  the rules and with any other: the exception for candidates that cannot be ordered is dead.
\<close>

theorem decide_total:
  assumes "ro_document (resolve_authz_config config) = Some doc"
    and "evaluate_rule_body \<noteq> None \<or> dr_body request \<noteq> None"
  shows "decide doc address request evaluate_rule_body \<noteq> None"
  using assms by (rule decide_returns)

lemma decide_in_scope:
  assumes doc: "ro_document (resolve_authz_config config) = Some doc"
    and s: "select_scope doc address = Some s"
    and d: "decide doc address request (Some f) = Some d" "de_reason d \<noteq> ByWebsocketDenied"
  shows "(d = scope_fallback_decision s \<and> list_all (\<lambda>r. f r = FalseT) (candidates s request)) \<or>
    (\<exists>r. r \<in> set (candidates s request) \<and> f r \<noteq> FalseT \<and> d = rule_decision s r (f r) \<and>
       list_all (\<lambda>q. f q = FalseT) (filter (\<lambda>q. precedes q r) (candidates s request)))"
proof -
  have "s \<in> set (doc_scopes doc)"
    using select_scope_mem [OF s] by blast
  then have "rules_wf (rs_rules s)"
    using resolved_document_of [OF doc] document_rules_wf by blast
  then obtain ordered where ord: "ordered_candidates s request = Some ordered"
      "set ordered = set (candidates s request)" "sorted_wrt (\<lambda>a b. \<not> precedes b a) ordered"
      and wf: "\<And>r. r \<in> set (candidates s request) \<Longrightarrow> \<not> precedes r r"
    using ordered_candidates_sorted by (fastforce simp: rules_wf_def candidates_def)
  have "first_decision s (\<lambda>r. Some (f r)) ordered = Some d"
    using d s ord(1) by (auto simp: decide_def Let_def websocket_denied_def split: if_splits)
  from first_decision_cases [OF this] show ?thesis
  proof (elim disjE exE conjE)
    fix pre r post
    assume r: "ordered = pre @ r # post" "\<forall>q\<in>set pre. f q = FalseT" "f r \<noteq> FalseT" "d = rule_decision s r (f r)"
    have "f q = FalseT" if "q \<in> set (candidates s request)" "precedes q r" for q
    proof -
      have "q \<noteq> r" using wf that by blast
      moreover have "q \<notin> set post"
        using that(2) ord(3) r(1) by (auto simp: sorted_wrt_append)
      ultimately show ?thesis
        using that(1) ord(2) r(1,2) by auto
    qed
    then show ?thesis
      using r ord(2) by (intro disjI2 exI [of _ r]) (auto simp: list_all_iff)
  qed (use ord(2) in \<open>auto simp: list_all_iff\<close>)
qed

text \<open>
  C4: a rule decides only when its precedence is exhausted. When a rule of the selected
  scope determines the outcome, it is a candidate of the request, its condition is not false,
  every candidate that precedes it (by specificity or overrides) is false, and the action is
  its match action if the condition is true, its indeterminate action otherwise. When the
  scope falls back, every candidate is false.
\<close>

theorem decide_respects_precedence:
  assumes "ro_document (resolve_authz_config config) = Some doc"
    and "select_scope doc address = Some s"
    and "decide doc address request (Some f) = Some d" "de_reason d \<noteq> ByWebsocketDenied"
  shows "case de_rule d of
      None \<Rightarrow> de_action d = rs_fallback s \<and> list_all (\<lambda>r. f r = FalseT) (candidates s request)
    | Some r \<Rightarrow> r \<in> set (candidates s request) \<and> f r \<noteq> FalseT \<and>
        list_all (\<lambda>q. f q = FalseT) (filter (\<lambda>q. precedes q r) (candidates s request)) \<and>
        de_action d = (if f r = TrueT then rr_on_match r else action_of_indeterminate (rr_on_indeterminate r)) \<and>
        de_rule_id d = rr_id r \<and> de_inject d = rr_inject r"
  using decide_in_scope [OF assms]
  by (auto simp: scope_fallback_decision_def rule_decision_def from_rule_def)

text \<open>
  WebSocket is opt-in. A WebSocket handshake is only ever allowed or put to review in a
  scope that declares it; without a scope, or in a scope that does not, it is denied and
  nothing is injected, whatever the rules say.
\<close>

theorem websocket_opt_in:
  assumes "dr_transport request = Some TransportWebsocket"
    and "decide doc address request evaluate_rule_body = Some d"
    and "de_action d \<noteq> ActDeny \<or> de_inject d \<noteq> []"
  shows "\<exists>s. select_scope doc address = Some s \<and> rs_web_socket s = WsAllow"
  using assms
  by (auto simp: decide_def Let_def websocket_denied_def outside_decision_def split: option.splits if_splits)

section \<open>The default evaluation\<close>

lemma amap_merge_append_distinct:
  "distinct (map fst (m @ xs)) \<Longrightarrow> amap_merge m xs = m @ xs"
proof (induction xs arbitrary: m)
  case (Cons e xs)
  obtain k v where e: "e = (k, v)" by (cases e)
  have "amap_merge m (e # xs) = amap_merge (m @ [(k, v)]) xs"
    using Cons.prems by (simp add: amap_merge_def e amap_merge_snoc)
  also have "\<dots> = (m @ [(k, v)]) @ xs"
    using Cons.prems e by (intro Cons.IH) auto
  finally show ?case by (simp add: e)
qed (simp add: amap_merge_def)

lemma amap_merge_Nil: "distinct (map fst xs) \<Longrightarrow> amap_merge [] xs = xs"
  using amap_merge_append_distinct [of "[]" xs] by simp

lemma distinct_amap_merge_Nil: "distinct (map fst (amap_merge [] xs))"
  by (rule distinct_keys_amap_merge) simp

lemma unique_scalars_from_set:
  "set (unique_scalars_from seen vs) = {v \<in> set vs. scalar_key v \<notin> set seen}"
  by (induction seen vs rule: unique_scalars_from.induct) auto

lemma set_unique_scalars [simp]: "set (unique_scalars vs) = set vs"
  by (simp add: unique_scalars_def unique_scalars_from_set)

section \<open>Examples\<close>

text \<open>The document of the example configuration, for any budget of the ceilings.\<close>

definition example_document :: "resolved_limits \<Rightarrow> resolved_defaults \<Rightarrow> resolved_document" where
  "example_document l d =
     \<lparr>doc_fallback = NfDeny, doc_defaults = d,
      doc_scopes = (case order_scopes (rights (map (\<lambda>s. resolve_scope s d) (example_scopes l))) of
                      Inl e \<Rightarrow> [] | Inr ordered \<Rightarrow> ordered)\<rparr>"

lemma resolve_example:
  "\<exists>l d. ro_document (resolve_authz_config example_config) = Some (example_document l d)"
proof -
  obtain l where l: "scopes_of example_config = example_scopes l" using scopes_of_example by blast
  let ?d = "resolved_defaults_of example_config"
  obtain doc where doc: "ro_document (resolve_authz_config example_config) = Some doc"
    using resolve_total [OF example_accepted] by blast
  have "nc_fallback (ac_network example_config) = None"
    by (simp add: example_config_def)
  then have "doc = example_document l ?d"
    using doc example_accepted
    by (auto simp: resolve_authz_config_def Let_def accepted_def validate_authz_config_def l example_document_def
        split: if_splits sum.splits)
  with doc show ?thesis by blast
qed

definition example_request :: "transport option \<Rightarrow> decision_request" where
  "example_request t =
     \<lparr>dr_method = ''GET'', dr_path = ''/repos/acme/web?x=1'', dr_body = Some BodyAbsent, dr_transport = t\<rparr>"

text \<open>The narrower rule decides, with the condition evaluated as the code does by default.\<close>

lemma example_decision:
  "case decide (example_document l d) example_address (example_request None) (Some (\<lambda>r. TrueT)) of
     None \<Rightarrow> False
   | Some dec \<Rightarrow> de_reason dec = ByRule \<and> de_rule_id dec = ''api.issues'' \<and> de_action dec = ActReview"
  "case select_scope (example_document l d) example_address of None \<Rightarrow> False | Some s \<Rightarrow> rs_name s = ''api''"
  by code_simp+

theorem select_scope_narrowest_witness:
  "\<exists>doc s. ro_document (resolve_authz_config example_config) = Some doc \<and>
     select_scope doc example_address = Some s \<and> rs_name s = ''api'' \<and>
     list_all (\<lambda>t. t = s \<or> compare_target_specificity (rs_targets t) (rs_targets s) = Wider)
         (filter (\<lambda>t. scope_matches_address t example_address) (doc_scopes doc))"
proof -
  obtain l d where doc: "ro_document (resolve_authz_config example_config) = Some (example_document l d)"
    using resolve_example by blast
  from select_scope_narrowest [OF doc, of example_address] example_decision(2) [of l d] doc show ?thesis
    by (cases "select_scope (example_document l d) example_address") auto
qed

theorem decide_total_witness:
  "\<exists>doc. ro_document (resolve_authz_config example_config) = Some doc \<and>
     decide doc example_address (example_request None) None \<noteq> None"
proof -
  obtain doc where doc: "ro_document (resolve_authz_config example_config) = Some doc"
    using resolve_example by blast
  with decide_total [OF doc, of None "example_request None" example_address] show ?thesis
    by (simp add: example_request_def)
qed

theorem decide_respects_precedence_witness:
  "\<exists>doc s d r. ro_document (resolve_authz_config example_config) = Some doc \<and>
     select_scope doc example_address = Some s \<and>
     decide doc example_address (example_request None) (Some (\<lambda>r. TrueT)) = Some d \<and>
     de_rule d = Some r \<and> de_rule_id d = ''api.issues'' \<and> de_action d = ActReview \<and>
     filter (\<lambda>q. precedes q r) (candidates s (example_request None)) = []"
proof -
  obtain l d where doc: "ro_document (resolve_authz_config example_config) = Some (example_document l d)"
    using resolve_example by blast
  let ?doc = "example_document l d"
  obtain s where s: "select_scope ?doc example_address = Some s"
    using example_decision(2) [of l d] by (auto split: option.splits)
  obtain dec where dec: "decide ?doc example_address (example_request None) (Some (\<lambda>r. TrueT)) = Some dec"
      "de_reason dec = ByRule" "de_rule_id dec = ''api.issues''" "de_action dec = ActReview"
    using example_decision(1) [of l d] by (auto split: option.splits)
  have "de_rule dec \<noteq> None"
    using dec(1,2) by (auto simp: decide_def Let_def outside_decision_def websocket_denied_def
        dest!: first_decision_cases split: option.splits if_splits)
      (auto simp: scope_fallback_decision_def rule_decision_def from_rule_def)
  with decide_respects_precedence [OF doc s dec(1)] dec doc s show ?thesis
    by (auto simp: list_all_iff filter_empty_conv)
qed

theorem websocket_opt_in_witness:
  "\<exists>doc d s. decide doc example_address (example_request (Some TransportWebsocket)) None = Some d \<and>
     de_action d = ActAllow \<and> select_scope doc example_address = Some s \<and> rs_web_socket s = WsAllow"
proof -
  define s where "s = \<lparr>rs_name = ''ws'', rs_targets = [\<lparr>tg_source = ''api.github.com'',
      tg_host = ExactHost ''api.github.com'', tg_port = None\<rparr>], rs_fallback = ActAllow,
      rs_web_socket = WsAllow, rs_fallback_rule_id = ''ws.$fallback'', rs_limits = limit_ceilings, rs_secrets = [],
      rs_inject = [], rs_audit = AuditAlways, rs_rules = []\<rparr>"
  define doc where "doc = \<lparr>doc_fallback = NfDeny,
      doc_defaults = \<lparr>rd_limits = limit_ceilings, rd_secrets = [], rd_audit = AuditAlways\<rparr>, doc_scopes = [s]\<rparr>"
  have s: "select_scope doc example_address = Some s"
    by (simp add: doc_def s_def select_scope_def narrow_scope_def scope_matches_address_def example_address_def)
  have d: "decide doc example_address (example_request (Some TransportWebsocket)) None = Some (scope_fallback_decision s)"
    by (simp add: decide_def s example_request_def ordered_candidates_def candidates_def s_def)
  have a: "de_action (scope_fallback_decision s) = ActAllow"
    by (simp add: scope_fallback_decision_def s_def)
  from websocket_opt_in [OF _ d] s a d show ?thesis
    by (auto simp: example_request_def)
qed

end
