(* ===== verification/Documents.thy ===== *)
theory Documents
  imports Decisions
begin

text \<open>
  What the resolved document keeps of the configuration (\<open>src/network/authz/resolve.ts\<close>) and
  what it withholds: budgets only shrink from the ceilings to the rules, body conditions mean
  the same after resolution, the redacted document holds no literal, and the document of a
  nested daemon (\<open>dind.ts\<close>) never asks for a review.
\<close>

section \<open>Budgets\<close>

lemma document_scope_config:
  assumes "accepted config" "c \<in> set (scopes_of config)"
  shows "\<exists>name. (name, cs_config c) \<in> set (nc_scopes (ac_network config)) \<and>
    scope_ok (context_of config) name (cs_config c) c"
proof -
  obtain name scope where "(name, scope) \<in> set (nc_scopes (ac_network config))"
      "scope_ok (context_of config) name scope c"
    using accepted_scope_ok [OF assms] by blast
  then show ?thesis by (auto simp: scope_ok_def)
qed

lemma resolved_rule_origin:
  assumes "r \<in> set (resolved_rules c d)"
  shows "\<exists>cr edges. cr \<in> set (cs_rules c) \<and> r = resolve_rule cr edges (inheritance_of c d)"
proof -
  obtain i where "i < length (cs_rules c)"
      "r = resolve_rule (cs_rules c ! i) (precedence_edges (cs_rules c) ! i) (inheritance_of c d)"
    using assms by (auto simp: resolved_rules_def)
  then show ?thesis using nth_mem by blast
qed

text \<open>
  budgets can only be lowered. In the document of an accepted configuration the budget
  of every rule is within that of its scope, that of every scope within the defaults, and the
  defaults within the fixed ceilings, on all four axes.
\<close>

theorem budgets_only_shrink:
  assumes "ro_document (resolve_authz_config config) = Some doc"
  shows "limits_le (rd_limits (doc_defaults doc)) limit_ceilings \<and>
    list_all (\<lambda>s. limits_le (rs_limits s) (rd_limits (doc_defaults doc)) \<and>
      list_all (\<lambda>r. limits_le (rr_limits r) (rs_limits s)) (rs_rules s)) (doc_scopes doc)"
proof -
  have acc: "accepted config" and doc: "document_of config doc"
    using resolved_document_of [OF assms] by auto
  let ?d = "resolved_defaults_of config"
  have dd: "doc_defaults doc = ?d" using doc by (simp add: document_of_def)
  note base = check_limits_clean [OF accepted_parts(1) [OF acc]]
  have cx: "cx_limits (context_of config) = rd_limits ?d" "limits_le (rd_limits ?d) limit_ceilings"
    using base by (simp_all add: context_of_def resolved_defaults_of_def)
  have "limits_le (rs_limits s) (rd_limits ?d) \<and> (\<forall>r\<in>set (rs_rules s). limits_le (rr_limits r) (rs_limits s))"
    if s: "s \<in> set (doc_scopes doc)" for s
  proof -
    obtain c where c: "c \<in> set (scopes_of config)" "resolves_to c ?d s"
      using document_scope [OF doc s] by blast
    obtain name where ok: "scope_ok (context_of config) name (cs_config c) c"
      using document_scope_config [OF acc c(1)] by blast
    have "err_free (fst (check_limits (sp_limits (cs_config c)) (SiteScope name) (rd_limits ?d)))"
      using ok cx(1) by (simp add: scope_ok_def)
    note sc = check_limits_clean [OF this]
    have rules: "rs_rules s = resolved_rules c ?d" using c(2) by (simp add: resolves_to_def)
    have "limits_le (rr_limits r) (rs_limits s)" if r: "r \<in> set (rs_rules s)" for r
    proof -
      obtain cr edges where cr: "cr \<in> set (cs_rules c)" "r = resolve_rule cr edges (inheritance_of c ?d)"
        using resolved_rule_origin [OF r [unfolded rules]] by blast
      have "err_free (fst (check_limits (rc_limits (cr_config cr)) (SiteRule (cr_id cr)) (rs_limits s)))"
      proof -
        have "err_free (fst (check_limits (rc_limits (cr_config cr)) (SiteRule (cr_id cr))
            (snd (check_limits (sp_limits (cs_config c)) (SiteScope name) (cx_limits (context_of config))))))"
          using scope_rule_ok [OF ok cr(1)] unfolding rule_ok_def snd_conv fst_conv by blast
        moreover have "rs_limits s = merge_limits (rd_limits ?d) (sp_limits (cs_config c))"
          using c(2) by (simp add: resolves_to_def)
        ultimately show ?thesis using sc(1) cx(1) by simp
      qed
      from check_limits_clean(2) [OF this] show ?thesis
        using cr(2) c(2) by (simp add: resolve_rule_def inheritance_of_def resolves_to_def)
    qed
    with sc c(2) show ?thesis by (simp add: resolves_to_def)
  qed
  with dd cx(2) show ?thesis by (simp add: list_all_iff)
qed

theorem budgets_only_shrink_witness:
  "\<exists>doc. ro_document (resolve_authz_config example_config) = Some doc \<and>
     limits_le (rd_limits (doc_defaults doc)) limit_ceilings \<and> resolved_limit (rd_limits (doc_defaults doc)) MaxDepth = 64"
proof -
  obtain doc where doc: "ro_document (resolve_authz_config example_config) = Some doc"
    using resolve_example by blast
  have "doc_defaults doc = resolved_defaults_of example_config"
    using resolved_document_of [OF doc] by (simp add: document_of_def)
  then have "resolved_limit (rd_limits (doc_defaults doc)) MaxDepth = 64"
    by (simp add: resolved_defaults_of_def merge_limits_def example_config_def limit_ceilings_def)
  with budgets_only_shrink [OF doc] doc show ?thesis by blast
qed

section \<open>Body conditions\<close>

text \<open>A \<open>Record\<close> has one entry per key.\<close>

definition body_records_ok :: "body_match option \<Rightarrow> bool" where
  "body_records_ok body \<longleftrightarrow>
     (case body of None \<Rightarrow> True
      | Some b \<Rightarrow> distinct (map fst (opt_list (bm_equals b))) \<and> distinct (map fst (opt_list (bm_one_of b))))"

lemma set_amap_merge_subset: "set (amap_merge m xs) \<subseteq> set m \<union> set xs"
proof (induction xs arbitrary: m)
  case (Cons e xs)
  obtain k v where e: "e = (k, v)" by (cases e)
  have "set (amap_merge m (e # xs)) \<subseteq> set (AList.update k v m) \<union> set xs"
    using Cons by (simp add: amap_merge_def e)
  with set_update_subset [of k v m] e show ?case by auto
qed (simp add: amap_merge_def)

definition arguments_normal :: "field_arguments \<Rightarrow> bool" where
  "arguments_normal fa \<longleftrightarrow> distinct (map fst fa) \<and>
     (\<forall>(p, args)\<in>set fa. distinct (map fst args) \<and> (\<forall>(n, vs)\<in>set args. distinct vs))"

lemma arguments_normal_normalize: "arguments_normal (normalize_field_arguments fa)"
proof -
  let ?inner = "\<lambda>args. amap_merge [] (map (\<lambda>(n, vs). (n, js_unique vs)) args)"
  let ?outer = "map (\<lambda>(path, args). (path, ?inner args)) fa"
  have "distinct (map fst (?inner args)) \<and> (\<forall>(n, vs)\<in>set (?inner args). distinct vs)"
    for args :: "(string \<times> string list) list"
    using set_amap_merge_subset [of "[]" "map (\<lambda>(n, vs). (n, js_unique vs)) args"] distinct_amap_merge_Nil
    by fastforce
  then show ?thesis
    using set_amap_merge_subset [of "[]" ?outer] distinct_amap_merge_Nil [of ?outer]
    unfolding arguments_normal_def normalize_field_arguments_def by fastforce
qed

lemma arguments_normal_map:
  assumes "arguments_normal fa" "\<And>args. distinct (map fst args) \<Longrightarrow> (\<forall>(n, vs)\<in>set args. distinct vs) \<Longrightarrow> f args = args"
  shows "amap_merge [] (map (\<lambda>(p, args). (p, f args)) fa) = fa"
proof -
  have "map (\<lambda>(p, args). (p, f args)) fa = fa"
    using assms by (intro map_idI) (auto simp: arguments_normal_def)
  then show ?thesis
    using assms(1) by (simp add: arguments_normal_def amap_merge_Nil)
qed

lemma normalize_field_arguments_idem:
  assumes "arguments_normal fa"
  shows "normalize_field_arguments fa = fa"
  unfolding normalize_field_arguments_def
proof (rule arguments_normal_map [OF assms])
  fix args :: "(string \<times> string list) list"
  assume a: "distinct (map fst args)" "\<forall>(n, vs)\<in>set args. distinct vs"
  have "map (\<lambda>(n, vs). (n, js_unique vs)) args = args"
    using a(2) by (intro map_idI) auto
  with a(1) show "amap_merge [] (map (\<lambda>(n, vs). (n, js_unique vs)) args) = args"
    by (simp add: amap_merge_Nil)
qed

lemma resolved_arguments_idem:
  "arguments_normal fa \<Longrightarrow> amap_merge [] (map (\<lambda>(p, args). (p, amap_merge [] args)) fa) = fa"
  by (rule arguments_normal_map) (auto simp: amap_merge_Nil)

lemma normalize_graphql_resolved:
  "map_option (\<lambda>g. normalize_graphql \<lparr>gm_at = Some (rg_at g), gm_operations = rg_operations g,
        gm_field_paths = Some (rg_field_paths g), gm_field_arguments = Some (rg_field_arguments g),
        gm_unknown_keys = []\<rparr>) (to_resolved_graphql (map_option normalize_graphql g)) =
   map_option normalize_graphql g"
  by (cases g)
    (auto simp: to_resolved_graphql_def normalize_graphql_def resolved_arguments_idem
      normalize_field_arguments_idem arguments_normal_normalize)

lemma resolved_body_round_trip:
  assumes "cm_body m = normalize_body body" "body_records_ok body"
  shows "normalize_body (resolved_body_match (to_resolved_match m body)) = cm_body m"
proof (cases body)
  case None
  with assms show ?thesis
    by (simp add: to_resolved_match_def resolved_body_match_def normalize_body_def)
next
  case (Some b)
  have r: "amap_merge [] (opt_list (bm_equals b)) = opt_list (bm_equals b)"
    "copy_one_of (bm_one_of b) = opt_list (bm_one_of b)"
    using assms(2) Some by (simp_all add: body_records_ok_def amap_merge_Nil copy_one_of_def)
  show ?thesis
    using assms(1) Some r normalize_graphql_resolved [of "bm_graphql b"]
    by (simp add: to_resolved_match_def resolved_body_match_def normalize_body_def option.map_comp comp_def
        opt_list_def [symmetric])
qed

text \<open>
  resolution keeps the meaning of a rule. For a compiled condition, what decide evaluates
  on the resolved form of it (candidate by method and path, then the condition rebuilt from
  the document) is the reference semantics of the compiled condition, for every request
  without a query string.
\<close>

theorem resolved_match_semantics:
  assumes "compile_match mc = Inr m" "body_records_ok (mc_body mc)" "CHR ''?'' \<notin> set (rq_path q)"
  shows "(if is_candidate (to_resolved_match m (mc_body mc)) (rq_method q) (path_for_selection (rq_path q))
     then evaluate_body (normalize_body (resolved_body_match (to_resolved_match m (mc_body mc)))) (rq_body q) (rq_path q)
     else FalseT) = evaluate_match m q"
proof -
  have body: "cm_body m = normalize_body (mc_body mc)"
    using assms(1) by (auto simp: compile_match_def split: sum.splits)
  have path: "path_for_selection (rq_path q) = rq_path q"
    using assms(3) by (simp add: path_for_selection_def before_first_noop)
  show ?thesis
    unfolding resolved_body_round_trip [OF body assms(2)] path
    by (auto simp: is_candidate_def evaluate_match_def to_resolved_match_def split: option.splits)
qed

theorem resolved_match_semantics_witness:
  "\<exists>m. compile_match private_issue = Inr m \<and>
     (if is_candidate (to_resolved_match m (mc_body private_issue)) (rq_method issue_request)
           (path_for_selection (rq_path issue_request))
      then evaluate_body (normalize_body (resolved_body_match (to_resolved_match m (mc_body private_issue))))
             (rq_body issue_request) (rq_path issue_request)
      else FalseT) = TrueT"
proof -
  have "case compile_match private_issue of Inl e \<Rightarrow> False | Inr m \<Rightarrow> evaluate_match m issue_request = TrueT"
    by code_simp
  then obtain m where m: "compile_match private_issue = Inr m" "evaluate_match m issue_request = TrueT"
    by (auto split: sum.splits)
  have "body_records_ok (mc_body private_issue)" "CHR ''?'' \<notin> set (rq_path issue_request)"
    by (simp_all add: body_records_ok_def private_issue_def issue_request_def opt_list_def)
  from resolved_match_semantics [OF m(1) this] m show ?thesis by auto
qed

section \<open>Redaction\<close>

lemma template_names_reference:
  assumes "CHR ''}'' \<notin> set n"
  shows "template_names (''${'' @ n @ ''}'' @ rest) = n # template_names rest"
proof -
  have "before_first CHR ''}'' (n @ CHR ''}'' # rest) = n"
    using assms by (auto simp: before_first_def takeWhile_append)
  moreover have "after_first CHR ''}'' (n @ CHR ''}'' # rest) = rest"
    using assms by (auto simp: after_first_def dropWhile_append)
  ultimately show ?thesis by simp
qed

lemma template_names_references:
  "(\<And>n. n \<in> set names \<Longrightarrow> CHR ''}'' \<notin> set n) \<Longrightarrow>
   template_names (concat (map (\<lambda>n. ''${'' @ n @ ''}'') names)) = names"
proof (induction names)
  case (Cons n names)
  have "template_names (''${'' @ n @ ''}'' @ concat (map (\<lambda>n. ''${'' @ n @ ''}'') names)) = n # names"
    using Cons template_names_reference by simp
  then show ?case by simp
qed simp

lemma parse_inject_template_names:
  "parse_inject_value v = Inr (InjectTemplate text names) \<Longrightarrow> n \<in> set names \<Longrightarrow> CHR ''}'' \<notin> set n"
  by (auto simp: parse_inject_value_def Let_def split: if_splits dest: template_names_no_brace)

lemma parse_inject_forms [simp]:
  "parse_inject_value (''literal:'' @ t) = Inr (InjectLiteral t)"
  "n \<noteq> '''' \<Longrightarrow> parse_inject_value (''secret:'' @ n) = Inr (InjectSecret n)"
  "parse_inject_value (''template:'' @ t) = Inr (InjectTemplate t (template_names t))"
  by (simp_all add: parse_inject_value_def Let_def)

text \<open>What the redaction may depend on: the header name and the references, not the text.\<close>

definition inject_shape :: "inject \<Rightarrow> (nat \<times> string list) option" where
  "inject_shape e =
     (case parse_inject_value (ij_value e) of
        Inr (InjectSecret n) \<Rightarrow> Some (0, [n])
      | Inr (InjectTemplate t ns) \<Rightarrow> Some (1, ns)
      | _ \<Rightarrow> None)"

lemma redact_inject_by_shape:
  "redact_inject e = \<lparr>ij_name = ij_name e, ij_value =
     (case inject_shape e of
        None \<Rightarrow> ''literal:''
      | Some (k, ns) \<Rightarrow> (if k = 0 then ''secret:'' @ hd ns
                        else ''template:'' @ concat (map (\<lambda>n. ''${'' @ n @ ''}'') ns)))\<rparr>"
  by (auto simp: redact_inject_def inject_shape_def split: sum.splits inject_value.splits)

lemma inject_shape_redact: "inject_shape (redact_inject e) = inject_shape e"
proof (cases "parse_inject_value (ij_value e)")
  case (Inl err)
  then show ?thesis
    using parse_inject_forms(1) [of "[]"] by (simp add: redact_inject_def inject_shape_def)
next
  case (Inr v)
  show ?thesis
  proof (cases v)
    case (InjectLiteral t)
    with Inr show ?thesis
      using parse_inject_forms(1) [of "[]"] by (simp add: redact_inject_def inject_shape_def)
  next
    case (InjectSecret n)
    with Inr have "n \<noteq> []"
      by (auto simp: parse_inject_value_def Let_def split: if_splits)
    with Inr InjectSecret show ?thesis
      using parse_inject_forms(2) [of n] by (simp add: redact_inject_def inject_shape_def)
  next
    case (InjectTemplate t ns)
    have "template_names (concat (map (\<lambda>n. ''${'' @ n @ ''}'') ns)) = ns"
      using parse_inject_template_names Inr InjectTemplate by (intro template_names_references) blast
    with Inr InjectTemplate show ?thesis
      using parse_inject_forms(3) [of "concat (map (\<lambda>n. ''${'' @ n @ ''}'') ns)"]
      by (simp add: redact_inject_def inject_shape_def)
  qed
qed

text \<open>
  the written document leaks no literal. Redaction depends on the header name and the
  referenced secrets only: injections that agree on these have the same redaction, however
  their text differs. It keeps both, and redacting twice is redacting once.
\<close>

theorem redaction_noninterference:
  assumes "ij_name e = ij_name e'" "inject_shape e = inject_shape e'"
  shows "redact_inject e = redact_inject e' \<and> ij_name (redact_inject e) = ij_name e \<and>
    inject_shape (redact_inject e) = inject_shape e \<and> redact_inject (redact_inject e) = redact_inject e"
proof -
  have "redact_inject e = redact_inject e'"
    unfolding redact_inject_by_shape using assms by simp
  moreover have n: "ij_name (redact_inject e) = ij_name e"
    by (simp add: redact_inject_by_shape)
  moreover have "redact_inject (redact_inject e) = redact_inject e"
    unfolding redact_inject_by_shape [of "redact_inject e"] inject_shape_redact n
    by (rule redact_inject_by_shape [symmetric])
  moreover note inject_shape_redact [of e]
  ultimately show ?thesis by blast
qed

theorem redaction_noninterference_witness:
  "redact_inject \<lparr>ij_name = ''authorization'', ij_value = ''template:token s3cr ${gh}''\<rparr> =
   redact_inject \<lparr>ij_name = ''authorization'', ij_value = ''template:other ${gh} text''\<rparr> \<and>
   redact_inject \<lparr>ij_name = ''authorization'', ij_value = ''template:token s3cr ${gh}''\<rparr> =
     \<lparr>ij_name = ''authorization'', ij_value = ''template:${gh}''\<rparr>"
proof -
  let ?a = "\<lparr>ij_name = ''authorization'', ij_value = ''template:token s3cr ${gh}''\<rparr>"
  let ?b = "\<lparr>ij_name = ''authorization'', ij_value = ''template:other ${gh} text''\<rparr>"
  have "inject_shape ?a = inject_shape ?b" by code_simp
  moreover have "redact_inject ?a = \<lparr>ij_name = ''authorization'', ij_value = ''template:${gh}''\<rparr>" by code_simp
  ultimately show ?thesis
    using redaction_noninterference [of ?a ?b] by simp
qed

section \<open>The nested Docker daemon\<close>

definition dind_config :: "dind_profile \<Rightarrow> authz_config" where
  "dind_config profile =
     \<lparr>ac_secrets = dp_secrets profile, ac_mask = dp_mask profile,
      ac_network = \<lparr>nc_scopes = opt_list (dp_network_scopes profile), nc_fallback = Some NfDeny, nc_defaults = None\<rparr>\<rparr>"

lemma resolve_dind_document:
  assumes "fst (resolve_dind_authz_config profile) = Some doc"
  shows "dind_reviews (opt_list (dp_network_scopes profile)) = [] \<and>
    ro_document (resolve_authz_config (dind_config profile)) = Some doc"
  using assms by (auto simp: resolve_dind_authz_config_def Let_def dind_config_def split: if_splits)

lemma reject_review_Nil [simp]: "reject_review b s = [] \<longleftrightarrow> \<not> b"
  by (simp add: reject_review_def)

lemma dind_scope_free:
  assumes "dind_reviews scopes = []" "(name, scope) \<in> set scopes"
  shows "sp_fallback scope \<noteq> Some ActReview"
    and "(key, rule) \<in> set (opt_list (sp_rules scope)) \<Longrightarrow>
      rc_on_match rule \<noteq> ActReview \<and> rc_on_indeterminate rule \<noteq> Some IaReview \<and>
      (\<forall>e\<in>set (opt_list (rc_expect rule)). ex_on_violation e \<noteq> Some VaReview)"
proof -
  have all: "reject_review (sp_fallback scope = Some ActReview) (name @ ''.fallback'') = []"
    "\<And>key rule. (key, rule) \<in> set (opt_list (sp_rules scope)) \<Longrightarrow>
       dind_rule_reviews (name @ ''.rules.'' @ key) rule = []"
  proof -
    have "\<forall>e\<in>set scopes. (\<lambda>(name, scope).
        reject_review (sp_fallback scope = Some ActReview) (name @ ''.fallback'') @
        concat (map (\<lambda>(key, rule). dind_rule_reviews (name @ ''.rules.'' @ key) rule)
          (opt_list (sp_rules scope)))) e = []"
      using assms(1) unfolding dind_reviews_def concat_eq_Nil_conv set_map by blast
    from bspec [OF this assms(2)]
    have "reject_review (sp_fallback scope = Some ActReview) (name @ ''.fallback'') = [] \<and>
        (\<forall>e\<in>set (opt_list (sp_rules scope)).
           (\<lambda>(key, rule). dind_rule_reviews (name @ ''.rules.'' @ key) rule) e = [])"
      unfolding prod.case append_is_Nil_conv concat_eq_Nil_conv set_map by blast
    then show "reject_review (sp_fallback scope = Some ActReview) (name @ ''.fallback'') = []"
      "\<And>key rule. (key, rule) \<in> set (opt_list (sp_rules scope)) \<Longrightarrow>
         dind_rule_reviews (name @ ''.rules.'' @ key) rule = []"
      by (blast, fastforce)
  qed
  show "sp_fallback scope \<noteq> Some ActReview" using all(1) by simp
  assume r: "(key, rule) \<in> set (opt_list (sp_rules scope))"
  have "ex_on_violation e \<noteq> Some VaReview" if e: "e \<in> set (opt_list (rc_expect rule))" for e
  proof -
    obtain i where "i < length (opt_list (rc_expect rule))" "e = opt_list (rc_expect rule) ! i"
      using e by (auto simp: in_set_conv_nth)
    then have "(i, e) \<in> set (enumerate 0 (opt_list (rc_expect rule)))"
      by (auto simp: in_set_enumerate_eq)
    with all(2) [OF r] show ?thesis by (auto simp: dind_rule_reviews_def)
  qed
  with all(2) [OF r] show "rc_on_match rule \<noteq> ActReview \<and> rc_on_indeterminate rule \<noteq> Some IaReview \<and>
      (\<forall>e\<in>set (opt_list (rc_expect rule)). ex_on_violation e \<noteq> Some VaReview)"
    by (auto simp: dind_rule_reviews_def)
qed

definition review_free_rule :: "resolved_rule \<Rightarrow> bool" where
  "review_free_rule r \<longleftrightarrow> rr_on_match r \<noteq> ActReview \<and> rr_on_indeterminate r \<noteq> IaReview \<and>
     list_all (\<lambda>e. re_on_violation e \<noteq> VaReview) (rr_expect r)"

lemma dind_document_free:
  assumes doc: "fst (resolve_dind_authz_config profile) = Some doc"
  shows "doc_fallback doc = NfDeny"
    and "s \<in> set (doc_scopes doc) \<Longrightarrow> rs_fallback s \<noteq> ActReview \<and> (\<forall>r\<in>set (rs_rules s). review_free_rule r)"
proof -
  let ?c = "dind_config profile"
  have reviews: "dind_reviews (nc_scopes (ac_network ?c)) = []" and r: "ro_document (resolve_authz_config ?c) = Some doc"
    using resolve_dind_document [OF doc] by (simp_all add: dind_config_def)
  have acc: "accepted ?c" and d: "document_of ?c doc"
    using resolved_document_of [OF r] by auto
  show "doc_fallback doc = NfDeny"
    using d by (simp add: document_of_def dind_config_def)
  assume "s \<in> set (doc_scopes doc)"
  then obtain c where c: "c \<in> set (scopes_of ?c)" "resolves_to c (resolved_defaults_of ?c) s"
    using document_scope [OF d] by blast
  obtain name where n: "(name, cs_config c) \<in> set (nc_scopes (ac_network ?c))"
      "scope_ok (context_of ?c) name (cs_config c) c"
    using document_scope_config [OF acc c(1)] by blast
  note free = dind_scope_free [OF reviews n(1)]
  have fb: "rs_fallback s \<noteq> ActReview"
    using free(1) c(2) by (auto simp: resolves_to_def split: option.splits)
  have "review_free_rule x" if x: "x \<in> set (rs_rules s)" for x
  proof -
    have "x \<in> set (resolved_rules c (resolved_defaults_of ?c))"
      using x c(2) by (simp add: resolves_to_def)
    then obtain cr edges where cr: "cr \<in> set (cs_rules c)"
        "x = resolve_rule cr edges (inheritance_of c (resolved_defaults_of ?c))"
      using resolved_rule_origin by blast
    have "(cr_key cr, cr_config cr) \<in> set (map (\<lambda>r. (cr_key r, cr_config r)) (cs_rules c))"
      using cr(1) by simp
    also have "map (\<lambda>r. (cr_key r, cr_config r)) (cs_rules c) = opt_list (sp_rules (cs_config c))"
      using n(2) by (intro nth_equalityI) (auto simp: scope_ok_def list_all2_conv_all_nth rule_ok_def prod_eq_iff)
    finally show ?thesis
      using free(2) cr(2) by (auto simp: review_free_rule_def resolve_rule_def resolve_expect_def list_all_iff
          split: option.splits)
  qed
  with fb show "rs_fallback s \<noteq> ActReview \<and> (\<forall>r\<in>set (rs_rules s). review_free_rule r)" by blast
qed

text \<open>
  a nested Docker daemon never waits for a person. On a document resolved for it, no
  decision is a review, and no acceptance condition of a decision asks for one when it is
  violated: there is nobody to answer it.
\<close>

theorem dind_never_reviews:
  assumes "fst (resolve_dind_authz_config profile) = Some doc"
    and "decide doc address request (Some f) = Some d"
  shows "de_action d \<noteq> ActReview \<and> list_all (\<lambda>e. re_on_violation e \<noteq> VaReview) (de_expect d)"
proof (cases "select_scope doc address")
  case None
  then show ?thesis
    using assms(2) dind_document_free(1) [OF assms(1)]
    by (auto simp: decide_def Let_def outside_decision_def split: if_splits)
next
  case (Some s)
  note free = dind_document_free(2) [OF assms(1)] select_scope_mem [OF Some]
  have r: "ro_document (resolve_authz_config (dind_config profile)) = Some doc"
    using resolve_dind_document [OF assms(1)] by blast
  show ?thesis
  proof (cases "de_reason d = ByWebsocketDenied")
    case True
    then show ?thesis
      using assms(2) Some
      by (auto simp: decide_def Let_def websocket_denied_def scope_fallback_decision_def rule_decision_def
          from_rule_def dest!: first_decision_cases split: if_splits option.splits)
  next
    case False
    have rules: "review_free_rule x" if "x \<in> set (candidates s request)" for x
      using that free by (auto simp: candidates_def)
    have neg: "action_of_indeterminate (rr_on_indeterminate x) \<noteq> ActReview" if "review_free_rule x" for x
      using that by (cases "rr_on_indeterminate x") (auto simp: review_free_rule_def)
    from decide_in_scope [OF r Some assms(2) False] show ?thesis
    proof (elim disjE exE conjE)
      fix x
      assume "x \<in> set (candidates s request)" "d = rule_decision s x (f x)"
      with rules [of x] neg [of x] show ?thesis
        by (simp add: rule_decision_def from_rule_def review_free_rule_def)
    qed (use free in \<open>simp add: scope_fallback_decision_def\<close>)
  qed
qed

definition example_dind :: dind_profile where
  "example_dind =
     \<lparr>dp_secrets = None, dp_mask = None,
      dp_network_scopes = Some [(''hub'', scope_of [''*.docker.io''] [] [] [(''pull'', rule_of [''GET''] [''/v2/**''] ActAllow)])]\<rparr>"

lemma example_dind_resolves: "\<exists>doc. fst (resolve_dind_authz_config example_dind) = Some doc"
proof -
  have cx: "(context_of (dind_config example_dind))\<lparr>cx_limits := l\<rparr> =
     \<lparr>cx_dispositions = [(''*'', SdMask)], cx_audit = None, cx_secrets = [], cx_limits = l\<rparr>" for l
    by (simp add: context_of_def dind_config_def example_dind_def base_dispositions_def amap_merge_def
        default_secret_dispositions_def opt_list_def)
  have "err_free (diagnostics_under l (dind_config example_dind))" for l
    unfolding diagnostics_under_def cx by code_simp
  then have acc: "accepted (dind_config example_dind)"
    by (intro accepted_under) (simp add: dind_config_def)
  have "dind_reviews (opt_list (dp_network_scopes example_dind)) = []"
    by code_simp
  with resolve_total [OF acc] show ?thesis
    by (auto simp: resolve_dind_authz_config_def Let_def dind_config_def)
qed

theorem dind_never_reviews_witness:
  "\<exists>doc d. fst (resolve_dind_authz_config example_dind) = Some doc \<and>
     decide doc example_address (example_request None) (Some (\<lambda>r. TrueT)) = Some d \<and> de_action d \<noteq> ActReview"
proof -
  obtain doc where doc: "fst (resolve_dind_authz_config example_dind) = Some doc"
    using example_dind_resolves by blast
  then have "ro_document (resolve_authz_config (dind_config example_dind)) = Some doc"
    using resolve_dind_document by blast
  then obtain d where "decide doc example_address (example_request None) (Some (\<lambda>r. TrueT)) = Some d"
    using decide_returns [of "dind_config example_dind" doc "Some (\<lambda>r. TrueT)"] by blast
  with dind_never_reviews [OF doc this] doc show ?thesis by blast
qed

end
