(* ===== verification/IpPolicy.thy ===== *)
theory IpPolicy
  imports Prelude "HOL-Library.Word"
begin

text \<open>
  The addresses no rule can open (\<open>src/network/ip_policy.ts\<close>): private, loopback,
  link-local and carrier-grade ranges, IPv4-mapped IPv6 addresses included. The tests of the
  code on octets and masked 16-bit words are proved to be membership in a list of address
  blocks, and the branches that would let an unreadable address through are proved dead.
\<close>

unbundle bit_operations_syntax

section \<open>What \<open>isIP\<close> of \<open>node:net\<close> accepts\<close>

text \<open>
  \<open>isIP\<close> returns 4, 6 or 0. An octet is a decimal number up to 255 without leading zeros, a
  group has one to four hexadecimal digits, \<open>::\<close> stands for one group or more, the last two
  groups may be written as an IPv4 address, and a zone may follow after \<open>%\<close>.
\<close>

definition is_octet :: "string \<Rightarrow> bool" where
  "is_octet p \<longleftrightarrow> p \<noteq> [] \<and> list_all is_digit p \<and> (length p = 1 \<or> hd p \<noteq> CHR ''0'') \<and> parse_nat p \<le> 255"

definition is_ipv4 :: "string \<Rightarrow> bool" where
  "is_ipv4 s \<longleftrightarrow> length (split_on CHR ''.'' s) = 4 \<and> list_all is_octet (split_on CHR ''.'' s)"

definition is_hex :: "char \<Rightarrow> bool" where
  "is_hex c \<longleftrightarrow> is_digit c \<or> (CHR ''a'' \<le> c \<and> c \<le> CHR ''f'') \<or> (CHR ''A'' \<le> c \<and> c \<le> CHR ''F'')"

definition is_group :: "string \<Rightarrow> bool" where
  "is_group t \<longleftrightarrow> 1 \<le> length t \<and> length t \<le> 4 \<and> list_all is_hex t"

definition is_zone_char :: "char \<Rightarrow> bool" where
  "is_zone_char c \<longleftrightarrow> is_digit c \<or> is_alpha c \<or> c = CHR ''-'' \<or> c = CHR ''.'' \<or> c = CHR '':''"

text \<open>The texts around the first \<open>::\<close>.\<close>

fun cut_double :: "string \<Rightarrow> (string \<times> string) option" where
  "cut_double (x # y # rest) =
     (if x = CHR '':'' \<and> y = CHR '':'' then Some ([], rest)
      else map_option (\<lambda>(l, r). (x # l, r)) (cut_double (y # rest)))"
| "cut_double s = None"

text \<open>The number of groups a side of \<open>::\<close> spells, if it is well-formed.\<close>

definition side_groups :: "bool \<Rightarrow> string \<Rightarrow> nat option" where
  "side_groups dotted s =
     (if s = [] then Some 0
      else (let ts = split_on CHR '':'' s in
        if \<not> list_all is_group (butlast ts) then None
        else if is_group (last ts) then Some (length ts)
        else if dotted \<and> is_ipv4 (last ts) then Some (length ts + 1)
        else None))"

definition is_ipv6 :: "string \<Rightarrow> bool" where
  "is_ipv6 s \<longleftrightarrow>
     (let address = before_first CHR ''%'' s; zone = after_first CHR ''%'' s in
      (if CHR ''%'' \<in> set s then zone \<noteq> [] \<and> list_all is_zone_char zone else True) \<and>
      (case cut_double address of
         None \<Rightarrow> side_groups True address = Some 8
       | Some (l, r) \<Rightarrow>
           (case side_groups False l of
              None \<Rightarrow> False
            | Some m \<Rightarrow> (case side_groups True r of None \<Rightarrow> False | Some n \<Rightarrow> m + n \<le> 7))))"

definition is_ip :: "string \<Rightarrow> nat" where
  "is_ip s = (if is_ipv4 s then 4 else if is_ipv6 s then 6 else 0)"

section \<open>Parsing\<close>

type_synonym ipv4 = "nat \<times> nat \<times> nat \<times> nat"

text \<open>\<open>Number(part)\<close>, on the parts of an address \<open>isIP\<close> has accepted: decimal digits.\<close>

definition octet_number :: "string \<Rightarrow> nat option" where
  "octet_number p = (if p \<noteq> [] \<and> list_all is_digit p then Some (parse_nat p) else None)"

definition parse_ipv4 :: "string \<Rightarrow> ipv4 option" where
  "parse_ipv4 address =
     (let parts = split_on CHR ''.'' address in
      if length parts \<noteq> 4 then None
      else (case map octet_number parts of
              [Some a, Some b, Some c, Some d] \<Rightarrow>
                if a > 255 \<or> b > 255 \<or> c > 255 \<or> d > 255 then None else Some (a, b, c, d)
            | _ \<Rightarrow> None))"

definition hex_value :: "char \<Rightarrow> nat" where
  "hex_value c =
     (if is_digit c then of_char c - 48 else if CHR ''a'' \<le> c then of_char c - 87 else of_char c - 55)"

text \<open>\<open>Number.parseInt(token, 16)\<close>.\<close>

definition parse_hex :: "string \<Rightarrow> nat" where
  "parse_hex t = foldl (\<lambda>acc c. 16 * acc + hex_value c) 0 t"

text \<open>The loop of \<open>parseIpv6Half\<close>: words are 16 bits wide, as its two pushes make them.\<close>

fun half_words :: "string list \<Rightarrow> 16 word list option" where
  "half_words [] = Some []"
| "half_words (token # tokens) =
     (if CHR ''.'' \<in> set token
      then (if tokens \<noteq> [] then None
            else (case parse_ipv4 token of
                    None \<Rightarrow> None
                  | Some (a, b, c, d) \<Rightarrow>
                      Some [push_bit 8 (of_nat a) OR of_nat b, push_bit 8 (of_nat c) OR of_nat d]))
      else if \<not> is_group token then None
      else map_option (Cons (of_nat (parse_hex token))) (half_words tokens))"

definition parse_ipv6_half :: "string \<Rightarrow> 16 word list option" where
  "parse_ipv6_half half = (if half = [] then Some [] else half_words (split_on CHR '':'' half))"

definition parse_ipv6 :: "string \<Rightarrow> 16 word list option" where
  "parse_ipv6 address =
     (let without_zone = before_first CHR ''%'' address in
      case cut_double without_zone of
        None \<Rightarrow>
          (case parse_ipv6_half without_zone of
             None \<Rightarrow> None
           | Some left \<Rightarrow> if length left = 8 then Some left else None)
      | Some (l, r) \<Rightarrow>
          (if cut_double (CHR '':'' # r) \<noteq> None then None
           else (case parse_ipv6_half l of
                   None \<Rightarrow> None
                 | Some left \<Rightarrow>
                     (case parse_ipv6_half r of
                        None \<Rightarrow> None
                      | Some right \<Rightarrow>
                          if length left + length right > 7 then None
                          else Some (left @ replicate (8 - length left - length right) 0 @ right)))))"

section \<open>The denied ranges\<close>

fun is_denied_ipv4 :: "ipv4 \<Rightarrow> bool" where
  "is_denied_ipv4 (a, b, c, d) =
     (if a = 0 \<or> a = 10 \<or> a = 127 then True
      else if a = 100 \<and> b \<ge> 64 \<and> b \<le> 127 then True
      else if a = 169 \<and> b = 254 then True
      else if a = 172 \<and> b \<ge> 16 \<and> b \<le> 31 then True
      else a = 192 \<and> b = 168)"

definition mapped_ipv4 :: "16 word list \<Rightarrow> ipv4 option" where
  "mapped_ipv4 words =
     (if length words \<noteq> 8 \<or> \<not> list_all (\<lambda>w. w = 0) (take 5 words) \<or> words ! 5 \<noteq> 0xffff then None
      else Some (unat (drop_bit 8 (words ! 6)), unat (words ! 6 AND 0xff),
                 unat (drop_bit 8 (words ! 7)), unat (words ! 7 AND 0xff)))"

definition is_denied_words :: "16 word list \<Rightarrow> bool" where
  "is_denied_words words =
     (case mapped_ipv4 words of
        Some octets \<Rightarrow> is_denied_ipv4 octets
      | None \<Rightarrow>
          list_all (\<lambda>w. w = 0) words \<or>
          (list_all (\<lambda>w. w = 0) (take 7 words) \<and> words ! 7 = 1) \<or>
          words ! 0 AND 0xfe00 = 0xfc00 \<or>
          words ! 0 AND 0xffc0 = 0xfe80)"

definition is_denied_ip_address :: "string \<Rightarrow> bool" where
  "is_denied_ip_address address =
     (let version = is_ip address in
      if version = 4 then (case parse_ipv4 address of None \<Rightarrow> False | Some octets \<Rightarrow> is_denied_ipv4 octets)
      else if version \<noteq> 6 then False
      else (case parse_ipv6 address of None \<Rightarrow> False | Some words \<Rightarrow> is_denied_words words))"

section \<open>Address blocks\<close>

text \<open>
  An address is a number of 32 or 128 bits; a block is a network and the length of its
  prefix.
\<close>

definition ipv4_value :: "ipv4 \<Rightarrow> nat" where
  "ipv4_value q = (case q of (a, b, c, d) \<Rightarrow> ((a * 256 + b) * 256 + c) * 256 + d)"

definition ipv6_value :: "16 word list \<Rightarrow> nat" where
  "ipv6_value words = foldl (\<lambda>v w. v * 65536 + unat w) 0 words"

definition in_block :: "nat \<Rightarrow> nat \<Rightarrow> nat \<times> nat \<Rightarrow> bool" where
  "in_block bits v block \<longleftrightarrow>
     (case block of (net, len) \<Rightarrow> v div 2 ^ (bits - len) = net div 2 ^ (bits - len))"

definition ipv4_blocks :: "(nat \<times> nat) list" where
  "ipv4_blocks =
     [(ipv4_value (0, 0, 0, 0), 8), (ipv4_value (10, 0, 0, 0), 8), (ipv4_value (100, 64, 0, 0), 10),
      (ipv4_value (127, 0, 0, 0), 8), (ipv4_value (169, 254, 0, 0), 16),
      (ipv4_value (172, 16, 0, 0), 12), (ipv4_value (192, 168, 0, 0), 16)]"

text \<open>The blocks of IPv6, with the mapped ones \<open>::ffff:a.b.c.d\<close>.\<close>

definition ipv6_blocks :: "(nat \<times> nat) list" where
  "ipv6_blocks =
     [(0, 128), (1, 128), (0xfc00 * 2 ^ 112, 7), (0xfe80 * 2 ^ 112, 10)] @
     map (\<lambda>(net, len). (0xffff * 2 ^ 32 + net, 96 + len)) ipv4_blocks"

definition octets_ok :: "ipv4 \<Rightarrow> bool" where
  "octets_ok q = (case q of (a, b, c, d) \<Rightarrow> a \<le> 255 \<and> b \<le> 255 \<and> c \<le> 255 \<and> d \<le> 255)"

lemma ipv4_value_div:
  assumes "octets_ok (a, b, c, d)" "len \<le> 16"
  shows "ipv4_value (a, b, c, d) div 2 ^ (32 - len) = (a * 256 + b) div 2 ^ (16 - len)"
proof -
  have "ipv4_value (a, b, c, d) div 65536 = ipv4_value (a, b, c, d) div 256 div 256"
    by (simp add: div_mult2_eq [symmetric])
  also have "\<dots> = a * 256 + b"
  proof -
    have last: "(x * 256 + y) div 256 = x" if "y \<le> 255" for x y :: nat
      using that by simp
    show ?thesis
      using assms(1) by (simp only: ipv4_value_def octets_ok_def prod.case last)
  qed
  finally have "ipv4_value (a, b, c, d) div 2 ^ 16 = a * 256 + b" by simp
  moreover have "(2::nat) ^ (32 - len) = 2 ^ 16 * 2 ^ (16 - len)"
  proof -
    have "32 - len = 16 + (16 - len)" using assms(2) by simp
    then show ?thesis by (simp only: power_add)
  qed
  ultimately show ?thesis
    by (metis div_mult2_eq)
qed

lemma in_block_ipv4:
  assumes "octets_ok (a, b, c, d)" "x \<le> 255" "y \<le> 255" "len \<le> 16"
  shows "in_block 32 (ipv4_value (a, b, c, d)) (ipv4_value (x, y, 0, 0), len) \<longleftrightarrow>
    (a * 256 + b) div 2 ^ (16 - len) = (x * 256 + y) div 2 ^ (16 - len)"
  using ipv4_value_div [OF assms(1,4)] ipv4_value_div [of x y 0 0 len] assms(2,3,4)
  by (simp add: in_block_def octets_ok_def)

lemma octet_ranges:
  assumes "(b::nat) \<le> 255"
  shows "(a * 256 + b) div 256 = n \<longleftrightarrow> a = n"
    and "(a * 256 + b) div 64 = 401 \<longleftrightarrow> a = 100 \<and> 64 \<le> b \<and> b \<le> 127"
    and "(a * 256 + b) div 16 = 2753 \<longleftrightarrow> a = 172 \<and> 16 \<le> b \<and> b \<le> 31"
    and "a * 256 + b = 43518 \<longleftrightarrow> a = 169 \<and> b = 254"
    and "a * 256 + b = 49320 \<longleftrightarrow> a = 192 \<and> b = 168"
proof -
  show "(a * 256 + b) div 256 = n \<longleftrightarrow> a = n"
    using assms by simp
  have "(a * 256 + b) div 64 = a * 4 + b div 64"
    using div_mult_self1 [of 64 b "a * 4"] by (simp add: ac_simps)
  moreover have "b div 64 \<le> 3"
    using assms by simp
  moreover have "a * 4 + t = 401 \<longleftrightarrow> a = 100 \<and> t = 1" if "t \<le> 3" for t
    using that by presburger
  moreover have "b div 64 = 1 \<longleftrightarrow> 64 \<le> b \<and> b \<le> 127"
    by auto
  ultimately show "(a * 256 + b) div 64 = 401 \<longleftrightarrow> a = 100 \<and> 64 \<le> b \<and> b \<le> 127"
    by simp
  have "(a * 256 + b) div 16 = a * 16 + b div 16"
    using div_mult_self1 [of 16 b "a * 16"] by (simp add: ac_simps)
  moreover have "b div 16 \<le> 15"
    using assms by simp
  moreover have "a * 16 + t = 2753 \<longleftrightarrow> a = 172 \<and> t = 1" if "t \<le> 15" for t
    using that by presburger
  moreover have "b div 16 = 1 \<longleftrightarrow> 16 \<le> b \<and> b \<le> 31"
    by auto
  ultimately show "(a * 256 + b) div 16 = 2753 \<longleftrightarrow> a = 172 \<and> 16 \<le> b \<and> b \<le> 31"
    by simp
  have digits: "x = n \<longleftrightarrow> x div 256 = n div 256 \<and> x mod 256 = n mod 256" for x n :: nat
    by (metis div_mult_mod_eq)
  have "(a * 256 + b) div 256 = a" "(a * 256 + b) mod 256 = b"
    using assms by simp_all
  then show "a * 256 + b = 43518 \<longleftrightarrow> a = 169 \<and> b = 254" "a * 256 + b = 49320 \<longleftrightarrow> a = 192 \<and> b = 168"
    by (simp_all only: digits [of "a * 256 + b"]) simp_all
qed

lemma denied_ipv4_blocks:
  assumes "octets_ok q"
  shows "is_denied_ipv4 q \<longleftrightarrow> list_ex (in_block 32 (ipv4_value q)) ipv4_blocks"
proof -
  obtain a b c d where q: "q = (a, b, c, d)" by (cases q)
  have b: "b \<le> 255" using assms by (simp add: q octets_ok_def)
  note block = in_block_ipv4 [OF assms [unfolded q]]
  have "list_ex (in_block 32 (ipv4_value q)) ipv4_blocks \<longleftrightarrow>
      (a * 256 + b) div 256 = 0 \<or> (a * 256 + b) div 256 = 10 \<or> (a * 256 + b) div 64 = 401 \<or>
      (a * 256 + b) div 256 = 127 \<or> a * 256 + b = 43518 \<or> (a * 256 + b) div 16 = 2753 \<or> a * 256 + b = 49320"
    unfolding ipv4_blocks_def q by (simp add: block)
  then show ?thesis
    unfolding octet_ranges [OF b] by (auto simp: q)
qed

text \<open>The value of a list of words, read at a word boundary.\<close>

lemma word16_less: "unat (w :: 16 word) < 65536"
  using unsigned_less [of w] by simp

lemma ipv6_value_snoc [simp]: "ipv6_value (ws @ [w]) = ipv6_value ws * 65536 + unat w"
  by (simp add: ipv6_value_def)

lemma ipv6_value_Nil [simp]: "ipv6_value [] = 0"
  by (simp add: ipv6_value_def)

lemma ipv6_value_append:
  "ipv6_value (xs @ ys) = ipv6_value xs * 65536 ^ length ys + ipv6_value ys \<and> ipv6_value ys < 65536 ^ length ys"
proof (induction ys rule: rev_induct)
  case (snoc w ys)
  have "ipv6_value (xs @ ys @ [w]) = ipv6_value (xs @ ys) * 65536 + unat w"
    using ipv6_value_snoc [of "xs @ ys"] by simp
  moreover have "ipv6_value ys * 65536 + unat w < 65536 ^ length ys * 65536"
    using snoc word16_less [of w] by linarith
  ultimately show ?case
    using snoc by (simp add: algebra_simps)
qed simp

lemma ipv6_value_div: "ipv6_value (xs @ ys) div 65536 ^ length ys = ipv6_value xs"
  using ipv6_value_append [of xs ys] by simp

lemma ipv6_value_zero: "ipv6_value ws = 0 \<longleftrightarrow> list_all (\<lambda>w. w = 0) ws"
  by (induction ws rule: rev_induct) (auto simp: unat_eq_0)

lemma ipv6_value_small:
  assumes "n < 65536"
  shows "ipv6_value (ws @ [w]) = n \<longleftrightarrow> list_all (\<lambda>w. w = 0) ws \<and> unat w = n"
proof -
  have "v * 65536 + unat w = n \<longleftrightarrow> v = 0 \<and> unat w = n" for v
    using assms by (cases v) auto
  then show ?thesis
    by (simp add: ipv6_value_zero)
qed

lemma masked_prefix:
  fixes w :: "16 word"
  assumes "k \<le> 16"
  shows "unat (w AND NOT (mask k)) = unat w div 2 ^ k * 2 ^ k"
proof -
  have "w AND NOT (mask k) = push_bit k (drop_bit k w)"
    by (rule bit_word_eqI) (auto simp: bit_simps)
  moreover have "unat w div 2 ^ k * 2 ^ k < 65536"
    using word16_less [of w] by (meson div_times_less_eq_dividend le_less_trans)
  ultimately show ?thesis
    by (simp only: unsigned_push_bit_eq unat_drop_bit_eq)
      (simp add: take_bit_eq_mod push_bit_eq_mult drop_bit_eq_div)
qed

lemma mask_fe00: "w AND 0xfe00 = 0xfc00 \<longleftrightarrow> unat w div 512 = 126" for w :: "16 word"
proof -
  have "(0xfe00 :: 16 word) = NOT (mask 9)" by (simp add: mask_eq_exp_minus_1)
  then have "unat (w AND 0xfe00) = unat w div 512 * 512"
    using masked_prefix [of 9 w] by simp
  then show ?thesis
    by (simp add: word_unat_eq_iff)
qed

lemma mask_ffc0: "w AND 0xffc0 = 0xfe80 \<longleftrightarrow> unat w div 64 = 1018" for w :: "16 word"
proof -
  have "(0xffc0 :: 16 word) = NOT (mask 6)" by (simp add: mask_eq_exp_minus_1)
  then have "unat (w AND 0xffc0) = unat w div 64 * 64"
    using masked_prefix [of 6 w] by simp
  then show ?thesis
    by (simp add: word_unat_eq_iff)
qed

lemma high_octet: "unat (drop_bit 8 w) = unat w div 256" for w :: "16 word"
  by (simp only: unat_drop_bit_eq) (simp add: drop_bit_eq_div)

lemma low_octet: "unat (w AND 0xff) = unat w mod 256" for w :: "16 word"
proof -
  have "w AND 0xff = take_bit 8 w" by (simp add: take_bit_eq_mask mask_eq_exp_minus_1)
  then show ?thesis by (simp only: unsigned_take_bit_eq) (simp add: take_bit_eq_mod)
qed

lemma in_block_mapped:
  assumes "net < 2 ^ 32" "len \<le> 32"
  shows "in_block 128 v (0xffff * 2 ^ 32 + net, 96 + len) \<longleftrightarrow>
    v div 2 ^ 32 = 0xffff \<and> in_block 32 (v mod 2 ^ 32) (net, len)"
proof -
  let ?k = "32 - len"
  have k: "(2::nat) ^ 32 = 2 ^ ?k * 2 ^ len"
    using assms(2) by (simp flip: power_add)
  have split: "(hi * 2 ^ 32 + lo) div 2 ^ ?k = hi * 2 ^ len + lo div 2 ^ ?k" for hi lo :: nat
  proof -
    have "hi * 2 ^ 32 + lo = lo + (hi * 2 ^ len) * 2 ^ ?k"
      unfolding k by (simp only: ac_simps)
    moreover have "(lo + (hi * 2 ^ len) * 2 ^ ?k) div 2 ^ ?k = hi * 2 ^ len + lo div 2 ^ ?k"
      by simp
    ultimately show ?thesis by (simp only:)
  qed
  have small: "lo div 2 ^ ?k < 2 ^ len" if "lo < 2 ^ 32" for lo :: nat
    using that k by (simp add: less_mult_imp_div_less mult.commute)
  have join: "hi * 2 ^ len + x = hi' * 2 ^ len + y \<longleftrightarrow> hi = hi' \<and> x = y"
    if "x < 2 ^ len" "y < 2 ^ len" for hi hi' x y :: nat
  proof
    assume eq: "hi * 2 ^ len + x = hi' * 2 ^ len + y"
    have "(hi * 2 ^ len + x) div 2 ^ len = hi" "(hi' * 2 ^ len + y) div 2 ^ len = hi'"
      using that by simp_all
    with eq show "hi = hi' \<and> x = y" by simp
  qed simp
  have "v div 2 ^ ?k = (v div 2 ^ 32) * 2 ^ len + (v mod 2 ^ 32) div 2 ^ ?k"
    using split [of "v div 2 ^ 32" "v mod 2 ^ 32"] by (simp only: div_mult_mod_eq)
  moreover have "(0xffff * 2 ^ 32 + net) div 2 ^ ?k = 0xffff * 2 ^ len + net div 2 ^ ?k"
    by (rule split)
  moreover have "(v mod 2 ^ 32) div 2 ^ ?k < 2 ^ len" "net div 2 ^ ?k < 2 ^ len"
    using small assms(1) by simp_all
  moreover have "128 - (96 + len) = ?k"
    by simp
  ultimately show ?thesis
    by (simp only: in_block_def prod.case join)
qed

lemma ipv4_blocks_small: "list_all (\<lambda>(net, len). net < 2 ^ 32 \<and> len \<le> 32) ipv4_blocks"
  by (simp add: ipv4_blocks_def ipv4_value_def)

lemma mapped_blocks:
  "list_ex (in_block 128 v) (map (\<lambda>(net, len). (0xffff * 2 ^ 32 + net, 96 + len)) ipv4_blocks) \<longleftrightarrow>
   v div 2 ^ 32 = 0xffff \<and> list_ex (in_block 32 (v mod 2 ^ 32)) ipv4_blocks"
proof -
  have "list_ex (in_block 128 v) (map (\<lambda>(net, len). (0xffff * 2 ^ 32 + net, 96 + len)) bs) \<longleftrightarrow>
      v div 2 ^ 32 = 0xffff \<and> list_ex (in_block 32 (v mod 2 ^ 32)) bs"
    if "list_all (\<lambda>(net, len). net < 2 ^ 32 \<and> len \<le> 32) bs" for bs
    using that
  proof (induction bs)
    case (Cons b bs)
    obtain net len where b: "b = (net, len)" by (cases b)
    with Cons show ?case
      using in_block_mapped [of net len v] by auto
  qed simp
  from this [OF ipv4_blocks_small] show ?thesis .
qed

lemma words_mapped:
  assumes "length ws = 8"
  shows "ipv6_value ws div 2 ^ 32 = 0xffff \<longleftrightarrow> list_all (\<lambda>w. w = 0) (take 5 ws) \<and> ws ! 5 = 0xffff"
    and "ipv6_value ws mod 2 ^ 32 =
      ipv4_value (unat (drop_bit 8 (ws ! 6)), unat (ws ! 6 AND 0xff), unat (drop_bit 8 (ws ! 7)), unat (ws ! 7 AND 0xff))"
proof -
  have ws: "ws = take 5 ws @ [ws ! 5] @ [ws ! 6, ws ! 7]"
    using assms by (simp add: id_take_nth_drop list_eq_iff_nth_eq nth_append nth_Cons' less_Suc_eq numeral_eq_Suc)
  have v: "ipv6_value ws = ipv6_value (take 5 ws @ [ws ! 5]) * 2 ^ 32 + ipv6_value [ws ! 6, ws ! 7]"
    "ipv6_value [ws ! 6, ws ! 7] < 2 ^ 32"
    using ipv6_value_append [of "take 5 ws @ [ws ! 5]" "[ws ! 6, ws ! 7]"] ws by simp_all
  have "ipv6_value ws div 2 ^ 32 = ipv6_value (take 5 ws @ [ws ! 5])"
    using v by simp
  moreover have "unat w = 0xffff \<longleftrightarrow> w = 0xffff" for w :: "16 word"
    by (simp add: word_unat_eq_iff)
  ultimately show "ipv6_value ws div 2 ^ 32 = 0xffff \<longleftrightarrow> list_all (\<lambda>w. w = 0) (take 5 ws) \<and> ws ! 5 = 0xffff"
    using ipv6_value_small [of 65535 "take 5 ws" "ws ! 5"] by simp
  have "(p * 2 ^ 32 + q) mod 2 ^ 32 = q" if "q < 2 ^ 32" for p q :: nat
    using that by simp
  from this [OF v(2)] have "ipv6_value ws mod 2 ^ 32 = ipv6_value [ws ! 6, ws ! 7]"
    by (simp only: v(1))
  also have "\<dots> = unat (ws ! 6) * 65536 + unat (ws ! 7)"
    by (simp add: ipv6_value_def)
  also have "\<dots> = (unat (ws ! 6) div 256 * 256 + unat (ws ! 6) mod 256) * 65536 + (unat (ws ! 7) div 256 * 256 + unat (ws ! 7) mod 256)"
    by simp
  also have "\<dots> = ipv4_value (unat (ws ! 6) div 256, unat (ws ! 6) mod 256, unat (ws ! 7) div 256, unat (ws ! 7) mod 256)"
  proof -
    have "(p * 256 + q) * 65536 + (r * 256 + s) = ((p * 256 + q) * 256 + r) * 256 + s" for p q r s :: nat
      by simp
    then show ?thesis by (simp only: ipv4_value_def prod.case)
  qed
  finally show "ipv6_value ws mod 2 ^ 32 =
      ipv4_value (unat (drop_bit 8 (ws ! 6)), unat (ws ! 6 AND 0xff), unat (drop_bit 8 (ws ! 7)), unat (ws ! 7 AND 0xff))"
    by (simp only: high_octet low_octet)
qed

lemma denied_words_blocks:
  assumes "length ws = 8"
  shows "is_denied_words ws \<longleftrightarrow> list_ex (in_block 128 (ipv6_value ws)) ipv6_blocks"
proof -
  let ?v = "ipv6_value ws" and ?m = "list_all (\<lambda>w. w = 0) (take 5 ws) \<and> ws ! 5 = 0xffff"
  have first: "?v div 65536 ^ 7 = unat (ws ! 0)"
  proof -
    have "ws = [ws ! 0] @ drop 1 ws"
      using assms by (cases ws) auto
    then show ?thesis
      using ipv6_value_div [of "[ws ! 0]" "drop 1 ws"] assms by (simp add: ipv6_value_def)
  qed
  have ula: "in_block 128 ?v (0xfc00 * 2 ^ 112, 7) \<longleftrightarrow> ws ! 0 AND 0xfe00 = 0xfc00"
    and local: "in_block 128 ?v (0xfe80 * 2 ^ 112, 10) \<longleftrightarrow> ws ! 0 AND 0xffc0 = 0xfe80"
  proof -
    have "?v div 2 ^ 121 = unat (ws ! 0) div 512" "?v div 2 ^ 118 = unat (ws ! 0) div 64"
      by (simp_all flip: first add: div_mult2_eq [symmetric])
    then show "in_block 128 ?v (0xfc00 * 2 ^ 112, 7) \<longleftrightarrow> ws ! 0 AND 0xfe00 = 0xfc00"
      "in_block 128 ?v (0xfe80 * 2 ^ 112, 10) \<longleftrightarrow> ws ! 0 AND 0xffc0 = 0xfe80"
      by (simp_all add: in_block_def mask_fe00 mask_ffc0)
  qed
  have zero: "in_block 128 ?v (0, 128) \<longleftrightarrow> list_all (\<lambda>w. w = 0) ws"
    by (simp add: in_block_def ipv6_value_zero)
  have one: "in_block 128 ?v (1, 128) \<longleftrightarrow> list_all (\<lambda>w. w = 0) (take 7 ws) \<and> ws ! 7 = 1"
  proof -
    have "ws = take 7 ws @ [ws ! 7]"
      using take_Suc_conv_app_nth [of 7 ws] assms by simp
    then show ?thesis
      using ipv6_value_small [of 1 "take 7 ws" "ws ! 7"] by (simp add: in_block_def word_unat_eq_iff)
  qed
  have blocks: "list_ex (in_block 128 ?v) ipv6_blocks \<longleftrightarrow>
      list_all (\<lambda>w. w = 0) ws \<or> (list_all (\<lambda>w. w = 0) (take 7 ws) \<and> ws ! 7 = 1) \<or>
      ws ! 0 AND 0xfe00 = 0xfc00 \<or> ws ! 0 AND 0xffc0 = 0xfe80 \<or>
      (?v div 2 ^ 32 = 0xffff \<and> list_ex (in_block 32 (?v mod 2 ^ 32)) ipv4_blocks)"
    unfolding ipv6_blocks_def using mapped_blocks [of ?v] zero one ula local by simp
  show ?thesis
  proof (cases "mapped_ipv4 ws")
    case None
    then have "\<not> ?m" using assms by (auto simp: mapped_ipv4_def split: if_splits)
    then show ?thesis
      unfolding blocks words_mapped(1) [OF assms] by (auto simp: is_denied_words_def None)
  next
    case (Some q)
    then have m: ?m
      and q: "q = (unat (drop_bit 8 (ws ! 6)), unat (ws ! 6 AND 0xff), unat (drop_bit 8 (ws ! 7)), unat (ws ! 7 AND 0xff))"
      using assms by (auto simp: mapped_ipv4_def split: if_splits)
    have "octets_ok q"
      using word16_less [of "ws ! 6"] word16_less [of "ws ! 7"]
      by (simp add: q octets_ok_def high_octet low_octet less_mult_imp_div_less less_Suc_eq_le [symmetric])
    then have v4: "is_denied_ipv4 q \<longleftrightarrow> list_ex (in_block 32 (?v mod 2 ^ 32)) ipv4_blocks"
      unfolding words_mapped(2) [OF assms] q [symmetric] by (rule denied_ipv4_blocks)
    have nz: "ws ! 0 = 0" "\<not> list_all (\<lambda>w. w = 0) ws" "\<not> list_all (\<lambda>w. w = 0) (take 7 ws)"
      using m assms by (auto simp: list_all_length intro!: exI [of _ 5])
    show ?thesis
      unfolding blocks words_mapped(1) [OF assms] using nz m v4 by (simp add: is_denied_words_def Some)
  qed
qed

section \<open>No accepted address escapes the parser\<close>

lemma parse_ipv4_total:
  assumes "is_ipv4 s"
  shows "\<exists>q. parse_ipv4 s = Some q \<and> octets_ok q"
proof -
  obtain a b c d where ts: "split_on CHR ''.'' s = [a, b, c, d]"
    using assms unfolding is_ipv4_def by (auto simp: length_Suc_conv numeral_eq_Suc)
  with assms show ?thesis
    by (auto simp: is_ipv4_def parse_ipv4_def is_octet_def octet_number_def octets_ok_def)
qed

lemma is_group_no_dot: "is_group t \<Longrightarrow> CHR ''.'' \<notin> set t"
  by (auto simp: is_group_def list_all_iff is_hex_def js_eval)

lemma is_group_nonempty: "is_group t \<Longrightarrow> t \<noteq> []"
  by (auto simp: is_group_def)

lemma is_ipv4_dot: "is_ipv4 t \<Longrightarrow> CHR ''.'' \<in> set t"
  using split_on_free [of "CHR ''.''" t] by (force simp: is_ipv4_def)

lemma half_words_groups: "list_all is_group ts \<Longrightarrow> \<exists>ws. half_words ts = Some ws \<and> length ws = length ts"
  by (induction ts) (auto dest: is_group_no_dot)

lemma half_words_dotted:
  "list_all is_group ts \<Longrightarrow> is_ipv4 t \<Longrightarrow> \<exists>ws. half_words (ts @ [t]) = Some ws \<and> length ws = length ts + 2"
proof (induction ts)
  case Nil
  then show ?case
    using parse_ipv4_total [of t] is_ipv4_dot [of t] by (auto split: option.splits prod.splits)
qed (auto dest: is_group_no_dot)

lemma list_all_last: "xs \<noteq> [] \<Longrightarrow> list_all P (butlast xs) \<Longrightarrow> P (last xs) \<Longrightarrow> list_all P xs"
  by (induction xs rule: rev_induct) auto

lemma side_groups_parse:
  assumes "side_groups dotted s = Some n"
  shows "\<exists>ws. parse_ipv6_half s = Some ws \<and> length ws = n"
proof (cases "s = []")
  case False
  let ?ts = "split_on CHR '':'' s"
  have ts: "?ts = butlast ?ts @ [last ?ts]" by simp
  have groups: "list_all is_group (butlast ?ts)"
    and last: "is_group (last ?ts) \<and> n = length ?ts \<or> is_ipv4 (last ?ts) \<and> n = length ?ts + 1"
    using assms False by (auto simp: side_groups_def Let_def split: if_splits)
  have len: "length ?ts = length (butlast ?ts) + 1"
    using arg_cong [OF ts, of length] by simp
  from last show ?thesis
  proof
    assume g: "is_group (last ?ts) \<and> n = length ?ts"
    then have "list_all is_group ?ts"
      using groups by (simp add: list_all_last)
    then show ?thesis
      using half_words_groups g False by (simp add: parse_ipv6_half_def)
  next
    assume d: "is_ipv4 (last ?ts) \<and> n = length ?ts + 1"
    then obtain ws where "half_words (butlast ?ts @ [last ?ts]) = Some ws" "length ws = length (butlast ?ts) + 2"
      using half_words_dotted [OF groups] by blast
    moreover have "n = length (butlast ?ts) + 2"
      using d len by linarith
    ultimately have "half_words ?ts = Some ws \<and> length ws = n"
      by simp
    then show ?thesis
      using False by (simp add: parse_ipv6_half_def)
  qed
qed (use assms in \<open>auto simp: side_groups_def parse_ipv6_half_def\<close>)

lemma side_groups_tokens:
  assumes "side_groups dotted s = Some n" "s \<noteq> []"
  shows "list_all (\<lambda>t. t \<noteq> []) (split_on CHR '':'' s)"
proof -
  let ?ts = "split_on CHR '':'' s"
  have ts: "?ts = butlast ?ts @ [last ?ts]" by simp
  have "list_all is_group (butlast ?ts)" "is_group (last ?ts) \<or> is_ipv4 (last ?ts)"
    using assms by (auto simp: side_groups_def Let_def split: if_splits)
  then have "list_all (\<lambda>t. t \<noteq> []) (butlast ?ts)" "last ?ts \<noteq> []"
    using is_group_nonempty is_ipv4_dot [of "last ?ts"] by (auto simp: list_all_iff)
  then show ?thesis by (simp add: list_all_last)
qed

lemma cut_double_tokens:
  "list_all (\<lambda>t. t \<noteq> []) (split_on CHR '':'' s) \<Longrightarrow> cut_double (CHR '':'' # s) = None"
proof (induction s rule: length_induct)
  case (1 s)
  show ?case
  proof (cases s)
    case (Cons x xs)
    then have x: "x \<noteq> CHR '':''"
      using 1(2) by auto
    show ?thesis
    proof (cases xs)
      case ys: (Cons y ys)
      show ?thesis
      proof (cases "y = CHR '':''")
        case True
        then have "list_all (\<lambda>t. t \<noteq> []) (split_on CHR '':'' ys)"
          using 1(2) x Cons ys by simp
        then have "cut_double (CHR '':'' # ys) = None"
          using 1(1) Cons ys by simp
        with x True show ?thesis
          by (simp add: Cons ys)
      next
        case False
        then have "list_all (\<lambda>t. t \<noteq> []) (split_on CHR '':'' xs)"
          using 1(2) x Cons ys by (auto split: list.splits)
        then have "cut_double (CHR '':'' # xs) = None"
          using 1(1) Cons by simp
        with x False show ?thesis
          by (simp add: Cons ys)
      qed
    qed (simp add: Cons x)
  qed simp
qed

lemma parse_ipv6_total:
  assumes "is_ipv6 s"
  shows "\<exists>ws. parse_ipv6 s = Some ws \<and> length ws = 8"
proof (cases "cut_double (before_first CHR ''%'' s)")
  case None
  then show ?thesis
    using assms side_groups_parse [of True "before_first CHR ''%'' s" 8]
    by (auto simp: is_ipv6_def parse_ipv6_def Let_def)
next
  case (Some p)
  obtain l r where p: "p = (l, r)" by (cases p)
  then obtain m n where sides: "side_groups False l = Some m" "side_groups True r = Some n" "m + n \<le> 7"
    using assms Some by (auto simp: is_ipv6_def Let_def split: option.splits)
  have "cut_double (CHR '':'' # r) = None"
    using cut_double_tokens side_groups_tokens [OF sides(2)] by (cases "r = []") auto
  then show ?thesis
    using Some p sides(3) side_groups_parse [OF sides(1)] side_groups_parse [OF sides(2)]
    by (auto simp: parse_ipv6_def Let_def)
qed

text \<open>
  C34: the addresses refused before any rule is consulted are exactly those of the listed
  private, loopback, link-local and carrier-grade blocks, IPv4-mapped ones included, for
  every text isIP accepts: such a text always parses, so the branches of the code that would
  let an unreadable address through are never taken.
\<close>

theorem denied_address_blocks:
  "if is_ip s = 4
   then \<exists>q. parse_ipv4 s = Some q \<and> is_denied_ip_address s = list_ex (in_block 32 (ipv4_value q)) ipv4_blocks
   else if is_ip s = 6
   then \<exists>ws. parse_ipv6 s = Some ws \<and> is_denied_ip_address s = list_ex (in_block 128 (ipv6_value ws)) ipv6_blocks
   else \<not> is_denied_ip_address s"
proof -
  have "is_ipv4 s" if "is_ip s = 4"
    using that by (auto simp: is_ip_def split: if_splits)
  moreover have "is_ipv6 s" if "is_ip s = 6"
    using that by (auto simp: is_ip_def split: if_splits)
  ultimately show ?thesis
    using parse_ipv4_total [of s] parse_ipv6_total [of s] denied_ipv4_blocks denied_words_blocks
    by (auto simp: is_denied_ip_address_def)
qed

end
