(* ===== verification/Protocol.thy ===== *)
theory Protocol
  imports Resolve IpPolicy
begin

text \<open>
  The messages between the proxy, the broker and the approver (\<open>src/network/protocol.ts\<close>): the
  data they carry, the validators of messages read from a socket, which run on arbitrary
  JSON, and the tests on targets. A property that a JSON object does not have is \<open>None\<close>. A
  validator returns \<open>None\<close> for a valid value, otherwise its message.
\<close>

section \<open>Data\<close>

datatype approval_scope = ScOnce | ScRule | ScHostPort | ScHost | ScViolation

datatype principal = AgentPrincipal | DindPrincipal

datatype request_kind = KindConnect | KindForward

datatype verdict = Allow | Deny

record inject_header =
  ih_name :: string
  ih_value :: string

record inject_preview =
  ip_name :: string
  ip_secrets :: "string list"

record review_context =
  rx_path :: string
  rx_content_type :: "string option"
  rx_body_size :: nat

datatype body_diagnostic =
    BdUnreadable
  | BdTooLarge nat nat
  | BdInvalidJson
  | BdEmptyJsonBody
  | BdNonScalar string
  | BdGraphqlUnparseable string
  | BdGraphqlQueryString string
  | BdUnresolvedArgument string string string

record decision_response =
  rp_request_id :: string
  rp_verdict :: verdict
  rp_approval_scope :: "approval_scope option"
  rp_reason :: string
  rp_rule_id :: "string option"
  rp_message :: "string option"
  rp_inject_headers :: "inject_header list option"
  rp_mask_values :: "string list option"
  rp_forbid_values :: "string list option"
  rp_remove_headers :: "string list option"

datatype finding_kind =
  SchemaMismatch | UnexpectedBody | BodyUnavailable | InspectionIncomplete | FindingsTruncated

record violation_finding =
  vf_expect :: int
  vf_expect_kind :: string
  vf_at :: string
  vf_kind :: finding_kind
  vf_pointer :: string
  vf_value :: "string option"
  vf_label :: "string option"
  vf_excerpt :: "string option"
  vf_count :: nat

definition approvable_finding_kinds :: "finding_kind list" where
  "approvable_finding_kinds = [SchemaMismatch, UnexpectedBody, BodyUnavailable]"

definition is_approvable_finding :: "violation_finding \<Rightarrow> bool" where
  "is_approvable_finding f \<longleftrightarrow>
     0 \<le> vf_expect f \<and> list_ex (\<lambda>kind. kind = vf_kind f) approvable_finding_kinds"

text \<open>\<open>RequestBodyCapture\<close> without its bytes, and the audit status derived from it.\<close>

datatype body_audit_status =
    AuditDisabled
  | AuditNotApplicable
  | AuditAttached nat string
  | AuditUnavailable string

record authorize_request =
  aq_request_id :: string
  aq_session_id :: string
  aq_target :: target_address
  aq_method :: string
  aq_transport :: transport
  aq_request_kind :: request_kind
  aq_body_truth :: "(string \<times> truth) list"
  aq_body_diagnostics :: "(string \<times> body_diagnostic) list"
  aq_review_context :: "review_context option"

record review_request =
  vq_request_id :: string
  vq_session_id :: string
  vq_rule_id :: string
  vq_target :: target_address
  vq_method :: string
  vq_findings :: "violation_finding list"
  vq_review_context :: "review_context option"

section \<open>Reading JSON\<close>

text \<open>\<open>typeof value === "object" && value !== null && !Array.isArray(value)\<close>.\<close>

fun json_object :: "json \<Rightarrow> (string \<times> json) list option" where
  "json_object (JObj fs) = Some fs"
| "json_object v = None"

fun json_string :: "json option \<Rightarrow> string option" where
  "json_string (Some (JStr s)) = Some s"
| "json_string v = None"

text \<open>The integer a number's text \<open>String(value)\<close> denotes; a safe integer is below 2 to the 53.\<close>

definition text_int :: "string \<Rightarrow> int option" where
  "text_int t =
     (if t \<noteq> [] \<and> list_all is_digit t then Some (int (parse_nat t))
      else if prefix ''-'' t \<and> tl t \<noteq> [] \<and> list_all is_digit (tl t) then Some (- int (parse_nat (tl t)))
      else None)"

text \<open>\<open>String(i)\<close> of an integer, and back.\<close>

definition int_text :: "int \<Rightarrow> string" where
  "int_text i = (if i < 0 then CHR ''-'' # nat_text (nat (- i)) else nat_text (nat i))"

lemma nat_text_no_minus: "nat_text n \<noteq> CHR ''-'' # s"
proof
  assume "nat_text n = CHR ''-'' # s"
  then have "CHR ''-'' \<in> set (nat_text n)" by simp
  then have "is_digit CHR ''-''" by (rule nat_text_digits)
  then show False by (simp add: is_digit_def less_eq_char_def)
qed

lemma int_text_inject [simp]: "int_text i = int_text j \<longleftrightarrow> i = j"
  using nat_text_no_minus [of "nat i"] nat_text_no_minus [of "nat j"]
  by (auto simp: int_text_def dest: sym)

lemma text_int_text [simp]: "text_int (int_text i) = Some i"
proof -
  have digits: "list_all is_digit (nat_text n)" for n using nat_text_digits by (simp add: list_all_iff)
  have ne: "nat_text n \<noteq> []" for n by (subst nat_text.simps) simp
  show ?thesis
    using nat_text_no_minus by (auto simp: text_int_def int_text_def digits ne is_digit_def less_eq_char_def)
qed

definition max_safe_integer :: int where
  "max_safe_integer = 9007199254740991"

fun safe_integer :: "json option \<Rightarrow> int option" where
  "safe_integer (Some (JNum t)) =
     (case text_int t of
        None \<Rightarrow> None
      | Some i \<Rightarrow> if \<bar>i\<bar> \<le> max_safe_integer then Some i else None)"
| "safe_integer v = None"

text \<open>\<open>isListedValue\<close>.\<close>

definition is_listed_value :: "json option \<Rightarrow> string list \<Rightarrow> bool" where
  "is_listed_value v allowed \<longleftrightarrow> (case json_string v of None \<Rightarrow> False | Some s \<Rightarrow> list_ex (\<lambda>item. item = s) allowed)"

definition is_bounded_string :: "json option \<Rightarrow> nat \<Rightarrow> bool" where
  "is_bounded_string v bound \<longleftrightarrow> (case json_string v of None \<Rightarrow> False | Some s \<Rightarrow> length s \<le> bound)"

definition is_bounded_nullable_string :: "json option \<Rightarrow> nat \<Rightarrow> bool" where
  "is_bounded_nullable_string v bound \<longleftrightarrow> v = Some JNull \<or> is_bounded_string v bound"

definition is_nullable_string :: "json option \<Rightarrow> bool" where
  "is_nullable_string v \<longleftrightarrow> v = Some JNull \<or> json_string v \<noteq> None"

definition has_exact_fields :: "(string \<times> json) list \<Rightarrow> string list \<Rightarrow> bool" where
  "has_exact_fields fs names \<longleftrightarrow> length fs = length names \<and> list_all (\<lambda>(k, v). k \<in> set names) fs"

definition only_fields :: "(string \<times> json) list \<Rightarrow> string list \<Rightarrow> bool" where
  "only_fields fs names \<longleftrightarrow> list_all (\<lambda>(k, v). k \<in> set names) fs"

text \<open>\<open>version === 1\<close>.\<close>

definition is_number :: "json option \<Rightarrow> string \<Rightarrow> bool" where
  "is_number v text \<longleftrightarrow> v = Some (JNum text)"

section \<open>Base64\<close>

text \<open>
  \<open>Buffer.from(value, "base64")\<close> and \<open>toString("base64")\<close>; bytes are numbers below 256. The
  decoder is only applied to a text the regular expression \<open>CANONICAL_BASE64\<close> matches.
\<close>

definition base64_char :: "nat \<Rightarrow> char" where
  "base64_char n =
     (if n < 26 then char_of (65 + n) else if n < 52 then char_of (71 + n)
      else if n < 62 then char_of (n - 4) else if n = 62 then CHR ''+'' else CHR ''/'')"

definition base64_value :: "char \<Rightarrow> nat option" where
  "base64_value c =
     (if is_upper c then Some (of_char c - 65) else if is_lower c then Some (of_char c - 71)
      else if is_digit c then Some (of_char c + 4) else if c = CHR ''+'' then Some 62
      else if c = CHR ''/'' then Some 63 else None)"

definition is_base64_char :: "char \<Rightarrow> bool" where
  "is_base64_char c \<longleftrightarrow> base64_value c \<noteq> None"

definition sextet :: "char \<Rightarrow> nat" where
  "sextet c = (case base64_value c of None \<Rightarrow> 0 | Some n \<Rightarrow> n)"

fun base64_encode :: "nat list \<Rightarrow> string" where
  "base64_encode [] = []"
| "base64_encode [a] = [base64_char (a div 4), base64_char (a mod 4 * 16), CHR ''='', CHR ''='']"
| "base64_encode [a, b] =
     [base64_char (a div 4), base64_char (a mod 4 * 16 + b div 16), base64_char (b mod 16 * 4), CHR ''='']"
| "base64_encode (a # b # c # rest) =
     [base64_char (a div 4), base64_char (a mod 4 * 16 + b div 16), base64_char (b mod 16 * 4 + c div 64),
      base64_char (c mod 64)] @ base64_encode rest"

fun base64_decode :: "string \<Rightarrow> nat list" where
  "base64_decode (p # q # r # s # rest) =
     (if r = CHR ''='' then [sextet p * 4 + sextet q div 16]
      else if s = CHR ''='' then [sextet p * 4 + sextet q div 16, sextet q mod 16 * 16 + sextet r div 4]
      else [sextet p * 4 + sextet q div 16, sextet q mod 16 * 16 + sextet r div 4,
            sextet r mod 4 * 64 + sextet s] @ base64_decode rest)"
| "base64_decode s = []"

fun base64_form :: "string \<Rightarrow> bool" where
  "base64_form [] = True"
| "base64_form (p # q # r # s # rest) =
     (is_base64_char p \<and> is_base64_char q \<and>
      (if rest = [] then (is_base64_char r \<and> (is_base64_char s \<or> s = CHR ''='')) \<or> (r = CHR ''='' \<and> s = CHR ''='')
       else is_base64_char r \<and> is_base64_char s \<and> base64_form rest))"
| "base64_form s = False"

definition is_canonical_base64 :: "string \<Rightarrow> bool" where
  "is_canonical_base64 v \<longleftrightarrow> base64_form v \<and> base64_encode (base64_decode v) = v"

lemma sextet_char [simp]: "n < 64 \<Longrightarrow> sextet (base64_char n) = n"
  by (auto simp: sextet_def base64_char_def base64_value_def is_upper_def is_lower_def is_digit_def less_eq_char_def
      of_char_of)

lemma is_base64_char_char [simp]: "n < 64 \<Longrightarrow> is_base64_char (base64_char n)"
  by (auto simp: is_base64_char_def base64_char_def base64_value_def is_upper_def is_lower_def is_digit_def less_eq_char_def)

lemma base64_char_not_pad [simp]: "n < 64 \<Longrightarrow> base64_char n \<noteq> CHR ''=''"
  using is_base64_char_char [of n]
  by (auto simp: is_base64_char_def base64_value_def is_upper_def is_lower_def is_digit_def less_eq_char_def)

lemma sextet_less: "sextet c < 64"
  by (auto simp: sextet_def base64_value_def is_upper_def is_lower_def is_digit_def less_eq_char_def)

lemma sextets_of_bytes:
  assumes "(a::nat) < 256" "b < 256"
  shows "a div 4 < 64" "a mod 4 * 16 + b div 16 < 64" "b mod 16 * 4 + a div 64 < 64"
    "a mod 4 * 16 < 64" "a mod 16 * 4 < 64" "a mod 64 < 64"
proof -
  have "a div 4 < 64" "b div 16 < 16" "a div 64 < 4" "a mod 4 < 4" "a mod 16 < 16" "b mod 16 < 16"
    using assms by (simp_all add: less_mult_imp_div_less)
  then show "a div 4 < 64" "a mod 4 * 16 + b div 16 < 64" "b mod 16 * 4 + a div 64 < 64"
    "a mod 4 * 16 < 64" "a mod 16 * 4 < 64" "a mod 64 < 64"
    by simp_all
qed

lemma bytes_of_sextets:
  assumes "(b::nat) < 256" "c < 256"
  shows "a div 4 * 4 + (a mod 4 * 16 + b div 16) div 16 = a"
    "(a mod 4 * 16 + b div 16) mod 16 * 16 + (b mod 16 * 4 + c div 64) div 4 = b"
    "(b mod 16 * 4 + c div 64) mod 4 * 64 + c mod 64 = c"
proof -
  have small: "b div 16 < 16" "c div 64 < 4"
    using assms by (simp_all add: less_mult_imp_div_less)
  have "(x * 16 + y) div 16 = x" "(x * 16 + y) mod 16 = y" if "y < 16" for x y :: nat
    using that by simp_all
  moreover have "(x * 4 + y) div 4 = x" "(x * 4 + y) mod 4 = y" if "y < 4" for x y :: nat
    using that by simp_all
  ultimately show "a div 4 * 4 + (a mod 4 * 16 + b div 16) div 16 = a"
    "(a mod 4 * 16 + b div 16) mod 16 * 16 + (b mod 16 * 4 + c div 64) div 4 = b"
    "(b mod 16 * 4 + c div 64) mod 4 * 64 + c mod 64 = c"
    using small by (simp_all only: div_mult_mod_eq)
qed

lemma bytes_of_sextets_end:
  "(a::nat) div 4 * 4 + (a mod 4 * 16) div 16 = a"
  "b < 256 \<Longrightarrow> (a mod 4 * 16 + b div 16) mod 16 * 16 + (b mod 16 * 4) div 4 = (b::nat)"
  using bytes_of_sextets(1) [of 0 0 a] bytes_of_sextets(2) [of b 0 a] by simp_all

lemma base64_decode_encode: "list_all (\<lambda>b. b < 256) bs \<Longrightarrow> base64_decode (base64_encode bs) = bs"
proof (induction bs rule: base64_encode.induct)
  case (2 a)
  then show ?case
    using sextets_of_bytes [of a 0] bytes_of_sextets_end(1) [of a] by simp
next
  case (3 a b)
  then show ?case
    using sextets_of_bytes [of a b] sextets_of_bytes [of b 0] bytes_of_sextets(1) [of b 0 a] bytes_of_sextets_end(2) [of b a]
    by simp
next
  case (4 a b c rest)
  then show ?case
    using sextets_of_bytes [of a b] sextets_of_bytes [of c b] bytes_of_sextets(1,2) [of b c a] bytes_of_sextets(3) [of b c]
    by simp
qed simp

lemma base64_form_encode: "list_all (\<lambda>b. b < 256) bs \<Longrightarrow> base64_form (base64_encode bs)"
proof (induction bs rule: base64_encode.induct)
  case (2 a)
  then show ?case
    using sextets_of_bytes [of a 0] by simp
next
  case (3 a b)
  then show ?case
    using sextets_of_bytes [of a b] sextets_of_bytes [of b 0] by simp
next
  case (4 a b c rest)
  then show ?case
    using sextets_of_bytes [of a b] sextets_of_bytes [of c b] by simp
qed simp

lemma base64_decode_bytes: "list_all (\<lambda>b. b < 256) (base64_decode s)"
proof (induction s rule: base64_decode.induct)
  case (1 p q r s rest)
  have bound: "x * 4 + y div 16 < 256" "x mod 16 * 16 + y div 4 < 256" "x mod 4 * 64 + y < 256"
    if "x < 64" "y < 64" for x y :: nat
  proof -
    have "y div 16 < 4" "y div 4 < 16" "x mod 16 < 16" "x mod 4 < 4"
      using that by (simp_all add: less_mult_imp_div_less)
    then show "x * 4 + y div 16 < 256" "x mod 16 * 16 + y div 4 < 256" "x mod 4 * 64 + y < 256"
      using that by simp_all
  qed
  show ?case
    using 1 bound [OF sextet_less sextet_less] by simp
qed simp_all

text \<open>
  a captured body round-trips. The base64 texts the broker accepts are exactly the
  encodings of byte sequences: of the texts that decode to the same bytes it accepts one
  only, the one whose padding bits are zero, and encoding what was decoded gives it back.
\<close>

theorem canonical_base64_roundtrip:
  "{s. is_canonical_base64 s} = base64_encode ` {bs. list_all (\<lambda>b. b < 256) bs} \<and>
   inj_on base64_encode {bs. list_all (\<lambda>b. b < 256) bs}"
proof -
  have "is_canonical_base64 s \<longleftrightarrow> s \<in> base64_encode ` {bs. list_all (\<lambda>b. b < 256) bs}" for s
  proof
    assume "is_canonical_base64 s"
    then have "s = base64_encode (base64_decode s)" by (simp add: is_canonical_base64_def)
    then show "s \<in> base64_encode ` {bs. list_all (\<lambda>b. b < 256) bs}"
      using base64_decode_bytes by blast
  qed (auto simp: is_canonical_base64_def base64_form_encode base64_decode_encode)
  moreover have "inj_on base64_encode {bs. list_all (\<lambda>b. b < 256) bs}"
    by (rule inj_on_inverseI [of _ base64_decode]) (simp add: base64_decode_encode)
  ultimately show ?thesis by blast
qed

section \<open>Validators\<close>

subsection \<open>Captured bodies\<close>

definition is_sha256_text :: "string \<Rightarrow> bool" where
  "is_sha256_text s \<longleftrightarrow> prefix ''sha256:'' s \<and> length s = 71 \<and>
     list_all (\<lambda>c. is_digit c \<or> (CHR ''a'' \<le> c \<and> c \<le> CHR ''f'')) (drop 7 s)"

definition capture_error :: string where
  "capture_error = ''invalid authorize request body capture''"

definition validate_request_body_capture :: "json option \<Rightarrow> string option" where
  "validate_request_body_capture v =
     (case Option.bind v json_object of
        None \<Rightarrow> Some capture_error
      | Some capture \<Rightarrow>
          (let get = map_of capture; state = json_string (get ''state'') in
           if state = Some ''disabled'' \<or> state = Some ''not-applicable'' then
             (if has_exact_fields capture [''state''] then None else Some capture_error)
           else if state = Some ''unavailable'' then
             (if has_exact_fields capture [''state'', ''code''] \<and>
                 is_listed_value (get ''code'') [''body-unreadable'', ''body-too-large'', ''invalid-capture'']
              then None else Some capture_error)
           else if state = Some ''attached'' then
             (if has_exact_fields capture
                   [''state'', ''encoding'', ''byteLength'', ''sha256'', ''contentType'', ''contentEncoding'', ''data''] \<and>
                 json_string (get ''encoding'') = Some ''base64'' \<and>
                 (case safe_integer (get ''byteLength'') of None \<Rightarrow> False | Some n \<Rightarrow> 0 \<le> n) \<and>
                 (case json_string (get ''sha256'') of None \<Rightarrow> False | Some s \<Rightarrow> is_sha256_text s) \<and>
                 is_nullable_string (get ''contentType'') \<and>
                 is_nullable_string (get ''contentEncoding'') \<and>
                 (case json_string (get ''data'') of None \<Rightarrow> False | Some s \<Rightarrow> is_canonical_base64 s)
              then None else Some capture_error)
           else Some capture_error))"

definition audit_status_error :: string where
  "audit_status_error = ''invalid request body audit status''"

definition validate_request_body_audit_status :: "json option \<Rightarrow> string option" where
  "validate_request_body_audit_status v =
     (case Option.bind v json_object of
        None \<Rightarrow> Some audit_status_error
      | Some status \<Rightarrow>
          (let get = map_of status; state = json_string (get ''state'') in
           if state = Some ''disabled'' \<or> state = Some ''not-applicable'' then
             (if has_exact_fields status [''state''] then None else Some audit_status_error)
           else if state = Some ''attached'' then
             (if has_exact_fields status [''state'', ''byteLength'', ''sha256''] \<and>
                 (case safe_integer (get ''byteLength'') of None \<Rightarrow> False | Some n \<Rightarrow> 0 \<le> n) \<and>
                 (case json_string (get ''sha256'') of None \<Rightarrow> False | Some s \<Rightarrow> is_sha256_text s)
              then None else Some audit_status_error)
           else if state = Some ''unavailable'' then
             (if has_exact_fields status [''state'', ''code''] \<and>
                 is_listed_value (get ''code'')
                   [''body-unreadable'', ''body-too-large'', ''capacity'', ''invalid-capture'', ''store-failed'']
              then None else Some audit_status_error)
           else Some audit_status_error))"

subsection \<open>Parts of a message\<close>

definition is_body_diagnostic :: "json \<Rightarrow> bool" where
  "is_body_diagnostic v \<longleftrightarrow>
     (case json_object v of
        None \<Rightarrow> False
      | Some d \<Rightarrow>
          (let get = map_of d; code = json_string (get ''code'') in
           if code = Some ''body-unreadable'' \<or> code = Some ''invalid-json'' \<or> code = Some ''empty-json-body''
           then has_exact_fields d [''code'']
           else if code = Some ''body-too-large'' then
             has_exact_fields d [''code'', ''byteLength'', ''maxBodyBytes''] \<and>
             (case safe_integer (get ''byteLength'') of None \<Rightarrow> False | Some n \<Rightarrow> 0 < n) \<and>
             (case safe_integer (get ''maxBodyBytes'') of None \<Rightarrow> False | Some n \<Rightarrow> 0 < n)
           else if code = Some ''non-scalar-at-pointer'' \<or> code = Some ''graphql-unparseable'' \<or>
                   code = Some ''graphql-query-string'' then
             has_exact_fields d [''code'', ''pointer''] \<and> json_string (get ''pointer'') \<noteq> None
           else if code = Some ''graphql-unresolved-field-argument'' then
             has_exact_fields d [''code'', ''pointer'', ''fieldPath'', ''argument''] \<and>
             json_string (get ''pointer'') \<noteq> None \<and> json_string (get ''fieldPath'') \<noteq> None \<and>
             json_string (get ''argument'') \<noteq> None
           else False))"

definition review_context_fields :: "string list" where
  "review_context_fields = [''path'', ''contentType'', ''bodySize'']"

definition is_review_context :: "json \<Rightarrow> bool" where
  "is_review_context v \<longleftrightarrow>
     (case json_object v of
        None \<Rightarrow> False
      | Some context \<Rightarrow>
          only_fields context review_context_fields \<and>
          json_string (map_of context ''path'') \<noteq> None \<and>
          is_nullable_string (map_of context ''contentType'') \<and>
          (case safe_integer (map_of context ''bodySize'') of None \<Rightarrow> False | Some n \<Rightarrow> 0 \<le> n))"

definition is_normalized_target :: "json option \<Rightarrow> bool" where
  "is_normalized_target v \<longleftrightarrow>
     (case Option.bind v json_object of
        None \<Rightarrow> False
      | Some t \<Rightarrow>
          length t = 2 \<and>
          (case json_string (map_of t ''host'') of None \<Rightarrow> False | Some h \<Rightarrow> 0 < length h \<and> length h \<le> 253) \<and>
          (case safe_integer (map_of t ''port'') of None \<Rightarrow> False | Some p \<Rightarrow> 0 < p \<and> p \<le> 65535))"

definition document_has_concrete_rule_id :: "resolved_document \<Rightarrow> string \<Rightarrow> bool" where
  "document_has_concrete_rule_id document rid \<longleftrightarrow>
     list_ex (\<lambda>scope. list_ex (\<lambda>rule. rr_id rule = rid) (rs_rules scope)) (doc_scopes document)"

definition document_has_rule_id :: "resolved_document \<Rightarrow> string \<Rightarrow> bool" where
  "document_has_rule_id document rid \<longleftrightarrow>
     list_ex (\<lambda>scope. rs_fallback_rule_id scope = rid \<or> list_ex (\<lambda>rule. rr_id rule = rid) (rs_rules scope))
       (doc_scopes document)"

text \<open>\<open>HTTP_METHOD\<close> and \<open>SAFE_RULE_ID\<close>, a rule key with or without the fallback suffix.\<close>

definition is_http_method :: "string \<Rightarrow> bool" where
  "is_http_method m \<longleftrightarrow> 1 \<le> length m \<and> length m \<le> 16 \<and> list_all is_alpha m"

definition is_safe_rule_id :: "string \<Rightarrow> bool" where
  "is_safe_rule_id rid \<longleftrightarrow>
     is_rule_key rid \<or> (suffix ''.$fallback'' rid \<and> is_rule_key (take (length rid - 10) rid))"

definition method_ok :: "json option \<Rightarrow> bool" where
  "method_ok v \<longleftrightarrow> (case json_string v of None \<Rightarrow> False | Some m \<Rightarrow> is_http_method m)"

definition principal_ok :: "json option \<Rightarrow> bool" where
  "principal_ok v \<longleftrightarrow> v = None \<or> v = Some (JStr ''agent'') \<or> v = Some (JStr ''dind'')"

definition context_ok :: "json option \<Rightarrow> bool" where
  "context_ok v \<longleftrightarrow> (case v of None \<Rightarrow> True | Some c \<Rightarrow> is_review_context c)"

subsection \<open>Violation findings\<close>

definition max_findings :: nat where "max_findings = 1024"

definition max_finding_value_chars :: nat where
  "max_finding_value_chars = max_body_expect_pointer_chars + 1 + 552"

definition max_finding_label_chars :: nat where "max_finding_label_chars = 552"

definition max_finding_pointer_chars :: nat where "max_finding_pointer_chars = 1024"

definition max_finding_excerpt_chars :: nat where "max_finding_excerpt_chars = 2048"

definition max_finding_selector_chars :: nat where "max_finding_selector_chars = 512"

definition finding_fields :: "string list" where
  "finding_fields =
     [''expect'', ''expectKind'', ''at'', ''kind'', ''pointer'', ''value'', ''label'', ''excerpt'', ''count'']"

definition expect_kinds :: "string list" where
  "expect_kinds = ['''', ''emptyBody'', ''jsonRoot'', ''body'', ''unionShape'']"

definition violation_finding_kinds :: "(string \<times> finding_kind) list" where
  "violation_finding_kinds =
     [(''schema-mismatch'', SchemaMismatch), (''unexpected-body'', UnexpectedBody),
      (''body-unavailable'', BodyUnavailable), (''inspection-incomplete'', InspectionIncomplete),
      (''findings-truncated'', FindingsTruncated)]"

definition finding_error :: "json \<Rightarrow> string option" where
  "finding_error v =
     (case json_object v of
        None \<Rightarrow> Some ''invalid violation finding''
      | Some f \<Rightarrow>
          (let get = map_of f in
           if \<not> only_fields f finding_fields then Some ''invalid violation finding''
           else if (case safe_integer (get ''expect'') of None \<Rightarrow> True | Some n \<Rightarrow> n < -1) \<or>
             \<not> is_listed_value (get ''expectKind'') expect_kinds \<or>
             \<not> is_bounded_string (get ''at'') max_finding_selector_chars \<or>
             \<not> is_listed_value (get ''kind'') (map fst violation_finding_kinds) \<or>
             \<not> is_bounded_string (get ''pointer'') max_finding_pointer_chars \<or>
             \<not> is_bounded_nullable_string (get ''value'') max_finding_value_chars \<or>
             \<not> is_bounded_nullable_string (get ''label'') max_finding_label_chars \<or>
             \<not> is_bounded_nullable_string (get ''excerpt'') max_finding_excerpt_chars \<or>
             (case safe_integer (get ''count'') of None \<Rightarrow> True | Some n \<Rightarrow> n < 1)
           then Some ''invalid violation finding'' else None))"

definition validate_violation_findings :: "json option \<Rightarrow> string option" where
  "validate_violation_findings v =
     (case v of
        Some (JArr fs) \<Rightarrow>
          (if length fs > max_findings then Some ''too many violation findings''
           else first_some finding_error fs)
      | _ \<Rightarrow> Some ''invalid violation findings'')"

subsection \<open>Messages\<close>

definition truth_values :: "(string \<times> truth) list" where
  "truth_values = [(''true'', TrueT), (''false'', FalseT), (''indeterminate'', Indeterminate)]"

definition truth_entry_error :: "resolved_document \<Rightarrow> string \<times> json \<Rightarrow> string option" where
  "truth_entry_error document e =
     (if \<not> document_has_concrete_rule_id document (fst e) then Some ''unknown authorize body truth rule ID''
      else if \<not> is_listed_value (Some (snd e)) (map fst truth_values) then Some ''invalid authorize body truth value''
      else None)"

definition diagnostic_entry_error ::
  "resolved_document \<Rightarrow> (string \<times> json) list \<Rightarrow> string \<times> json \<Rightarrow> string option"
where
  "diagnostic_entry_error document truths e =
     (if \<not> document_has_concrete_rule_id document (fst e) then Some ''unknown authorize body diagnostic rule ID''
      else if \<not> is_body_diagnostic (snd e) then Some ''invalid authorize body diagnostic''
      else if map_of truths (fst e) \<noteq> Some (JStr ''indeterminate'') then Some ''unexpected authorize body diagnostic''
      else None)"

definition missing_diagnostic_error :: "(string \<times> json) list \<Rightarrow> string \<times> json \<Rightarrow> string option" where
  "missing_diagnostic_error diagnostics e =
     (if snd e = JStr ''indeterminate'' \<and> map_of diagnostics (fst e) = None
      then Some ''missing authorize body diagnostic'' else None)"

text \<open>The tables of the authorize request, after its scalar properties have been checked.\<close>

definition body_tables_error :: "resolved_document \<Rightarrow> json option \<Rightarrow> json option \<Rightarrow> string option" where
  "body_tables_error document truth_table diagnostic_table =
     (case Option.bind truth_table json_object of
        None \<Rightarrow> Some ''invalid authorize body truth table''
      | Some truths \<Rightarrow>
          (let rule_count = sum_list (map (\<lambda>scope. length (rs_rules scope)) (doc_scopes document)) in
           if length truths > rule_count then Some ''too many authorize body truths''
           else (case first_some (truth_entry_error document) truths of
                   Some e \<Rightarrow> Some e
                 | None \<Rightarrow>
                     (case Option.bind diagnostic_table json_object of
                        None \<Rightarrow> Some ''invalid authorize body diagnostic table''
                      | Some diagnostics \<Rightarrow>
                          (if length diagnostics > rule_count then Some ''too many authorize body diagnostics''
                           else (case first_some (diagnostic_entry_error document truths) diagnostics of
                                   Some e \<Rightarrow> Some e
                                 | None \<Rightarrow> first_some (missing_diagnostic_error diagnostics) truths))))))"

definition authorize_fields :: "string list" where
  "authorize_fields =
     [''version'', ''type'', ''requestId'', ''sessionId'', ''principal'', ''target'', ''method'', ''transport'',
      ''requestKind'', ''observedAt'', ''bodyTruth'', ''bodyDiagnostics'', ''requestBodyCapture'', ''reviewContext'']"

definition validate_authorize_request :: "json \<Rightarrow> string \<Rightarrow> resolved_document \<Rightarrow> string option" where
  "validate_authorize_request v session document =
     (case json_object v of
        None \<Rightarrow> Some ''invalid authorize request''
      | Some m \<Rightarrow>
          (let get = map_of m in
           if \<not> principal_ok (get ''principal'') then Some ''invalid network principal''
           else if \<not> is_number (get ''version'') ''1'' \<or> json_string (get ''type'') \<noteq> Some ''authorize'' \<or>
             json_string (get ''requestId'') = None then Some ''invalid authorize request''
           else if json_string (get ''sessionId'') \<noteq> Some session then Some ''authorize session mismatch''
           else if \<not> only_fields m authorize_fields then Some ''invalid authorize request''
           else if \<not> is_normalized_target (get ''target'') then Some ''invalid authorize target''
           else if \<not> method_ok (get ''method'') then Some ''invalid authorize method''
           else if \<not> is_listed_value (get ''transport'') [''http'', ''websocket''] then
             Some ''invalid authorize transport''
           else if \<not> is_listed_value (get ''requestKind'') [''connect'', ''forward''] then
             Some ''invalid authorize request kind''
           else if json_string (get ''observedAt'') = None then Some ''invalid authorize observation time''
           else if \<not> context_ok (get ''reviewContext'') then Some ''invalid authorize review context''
           else (case validate_request_body_capture (get ''requestBodyCapture'') of
                   Some e \<Rightarrow> Some e
                 | None \<Rightarrow> body_tables_error document (get ''bodyTruth'') (get ''bodyDiagnostics''))))"

definition request_policy_review_fields :: "string list" where
  "request_policy_review_fields =
     [''version'', ''type'', ''requestId'', ''sessionId'', ''principal'', ''ruleId'', ''target'', ''method'',
      ''findings'', ''reviewContext'']"

definition validate_request_policy_review :: "json \<Rightarrow> string \<Rightarrow> resolved_document \<Rightarrow> string option" where
  "validate_request_policy_review v session document =
     (case json_object v of
        None \<Rightarrow> Some ''invalid request-policy review request''
      | Some m \<Rightarrow>
          (let get = map_of m in
           if \<not> principal_ok (get ''principal'') then Some ''invalid network principal''
           else if \<not> is_number (get ''version'') ''1'' \<or> json_string (get ''type'') \<noteq> Some ''request_policy_review'' \<or>
             json_string (get ''requestId'') = None then Some ''invalid request-policy review request''
           else if json_string (get ''sessionId'') \<noteq> Some session then
             Some ''request-policy review session mismatch''
           else if \<not> only_fields m request_policy_review_fields then Some ''invalid request-policy review request''
           else if (case json_string (get ''ruleId'') of None \<Rightarrow> True
                    | Some rid \<Rightarrow> \<not> is_safe_rule_id rid \<or> \<not> document_has_rule_id document rid) then
             Some ''invalid request-policy review rule ID''
           else if \<not> is_normalized_target (get ''target'') then Some ''invalid request-policy review target''
           else if \<not> method_ok (get ''method'') then Some ''invalid request-policy review method''
           else if \<not> context_ok (get ''reviewContext'') then Some ''invalid request-policy review context''
           else (case validate_violation_findings (get ''findings'') of
                   Some e \<Rightarrow> Some e
                 | None \<Rightarrow>
                     (if get ''findings'' = Some (JArr []) then Some ''request-policy review carries no violation''
                      else None))))"

definition request_policy_success_reasons :: "string list" where
  "request_policy_success_reasons =
     [''no-inspection'', ''empty-body'', ''recognized-json'', ''violations-allowed'', ''violations-approved'',
      ''masked-json'']"

definition request_policy_block_reasons :: "string list" where
  "request_policy_block_reasons =
     [''violations-denied'', ''review-unanswered'', ''body-unavailable'', ''unexpected-body'', ''invalid-json'',
      ''schema-mismatch'', ''forbidden-secret'', ''resource-limit'', ''key-collision'', ''serialization-failed'',
      ''processing-failed'']"

definition request_policy_outcome_fields :: "string list" where
  "request_policy_outcome_fields =
     [''version'', ''type'', ''requestId'', ''sessionId'', ''principal'', ''ruleId'', ''result'', ''reason'', ''findings'']"

definition outcome_consistent :: "json option \<Rightarrow> json option \<Rightarrow> bool" where
  "outcome_consistent result reason =
     (if json_string result = Some ''block'' then is_listed_value reason request_policy_block_reasons
      else if json_string result = Some ''rewrite''
      then json_string reason = Some ''masked-json'' \<or> json_string reason = Some ''violations-allowed'' \<or>
           json_string reason = Some ''violations-approved''
      else is_listed_value reason request_policy_success_reasons \<and> json_string reason \<noteq> Some ''masked-json'')"

definition validate_request_policy_outcome :: "json \<Rightarrow> string \<Rightarrow> resolved_document \<Rightarrow> string option" where
  "validate_request_policy_outcome v session document =
     (case json_object v of
        None \<Rightarrow> Some ''invalid request-policy outcome request''
      | Some m \<Rightarrow>
          (let get = map_of m in
           if \<not> principal_ok (get ''principal'') then Some ''invalid network principal''
           else if \<not> is_number (get ''version'') ''1'' \<or> json_string (get ''type'') \<noteq> Some ''request_policy_outcome'' \<or>
             json_string (get ''requestId'') = None then Some ''invalid request-policy outcome request''
           else if json_string (get ''sessionId'') \<noteq> Some session then
             Some ''request-policy outcome session mismatch''
           else if \<not> only_fields m request_policy_outcome_fields then Some ''invalid request-policy outcome request''
           else if (case json_string (get ''ruleId'') of None \<Rightarrow> True | Some rid \<Rightarrow> \<not> is_safe_rule_id rid) then
             Some ''invalid request-policy outcome rule ID''
           else if (case json_string (get ''ruleId'') of None \<Rightarrow> True | Some rid \<Rightarrow> \<not> document_has_rule_id document rid)
           then Some ''unknown request-policy outcome rule ID''
           else if \<not> is_listed_value (get ''result'') [''pass'', ''rewrite'', ''block''] then
             Some ''invalid request-policy outcome result''
           else if \<not> is_listed_value (get ''reason'') (request_policy_success_reasons @ request_policy_block_reasons)
           then Some ''invalid request-policy outcome reason''
           else (case (case get ''findings'' of None \<Rightarrow> None
                       | Some fs \<Rightarrow> validate_violation_findings (Some fs)) of
                   Some e \<Rightarrow> Some e
                 | None \<Rightarrow>
                     (if outcome_consistent (get ''result'') (get ''reason'') then None
                      else Some ''invalid request-policy outcome result/reason pairing''))))"

section \<open>Targets\<close>

definition is_space :: "char \<Rightarrow> bool" where
  "is_space c \<longleftrightarrow> (of_char c :: nat) \<in> {9, 10, 11, 12, 13, 32, 160}"

definition trim :: "string \<Rightarrow> string" where
  "trim s = rev (dropWhile is_space (rev (dropWhile is_space s)))"

text \<open>\<open>while (value.endsWith(".")) value = value.slice(0, -1)\<close>.\<close>

definition strip_dots :: "string \<Rightarrow> string" where
  "strip_dots s = rev (dropWhile (\<lambda>c. c = CHR ''.'') (rev s))"

text \<open>\<open>normalizeHost\<close> of \<open>protocol.ts\<close>; \<open>None\<close> is the exception for an empty host.\<close>

definition normalize_target_host :: "string \<Rightarrow> string option" where
  "normalize_target_host host =
     (let v = to_lower (trim host);
          v1 = (if prefix ''['' v \<and> suffix '']'' v then butlast (drop 1 v) else v);
          v2 = strip_dots v1
      in if length v2 = 0 then None else Some v2)"

definition target_key :: "target_address \<Rightarrow> string" where
  "target_key t = ta_host t @ '':'' @ nat_text (ta_port t)"

text \<open>\<open>denyReasonForTarget\<close>; the outer \<open>None\<close> is the exception of \<open>normalizeHost\<close>.\<close>

definition deny_reason_for_target :: "target_address \<Rightarrow> string option option" where
  "deny_reason_for_target t =
     (case normalize_target_host (ta_host t) of
        None \<Rightarrow> None
      | Some host \<Rightarrow>
          Some (if host = ''localhost'' then Some ''blocked-special-host''
                else if is_ip host \<noteq> 0 \<and> is_denied_ip_address host then Some ''blocked-private-ip''
                else None))"

lemma target_key_inject [simp]: "target_key s = target_key t \<longleftrightarrow> s = t"
proof
  assume eq: "target_key s = target_key t"
  have split: "h = h' \<and> n = n'" if "h @ '':'' @ nat_text n = h' @ '':'' @ nat_text n'" for h h' n n'
  proof -
    have free: "CHR '':'' \<notin> set (nat_text k)" for k
    proof
      assume "CHR '':'' \<in> set (nat_text k)"
      then have "is_digit CHR '':''" by (rule nat_text_digits)
      then show False by (simp add: is_digit_def less_eq_char_def)
    qed
    have after: "after_last CHR '':'' (x @ '':'' @ nat_text k) = nat_text k" for x k
    proof -
      have "takeWhile (\<lambda>c. c \<noteq> CHR '':'') (rev (nat_text k) @ CHR '':'' # rev x) = rev (nat_text k)"
        by (subst takeWhile_tail) (use free [of k] in \<open>auto simp: takeWhile_eq_all_conv\<close>)
      then show ?thesis by (simp add: after_last_def)
    qed
    have "nat_text n = nat_text n'"
      using after [of h n] after [of h' n'] that by metis
    then show ?thesis using that by simp
  qed
  from eq split [of "ta_host s" "ta_port s" "ta_host t" "ta_port t"] show "s = t"
    by (cases s; cases t) (simp add: target_key_def)
qed simp

section \<open>What a valid message is\<close>

text \<open>Reading a message as the data the handlers work on; the code casts, which needs a valid one.\<close>

definition read_nullable :: "json option \<Rightarrow> string option option" where
  "read_nullable v = (if v = Some JNull then Some None else map_option Some (json_string v))"

definition read_target :: "json option \<Rightarrow> target_address option" where
  "read_target v =
     Option.bind (Option.bind v json_object) (\<lambda>t.
     Option.bind (json_string (map_of t ''host'')) (\<lambda>h.
     Option.bind (safe_integer (map_of t ''port'')) (\<lambda>p.
       Some \<lparr>ta_host = h, ta_port = nat p\<rparr>)))"

definition read_context :: "json \<Rightarrow> review_context option" where
  "read_context v =
     Option.bind (json_object v) (\<lambda>c.
     Option.bind (json_string (map_of c ''path'')) (\<lambda>p.
     Option.bind (read_nullable (map_of c ''contentType'')) (\<lambda>ct.
     Option.bind (safe_integer (map_of c ''bodySize'')) (\<lambda>n.
       Some \<lparr>rx_path = p, rx_content_type = ct, rx_body_size = nat n\<rparr>))))"

definition read_optional_context :: "json option \<Rightarrow> review_context option option" where
  "read_optional_context v = (case v of None \<Rightarrow> Some None | Some c \<Rightarrow> map_option Some (read_context c))"

definition read_finding :: "json \<Rightarrow> violation_finding option" where
  "read_finding v =
     Option.bind (json_object v) (\<lambda>f.
     Option.bind (safe_integer (map_of f ''expect'')) (\<lambda>expect.
     Option.bind (json_string (map_of f ''expectKind'')) (\<lambda>ek.
     Option.bind (json_string (map_of f ''at'')) (\<lambda>at'.
     Option.bind (Option.bind (json_string (map_of f ''kind'')) (map_of violation_finding_kinds)) (\<lambda>kind.
     Option.bind (json_string (map_of f ''pointer'')) (\<lambda>pointer.
     Option.bind (read_nullable (map_of f ''value'')) (\<lambda>val.
     Option.bind (read_nullable (map_of f ''label'')) (\<lambda>label.
     Option.bind (read_nullable (map_of f ''excerpt'')) (\<lambda>excerpt.
     Option.bind (safe_integer (map_of f ''count'')) (\<lambda>n.
       Some \<lparr>vf_expect = expect, vf_expect_kind = ek, vf_at = at', vf_kind = kind, vf_pointer = pointer,
             vf_value = val, vf_label = label, vf_excerpt = excerpt, vf_count = nat n\<rparr>))))))))))"

definition read_review :: "json \<Rightarrow> review_request option" where
  "read_review v =
     Option.bind (json_object v) (\<lambda>m.
     Option.bind (json_string (map_of m ''requestId'')) (\<lambda>rq.
     Option.bind (json_string (map_of m ''sessionId'')) (\<lambda>session.
     Option.bind (json_string (map_of m ''ruleId'')) (\<lambda>rid.
     Option.bind (read_target (map_of m ''target'')) (\<lambda>target.
     Option.bind (json_string (map_of m ''method'')) (\<lambda>method.
     Option.bind (case map_of m ''findings'' of Some (JArr fs) \<Rightarrow> map_option_list read_finding fs | _ \<Rightarrow> None) (\<lambda>fs.
     Option.bind (read_optional_context (map_of m ''reviewContext'')) (\<lambda>context.
       Some \<lparr>vq_request_id = rq, vq_session_id = session, vq_rule_id = rid, vq_target = target,
             vq_method = method, vq_findings = fs, vq_review_context = context\<rparr>))))))))"

lemma is_listed_value_iff: "is_listed_value v allowed \<longleftrightarrow> (\<exists>s. json_string v = Some s \<and> s \<in> set allowed)"
  by (auto simp: is_listed_value_def list_ex_iff split: option.splits)

lemma read_nullable_total:
  "is_bounded_nullable_string v n \<Longrightarrow> read_nullable v \<noteq> None" "is_nullable_string v \<Longrightarrow> read_nullable v \<noteq> None"
  by (auto simp: read_nullable_def is_bounded_nullable_string_def is_bounded_string_def is_nullable_string_def
      split: option.splits)

lemma read_finding_total:
  assumes "finding_error v = None"
  shows "\<exists>f. read_finding v = Some f \<and> -1 \<le> vf_expect f \<and> 1 \<le> vf_count f"
proof -
  obtain fs where fs: "json_object v = Some fs"
    using assms by (auto simp: finding_error_def split: option.splits)
  obtain expect where expect: "safe_integer (map_of fs ''expect'') = Some expect" "-1 \<le> expect"
    using assms fs by (auto simp: finding_error_def Let_def split: if_splits option.splits)
  obtain n where n: "safe_integer (map_of fs ''count'') = Some n" "1 \<le> n"
    using assms fs by (auto simp: finding_error_def Let_def split: if_splits option.splits)
  obtain kind where kind: "json_string (map_of fs ''kind'') = Some kind" "kind \<in> set (map fst violation_finding_kinds)"
    using assms fs by (auto simp: finding_error_def Let_def is_listed_value_iff split: if_splits)
  have "map_of violation_finding_kinds kind \<noteq> None"
    using kind(2) by (auto simp: map_of_eq_None_iff)
  moreover have "json_string (map_of fs ''expectKind'') \<noteq> None" "json_string (map_of fs ''at'') \<noteq> None"
    "json_string (map_of fs ''pointer'') \<noteq> None"
    using assms fs by (auto simp: finding_error_def Let_def is_listed_value_iff is_bounded_string_def
        split: if_splits option.splits)
  moreover have "read_nullable (map_of fs ''value'') \<noteq> None" "read_nullable (map_of fs ''label'') \<noteq> None"
    "read_nullable (map_of fs ''excerpt'') \<noteq> None"
    using assms fs by (auto simp: finding_error_def Let_def split: if_splits dest: read_nullable_total)
  ultimately show ?thesis
    using fs expect n kind by (auto simp: read_finding_def)
qed

lemma findings_valid:
  assumes "validate_violation_findings v = None"
  obtains fs qs where "v = Some (JArr fs)" "length fs \<le> max_findings" "map_option_list read_finding fs = Some qs"
    "length qs = length fs"
proof -
  obtain fs where fs: "v = Some (JArr fs)" "length fs \<le> max_findings" "first_some finding_error fs = None"
    using assms by (auto simp: validate_violation_findings_def split: option.splits json.splits if_splits)
  then have "\<exists>q. read_finding f = Some q" if "f \<in> set fs" for f
    using that read_finding_total by (auto simp: first_some_None)
  then obtain qs where "map_option_list read_finding fs = Some qs"
    using map_option_list_total [of fs read_finding] by auto
  with fs that show thesis using map_option_list_SomeD by metis
qed

lemma read_target_total:
  assumes "is_normalized_target v"
  shows "\<exists>t. read_target v = Some t \<and> ta_host t \<noteq> [] \<and> 1 \<le> ta_port t \<and> ta_port t \<le> 65535"
  using assms by (cases v) (auto simp: is_normalized_target_def read_target_def split: option.splits)

lemma read_optional_context_total: "context_ok v \<Longrightarrow> read_optional_context v \<noteq> None"
  by (auto simp: context_ok_def read_optional_context_def is_review_context_def read_context_def
      split: option.splits dest: read_nullable_total)

definition review_shape :: "string \<Rightarrow> resolved_document \<Rightarrow> review_request \<Rightarrow> bool" where
  "review_shape session document q \<longleftrightarrow>
     vq_session_id q = session \<and> is_safe_rule_id (vq_rule_id q) \<and>
     document_has_rule_id document (vq_rule_id q) \<and>
     ta_host (vq_target q) \<noteq> [] \<and> 1 \<le> ta_port (vq_target q) \<and> ta_port (vq_target q) \<le> 65535 \<and>
     is_http_method (vq_method q) \<and> 1 \<le> length (vq_findings q) \<and> length (vq_findings q) \<le> max_findings"

lemma review_message_shape:
  assumes "validate_request_policy_review v session document = None"
  shows "\<exists>q. read_review v = Some q \<and> review_shape session document q"
proof -
  obtain m where m: "json_object v = Some m"
    using assms by (auto simp: validate_request_policy_review_def split: option.splits)
  note unfold = validate_request_policy_review_def Let_def m
  obtain rq where rq: "json_string (map_of m ''requestId'') = Some rq"
    and session: "json_string (map_of m ''sessionId'') = Some session"
    using assms by (auto simp: unfold split: if_splits)
  obtain rid where rid: "json_string (map_of m ''ruleId'') = Some rid" "is_safe_rule_id rid"
      "document_has_rule_id document rid"
    using assms by (auto simp: unfold split: if_splits option.splits)
  have "is_normalized_target (map_of m ''target'')"
    using assms by (auto simp: unfold split: if_splits)
  from read_target_total [OF this] obtain target where target: "read_target (map_of m ''target'') = Some target"
      "ta_host target \<noteq> []" "1 \<le> ta_port target" "ta_port target \<le> 65535" by blast
  obtain verb where verb: "json_string (map_of m ''method'') = Some verb" "is_http_method verb"
    using assms by (auto simp: unfold method_ok_def split: if_splits option.splits)
  have "context_ok (map_of m ''reviewContext'')"
    using assms by (auto simp: unfold split: if_splits)
  then obtain ctx where ctx: "read_optional_context (map_of m ''reviewContext'') = Some ctx"
    using read_optional_context_total by blast
  have "validate_violation_findings (map_of m ''findings'') = None"
    using assms by (auto simp: unfold split: if_splits option.splits)
  then obtain fs qs where fs: "map_of m ''findings'' = Some (JArr fs)" "length fs \<le> max_findings"
      "map_option_list read_finding fs = Some qs" "length qs = length fs"
    by (rule findings_valid)
  have "fs \<noteq> []"
    using assms fs(1) by (auto simp: unfold split: if_splits option.splits)
  with fs have "1 \<le> length qs" "length qs \<le> max_findings"
    by (cases fs, auto)
  with m rq session rid target verb ctx fs show ?thesis
    by (simp add: read_review_def review_shape_def)
qed

text \<open>
  a review the broker takes up has the shape its handler relies on. When
  validateRequestPolicyReview reports nothing about a piece of JSON, every property the
  handler reads is there with its type, the message belongs to the session, its rule is one
  of the document, the target is a host with a real port, and there is at least one violation
  and no more than 1024.
\<close>

theorem valid_review_shape:
  assumes "validate_request_policy_review v session document = None"
  shows "\<exists>q. read_review v = Some q \<and> review_shape session document q"
  using assms by (rule review_message_shape)

definition review_document :: resolved_document where
  "review_document =
     \<lparr>doc_fallback = NfDeny,
      doc_defaults = \<lparr>rd_limits = limit_ceilings, rd_secrets = [], rd_audit = AuditAlways\<rparr>,
      doc_scopes = [\<lparr>rs_name = ''api'', rs_targets = [], rs_fallback = ActDeny, rs_web_socket = WsDeny,
        rs_fallback_rule_id = ''api.$fallback'', rs_limits = limit_ceilings, rs_secrets = [], rs_inject = [],
        rs_audit = AuditAlways, rs_rules = []\<rparr>]\<rparr>"

definition review_json :: json where
  "review_json =
     JObj [(''version'', JNum ''1''), (''type'', JStr ''request_policy_review''), (''requestId'', JStr ''r1''),
           (''sessionId'', JStr ''s1''), (''ruleId'', JStr ''api.$fallback''),
           (''target'', JObj [(''host'', JStr ''api''), (''port'', JNum ''8'')]), (''method'', JStr ''post''),
           (''findings'', JArr [JObj [(''expect'', JNum ''0''), (''expectKind'', JStr ''body''), (''at'', JStr ''''),
              (''kind'', JStr ''schema-mismatch''), (''pointer'', JStr ''''), (''value'', JStr ''x''),
              (''label'', JNull), (''excerpt'', JNull), (''count'', JNum ''1'')]])]"

lemma review_json_valid: "validate_request_policy_review review_json ''s1'' review_document = None"
  by (simp add: review_json_def review_document_def validate_request_policy_review_def principal_ok_def is_number_def
      only_fields_def request_policy_review_fields_def is_safe_rule_id_def suffix_def is_rule_key_char_def js_eval
      document_has_rule_id_def is_normalized_target_def text_int_def max_safe_integer_def method_ok_def
      is_http_method_def context_ok_def validate_violation_findings_def max_findings_def finding_error_def
      finding_fields_def is_listed_value_def expect_kinds_def is_bounded_string_def is_bounded_nullable_string_def
      violation_finding_kinds_def max_finding_value_chars_def)

theorem valid_review_shape_witness:
  "\<exists>q. read_review review_json = Some q \<and> review_shape ''s1'' review_document q"
  by (rule valid_review_shape [OF review_json_valid])

definition read_diagnostic :: "json \<Rightarrow> body_diagnostic option" where
  "read_diagnostic v =
     Option.bind (json_object v) (\<lambda>d.
     Option.bind (json_string (map_of d ''code'')) (\<lambda>code.
       let text = (\<lambda>k. json_string (map_of d k)) in
       if code = ''body-unreadable'' then Some BdUnreadable
       else if code = ''invalid-json'' then Some BdInvalidJson
       else if code = ''empty-json-body'' then Some BdEmptyJsonBody
       else if code = ''body-too-large'' then
         Option.bind (safe_integer (map_of d ''byteLength'')) (\<lambda>n.
         map_option (\<lambda>k. BdTooLarge (nat n) (nat k)) (safe_integer (map_of d ''maxBodyBytes'')))
       else if code = ''non-scalar-at-pointer'' then map_option BdNonScalar (text ''pointer'')
       else if code = ''graphql-unparseable'' then map_option BdGraphqlUnparseable (text ''pointer'')
       else if code = ''graphql-query-string'' then map_option BdGraphqlQueryString (text ''pointer'')
       else if code = ''graphql-unresolved-field-argument'' then
         Option.bind (text ''pointer'') (\<lambda>p. Option.bind (text ''fieldPath'') (\<lambda>f.
           map_option (BdUnresolvedArgument p f) (text ''argument'')))
       else None))"

text \<open>A table, entry by entry.\<close>

definition read_table :: "(json \<Rightarrow> 'a option) \<Rightarrow> json option \<Rightarrow> (string \<times> 'a) list option" where
  "read_table f v =
     Option.bind (Option.bind v json_object) (map_option_list (\<lambda>(k, x). map_option (Pair k) (f x)))"

definition read_truth :: "json \<Rightarrow> truth option" where
  "read_truth v = Option.bind (json_string (Some v)) (map_of truth_values)"

definition read_authorize :: "json \<Rightarrow> authorize_request option" where
  "read_authorize v =
     Option.bind (json_object v) (\<lambda>m.
     Option.bind (json_string (map_of m ''requestId'')) (\<lambda>rq.
     Option.bind (json_string (map_of m ''sessionId'')) (\<lambda>session.
     Option.bind (read_target (map_of m ''target'')) (\<lambda>target.
     Option.bind (json_string (map_of m ''method'')) (\<lambda>method.
     Option.bind (json_string (map_of m ''transport'')) (\<lambda>transport.
     Option.bind (json_string (map_of m ''requestKind'')) (\<lambda>kind.
     Option.bind (read_table read_truth (map_of m ''bodyTruth'')) (\<lambda>truths.
     Option.bind (read_table read_diagnostic (map_of m ''bodyDiagnostics'')) (\<lambda>diagnostics.
     Option.bind (read_optional_context (map_of m ''reviewContext'')) (\<lambda>ctx.
       Some \<lparr>aq_request_id = rq, aq_session_id = session, aq_target = target, aq_method = method,
             aq_transport = (if transport = ''websocket'' then TransportWebsocket else TransportHttp),
             aq_request_kind = (if kind = ''connect'' then KindConnect else KindForward),
             aq_body_truth = truths, aq_body_diagnostics = diagnostics, aq_review_context = ctx\<rparr>))))))))))"

lemma read_diagnostic_total: "is_body_diagnostic v \<Longrightarrow> read_diagnostic v \<noteq> None"
  by (auto simp: is_body_diagnostic_def read_diagnostic_def Let_def split: option.splits if_splits)

lemma read_truth_total: "is_listed_value (Some v) (map fst truth_values) \<Longrightarrow> read_truth v \<noteq> None"
  by (auto simp: is_listed_value_iff read_truth_def dest: weak_map_of_SomeI)

lemma read_truth_indeterminate: "read_truth v = Some Indeterminate \<longleftrightarrow> v = JStr ''indeterminate''"
  by (cases v) (auto simp: read_truth_def truth_values_def)

lemma read_table_total:
  assumes "\<And>k x. (k, x) \<in> set es \<Longrightarrow> f x \<noteq> None"
  shows "\<exists>ts. read_table f (Some (JObj es)) = Some ts \<and> map fst ts = map fst es \<and>
    list_all2 (\<lambda>(k, x) (k', t). k = k' \<and> f x = Some t) es ts"
  using assms
proof (induction es)
  case (Cons e es)
  obtain k x where e: "e = (k, x)" by (cases e)
  then obtain t where "f x = Some t" using Cons.prems by fastforce
  moreover obtain ts where "read_table f (Some (JObj es)) = Some ts" "map fst ts = map fst es"
    "list_all2 (\<lambda>(k, x) (k', t). k = k' \<and> f x = Some t) es ts"
    using Cons by (meson list.set_intros(2))
  ultimately show ?case
    by (simp add: read_table_def e)
qed (simp add: read_table_def)

definition authorize_shape :: "string \<Rightarrow> resolved_document \<Rightarrow> authorize_request \<Rightarrow> bool" where
  "authorize_shape session document q \<longleftrightarrow>
     aq_session_id q = session \<and> is_http_method (aq_method q) \<and>
     ta_host (aq_target q) \<noteq> [] \<and> 1 \<le> ta_port (aq_target q) \<and> ta_port (aq_target q) \<le> 65535 \<and>
     list_all (document_has_concrete_rule_id document) (map fst (aq_body_truth q)) \<and>
     fst ` set (aq_body_diagnostics q) = fst ` set (filter (\<lambda>e. snd e = Indeterminate) (aq_body_truth q))"

lemma list_all2_keys:
  assumes "list_all2 (\<lambda>(k, x) (k', t). k = k' \<and> f x = Some t) es ts"
  shows "(k, t) \<in> set ts \<longleftrightarrow> (\<exists>x. (k, x) \<in> set es \<and> f x = Some t)"
  using assms
proof (induction es ts rule: list_all2_induct)
  case (Cons e es u ts)
  then show ?case by (cases e; cases u) auto
qed simp

lemma authorize_message_shape:
  assumes "validate_authorize_request v session document = None"
  shows "\<exists>q. read_authorize v = Some q \<and> authorize_shape session document q"
proof -
  obtain m where m: "json_object v = Some m"
    using assms by (auto simp: validate_authorize_request_def split: option.splits)
  note unfold = validate_authorize_request_def Let_def m
  obtain rq where rq: "json_string (map_of m ''requestId'') = Some rq"
    and session: "json_string (map_of m ''sessionId'') = Some session"
    using assms by (auto simp: unfold split: if_splits)
  have "is_normalized_target (map_of m ''target'')"
    using assms by (auto simp: unfold split: if_splits)
  from read_target_total [OF this] obtain target where target: "read_target (map_of m ''target'') = Some target"
      "ta_host target \<noteq> []" "1 \<le> ta_port target" "ta_port target \<le> 65535" by blast
  obtain verb where verb: "json_string (map_of m ''method'') = Some verb" "is_http_method verb"
    using assms by (auto simp: unfold method_ok_def split: if_splits option.splits)
  obtain transport where transport: "json_string (map_of m ''transport'') = Some transport"
    using assms by (auto simp: unfold is_listed_value_iff split: if_splits)
  obtain kind where kind: "json_string (map_of m ''requestKind'') = Some kind"
    using assms by (auto simp: unfold is_listed_value_iff split: if_splits)
  have "context_ok (map_of m ''reviewContext'')"
    using assms by (auto simp: unfold split: if_splits)
  then obtain ctx where ctx: "read_optional_context (map_of m ''reviewContext'') = Some ctx"
    using read_optional_context_total by blast
  have tables: "body_tables_error document (map_of m ''bodyTruth'') (map_of m ''bodyDiagnostics'') = None"
    using assms by (auto simp: unfold split: if_splits option.splits)
  obtain truths diags where truths: "map_of m ''bodyTruth'' = Some (JObj truths)"
      and te: "first_some (truth_entry_error document) truths = None"
      and diags: "map_of m ''bodyDiagnostics'' = Some (JObj diags)"
      and de: "first_some (diagnostic_entry_error document truths) diags = None"
      and missing: "first_some (missing_diagnostic_error diags) truths = None"
    using tables by (auto simp: body_tables_error_def Let_def bind_eq_Some_conv split: option.splits if_splits
        elim!: json_object.elims)
  have te': "document_has_concrete_rule_id document k \<and> read_truth x \<noteq> None" if "(k, x) \<in> set truths" for k x
    using te that read_truth_total [of x] by (fastforce simp: first_some_None truth_entry_error_def split: if_splits)
  have de': "map_of truths k = Some (JStr ''indeterminate'') \<and> read_diagnostic x \<noteq> None" if "(k, x) \<in> set diags" for k x
    using de that read_diagnostic_total [of x] by (fastforce simp: first_some_None diagnostic_entry_error_def split: if_splits)
  obtain ts where ts: "read_table read_truth (Some (JObj truths)) = Some ts" "map fst ts = map fst truths"
      "list_all2 (\<lambda>(k, x) (k', t). k = k' \<and> read_truth x = Some t) truths ts"
    using read_table_total [of truths read_truth] te' by blast
  obtain ds where ds: "read_table read_diagnostic (Some (JObj diags)) = Some ds" "map fst ds = map fst diags"
    using read_table_total [of diags read_diagnostic] de' by blast
  have "fst ` set ds = fst ` set diags"
    using ds(2) by (metis list.set_map)
  moreover have "k \<in> fst ` set diags \<longleftrightarrow> (k, Indeterminate) \<in> set ts" for k
  proof
    assume "k \<in> fst ` set diags"
    then have "(k, JStr ''indeterminate'') \<in> set truths"
      using de' by (fastforce dest: map_of_SomeD)
    then show "(k, Indeterminate) \<in> set ts"
      using list_all2_keys [OF ts(3), of k Indeterminate] by (auto simp: read_truth_indeterminate)
  next
    assume "(k, Indeterminate) \<in> set ts"
    then have "(k, JStr ''indeterminate'') \<in> set truths"
      using list_all2_keys [OF ts(3), of k Indeterminate] by (auto simp: read_truth_indeterminate)
    then have "map_of diags k \<noteq> None"
      using missing by (force simp: first_some_None missing_diagnostic_error_def split: if_splits)
    then show "k \<in> fst ` set diags"
      by (simp add: map_of_eq_None_iff)
  qed
  ultimately have "fst ` set ds = fst ` set (filter (\<lambda>e. snd e = Indeterminate) ts)"
    by force
  moreover have "list_all (document_has_concrete_rule_id document) (map fst ts)"
    using te' ts(2) by (auto simp: list_all_iff)
  moreover have "read_authorize v = Some \<lparr>aq_request_id = rq, aq_session_id = session, aq_target = target,
      aq_method = verb, aq_transport = (if transport = ''websocket'' then TransportWebsocket else TransportHttp),
      aq_request_kind = (if kind = ''connect'' then KindConnect else KindForward),
      aq_body_truth = ts, aq_body_diagnostics = ds, aq_review_context = ctx\<rparr>"
    unfolding read_authorize_def m by (simp only: rq session target verb transport kind ctx truths diags ts ds bind.bind_lunit)
  ultimately show ?thesis
    using target(2-4) verb(2) by (simp add: authorize_shape_def)
qed


definition authorize_json :: json where
  "authorize_json =
     JObj [(''version'', JNum ''1''), (''type'', JStr ''authorize''), (''requestId'', JStr ''r1''),
           (''sessionId'', JStr ''s1''), (''target'', JObj [(''host'', JStr ''api''), (''port'', JNum ''8'')]),
           (''method'', JStr ''get''), (''transport'', JStr ''http''), (''requestKind'', JStr ''forward''),
           (''observedAt'', JStr ''now''), (''bodyTruth'', JObj []), (''bodyDiagnostics'', JObj []),
           (''requestBodyCapture'', JObj [(''state'', JStr ''disabled'')])]"

lemma authorize_json_valid: "validate_authorize_request authorize_json ''s1'' review_document = None"
  by (simp add: authorize_json_def review_document_def validate_authorize_request_def principal_ok_def is_number_def
      only_fields_def authorize_fields_def is_normalized_target_def text_int_def max_safe_integer_def method_ok_def
      is_http_method_def is_listed_value_def context_ok_def validate_request_body_capture_def has_exact_fields_def
      body_tables_error_def js_eval)


end
