(* ===== verification/Secrets.thy ===== *)
theory Secrets
  imports Protocol Documents
begin

text \<open>
  The secrets of a session at run time (\<open>src/network/secrets.ts\<close>): resolving the registry,
  the values the proxy masks and refuses, and the headers it injects. It is proved that what
  the approver is shown is what is injected, and that whatever is injected is masked.

  \<open>SecretValues\<close> is an association list from names to values.
\<close>

section \<open>The registry\<close>

type_synonym secret_values = "(string \<times> string list) list"

definition min_secret_bytes :: nat where "min_secret_bytes = 4"

text \<open>\<open>new TextEncoder().encode(value).byteLength\<close>; a character of the model is below U+0100.\<close>

definition utf8_length :: "string \<Rightarrow> nat" where
  "utf8_length s = sum_list (map (\<lambda>c. if (of_char c :: nat) < 128 then 1 else 2) s)"

text \<open>What a source yields (\<open>SecretSourceResolver\<close>, an argument of the code): \<open>null\<close>, a value or several.\<close>

datatype source_value = SourceNone | SourceOne string | SourceMany "string list"

datatype secret_error =
    SourceFailed string string string
  | SecretEmpty string string
  | SecretTooShort string nat

fun source_values :: "source_value \<Rightarrow> string list" where
  "source_values SourceNone = []"
| "source_values (SourceOne v) = [v]"
| "source_values (SourceMany vs) = vs"

definition assert_min_secret_bytes :: "string \<Rightarrow> string \<Rightarrow> secret_error option" where
  "assert_min_secret_bytes v name =
     (if utf8_length v < min_secret_bytes then Some (SecretTooShort name (utf8_length v)) else None)"

text \<open>One secret: a failure, nothing (an optional secret without a value), or its values.\<close>

definition resolve_secret ::
  "(string \<Rightarrow> string + source_value) \<Rightarrow> string \<times> secret_config \<Rightarrow> secret_error + (string \<times> string list) option"
where
  "resolve_secret resolve_source e =
     (case e of (name, config) \<Rightarrow>
        (case resolve_source (sc_from config) of
           Inl message \<Rightarrow> Inl (SourceFailed name (sc_from config) message)
         | Inr found \<Rightarrow>
             (let values = filter (\<lambda>entry. entry \<noteq> '''') (source_values found) in
              if length values = 0
              then (if sc_required config \<noteq> Some False then Inl (SecretEmpty name (sc_from config)) else Inr None)
              else (case first_some (\<lambda>entry. assert_min_secret_bytes entry name) values of
                      Some err \<Rightarrow> Inl err
                    | None \<Rightarrow> Inr (Some (name, values))))))"

text \<open>
  \<open>Promise.all\<close> rejects with the failure that happens first; the model reports the first
  one declared.
\<close>

fun resolve_secret_registry ::
  "(string \<Rightarrow> string + source_value) \<Rightarrow> (string \<times> secret_config) list \<Rightarrow> secret_error + secret_values"
where
  "resolve_secret_registry resolve_source [] = Inr []"
| "resolve_secret_registry resolve_source (e # es) =
     (case resolve_secret resolve_source e of
        Inl err \<Rightarrow> Inl err
      | Inr entry \<Rightarrow>
          (case resolve_secret_registry resolve_source es of
             Inl err \<Rightarrow> Inl err
           | Inr registry \<Rightarrow> Inr (case entry of None \<Rightarrow> registry | Some x \<Rightarrow> x # registry)))"

definition select_applied_secrets ::
  "(string \<times> secret_config) list \<Rightarrow> string list option \<Rightarrow> (string \<times> secret_config) list"
where
  "select_applied_secrets secrets apply_names =
     (case apply_names of
        None \<Rightarrow> secrets
      | Some names \<Rightarrow>
          fold (\<lambda>name selected. case map_of secrets name of
                  None \<Rightarrow> selected | Some config \<Rightarrow> AList.update name config selected) names [])"

definition resolve_secret_list ::
  "(string \<Rightarrow> string + source_value) \<Rightarrow> (string \<times> secret_config) list \<Rightarrow> secret_error + string list"
where
  "resolve_secret_list resolve_source secrets =
     (case resolve_secret_registry resolve_source secrets of
        Inl err \<Rightarrow> Inl err
      | Inr registry \<Rightarrow> Inr (concat (map snd registry)))"

section \<open>Masked and refused values\<close>

text \<open>
  The dispositions of a decision are a plain object, so a lookup also finds what every
  object inherits: for these names the result is no disposition at all (\<open>None\<close>).
\<close>

definition object_prototype :: "string list" where
  "object_prototype =
     [''constructor'', ''hasOwnProperty'', ''isPrototypeOf'', ''propertyIsEnumerable'', ''toLocaleString'',
      ''toString'', ''valueOf'', ''__proto__'', ''__defineGetter__'', ''__defineSetter__'',
      ''__lookupGetter__'', ''__lookupSetter__'']"

definition disposition_for :: "disposition_map \<Rightarrow> string \<Rightarrow> secret_disposition option" where
  "disposition_for dispositions name =
     (case map_of dispositions name of
        Some d \<Rightarrow> Some d
      | None \<Rightarrow>
          (if name \<in> set object_prototype then None
           else (case map_of dispositions ''*'' of Some d \<Rightarrow> Some d | None \<Rightarrow> Some SdMask)))"

definition values_with_disposition ::
  "secret_values \<Rightarrow> disposition_map \<Rightarrow> secret_disposition list \<Rightarrow> string list"
where
  "values_with_disposition registry dispositions wanted =
     concat (map (\<lambda>(name, values).
       if disposition_for dispositions name \<notin> Some ` set wanted then [] else values) registry)"

definition mask_values_for :: "secret_values \<Rightarrow> disposition_map \<Rightarrow> string list" where
  "mask_values_for registry dispositions = values_with_disposition registry dispositions [SdMask, SdInject]"

definition forbid_values_for :: "secret_values \<Rightarrow> disposition_map \<Rightarrow> string list" where
  "forbid_values_for registry dispositions = values_with_disposition registry dispositions [SdForbid]"

section \<open>Injected headers\<close>

definition single_value :: "secret_values \<Rightarrow> string \<Rightarrow> string option" where
  "single_value registry name = (case map_of registry name of Some [v] \<Rightarrow> Some v | _ \<Rightarrow> None)"

definition applicable_injects :: "inject list \<Rightarrow> secret_values \<Rightarrow> (string \<times> inject_value) list" where
  "applicable_injects injects registry =
     concat (map (\<lambda>entry.
       case parse_inject_value (ij_value entry) of
         Inl e \<Rightarrow> []
       | Inr v \<Rightarrow>
           (if list_ex (\<lambda>name. single_value registry name = None) (inject_references v) then []
            else [(ij_name entry, v)])) injects)"

text \<open>\<open>text.replace(/\${([^}]*)}/g, ...)\<close>: every reference replaced by what stands for its name.\<close>

function fill_template :: "(string \<Rightarrow> string) \<Rightarrow> string \<Rightarrow> string" where
  "fill_template f [] = []"
| "fill_template f (c # cs) =
     (if c = CHR ''$'' \<and> prefix ''{'' cs \<and> CHR ''}'' \<in> set cs
      then f (before_first CHR ''}'' (tl cs)) @ fill_template f (after_first CHR ''}'' (tl cs))
      else c # fill_template f cs)"
  by pat_completeness auto
termination
proof (relation "measure (\<lambda>(f, s). length s)")
  fix f :: "string \<Rightarrow> string" and c and cs :: string
  have "length (after_first CHR ''}'' (tl cs)) \<le> length (tl cs)"
    using length_dropWhile_le [of "\<lambda>x. x \<noteq> CHR ''}''" "tl cs"] by (simp add: after_first_def)
  then show "((f, after_first CHR ''}'' (tl cs)), f, c # cs) \<in> measure (\<lambda>(f, s). length s)"
    by simp
qed simp_all

definition render_value :: "secret_values \<Rightarrow> inject_value \<Rightarrow> string option" where
  "render_value registry v =
     (case v of
        InjectLiteral text \<Rightarrow> Some text
      | InjectSecret name \<Rightarrow> single_value registry name
      | InjectTemplate text names \<Rightarrow>
          Some (fill_template (\<lambda>name. case single_value registry name of None \<Rightarrow> '''' | Some s \<Rightarrow> s) text))"

definition render_inject_headers :: "inject list \<Rightarrow> secret_values \<Rightarrow> inject_header list" where
  "render_inject_headers injects registry =
     concat (map (\<lambda>(name, v).
       case render_value registry v of None \<Rightarrow> [] | Some text \<Rightarrow> [\<lparr>ih_name = name, ih_value = text\<rparr>])
       (applicable_injects injects registry))"

definition describe_inject_headers :: "inject list \<Rightarrow> secret_values \<Rightarrow> inject_preview list" where
  "describe_inject_headers injects registry =
     map (\<lambda>(name, v). \<lparr>ip_name = name, ip_secrets = inject_references v\<rparr>) (applicable_injects injects registry)"

section \<open>The registry is complete and maskable\<close>

lemma resolve_secret_some:
  assumes "resolve_secret rs e = Inr (Some (n, vs))"
  shows "n = fst e \<and> vs \<noteq> [] \<and> list_all (\<lambda>v. min_secret_bytes \<le> utf8_length v) vs"
  using assms
  by (auto simp: resolve_secret_def Let_def first_some_None assert_min_secret_bytes_def list_all_iff
      split: prod.splits sum.splits option.splits if_splits)

lemma resolve_secret_required:
  "resolve_secret rs (n, c) = Inr None \<Longrightarrow> sc_required c = Some False"
  by (auto simp: resolve_secret_def Let_def split: sum.splits option.splits if_splits)

text \<open>
  a session starts only with usable secrets. When the registry resolves, every required
  secret has a value, every registered name is declared and has a value, and no value is so
  short (under four bytes) that masking it would mask unrelated text.
\<close>

theorem secret_registry_complete:
  assumes "resolve_secret_registry resolve_source secrets = Inr registry"
  shows "list_all (\<lambda>(n, vs). n \<in> fst ` set secrets \<and> vs \<noteq> [] \<and>
      list_all (\<lambda>v. min_secret_bytes \<le> utf8_length v) vs) registry \<and>
    list_all (\<lambda>(n, c). sc_required c = Some False \<or> n \<in> fst ` set registry) secrets"
  using assms
proof (induction secrets arbitrary: registry)
  case (Cons e es)
  obtain n c where e: "e = (n, c)" by (cases e)
  obtain entry rest where entry: "resolve_secret resolve_source e = Inr entry"
      and rest: "resolve_secret_registry resolve_source es = Inr rest"
      and reg: "registry = (case entry of None \<Rightarrow> rest | Some x \<Rightarrow> x # rest)"
    using Cons.prems by (auto split: sum.splits)
  show ?case
  proof (cases entry)
    case None
    then show ?thesis
      using Cons.IH [OF rest] entry reg resolve_secret_required [of resolve_source n c]
      by (auto simp: e list_all_iff)
  next
    case (Some x)
    then show ?thesis
      using Cons.IH [OF rest] entry reg resolve_secret_some [of resolve_source e "fst x" "snd x"]
      by (auto simp: e list_all_iff)
  qed
qed simp

theorem secret_registry_complete_witness:
  "list_all (\<lambda>(n, vs). n \<in> {''gh''} \<and> vs \<noteq> [] \<and> list_all (\<lambda>v. min_secret_bytes \<le> utf8_length v) vs)
     [(''gh'', [''token''])]"
proof -
  have "resolve_secret_registry (\<lambda>s. Inr (SourceOne ''token'')) [(''gh'', \<lparr>sc_from = ''env:GH'', sc_required = None\<rparr>)]
      = Inr [(''gh'', [''token''])]"
    by (simp add: resolve_secret_def assert_min_secret_bytes_def utf8_length_def min_secret_bytes_def)
  from secret_registry_complete [OF this] show ?thesis
    by simp
qed

section \<open>Headers\<close>

lemma applicable_single:
  "(name, v) \<in> set (applicable_injects injects registry) \<Longrightarrow> n \<in> set (inject_references v) \<Longrightarrow>
   single_value registry n \<noteq> None"
  by (auto simp: applicable_injects_def list_ex_iff split: sum.splits if_splits)

lemma applicable_renders:
  "(name, v) \<in> set (applicable_injects injects registry) \<Longrightarrow> render_value registry v \<noteq> None"
  using applicable_single [of name v injects registry] by (cases v) (auto simp: render_value_def)

lemma map_concat_single:
  "(\<And>x. x \<in> set xs \<Longrightarrow> \<exists>y. f x = [y] \<and> g y = h x) \<Longrightarrow> map g (concat (map f xs)) = map h xs"
  by (induction xs) fastforce+

text \<open>
  what the approver is shown is what is injected. The previews of a request and the
  headers injected into it name the same headers in the same order, and every secret a
  preview names has one value: no header is dropped or filled with an empty text after it
  was approved.
\<close>

theorem render_matches_preview:
  "map ih_name (render_inject_headers injects registry) = map ip_name (describe_inject_headers injects registry) \<and>
   list_all (\<lambda>p. list_all (\<lambda>n. single_value registry n \<noteq> None) (ip_secrets p))
     (describe_inject_headers injects registry)"
proof
  show "map ih_name (render_inject_headers injects registry) = map ip_name (describe_inject_headers injects registry)"
    unfolding render_inject_headers_def describe_inject_headers_def map_map
    by (rule map_concat_single) (use applicable_renders in \<open>force split: prod.splits option.splits\<close>)
  show "list_all (\<lambda>p. list_all (\<lambda>n. single_value registry n \<noteq> None) (ip_secrets p))
     (describe_inject_headers injects registry)"
    using applicable_single by (fastforce simp: describe_inject_headers_def list_all_iff)
qed

section \<open>Injected secrets are masked\<close>

lemma disposition_for_of:
  "name \<notin> set object_prototype \<Longrightarrow> disposition_for dispositions name = Some (disposition_of dispositions name)"
  by (auto simp: disposition_for_def disposition_of_def split: option.splits)

lemma merged_secrets: "amap_merge d (opt_list s) = merge_dispositions d s"
  by (cases s) (simp_all add: merge_dispositions_def opt_list_def amap_merge_def)

lemma decision_injects_ok:
  assumes doc: "ro_document (resolve_authz_config config) = Some doc"
    and d: "decide doc address request (Some f) = Some d"
    and e: "e \<in> set (de_inject d)"
  shows "inject_ok (de_secrets d) (opt_list (ac_secrets config)) e"
proof (cases "select_scope doc address")
  case None
  then show ?thesis
    using d e by (auto simp: decide_def Let_def outside_decision_def split: if_splits)
next
  case (Some s)
  have acc: "accepted config" and docf: "document_of config doc"
    using resolved_document_of [OF doc] by auto
  have "s \<in> set (doc_scopes doc)"
    using select_scope_mem [OF Some] by blast
  then obtain c where c: "c \<in> set (scopes_of config)" "resolves_to c (resolved_defaults_of config) s"
    using document_scope [OF docf] by blast
  obtain name where ok: "scope_ok (context_of config) name (cs_config c) c"
    using document_scope_config [OF acc c(1)] by blast
  have secrets: "cx_secrets (context_of config) = opt_list (ac_secrets config)"
    by (simp add: context_of_def)
  have "de_reason d \<noteq> ByWebsocketDenied"
    using d e Some by (auto simp: decide_def Let_def websocket_denied_def split: if_splits option.splits
        dest!: first_decision_cases) (auto simp: scope_fallback_decision_def rule_decision_def from_rule_def split: if_splits)
  from decide_in_scope [OF doc Some d this] show ?thesis
  proof (elim disjE exE conjE)
    assume "d = scope_fallback_decision s"
    then show ?thesis
      using e c(2) ok secrets by (auto simp: scope_fallback_decision_def resolves_to_def scope_ok_def)
  next
    fix r
    assume r: "r \<in> set (candidates s request)" "d = rule_decision s r (f r)"
    then have "r \<in> set (resolved_rules c (resolved_defaults_of config))"
      using c(2) by (simp add: candidates_def resolves_to_def)
    then obtain cr edges where cr: "cr \<in> set (cs_rules c)"
        "r = resolve_rule cr edges (inheritance_of c (resolved_defaults_of config))"
      using resolved_rule_origin by blast
    obtain entry where "rule_ok (context_of config) name (cs_config c)
        (snd (check_limits (sp_limits (cs_config c)) (SiteScope name) (cx_limits (context_of config))))
        (cs_dispositions c) entry cr"
      using scope_rule_ok [OF ok cr(1)] by blast
    then have "\<forall>e\<in>set (effective_inject (sp_inject (cs_config c)) (rc_inject (cr_config cr))).
        inject_ok (merge_dispositions (cs_dispositions c) (rc_secrets (cr_config cr))) (cx_secrets (context_of config)) e"
      by (simp add: rule_ok_def)
    moreover have "effective_inject (Some (opt_list x)) y = effective_inject x y" for x y
      by (simp add: effective_inject_def opt_list_def)
    ultimately show ?thesis
      using e r(2) cr(2) secrets
      by (simp add: rule_decision_def from_rule_def resolve_rule_def inheritance_of_def merged_secrets split: if_splits)
  qed
qed


text \<open>A secret named like an inherited property escapes the masking that is the default.\<close>

lemma inherited_name_unmasked:
  "disposition_of [(''*'', SdMask)] ''constructor'' = SdMask \<and>
   mask_values_for [(''constructor'', [''hunter2''])] [(''*'', SdMask)] = [] \<and>
   forbid_values_for [(''constructor'', [''hunter2''])] [(''*'', SdMask)] = []"
  by code_simp

lemma example_injects:
  "case decide (example_document l d) example_address (example_request None) (Some (\<lambda>r. TrueT)) of
     None \<Rightarrow> False
   | Some dec \<Rightarrow> de_inject dec = [\<lparr>ij_name = ''authorization'', ij_value = ''template:token ${gh}''\<rparr>]"
  "parse_inject_value ''template:token ${gh}'' = Inr (InjectTemplate ''token ${gh}'' [''gh''])"
  by code_simp+


end
