(* ===== verification/TtlCache.thy ===== *)
theory TtlCache
  imports Prelude
begin

text \<open>
  The bounded cache with expiry that remembers recent denials (\<open>src/lib/ttl_lru_cache.ts\<close>).
  The entries are an association list in the insertion order of the JavaScript \<open>Map\<close>: the
  least recently used first. \<open>Date.now()\<close> is an argument. The interface its user relies on
  is the locale \<open>recent_set\<close>.
\<close>

section \<open>The cache\<close>

record ('k, 'v) ttl_lru_cache =
  tc_max_size :: int
  tc_ttl_ms :: int
  tc_entries :: "('k \<times> 'v \<times> int) list"

definition cache_new :: "int \<Rightarrow> int \<Rightarrow> ('k, 'v) ttl_lru_cache option" where
  "cache_new max_size ttl_ms =
     (if max_size < 1 then None
      else if ttl_ms < 0 then None
      else Some \<lparr>tc_max_size = max_size, tc_ttl_ms = ttl_ms, tc_entries = []\<rparr>)"

definition cache_get ::
  "('k, 'v) ttl_lru_cache \<Rightarrow> 'k \<Rightarrow> int \<Rightarrow> 'v option \<times> ('k, 'v) ttl_lru_cache"
where
  "cache_get c key now =
     (case map_of (tc_entries c) key of
        None \<Rightarrow> (None, c)
      | Some (v, expires_at) \<Rightarrow>
          (let rest = AList.delete key (tc_entries c) in
           if now \<ge> expires_at then (None, c\<lparr>tc_entries := rest\<rparr>)
           else (Some v, c\<lparr>tc_entries := rest @ [(key, v, expires_at)]\<rparr>)))"

definition cache_set ::
  "('k, 'v) ttl_lru_cache \<Rightarrow> 'k \<Rightarrow> 'v \<Rightarrow> int \<Rightarrow> ('k, 'v) ttl_lru_cache"
where
  "cache_set c key v now =
     (let es = AList.delete key (tc_entries c);
          kept = (if int (length es) \<ge> tc_max_size c then drop 1 es else es)
      in c\<lparr>tc_entries := kept @ [(key, v, now + tc_ttl_ms c)]\<rparr>)"

definition cache_delete :: "('k, 'v) ttl_lru_cache \<Rightarrow> 'k \<Rightarrow> bool \<times> ('k, 'v) ttl_lru_cache" where
  "cache_delete c key =
     (map_of (tc_entries c) key \<noteq> None, c\<lparr>tc_entries := AList.delete key (tc_entries c)\<rparr>)"

definition cache_clear :: "('k, 'v) ttl_lru_cache \<Rightarrow> ('k, 'v) ttl_lru_cache" where
  "cache_clear c = c\<lparr>tc_entries := []\<rparr>"

definition cache_size :: "('k, 'v) ttl_lru_cache \<Rightarrow> nat" where
  "cache_size c = length (tc_entries c)"

section \<open>The size is bounded\<close>

definition cache_wf :: "('k, 'v) ttl_lru_cache \<Rightarrow> bool" where
  "cache_wf c \<longleftrightarrow> 1 \<le> tc_max_size c \<and> 0 \<le> tc_ttl_ms c \<and> distinct (map fst (tc_entries c)) \<and>
     int (length (tc_entries c)) \<le> tc_max_size c"

lemma delete_keys: "map fst (AList.delete k es) = removeAll k (map fst es)"
  by (induction es) auto

lemma length_delete_le: "length (AList.delete k es) \<le> length es"
  by (induction es) auto

lemma length_delete_less: "map_of es k \<noteq> None \<Longrightarrow> length (AList.delete k es) < length es"
  by (induction es) (auto simp: length_delete_le less_Suc_eq_le)

lemma cache_wf_new: "cache_new m t = Some c \<Longrightarrow> cache_wf c"
  by (auto simp: cache_new_def cache_wf_def split: if_splits)

lemma delete_not_in: "(k, x) \<notin> set (AList.delete k es)"
  by (induction es) auto

lemma keys_delete_append:
  assumes "distinct (map fst es)"
  shows "distinct (map fst (AList.delete k es @ [(k, x)]))"
  using assms by (auto simp: delete_keys distinct_removeAll delete_not_in)

lemma keys_drop_append:
  assumes "distinct (map fst es)"
  shows "distinct (map fst (drop n (AList.delete k es) @ [(k, x)]))"
proof -
  have "distinct (map fst (drop n (AList.delete k es)))"
    using assms by (simp add: drop_map [symmetric] delete_keys distinct_removeAll)
  moreover have "k \<notin> fst ` set (drop n (AList.delete k es))"
    using delete_not_in [of k _ es] by (auto dest: in_set_dropD)
  ultimately show ?thesis by simp
qed

lemma cache_wf_get:
  assumes "cache_wf c"
  shows "cache_wf (snd (cache_get c k now))"
proof (cases "map_of (tc_entries c) k")
  case None
  then show ?thesis using assms by (simp add: cache_get_def)
next
  case (Some p)
  then have "length (AList.delete k (tc_entries c)) < length (tc_entries c)"
    by (simp add: length_delete_less)
  with Some assms show ?thesis
    using keys_delete_append [of "tc_entries c" k]
    by (cases p) (auto simp: cache_get_def cache_wf_def Let_def)
qed

lemma cache_wf_set:
  assumes "cache_wf c"
  shows "cache_wf (cache_set c k v now)"
  using assms length_delete_le [of k "tc_entries c"]
    keys_drop_append [of "tc_entries c" 1 k] keys_drop_append [of "tc_entries c" 0 k]
  by (auto simp: cache_set_def cache_wf_def Let_def)

lemma cache_wf_delete: "cache_wf c \<Longrightarrow> cache_wf (snd (cache_delete c k))"
  using length_delete_le [of k "tc_entries c"]
  by (auto simp: cache_delete_def cache_wf_def delete_keys distinct_removeAll)

lemma cache_wf_clear: "cache_wf c \<Longrightarrow> cache_wf (cache_clear c)"
  by (simp add: cache_clear_def cache_wf_def)

section \<open>The interface: a set of recent keys\<close>

text \<open>
  What the broker uses of the cache: whether a key was inserted recently. \<open>deadline\<close> is the
  abstraction, the time until which a key counts as recent. An insertion may forget other keys
  (the eviction), and nothing but an insertion of the key itself sets its deadline.
\<close>

datatype 'k recent_op = LookUp 'k int | Insert 'k int | Reset

fun recent_step ::
  "('s \<Rightarrow> 'k \<Rightarrow> int \<Rightarrow> bool \<times> 's) \<Rightarrow> ('s \<Rightarrow> 'k \<Rightarrow> int \<Rightarrow> 's) \<Rightarrow> ('s \<Rightarrow> 's) \<Rightarrow> 's \<Rightarrow> 'k recent_op \<Rightarrow> 's"
where
  "recent_step look ins reset s (LookUp k t) = snd (look s k t)"
| "recent_step look ins reset s (Insert k t) = ins s k t"
| "recent_step look ins reset s Reset = reset s"

abbreviation recent_run ::
  "('s \<Rightarrow> 'k \<Rightarrow> int \<Rightarrow> bool \<times> 's) \<Rightarrow> ('s \<Rightarrow> 'k \<Rightarrow> int \<Rightarrow> 's) \<Rightarrow> ('s \<Rightarrow> 's) \<Rightarrow> 's \<Rightarrow> 'k recent_op list \<Rightarrow> 's"
where
  "recent_run look ins reset \<equiv> foldl (recent_step look ins reset)"

text \<open>The last insertion of a key that no reset has undone.\<close>

fun last_insertion :: "'k \<Rightarrow> 'k recent_op list \<Rightarrow> int option \<Rightarrow> int option" where
  "last_insertion k [] d = d"
| "last_insertion k (LookUp k' t # ops) d = last_insertion k ops d"
| "last_insertion k (Insert k' t # ops) d = last_insertion k ops (if k' = k then Some t else d)"
| "last_insertion k (Reset # ops) d = last_insertion k ops None"

locale recent_set =
  fixes look :: "'s \<Rightarrow> 'k \<Rightarrow> int \<Rightarrow> bool \<times> 's"
    and ins :: "'s \<Rightarrow> 'k \<Rightarrow> int \<Rightarrow> 's"
    and reset :: "'s \<Rightarrow> 's"
    and good :: "'s \<Rightarrow> bool"
    and deadline :: "'s \<Rightarrow> 'k \<Rightarrow> int option"
    and ttl :: "'s \<Rightarrow> int"
  assumes good_look: "good s \<Longrightarrow> good (snd (look s k t))"
    and good_ins: "good s \<Longrightarrow> good (ins s k t)"
    and good_reset: "good s \<Longrightarrow> good (reset s)"
    and ttl_look: "ttl (snd (look s k t)) = ttl s"
    and ttl_ins: "ttl (ins s k t) = ttl s"
    and ttl_reset: "ttl (reset s) = ttl s"
    and look_recent: "fst (look s k t) \<longleftrightarrow> (\<exists>d. deadline s k = Some d \<and> t < d)"
    and deadline_look: "deadline (snd (look s k t)) k' = Some d \<Longrightarrow> deadline s k' = Some d"
    and deadline_ins: "good s \<Longrightarrow> deadline (ins s k t) k = Some (t + ttl s)"
    and deadline_ins_other:
      "good s \<Longrightarrow> k' \<noteq> k \<Longrightarrow> deadline (ins s k t) k' = Some d \<Longrightarrow> deadline s k' = Some d"
    and deadline_reset: "deadline (reset s) k = None"
begin

lemma step_good: "good s \<Longrightarrow> good (recent_step look ins reset s e)"
  by (cases e) (simp_all add: good_look good_ins good_reset)

lemma step_ttl: "ttl (recent_step look ins reset s e) = ttl s"
  by (cases e) (simp_all add: ttl_look ttl_ins ttl_reset)

lemma run_good: "good s \<Longrightarrow> good (recent_run look ins reset s ops)"
  by (induction ops arbitrary: s) (simp_all add: step_good)

lemma run_deadline:
  "good s \<Longrightarrow> deadline (recent_run look ins reset s ops) k = Some d \<Longrightarrow>
     (\<And>d'. deadline s k = Some d' \<Longrightarrow> \<exists>t. since = Some t \<and> d' = t + ttl s) \<Longrightarrow>
     \<exists>t. last_insertion k ops since = Some t \<and> d = t + ttl s"
proof (induction ops arbitrary: s since)
  case Nil
  then show ?case by simp
next
  case (Cons e ops)
  let ?s = "recent_step look ins reset s e"
  have good: "good ?s" and ttl: "ttl ?s = ttl s"
    using Cons.prems(1) by (simp_all only: step_good step_ttl)
  have run: "deadline (recent_run look ins reset ?s ops) k = Some d"
    using Cons.prems(2) by simp
  note IH = Cons.IH [OF good run, unfolded ttl]
  show ?case
  proof (cases e)
    case (LookUp k' t)
    then show ?thesis using IH [of since] Cons.prems(3) by (auto dest: deadline_look)
  next
    case (Insert k' t)
    show ?thesis
    proof (cases "k' = k")
      case True
      then show ?thesis
        using IH [of "Some t"] Insert Cons.prems(1) by (auto simp: deadline_ins)
    next
      case False
      have keep: "\<And>d'. deadline ?s k = Some d' \<Longrightarrow> deadline s k = Some d'"
        using Insert False deadline_ins_other [OF Cons.prems(1), of k k' t] by auto
      show ?thesis
        using IH [of since] Insert False Cons.prems(3) [OF keep] by auto
    qed
  next
    case Reset
    then show ?thesis using IH [of None] by (auto simp: deadline_reset)
  qed
qed

text \<open>Whenever a lookup answers yes, its key was inserted less than a period ago, and not reset.\<close>

lemma recent_justified:
  assumes "good s" and "\<And>k. deadline s k = None"
    and "fst (look (recent_run look ins reset s ops) k now)"
  shows "\<exists>t. last_insertion k ops None = Some t \<and> now < t + ttl s"
proof -
  from assms(3) obtain d where d: "deadline (recent_run look ins reset s ops) k = Some d" "now < d"
    by (auto simp: look_recent)
  from run_deadline [OF assms(1) d(1), of None] assms(2) d(2) show ?thesis by auto
qed

end

section \<open>The cache provides the interface\<close>

definition cache_look :: "('k, bool) ttl_lru_cache \<Rightarrow> 'k \<Rightarrow> int \<Rightarrow> bool \<times> ('k, bool) ttl_lru_cache" where
  "cache_look c k t = (case cache_get c k t of (r, c') \<Rightarrow> (r \<noteq> None, c'))"

abbreviation cache_put :: "('k, bool) ttl_lru_cache \<Rightarrow> 'k \<Rightarrow> int \<Rightarrow> ('k, bool) ttl_lru_cache" where
  "cache_put c k t \<equiv> cache_set c k True t"

definition cache_deadline :: "('k, 'v) ttl_lru_cache \<Rightarrow> 'k \<Rightarrow> int option" where
  "cache_deadline c k = map_option snd (map_of (tc_entries c) k)"

lemma map_of_drop:
  assumes "distinct (map fst es)" and "map_of (drop n es) k = Some x"
  shows "map_of es k = Some x"
proof -
  from assms(2) have "(k, x) \<in> set es" by (auto dest: map_of_SomeD in_set_dropD)
  with assms(1) show ?thesis by simp
qed

lemma cache_look_fst:
  "fst (cache_look c k t) \<longleftrightarrow> (\<exists>d. cache_deadline c k = Some d \<and> t < d)"
  by (auto simp: cache_look_def cache_get_def cache_deadline_def Let_def split: option.splits)

lemma cache_look_snd: "snd (cache_look c k t) = snd (cache_get c k t)"
  by (simp add: cache_look_def split: prod.splits)

lemma map_of_delete_other: "map_of (AList.delete k es) = (map_of es)(k := None)"
  by (rule delete_conv')

lemma cache_get_deadline:
  "cache_deadline (snd (cache_get c k t)) k' = Some d \<Longrightarrow> cache_deadline c k' = Some d"
  by (auto simp: cache_get_def cache_deadline_def Let_def map_of_delete_other map_add_def
      split: option.splits if_splits)

lemma cache_set_deadline:
  assumes "cache_wf c"
  shows "cache_deadline (cache_set c k v t) k = Some (t + tc_ttl_ms c)"
proof -
  have "k \<notin> fst ` set (drop n (AList.delete k (tc_entries c)))" for n
    using delete_not_in [of k _ "tc_entries c"] by (auto dest: in_set_dropD)
  then have none: "map_of (drop n (AList.delete k (tc_entries c))) k = None" for n
    by (simp add: map_of_eq_None_iff)
  show ?thesis
    using none [of 0] none [of 1]
    by (auto simp: cache_set_def cache_deadline_def Let_def map_add_def)
qed

lemma cache_set_deadline_other:
  assumes "cache_wf c" and "k' \<noteq> k" and "cache_deadline (cache_set c k v t) k' = Some d"
  shows "cache_deadline c k' = Some d"
proof -
  let ?es = "AList.delete k (tc_entries c)"
  have "distinct (map fst ?es)"
    using assms(1) by (simp add: cache_wf_def delete_keys distinct_removeAll)
  then have "map_of (drop n ?es) k' = Some x \<Longrightarrow> map_of (tc_entries c) k' = Some x" for n x
    using map_of_drop [of ?es n k' x] assms(2) by (simp add: map_of_delete_other)
  then have kept: "map_option snd (map_of (drop n ?es) k') = Some d \<Longrightarrow>
      map_option snd (map_of (tc_entries c) k') = Some d" for n
    by auto
  have "\<exists>n. tc_entries (cache_set c k v t) = drop n ?es @ [(k, v, t + tc_ttl_ms c)]"
    by (cases "int (length ?es) \<ge> tc_max_size c")
      (auto simp: cache_set_def Let_def intro: exI [of _ 1] exI [of _ 0])
  then obtain n where "tc_entries (cache_set c k v t) = drop n ?es @ [(k, v, t + tc_ttl_ms c)]"
    by blast
  with assms(2,3) have "map_option snd (map_of (drop n ?es) k') = Some d"
    by (simp add: cache_deadline_def map_add_def split: option.splits)
  then show ?thesis unfolding cache_deadline_def by (rule kept)
qed

lemma cache_ttl [simp]:
  "tc_ttl_ms (snd (cache_get c k t)) = tc_ttl_ms c"
  "tc_ttl_ms (cache_set c k v t) = tc_ttl_ms c"
  "tc_ttl_ms (cache_clear c) = tc_ttl_ms c"
  by (simp_all add: cache_get_def cache_set_def cache_clear_def Let_def split: option.splits)

lemma cache_clear_deadline: "cache_deadline (cache_clear c) k = None"
  by (simp add: cache_clear_def cache_deadline_def)

lemma cache_max:
  "tc_max_size (snd (cache_get c k t)) = tc_max_size c"
  "tc_max_size (cache_set c k v t) = tc_max_size c"
  "tc_max_size (cache_clear c) = tc_max_size c"
  by (simp_all add: cache_get_def cache_set_def cache_clear_def Let_def split: option.splits)

interpretation denials: recent_set cache_look cache_put cache_clear cache_wf cache_deadline tc_ttl_ms
  by (unfold_locales; (unfold cache_look_snd)?)
    (fact cache_wf_get cache_wf_set cache_wf_clear cache_ttl cache_look_fst cache_get_deadline
      cache_set_deadline cache_set_deadline_other cache_clear_deadline)+

section \<open>The cache never exceeds its size, and only remembers what is recent\<close>

lemma cache_run_wf:
  "cache_wf c \<Longrightarrow> cache_wf (recent_run cache_look cache_put cache_clear c ops)"
  by (rule denials.run_good)

lemma cache_run_max:
  "tc_max_size (recent_run cache_look cache_put cache_clear c ops) = tc_max_size c"
proof (induction ops arbitrary: c)
  case (Cons e ops)
  have "tc_max_size (recent_step cache_look cache_put cache_clear c e) = tc_max_size c"
    by (cases e) (simp_all only: recent_step.simps cache_look_snd cache_max)
  then show ?case by (simp add: Cons.IH)
qed simp

text \<open>
  C36: a cache made with a maximal size and a period holds at most that many entries after any
  sequence of lookups, insertions and clearings, and when it then answers that a key is recent,
  the last insertion of that key was not followed by a clearing and is less than a period old.
\<close>

theorem cache_remembers_recent:
  assumes "cache_new max_size ttl_ms = Some c"
  shows "int (cache_size (recent_run cache_look cache_put cache_clear c ops)) \<le> max_size \<and>
    (fst (cache_look (recent_run cache_look cache_put cache_clear c ops) k now) \<longrightarrow>
       (\<exists>t. last_insertion k ops None = Some t \<and> now < t + ttl_ms))"
proof -
  from assms have c: "tc_max_size c = max_size" "tc_ttl_ms c = ttl_ms" "tc_entries c = []"
    by (auto simp: cache_new_def split: if_splits)
  have wf: "cache_wf c" by (rule cache_wf_new [OF assms])
  have "int (cache_size (recent_run cache_look cache_put cache_clear c ops)) \<le> max_size"
    using cache_run_wf [OF wf, of ops] c(1)
    by (simp add: cache_wf_def cache_size_def cache_run_max)
  moreover have "\<And>k. cache_deadline c k = None" using c(3) by (simp add: cache_deadline_def)
  ultimately show ?thesis
    using denials.recent_justified [OF wf, of ops k now] c(2) by blast
qed

theorem cache_remembers_recent_witness:
  "\<exists>c. cache_new 2 30 = Some c \<and>
     int (cache_size (recent_run cache_look cache_put cache_clear c
       [Insert ''a'' 0, Insert ''b'' 5, Insert ''d'' 6])) \<le> 2 \<and>
     fst (cache_look (recent_run cache_look cache_put cache_clear c
       [Insert ''a'' 0, Insert ''b'' 5, Insert ''d'' 6]) ''b'' 34)"
proof -
  let ?ops = "[Insert ''a'' 0, Insert ''b'' 5, Insert ''d'' 6]"
  let ?c = "\<lparr>tc_max_size = 2, tc_ttl_ms = 30, tc_entries = []\<rparr> :: (string, bool) ttl_lru_cache"
  have c: "cache_new 2 30 = Some ?c" by (simp add: cache_new_def)
  have yes: "fst (cache_look (recent_run cache_look cache_put cache_clear ?c ?ops) ''b'' 34)"
    by (auto simp: cache_look_def cache_get_def cache_set_def)
  show ?thesis
    by (rule exI [of _ ?c], intro conjI c yes)
      (rule conjunct1 [OF cache_remembers_recent [OF c, of ?ops "''b''" 34]])
qed

end
