(* ===== verification/Credentials.thy ===== *)
theory Credentials
  imports Protocol
begin

text \<open>
  The credentials the host holds for the agents (\<open>src/network/agent_credential.ts\<close>): to which
  requests they are attached, which requests they refuse, and how they override the headers an
  allowed request would carry. The object of an agent is a record of its functions; the source
  of the token (\<open>source.current()\<close>, a file of the host) is the argument of its constructor.
\<close>

section \<open>The credentials\<close>

definition credential_refresh_deny_reason :: string where
  "credential_refresh_deny_reason = ''credential-refresh-owned-by-host''"

definition credential_revoked_deny_reason :: string where
  "credential_revoked_deny_reason = ''credential-revoked-on-host''"

text \<open>\<open>AgentCredential\<close>; the path of a request is \<open>None\<close> when it is not known.\<close>

record agent_credential =
  ag_injects_into :: "string \<Rightarrow> string option \<Rightarrow> bool"
  ag_remove_headers :: "string list"
  ag_is_host_owned_refresh :: "string \<Rightarrow> string \<Rightarrow> string option \<Rightarrow> bool"
  ag_headers :: "inject_header list option"

definition path_without_query :: "string \<Rightarrow> string" where
  "path_without_query path = before_first CHR ''?'' path"

definition is_post_to ::
  "string \<Rightarrow> string \<Rightarrow> string option \<Rightarrow> string \<Rightarrow> string \<Rightarrow> bool"
where
  "is_post_to host req_method path expected_host expected_path =
     (if host \<noteq> expected_host \<or> to_upper req_method \<noteq> ''POST'' then False
      else case path of None \<Rightarrow> False | Some p \<Rightarrow> path_without_query p = expected_path)"

definition claude_agent_credential :: "string \<Rightarrow> agent_credential" where
  "claude_agent_credential current =
     \<lparr>ag_injects_into = (\<lambda>host path. host \<in> set [''api.anthropic.com'', ''mcp-proxy.anthropic.com'']),
      ag_remove_headers = [''x-api-key''],
      ag_is_host_owned_refresh =
        (\<lambda>host req_method path. is_post_to host req_method path ''platform.claude.com'' ''/v1/oauth/token''),
      ag_headers = Some [\<lparr>ih_name = ''Authorization'', ih_value = ''Bearer '' @ current\<rparr>]\<rparr>"

text \<open>The token of Codex: the access token and the account it belongs to.\<close>

record codex_token =
  ct_access_token :: string
  ct_account_id :: "string option"

definition codex_agent_credential :: "codex_token option \<Rightarrow> agent_credential" where
  "codex_agent_credential current =
     \<lparr>ag_injects_into =
        (\<lambda>host path.
           if host \<noteq> ''chatgpt.com'' then False
           else case path of
                  None \<Rightarrow> False
                | Some p \<Rightarrow> (let bare = path_without_query p in
                     bare = ''/backend-api'' \<or> prefix ''/backend-api/'' bare)),
      ag_remove_headers = [],
      ag_is_host_owned_refresh =
        (\<lambda>host req_method path. is_post_to host req_method path ''auth.openai.com'' ''/oauth/token''),
      ag_headers =
        (case current of
           None \<Rightarrow> None
         | Some credential \<Rightarrow>
             Some (\<lparr>ih_name = ''Authorization'', ih_value = ''Bearer '' @ ct_access_token credential\<rparr> #
                   (case ct_account_id credential of
                      None \<Rightarrow> []
                    | Some account \<Rightarrow> [\<lparr>ih_name = ''chatgpt-account-id'', ih_value = account\<rparr>])))\<rparr>"

definition credential_for ::
  "agent_credential list \<Rightarrow> string \<Rightarrow> string option \<Rightarrow> agent_credential option"
where
  "credential_for credentials host path =
     List.find (\<lambda>credential. ag_injects_into credential host path) credentials"

definition is_host_owned_credential_refresh ::
  "agent_credential list \<Rightarrow> string \<Rightarrow> string \<Rightarrow> string option \<Rightarrow> bool"
where
  "is_host_owned_credential_refresh credentials host req_method path =
     list_ex (\<lambda>credential. ag_is_host_owned_refresh credential host req_method path) credentials"

definition is_revoked_credential_target ::
  "agent_credential list \<Rightarrow> string \<Rightarrow> string option \<Rightarrow> bool"
where
  "is_revoked_credential_target credentials host path =
     (case credential_for credentials host path of
        None \<Rightarrow> False
      | Some credential \<Rightarrow> ag_headers credential = None)"

definition apply_agent_credentials ::
  "decision_response \<Rightarrow> string \<Rightarrow> string option \<Rightarrow> agent_credential list \<Rightarrow> decision_response"
where
  "apply_agent_credentials decision host path credentials =
     (if rp_verdict decision \<noteq> Allow then decision
      else case credential_for credentials host path of
        None \<Rightarrow> decision
      | Some credential \<Rightarrow>
          (case ag_headers credential of
             None \<Rightarrow> decision
           | Some headers \<Rightarrow>
               (let overridden = map (\<lambda>h. to_lower (ih_name h)) headers;
                    inject_headers =
                      filter (\<lambda>header. to_lower (ih_name header) \<notin> set overridden)
                        (case rp_inject_headers decision of None \<Rightarrow> [] | Some hs \<Rightarrow> hs) @ headers;
                    decorated = decision\<lparr>rp_inject_headers := Some inject_headers\<rparr>
                in if ag_remove_headers credential \<noteq> []
                   then decorated\<lparr>rp_remove_headers := Some (ag_remove_headers credential)\<rparr>
                   else decorated)))"

section \<open>The host's value wins\<close>

text \<open>The values a decision gives a header, whatever the case of its name.\<close>

definition injected_values :: "string \<Rightarrow> decision_response \<Rightarrow> string list" where
  "injected_values name r =
     map ih_value (filter (\<lambda>h. to_lower (ih_name h) = to_lower name)
       (case rp_inject_headers r of None \<Rightarrow> [] | Some hs \<Rightarrow> hs))"

definition header_values :: "string \<Rightarrow> inject_header list \<Rightarrow> string list" where
  "header_values name hs = map ih_value (filter (\<lambda>h. to_lower (ih_name h) = to_lower name) hs)"

text \<open>The attached credential of a request: the first whose destination it is.\<close>

definition attached_headers ::
  "agent_credential list \<Rightarrow> string \<Rightarrow> string option \<Rightarrow> inject_header list"
where
  "attached_headers credentials host path =
     (case credential_for credentials host path of
        None \<Rightarrow> []
      | Some c \<Rightarrow> (case ag_headers c of None \<Rightarrow> [] | Some hs \<Rightarrow> hs))"

lemma apply_keeps:
  "rp_verdict (apply_agent_credentials r host path cs) = rp_verdict r"
  "rp_request_id (apply_agent_credentials r host path cs) = rp_request_id r"
  "rp_reason (apply_agent_credentials r host path cs) = rp_reason r"
  "rp_rule_id (apply_agent_credentials r host path cs) = rp_rule_id r"
  "rp_mask_values (apply_agent_credentials r host path cs) = rp_mask_values r"
  "rp_forbid_values (apply_agent_credentials r host path cs) = rp_forbid_values r"
  "rp_approval_scope (apply_agent_credentials r host path cs) = rp_approval_scope r"
  by (simp_all add: apply_agent_credentials_def Let_def split: option.splits)

lemma apply_denied [simp]: "rp_verdict r = Deny \<Longrightarrow> apply_agent_credentials r host path cs = r"
  by (simp add: apply_agent_credentials_def)

lemma apply_no_credentials [simp]: "apply_agent_credentials r host path [] = r"
  by (simp add: apply_agent_credentials_def credential_for_def)

lemma filter_overridden:
  "filter (\<lambda>h. to_lower (ih_name h) = n) (filter (\<lambda>h. to_lower (ih_name h) \<notin> set ns) hs) =
     (if n \<in> set ns then [] else filter (\<lambda>h. to_lower (ih_name h) = n) hs)"
  by (auto simp: filter_empty_conv intro: filter_cong)

lemma injected_values_override:
  assumes "rp_inject_headers r = Some (filter (\<lambda>x. to_lower (ih_name x) \<notin> set ns) hs @ xs)"
  shows "injected_values name r =
    (if to_lower name \<in> set ns then [] else header_values name hs) @ header_values name xs"
  using filter_overridden [of "to_lower name" ns hs]
  by (simp add: assms injected_values_def header_values_def del: filter_filter)

text \<open>
  an allowed decision that the host's credentials pass over gives every header either the
  values of the attached credential alone, when the credential sets that header, or the values
  it had before; header names count without case. Nothing else of the decision changes but the
  headers to remove, and a denied decision does not change at all.
\<close>

theorem credential_overrides:
  "injected_values name (apply_agent_credentials r host path cs) =
     (if rp_verdict r = Allow \<and>
         to_lower name \<in> to_lower ` ih_name ` set (attached_headers cs host path)
      then header_values name (attached_headers cs host path)
      else injected_values name r) \<and>
   rp_verdict (apply_agent_credentials r host path cs) = rp_verdict r \<and>
   rp_mask_values (apply_agent_credentials r host path cs) = rp_mask_values r \<and>
   rp_forbid_values (apply_agent_credentials r host path cs) = rp_forbid_values r"
proof (cases "rp_verdict r = Allow")
  case False
  then have "rp_verdict r = Deny" by (cases "rp_verdict r") simp_all
  then show ?thesis by simp
next
  case allow: True
  show ?thesis
  proof (cases "attached_headers cs host path")
    case Nil
    then show ?thesis
      using allow
      by (auto simp: apply_agent_credentials_def attached_headers_def injected_values_def Let_def
          split: option.splits)
  next
    case (Cons h hs)
    then obtain c where c: "credential_for cs host path = Some c" "ag_headers c = Some (h # hs)"
      by (auto simp: attached_headers_def split: option.splits)
    have none: "header_values name (h # hs) = []"
      if "to_lower name \<notin> to_lower ` ih_name ` set (h # hs)"
    proof -
      have "\<forall>x\<in>set (h # hs). to_lower (ih_name x) \<noteq> to_lower name"
        using that by (metis imageI)
      then show ?thesis by (simp only: header_values_def filter_False list.map)
    qed
    have "rp_inject_headers (apply_agent_credentials r host path cs) =
        Some (filter (\<lambda>x. to_lower (ih_name x) \<notin> set (map (\<lambda>x. to_lower (ih_name x)) (h # hs)))
          (case rp_inject_headers r of None \<Rightarrow> [] | Some hs \<Rightarrow> hs) @ h # hs)"
      using allow c by (simp add: apply_agent_credentials_def Let_def)
    from injected_values_override [OF this, of name]
    have "injected_values name (apply_agent_credentials r host path cs) =
        (if to_lower name \<in> to_lower ` ih_name ` set (h # hs) then [] else injected_values name r) @
        header_values name (h # hs)"
      by (simp only: injected_values_def [of name r] header_values_def [symmetric] set_map image_image)
    with none allow Cons show ?thesis
      by (simp add: apply_keeps)
  qed
qed

end
