(* ===== verification/MaskPatterns.thy ===== *)
theory MaskPatterns
  imports Protocol
begin

text \<open>
  The forms in which a secret is searched for and hidden (\<open>src/network/mask_patterns.ts\<close>):
  the value, its two percent encodings, and the parts of its base64 encodings that do not
  depend on the bytes around it. The lemmas show that the percent encodings determine the
  value, that wherever the bytes of the secret start in a longer stream the base64 text of the
  stream contains one of its patterns, and that a masked text contains no pattern any more.
\<close>

section \<open>The patterns\<close>

definition mask_replacement :: string where "mask_replacement = ''****''"

definition b64_min_pattern_len :: nat where "b64_min_pattern_len = 8"

text \<open>\<open>new TextEncoder().encode(value)\<close>; a character of the model is below U+0100.\<close>

definition utf8_bytes :: "string \<Rightarrow> nat list" where
  "utf8_bytes s =
     concat (map (\<lambda>c. let n = of_char c :: nat in
       if n < 128 then [n] else [192 + n div 64, 128 + n mod 64]) s)"

definition hex_digit :: "nat \<Rightarrow> char" where
  "hex_digit n = (if n < 10 then char_of (48 + n) else char_of (55 + n))"

definition is_unreserved :: "char \<Rightarrow> bool" where
  "is_unreserved c \<longleftrightarrow>
     is_alpha c \<or> is_digit c \<or> c = CHR ''_'' \<or> c = CHR ''.'' \<or> c = CHR ''~'' \<or> c = CHR ''-''"

definition percent_encode_byte :: "bool \<Rightarrow> nat \<Rightarrow> string" where
  "percent_encode_byte plus_for_space b =
     (let ch = char_of b in
      if is_unreserved ch then [ch]
      else if plus_for_space \<and> ch = CHR '' '' then ''+''
      else [CHR ''%'', hex_digit (b div 16), hex_digit (b mod 16)])"

definition percent_encode_all :: "string \<Rightarrow> bool \<Rightarrow> string" where
  "percent_encode_all v plus_for_space = concat (map (percent_encode_byte plus_for_space) (utf8_bytes v))"

text \<open>\<open>replace(/=+$/, "")\<close>, and the text whose characters depend on the value alone.\<close>

definition strip_padding :: "string \<Rightarrow> string" where
  "strip_padding s = rev (dropWhile (\<lambda>c. c = CHR ''='') (rev s))"

definition base64_candidate :: "nat list \<Rightarrow> nat \<Rightarrow> string" where
  "base64_candidate raw k =
     (let encoded = strip_padding (base64_encode (replicate k 0 @ raw));
          start = (8 * k + 5) div 6;
          stop = 8 * (k + length raw) div 6
      in drop start (take stop encoded))"

definition url_safe :: "string \<Rightarrow> string" where
  "url_safe s = replace_all ''/'' ''_'' (replace_all ''+'' ''-'' s)"

definition base64_confident_substrings :: "string \<Rightarrow> string list" where
  "base64_confident_substrings v =
     concat (map (\<lambda>k. let candidate = base64_candidate (utf8_bytes v) k in
       if length candidate \<ge> b64_min_pattern_len then [candidate, url_safe candidate] else [])
       [0, 1, 2])"

definition expand_mask_patterns :: "string list \<Rightarrow> string list" where
  "expand_mask_patterns values =
     sort_key (\<lambda>p. - int (length p))
       (js_unique (concat (map (\<lambda>v.
          if length v = 0 then []
          else [v, percent_encode_all v False, percent_encode_all v True] @ base64_confident_substrings v)
          values)))"

definition mask_text :: "string \<Rightarrow> string list \<Rightarrow> string" where
  "mask_text text patterns = foldl (\<lambda>out p. replace_all p mask_replacement out) text patterns"

definition mask_review_context_with_patterns ::
  "review_context option \<Rightarrow> string list \<Rightarrow> review_context option"
where
  "mask_review_context_with_patterns ctx patterns =
     (case ctx of
        None \<Rightarrow> None
      | Some c \<Rightarrow> if length patterns = 0 then ctx
          else Some (c\<lparr>rx_path := mask_text (rx_path c) patterns\<rparr>))"

definition mask_review_context :: "review_context option \<Rightarrow> string list \<Rightarrow> review_context option" where
  "mask_review_context ctx values = mask_review_context_with_patterns ctx (expand_mask_patterns values)"

section \<open>Masking leaves no pattern\<close>

text \<open>
  A text without the replacement's character that occurs in the result of a replacement occurs
  in the original: replacing cannot make a new occurrence of a pattern without stars.
\<close>

lemma sublist_append_free:
  assumes "sublist p (xs @ ys)" and "\<not> sublist p xs" and "\<not> sublist p ys"
  shows "\<exists>a b. p = a @ b \<and> a \<noteq> [] \<and> b \<noteq> [] \<and> suffix a xs \<and> prefix b ys"
  using assms by (auto simp: sublist_append) (metis append_Nil append_Nil2 prefix_imp_sublist suffix_imp_sublist)

lemma prefix_replace_all:
  assumes "prefix b (replace_all pat rep s)" and "rep \<noteq> [] \<Longrightarrow> hd rep \<notin> set b" and "rep \<noteq> []"
  shows "prefix b s"
  using assms
proof (induction pat rep s arbitrary: b rule: replace_all.induct)
  case (1 pat rep)
  then show ?case by simp
next
  case (2 pat rep x xs)
  show ?case
  proof (cases "pat \<noteq> [] \<and> prefix pat (x # xs)")
    case True
    then have "prefix b (rep @ replace_all pat rep (drop (length pat) (x # xs)))"
      using "2.prems"(1) by simp
    then have "b = []"
      using "2.prems"(2,3) by (cases b; cases rep) auto
    then show ?thesis by simp
  next
    case False
    then have "prefix b (x # replace_all pat rep xs)" using "2.prems"(1) by auto
    then show ?thesis
      using "2.IH"(2) [OF False] "2.prems"(2,3) by (cases b) auto
  qed
qed

lemma sublist_replace_all:
  assumes "sublist q (replace_all pat rep s)" and "q \<noteq> []" and "rep \<noteq> []" and "set rep \<inter> set q = {}"
  shows "sublist q s \<and> (q = pat \<longrightarrow> False)"
  using assms
proof (induction pat rep s rule: replace_all.induct)
  case (1 pat rep)
  then show ?case by simp
next
  case (2 pat rep x xs)
  show ?case
  proof (cases "pat \<noteq> [] \<and> prefix pat (x # xs)")
    case True
    let ?rest = "drop (length pat) (x # xs)"
    have eq: "replace_all pat rep (x # xs) = rep @ replace_all pat rep ?rest"
      using True by simp
    have "sublist q (replace_all pat rep ?rest)"
    proof (rule ccontr)
      assume no: "\<not> sublist q (replace_all pat rep ?rest)"
      have norep: "\<not> sublist q rep"
        using "2.prems"(2,4) by (auto dest!: set_mono_sublist) (metis Int_iff empty_iff in_mono list.set_intros(1) neq_Nil_conv)
      from sublist_append_free [OF "2.prems"(1) [unfolded eq] norep no]
      obtain a b where ab: "q = a @ b" "a \<noteq> []" "suffix a rep" by blast
      then have "hd a \<in> set rep" "hd a \<in> set q"
        using set_mono_suffix [OF ab(3)] by auto
      with "2.prems"(4) show False by blast
    qed
    from "2.IH"(1) [OF True this "2.prems"(2-4)] show ?thesis
      by (metis append_take_drop_id sublist_appendI sublist_order.order_trans suffix_drop suffix_imp_sublist)
  next
    case False
    have eq: "replace_all pat rep (x # xs) = x # replace_all pat rep xs"
      using False by auto
    show ?thesis
    proof (cases "sublist q (replace_all pat rep xs)")
      case True
      from "2.IH"(2) [OF False True "2.prems"(2-4)] show ?thesis
        by (auto simp: sublist_Cons_right)
    next
      case no: False
      then have pre: "prefix q (x # replace_all pat rep xs)"
        using "2.prems"(1) eq by (simp add: sublist_Cons_right)
      then obtain b where b: "q = x # b" "prefix b (replace_all pat rep xs)"
        using "2.prems"(2) by (cases q) auto
      have "prefix b xs"
        by (rule prefix_replace_all [OF b(2) _ "2.prems"(3)])
          (use "2.prems"(3,4) b(1) in \<open>cases rep; auto\<close>)
      then have "prefix q (x # xs)" using b(1) by simp
      with False show ?thesis
        using "2.prems"(2) by (auto simp: prefix_imp_sublist)
    qed
  qed
qed

lemma mask_text_subtext:
  "\<forall>q\<in>set (p # ps). CHR ''*'' \<notin> set q \<Longrightarrow> q \<noteq> [] \<Longrightarrow> CHR ''*'' \<notin> set q \<Longrightarrow>
     sublist q (mask_text s ps) \<Longrightarrow> sublist q s"
proof (induction ps arbitrary: s p)
  case (Cons p' ps)
  have "sublist q (mask_text (replace_all p' mask_replacement s) ps)"
    using Cons.prems(4) by (simp add: mask_text_def)
  then have "sublist q (replace_all p' mask_replacement s)"
    using Cons.IH [of p'] Cons.prems by simp
  from sublist_replace_all [OF this Cons.prems(2)] Cons.prems(3) show ?case
    by (simp add: mask_replacement_def)
qed (simp add: mask_text_def)

lemma mask_text_free:
  assumes "\<forall>q\<in>set ps. CHR ''*'' \<notin> set q" and "p \<in> set ps" and "p \<noteq> []"
  shows "\<not> sublist p (mask_text s ps)"
proof
  assume sub: "sublist p (mask_text s ps)"
  from assms(2) obtain before after where ps: "ps = before @ p # after"
    by (auto simp: in_set_conv_decomp)
  define mid where "mid = mask_text s before"
  have "mask_text s ps = mask_text (replace_all p mask_replacement mid) after"
    by (simp add: ps mid_def mask_text_def)
  with sub have "sublist p (replace_all p mask_replacement mid)"
    using mask_text_subtext [of p after p "replace_all p mask_replacement mid"] assms ps by simp
  from sublist_replace_all [OF this assms(3)] show False
    using assms(1,2) by (auto simp: mask_replacement_def)
qed

section \<open>Percent encodings\<close>

text \<open>What a server makes of an encoding: \<open>unquote\<close> and \<open>unquote_plus\<close>, on bytes.\<close>

definition hex_digit_value :: "char \<Rightarrow> nat" where
  "hex_digit_value c = (if is_digit c then of_char c - 48 else of_char c - 55)"

fun percent_decode :: "bool \<Rightarrow> string \<Rightarrow> nat list" where
  "percent_decode form [] = []"
| "percent_decode form (c # cs) =
     (if c = CHR ''%'' then
        (case cs of
           p # q # rest \<Rightarrow> (hex_digit_value p * 16 + hex_digit_value q) # percent_decode form rest
         | _ \<Rightarrow> [])
      else (if form \<and> c = CHR ''+'' then 32 else of_char c) # percent_decode form cs)"

lemma hex_digit_value_digit [simp]: "n < 16 \<Longrightarrow> hex_digit_value (hex_digit n) = n"
  by (auto simp: hex_digit_value_def hex_digit_def is_digit_def less_eq_char_def)

lemma unreserved_safe: "is_unreserved c \<Longrightarrow> c \<noteq> CHR ''%'' \<and> c \<noteq> CHR ''+''"
  by (auto simp: is_unreserved_def is_alpha_def is_lower_def is_upper_def is_digit_def less_eq_char_def)

lemma percent_decode_byte:
  assumes "b < 256"
  shows "percent_decode form (percent_encode_byte form b @ rest) = b # percent_decode form rest"
proof -
  have val: "of_char (char_of b :: char) = b" using assms by simp
  have small: "b div 16 < 16" using assms by (simp add: less_mult_imp_div_less)
  consider (plain) "is_unreserved (char_of b)" |
    (space) "\<not> is_unreserved (char_of b)" "form" "char_of b = CHR '' ''" |
    (hex) "\<not> is_unreserved (char_of b)" "\<not> (form \<and> char_of b = CHR '' '')"
    by blast
  then show ?thesis
  proof cases
    case plain
    then show ?thesis using unreserved_safe [OF plain] val by (simp add: percent_encode_byte_def)
  next
    case space
    have "b = of_char (char_of b :: char)" using val by (rule sym)
    also have "\<dots> = 32" unfolding space(3) by simp
    finally show ?thesis using space by (simp add: percent_encode_byte_def)
  next
    case hex
    then show ?thesis using small by (auto simp: percent_encode_byte_def Let_def)
  qed
qed

lemma utf8_bytes_less: "b \<in> set (utf8_bytes s) \<Longrightarrow> b < 256"
proof -
  assume "b \<in> set (utf8_bytes s)"
  then obtain c where c: "b \<in> set (let n = of_char c :: nat in
      if n < 128 then [n] else [192 + n div 64, 128 + n mod 64])"
    unfolding utf8_bytes_def by auto
  have "of_char c < (256 :: nat)" by (rule nat_of_char_less_256)
  then have "of_char c div 64 < (4 :: nat)" "of_char c mod 64 < (64 :: nat)"
    by (simp_all add: less_mult_imp_div_less)
  with c show ?thesis by (auto simp: Let_def split: if_splits)
qed

lemma utf8_bytes_inject: "utf8_bytes s = utf8_bytes t \<longleftrightarrow> s = t"
proof
  show "utf8_bytes s = utf8_bytes t \<Longrightarrow> s = t"
  proof (induction s arbitrary: t)
    case Nil
    then show ?case by (cases t) (auto simp: utf8_bytes_def Let_def split: if_splits)
  next
    case (Cons c s)
    then obtain d u where t: "t = d # u"
      by (cases t) (auto simp: utf8_bytes_def Let_def split: if_splits)
    let ?n = "of_char c :: nat" and ?m = "of_char d :: nat"
    have lt: "?n < 256" "?m < 256" by (rule nat_of_char_less_256)+
    have code: "a = b" if "a div 64 = b div 64" "a mod 64 = b mod 64" for a b :: nat
      using that by (metis div_mult_mod_eq)
    have "?n = ?m \<and> utf8_bytes s = utf8_bytes u"
      using Cons.prems lt code [of ?n ?m]
      by (auto simp: t utf8_bytes_def Let_def split: if_splits)
    then show ?case using Cons.IH [of u] by (simp add: t)
  qed
qed simp

lemma percent_decode_encode: "percent_decode form (percent_encode_all v form) = utf8_bytes v"
proof -
  have "\<forall>b\<in>set bs. b < 256 \<Longrightarrow>
      percent_decode form (concat (map (percent_encode_byte form) bs) @ []) = bs" for bs
    by (induction bs) (simp_all add: percent_decode_byte)
  then show ?thesis using utf8_bytes_less by (simp add: percent_encode_all_def)
qed

text \<open>
  both percent encodings of a secret round-trip: decoding the searched text, as a server
  that accepts \<open>%XX\<close> (and, for the second, \<open>+\<close>) does, gives the bytes of the value. So no two
  values share a searched text.
\<close>

theorem percent_encoding_roundtrip:
  "percent_decode form (percent_encode_all v form) = utf8_bytes v \<and>
   (percent_encode_all v form = percent_encode_all u form \<longleftrightarrow> v = u)"
  by (metis percent_decode_encode utf8_bytes_inject)

section \<open>Base64 at every alignment\<close>

text \<open>The bytes of a text, zero beyond its end, and the six bits behind a position of its encoding.\<close>

definition byte_at :: "nat list \<Rightarrow> nat \<Rightarrow> nat" where
  "byte_at bs j = (if j < length bs then bs ! j else 0)"

definition sextet_at :: "nat list \<Rightarrow> nat \<Rightarrow> nat" where
  "sextet_at bs i =
     (let j = 3 * (i div 4) in
      if i mod 4 = 0 then byte_at bs j div 4
      else if i mod 4 = 1 then byte_at bs j mod 4 * 16 + byte_at bs (j + 1) div 16
      else if i mod 4 = 2 then byte_at bs (j + 1) mod 16 * 4 + byte_at bs (j + 2) div 64
      else byte_at bs (j + 2) mod 64)"

definition encoded_length :: "nat list \<Rightarrow> nat" where
  "encoded_length bs = (8 * length bs + 5) div 6"

lemma byte_at_shift [simp]: "byte_at (a # b # c # bs) (Suc (Suc (Suc j))) = byte_at bs j"
  by (simp add: byte_at_def)

lemma sextet_at_shift: "sextet_at (a # b # c # bs) (i + 4) = sextet_at bs i"
proof -
  have j: "3 * ((i + 4) div 4) = Suc (Suc (Suc (3 * (i div 4))))" and m: "(i + 4) mod 4 = i mod 4"
    using div_add_self2 [of 4 i] by simp_all
  show ?thesis unfolding sextet_at_def Let_def j m by simp
qed

lemma sextet_at_first:
  "sextet_at bs 0 = byte_at bs 0 div 4"
  "sextet_at bs (Suc 0) = byte_at bs 0 mod 4 * 16 + byte_at bs 1 div 16"
  "sextet_at bs 2 = byte_at bs 1 mod 16 * 4 + byte_at bs 2 div 64"
  "sextet_at bs 3 = byte_at bs 2 mod 64"
  by (simp_all add: sextet_at_def numeral_2_eq_2)

lemma map_upt_shift: "map f [0..<n + 4] = [f 0, f 1, f 2, f 3] @ map (\<lambda>i. f (i + 4)) [0..<n]"
proof (induction n)
  case 0
  have "[0..<4] = [0, 1, 2, 3 :: nat]" by code_simp
  then show ?case by (simp only: add_0) simp
next
  case (Suc n)
  have "[0..<Suc n + 4] = [0..<n + 4] @ [n + 4]" using upt_Suc_append [of 0 "n + 4"] by simp
  then show ?case using Suc by simp
qed

lemma encode_sextets:
  "\<exists>k. base64_encode bs =
     map (\<lambda>i. base64_char (sextet_at bs i)) [0..<encoded_length bs] @ replicate k CHR ''=''"
proof (induction bs rule: base64_encode.induct)
  case (2 a)
  then show ?case
    by (intro exI [of _ 2]) (simp add: encoded_length_def sextet_at_def byte_at_def numeral_2_eq_2)
next
  case (3 a b)
  then show ?case
    by (intro exI [of _ 1]) (simp add: encoded_length_def sextet_at_def byte_at_def numeral_3_eq_3)
next
  case (4 a b c rest)
  then obtain k where k: "base64_encode rest =
      map (\<lambda>i. base64_char (sextet_at rest i)) [0..<encoded_length rest] @ replicate k CHR ''=''"
    by blast
  have len: "encoded_length (a # b # c # rest) = encoded_length rest + 4"
    by (simp add: encoded_length_def)
  show ?case
    by (intro exI [of _ k])
      (simp add: len map_upt_shift sextet_at_shift k sextet_at_first byte_at_def)
qed (simp add: encoded_length_def)

lemma byte_at_less: "\<forall>b\<in>set bs. b < 256 \<Longrightarrow> byte_at bs j < 256"
  by (simp add: byte_at_def)

lemma sextet_at_less: "\<forall>b\<in>set bs. b < 256 \<Longrightarrow> sextet_at bs i < 64"
  using sextets_of_bytes [OF byte_at_less byte_at_less, of bs bs]
  by (simp add: sextet_at_def Let_def)

lemma strip_padding_encode:
  assumes "\<forall>b\<in>set bs. b < 256"
  shows "strip_padding (base64_encode bs) =
    map (\<lambda>i. base64_char (sextet_at bs i)) [0..<encoded_length bs]" (is "_ = ?core")
proof -
  obtain k where k: "base64_encode bs = ?core @ replicate k CHR ''=''"
    using encode_sextets by blast
  have "c \<noteq> CHR ''=''" if "c \<in> set (rev ?core)" for c
    using that sextet_at_less [OF assms] by auto
  then have "dropWhile (\<lambda>c. c = CHR ''='') (rev ?core) = rev ?core"
    by (cases "rev ?core") auto
  then have "dropWhile (\<lambda>c. c = CHR ''='') (replicate k CHR ''='' @ rev ?core) = rev ?core"
    by (induction k) simp_all
  then show ?thesis by (simp add: k strip_padding_def)
qed

lemma candidate_sextets:
  assumes "\<forall>b\<in>set raw. b < 256"
  shows "base64_candidate raw k =
    map (\<lambda>i. base64_char (sextet_at (replicate k 0 @ raw) i))
      [(8 * k + 5) div 6..<8 * (k + length raw) div 6]"
proof -
  have stop: "8 * (k + length raw) div 6 \<le> encoded_length (replicate k 0 @ raw)"
    by (simp add: encoded_length_def div_le_mono)
  have bytes: "\<forall>b\<in>set (replicate k 0 @ raw). b < 256" using assms by auto
  show ?thesis
    using stop
    by (simp add: base64_candidate_def strip_padding_encode [OF bytes] take_map drop_map Let_def min_def)
qed

text \<open>Every position of the candidate reads bytes of the secret only.\<close>

lemma sextet_at_aligned:
  assumes "(8 * k + 5) div 6 \<le> i" and "i < 8 * (k + length raw) div 6"
    and "length pre = 3 * m + k"
  shows "sextet_at (pre @ raw @ post) (4 * m + i) = sextet_at (replicate k 0 @ raw) i"
proof -
  define s where "s = k + length raw"
  have bounds: "8 * k \<le> 6 * i" "6 * i + 6 \<le> 8 * s"
    using assms(1,2) unfolding s_def by linarith+
  have same: "byte_at (pre @ raw @ post) (3 * m + j) = byte_at (replicate k 0 @ raw) j"
    if "k \<le> j" "j < k + length raw" for j
  proof -
    have "j - k < length raw" using that by linarith
    then show ?thesis using that assms(3) by (simp add: byte_at_def nth_append)
  qed
  define u r where "u = i div 4" and "r = i mod 4"
  then have i: "i = 4 * u + r" "r < 4" by simp_all
  have idx: "(4 * m + i) div 4 = m + u" "(4 * m + i) mod 4 = r" "i div 4 = u" "i mod 4 = r"
    by (simp_all add: u_def r_def)
  consider "r = 0" | "r = 1" | "r = 2" | "r = 3" using i(2) by linarith
  then show ?thesis
  proof cases
    case 1
    then have "k \<le> 3 * u" "3 * u < s" using bounds i(1) by simp_all
    with s_def same [of "3 * u"] 1 show ?thesis
      unfolding sextet_at_def Let_def idx by (simp add: algebra_simps)
  next
    case 2
    then have "k \<le> 3 * u" "3 * u + 1 < s" using bounds i(1) by simp_all
    with s_def same [of "3 * u"] same [of "3 * u + 1"] 2 show ?thesis
      unfolding sextet_at_def Let_def idx by (simp add: algebra_simps)
  next
    case 3
    then have "k \<le> 3 * u + 1" "3 * u + 2 < s" using bounds i(1) by simp_all
    with s_def same [of "3 * u + 1"] same [of "3 * u + 2"] 3 show ?thesis
      unfolding sextet_at_def Let_def idx by (simp add: algebra_simps)
  next
    case 4
    then have "k \<le> 3 * u + 2" "3 * u + 2 < s" using bounds i(1) by simp_all
    with s_def same [of "3 * u + 2"] 4 show ?thesis
      unfolding sextet_at_def Let_def idx by (simp add: algebra_simps)
  qed
qed

lemma sublist_map_upt: "a \<le> b \<Longrightarrow> b \<le> n \<Longrightarrow> sublist (map f [a..<b]) (map f [0..<n])"
proof -
  assume "a \<le> b" "b \<le> n"
  then have "[0..<n] = [0..<a] @ [a..<b] @ [b..<n]"
    using upt_add_eq_append [of 0 a "n - a"] upt_add_eq_append [of a b "n - b"] by simp
  then show ?thesis by (metis map_append sublist_appendI)
qed

lemma candidate_occurs:
  assumes "\<forall>b\<in>set raw. b < 256" and "length pre = 3 * m + k"
  shows "sublist (base64_candidate raw k) (base64_encode (pre @ raw @ post))"
proof -
  let ?start = "(8 * k + 5) div 6" and ?stop = "8 * (k + length raw) div 6"
  let ?f = "\<lambda>i. base64_char (sextet_at (pre @ raw @ post) i)"
  show ?thesis
  proof (cases "?start \<le> ?stop")
    case False
    then show ?thesis by (simp add: candidate_sextets [OF assms(1)])
  next
    case True
    have "base64_candidate raw k = map (\<lambda>i. ?f (4 * m + i)) [?start..<?stop]"
      unfolding candidate_sextets [OF assms(1)]
      by (rule map_cong [OF refl]) (use sextet_at_aligned [OF _ _ assms(2)] in simp)
    also have "\<dots> = map ?f [4 * m + ?start..<4 * m + ?stop]"
      by (rule nth_equalityI) (simp_all add: add.assoc)
    finally have eq: "base64_candidate raw k = map ?f [4 * m + ?start..<4 * m + ?stop]" .
    have "4 * m + ?stop \<le> encoded_length (pre @ raw @ post)"
      using assms(2) by (simp add: encoded_length_def)
    then have "sublist (base64_candidate raw k) (map ?f [0..<encoded_length (pre @ raw @ post)])"
      unfolding eq using True by (intro sublist_map_upt) simp_all
    then show ?thesis
      using encode_sextets [of "pre @ raw @ post"] by (metis sublist_append)
  qed
qed

text \<open>The URL-safe alphabet is a renaming of the characters.\<close>

lemma replace_all_char: "replace_all [a] [b] s = map (\<lambda>c. if c = a then b else c) s"
  by (induction s) (simp_all add: eq_commute [of a])

lemma url_safe_map:
  "url_safe s = map (\<lambda>c. if c = CHR ''+'' then CHR ''-'' else if c = CHR ''/'' then CHR ''_'' else c) s"
  by (simp add: url_safe_def replace_all_char)

lemma length_candidate:
  assumes "\<forall>b\<in>set raw. b < 256"
  shows "length (base64_candidate raw k) = 8 * (k + length raw) div 6 - (8 * k + 5) div 6"
  by (simp add: candidate_sextets [OF assms])

lemma long_candidate:
  assumes "\<forall>b\<in>set raw. b < 256" and "7 \<le> length raw" and "k < 3"
  shows "8 \<le> length (base64_candidate raw k)"
proof -
  consider "k = 0" | "k = 1" | "k = 2" using assms(3) by linarith
  then show ?thesis
  proof cases
    case 1
    then show ?thesis using assms(2) by (simp add: length_candidate [OF assms(1)])
  next
    case 2
    have "8 * 8 div 6 \<le> 8 * (1 + length raw) div 6" using assms(2) by (intro div_le_mono) simp
    with 2 show ?thesis by (simp add: length_candidate [OF assms(1)])
  next
    case 3
    have "8 * 9 div 6 \<le> 8 * (2 + length raw) div 6" using assms(2) by (intro div_le_mono) simp
    with 3 show ?thesis by (simp add: length_candidate [OF assms(1)])
  qed
qed

lemma sublist_url_safe:
  assumes "sublist p s"
  shows "sublist (url_safe p) (url_safe s)"
proof -
  obtain a b where "s = a @ p @ b" using assms by (auto simp: sublist_def)
  then show ?thesis by (simp add: url_safe_map)
qed

lemma confident_substrings_occur:
  assumes "7 \<le> length (utf8_bytes v)"
  shows "\<exists>p. p \<in> set (base64_confident_substrings v) \<and> url_safe p \<in> set (base64_confident_substrings v) \<and>
    8 \<le> length p \<and> sublist p (base64_encode (pre @ utf8_bytes v @ post))"
proof -
  let ?raw = "utf8_bytes v" and ?k = "length pre mod 3"
  have bytes: "\<forall>b\<in>set ?raw. b < 256" using utf8_bytes_less by blast
  have k: "?k < 3" "length pre = 3 * (length pre div 3) + ?k" by simp_all
  note long = long_candidate [OF bytes assms k(1)]
  have "?k \<in> set [0, 1, 2]" using k(1) by auto
  then have mem: "set (let candidate = base64_candidate ?raw ?k in
      if length candidate \<ge> b64_min_pattern_len then [candidate, url_safe candidate] else [])
      \<subseteq> set (base64_confident_substrings v)"
    unfolding base64_confident_substrings_def set_concat set_map by blast
  have "set (let candidate = base64_candidate ?raw ?k in
      if length candidate \<ge> b64_min_pattern_len then [candidate, url_safe candidate] else []) =
      {base64_candidate ?raw ?k, url_safe (base64_candidate ?raw ?k)}"
    using long by (simp add: Let_def b64_min_pattern_len_def)
  with mem have "{base64_candidate ?raw ?k, url_safe (base64_candidate ?raw ?k)} \<subseteq> set (base64_confident_substrings v)"
    by simp
  moreover have "sublist (base64_candidate ?raw ?k) (base64_encode (pre @ ?raw @ post))"
    by (rule candidate_occurs [OF bytes k(2)])
  ultimately show ?thesis using long by blast
qed

section \<open>A masked text holds no form of a secret\<close>

lemma hex_digit_not_star: "n < 16 \<Longrightarrow> hex_digit n \<noteq> CHR ''*''"
proof
  assume n: "n < 16" "hex_digit n = CHR ''*''"
  have "(48 :: nat) \<le> of_char (hex_digit n)" using n(1) by (simp add: hex_digit_def)
  with n(2) show False by simp
qed

lemma percent_encode_not_star: "CHR ''*'' \<notin> set (percent_encode_all v form)"
proof -
  have star: "\<not> is_unreserved CHR ''*''"
    by (simp add: is_unreserved_def is_alpha_def is_lower_def is_upper_def is_digit_def less_eq_char_def)
  have "CHR ''*'' \<notin> set (percent_encode_byte form b)" if "b < 256" for b
  proof -
    have "b div 16 < 16" "b mod 16 < 16" using that by (simp_all add: less_mult_imp_div_less)
    from hex_digit_not_star [OF this(1)] hex_digit_not_star [OF this(2)] star show ?thesis
      by (auto simp: percent_encode_byte_def Let_def simp del: char_of_def)
  qed
  then show ?thesis using utf8_bytes_less by (auto simp: percent_encode_all_def)
qed

lemma base64_char_not_star: "n < 64 \<Longrightarrow> base64_char n \<noteq> CHR ''*''"
  using is_base64_char_char [of n]
  by (auto simp: is_base64_char_def base64_value_def is_upper_def is_lower_def is_digit_def less_eq_char_def)

lemma confident_not_star: "p \<in> set (base64_confident_substrings v) \<Longrightarrow> CHR ''*'' \<notin> set p"
proof -
  have bytes: "\<forall>b\<in>set (utf8_bytes v). b < 256" using utf8_bytes_less by blast
  have "CHR ''*'' \<notin> set (base64_candidate (utf8_bytes v) k)" for k
  proof -
    have "\<forall>b\<in>set (replicate k 0 @ utf8_bytes v). b < 256" using bytes by auto
    from base64_char_not_star [OF sextet_at_less [OF this]] show ?thesis
      by (auto simp: candidate_sextets [OF bytes] dest: sym)
  qed
  moreover from this have "CHR ''*'' \<notin> set (url_safe (base64_candidate (utf8_bytes v) k))" for k
    by (auto simp: url_safe_map)
  moreover assume "p \<in> set (base64_confident_substrings v)"
  ultimately show ?thesis
    by (auto simp: base64_confident_substrings_def Let_def split: if_splits)
qed

lemma set_expand_mask_patterns:
  "set (expand_mask_patterns values) =
     (\<Union>v\<in>{v\<in>set values. v \<noteq> []}.
        {v, percent_encode_all v False, percent_encode_all v True} \<union> set (base64_confident_substrings v))"
  by (auto simp: expand_mask_patterns_def split: if_splits)

lemma expand_not_star:
  "\<forall>v\<in>set values. CHR ''*'' \<notin> set v \<Longrightarrow> \<forall>p\<in>set (expand_mask_patterns values). CHR ''*'' \<notin> set p"
  by (auto simp: set_expand_mask_patterns percent_encode_not_star dest: confident_not_star)

lemma percent_encode_nonempty: "v \<noteq> [] \<Longrightarrow> percent_encode_all v form \<noteq> []"
proof
  have nil: "utf8_bytes [] = []" by (simp add: utf8_bytes_def)
  assume "percent_encode_all v form = []"
  then have "utf8_bytes v = utf8_bytes []" using percent_decode_encode [of form v] nil by simp
  moreover assume "v \<noteq> []"
  ultimately show False by (simp add: utf8_bytes_inject)
qed

text \<open>
  \<open>appears\<close>: a text shows a secret when it holds the value, one of its percent encodings, or
  the base64 text (in either alphabet) of a byte stream the value is part of, at any offset.
\<close>

definition appears :: "string \<Rightarrow> string \<Rightarrow> bool" where
  "appears v text \<longleftrightarrow>
     sublist v text \<or> (\<exists>form. sublist (percent_encode_all v form) text) \<or>
     (7 \<le> length (utf8_bytes v) \<and>
      (\<exists>pre post. sublist (base64_encode (pre @ utf8_bytes v @ post)) text \<or>
         sublist (url_safe (base64_encode (pre @ utf8_bytes v @ post))) text))"

lemma masked_secret_absent:
  assumes "\<forall>v\<in>set values. CHR ''*'' \<notin> set v" and "v \<in> set values" and "v \<noteq> []"
  shows "\<not> appears v (mask_text text (expand_mask_patterns values))"
proof -
  let ?out = "mask_text text (expand_mask_patterns values)"
  have gone: "\<not> sublist q ?out"
    if "p \<in> set (expand_mask_patterns values)" "p \<noteq> []" "sublist p q" for p q
    using mask_text_free [OF expand_not_star [OF assms(1)] that(1,2)] that(3)
    by (meson sublist_order.order_trans)
  have own: "{v, percent_encode_all v False, percent_encode_all v True} \<union> set (base64_confident_substrings v)
      \<subseteq> set (expand_mask_patterns values)"
    using assms(2,3) by (auto simp: set_expand_mask_patterns)
  have "\<not> sublist v ?out" "\<not> sublist (percent_encode_all v form) ?out" for form
  proof -
    show "\<not> sublist v ?out" using gone [of v v] own assms(3) by blast
    have "percent_encode_all v form \<in> set (expand_mask_patterns values)"
      using own by (cases form) auto
    then show "\<not> sublist (percent_encode_all v form) ?out"
      using gone percent_encode_nonempty [OF assms(3)] by blast
  qed
  moreover have "\<not> sublist (base64_encode (pre @ utf8_bytes v @ post)) ?out \<and>
      \<not> sublist (url_safe (base64_encode (pre @ utf8_bytes v @ post))) ?out"
    if seven: "7 \<le> length (utf8_bytes v)" for pre post
  proof -
    obtain p where p: "p \<in> set (base64_confident_substrings v)" "url_safe p \<in> set (base64_confident_substrings v)"
        "8 \<le> length p" "sublist p (base64_encode (pre @ utf8_bytes v @ post))"
      using confident_substrings_occur [OF seven] by blast
    have "p \<noteq> []" "url_safe p \<noteq> []" using p(3) by (auto simp: url_safe_map)
    with p own gone sublist_url_safe [OF p(4)] show ?thesis by blast
  qed
  ultimately show ?thesis by (auto simp: appears_def)
qed

text \<open>
  C32: what is masked shows no secret. When no registered value contains the character of the
  replacement itself, a text masked with the patterns of the registry shows none of the
  (non-empty) values in any of the forms: plain, percent-encoded, or inside the base64 text of
  a longer stream, at any of the three alignments and in both alphabets, for values of at
  least seven bytes.
\<close>

theorem masking_hides_secrets:
  assumes "\<forall>v\<in>set values. CHR ''*'' \<notin> set v"
  shows "\<forall>v\<in>set values. v \<noteq> [] \<longrightarrow> \<not> appears v (mask_text text (expand_mask_patterns values))"
  using masked_secret_absent [OF assms] by blast

theorem masking_hides_secrets_witness:
  "\<not> appears ''hunter22'' (mask_text ''/v1?key=hunter22&x=1'' (expand_mask_patterns [''hunter22'']))"
  using masking_hides_secrets [of "[''hunter22'']" "''/v1?key=hunter22&x=1''"] by simp

end
