(* ===== verification/Broker.thy ===== *)
theory Broker
  imports Secrets TtlCache Credentials MaskPatterns JsonText "HOL-Library.List_Lexorder"
begin

text \<open>
  The data of the session broker (\<open>src/network/broker.ts\<close>) and its pure helpers: the groups
  of pending requests, the keys under which an answer is remembered, the granularities a
  group offers, the decoration of an allowed decision, and the records it shows and logs.
  What the handlers do with them is in \<open>BrokerSteps\<close>.

  The keys join their parts with NUL. The lemmas at the end show that they are injective on
  what they identify as long as no rule name contains NUL.
\<close>

section \<open>Groups of pending requests\<close>

text \<open>
  A waiter is the function that settles the promise a handler awaits; the model identifies it
  with the handler, a number. A timer is whether it is still running.
\<close>

record pending_authorize =
  pa_request :: authorize_request
  pa_status :: body_audit_status

datatype group_body =
    AuthorizeBody decision_reason "inject_preview list" "(string \<times> pending_authorize) list"
      "(string \<times> decision) list"
  | ViolationBody "string list" "violation_finding list" "(string \<times> review_request) list"

record pending_group =
  pg_key :: string
  pg_rule_id :: string
  pg_created_at :: int
  pg_target :: target_address
  pg_waiters :: "(string \<times> nat) list"
  pg_timer :: bool
  pg_notified :: bool
  pg_allowed_scopes :: "approval_scope list"
  pg_body :: group_body

fun group_requests :: "group_body \<Rightarrow> string list" where
  "group_requests (AuthorizeBody reason inject requests decisions) = map fst requests"
| "group_requests (ViolationBody identities findings requests) = map fst requests"

section \<open>Keys\<close>

definition nul :: char where "nul = CHR 0x00"

fun reason_text :: "decision_reason \<Rightarrow> string" where
  "reason_text ByRule = ''rule''"
| "reason_text ByIndeterminate = ''indeterminate''"
| "reason_text ByScopeFallback = ''scope-fallback''"
| "reason_text ByNetworkFallback = ''network-fallback''"
| "reason_text ByWebsocketDenied = ''websocket-denied''"

fun scope_text :: "approval_scope \<Rightarrow> string" where
  "scope_text ScOnce = ''once''"
| "scope_text ScRule = ''rule''"
| "scope_text ScHostPort = ''host-port''"
| "scope_text ScHost = ''host''"
| "scope_text ScViolation = ''violation''"

definition approval_key :: "string \<Rightarrow> decision_reason \<Rightarrow> target_address \<Rightarrow> approval_scope \<Rightarrow> string" where
  "approval_key rid reason target scope =
     (let pinned = (if scope = ScHost then ta_host target else target_key target) in
      rid @ [nul] @ reason_text reason @ [nul] @ scope_text scope @ [nul] @ pinned)"

definition approval_keys :: "string \<Rightarrow> decision_reason \<Rightarrow> target_address \<Rightarrow> string list" where
  "approval_keys rid reason target =
     [approval_key rid reason target ScRule,
      approval_key rid reason target ScHostPort,
      approval_key rid reason target ScHost]"

definition pending_group_key :: "string \<Rightarrow> string \<Rightarrow> decision_reason \<Rightarrow> target_address \<Rightarrow> string" where
  "pending_group_key session_id rid reason target =
     session_id @ [nul] @ rid @ [nul] @ reason_text reason @ [nul] @ target_key target"

definition violation_key :: "string \<Rightarrow> violation_finding \<Rightarrow> string" where
  "violation_key rid finding =
     rid @ [nul] @ int_text (vf_expect finding) @ [nul] @ json_stringify (json_nullable (vf_value finding))"

definition violation_group_key :: "string \<Rightarrow> string \<Rightarrow> string list \<Rightarrow> string" where
  "violation_group_key session_id rid identities =
     join_with [nul] ([session_id, rid] @ sort identities)"

section \<open>What a group offers and asks\<close>

definition scope_pins_target :: "resolved_scope option \<Rightarrow> bool" where
  "scope_pins_target scope =
     (case scope of
        None \<Rightarrow> False
      | Some s \<Rightarrow>
          (case rs_targets s of
             [target] \<Rightarrow> (case tg_host target of ExactHost h \<Rightarrow> tg_port target \<noteq> None | SuffixHost h \<Rightarrow> False)
           | _ \<Rightarrow> False))"

definition approval_scopes_for :: "decision \<Rightarrow> approval_scope list" where
  "approval_scopes_for decided =
     (if scope_pins_target (de_scope decided) then [ScOnce, ScRule] else [ScOnce, ScHostPort, ScHost])"

definition violation_scopes_for :: "violation_finding list \<Rightarrow> approval_scope list" where
  "violation_scopes_for asked =
     (if list_all (\<lambda>finding. vf_label finding \<noteq> None) asked then [ScOnce] else [ScOnce, ScViolation])"

definition violation_needs_approval :: "resolved_rule \<Rightarrow> violation_finding \<Rightarrow> bool" where
  "violation_needs_approval rule finding =
     (if vf_expect finding < 0 then True
      else if nat (vf_expect finding) < length (rr_expect rule)
           then re_on_violation (rr_expect rule ! nat (vf_expect finding)) = VaReview
           else True)"

definition find_rule_by_id :: "resolved_document \<Rightarrow> string \<Rightarrow> resolved_rule option" where
  "find_rule_by_id document rid =
     first_some (\<lambda>scope. List.find (\<lambda>rule. rr_id rule = rid) (rs_rules scope)) (doc_scopes document)"

section \<open>Answers\<close>

definition allow_decision :: "string \<Rightarrow> string \<Rightarrow> approval_scope option \<Rightarrow> decision_response" where
  "allow_decision request_id reason scope =
     \<lparr>rp_request_id = request_id, rp_verdict = Allow, rp_approval_scope = scope, rp_reason = reason,
      rp_rule_id = None, rp_message = None, rp_inject_headers = None, rp_mask_values = None,
      rp_forbid_values = None, rp_remove_headers = None\<rparr>"

definition deny_decision :: "string \<Rightarrow> string \<Rightarrow> approval_scope option \<Rightarrow> decision_response" where
  "deny_decision request_id reason scope =
     \<lparr>rp_request_id = request_id, rp_verdict = Deny, rp_approval_scope = scope, rp_reason = reason,
      rp_rule_id = None, rp_message = Some reason, rp_inject_headers = None, rp_mask_values = None,
      rp_forbid_values = None, rp_remove_headers = None\<rparr>"

definition decorate_with_policy ::
  "secret_values \<Rightarrow> bool \<Rightarrow> decision_response \<Rightarrow> decision option \<Rightarrow> decision_response"
where
  "decorate_with_policy secrets proxy_masking decision decided =
     (if rp_verdict decision \<noteq> Allow then decision
      else case decided of
        None \<Rightarrow> decision
      | Some d \<Rightarrow>
          (let inject_headers = render_inject_headers (de_inject d) secrets;
               mask_values = (if proxy_masking then mask_values_for secrets (de_secrets d) else []);
               forbid_values = (if proxy_masking then forbid_values_for secrets (de_secrets d) else []);
               r0 = decision\<lparr>rp_rule_id := Some (de_rule_id d)\<rparr>;
               r1 = (if inject_headers \<noteq> [] then r0\<lparr>rp_inject_headers := Some inject_headers\<rparr> else r0);
               r2 = (if mask_values \<noteq> [] then r1\<lparr>rp_mask_values := Some mask_values\<rparr> else r1)
           in if forbid_values \<noteq> [] then r2\<lparr>rp_forbid_values := Some forbid_values\<rparr> else r2))"

definition request_path :: "review_context option \<Rightarrow> string option" where
  "request_path ctx = map_option rx_path ctx"

text \<open>
  The request as the decision reads it. The path of a request without a context is empty, and
  the body is not sent to the broker: its truth comes with the message.
\<close>

definition to_authz_request :: "authorize_request \<Rightarrow> decision_request" where
  "to_authz_request m =
     \<lparr>dr_method = to_upper (aq_method m),
      dr_path = path_for_selection
        (case request_path (aq_review_context m) of None \<Rightarrow> '''' | Some p \<Rightarrow> p),
      dr_body = None,
      dr_transport = Some (aq_transport m)\<rparr>"

definition decide_message :: "resolved_document \<Rightarrow> authorize_request \<Rightarrow> decision option" where
  "decide_message document m =
     decide document (aq_target m) (to_authz_request m)
       (Some (\<lambda>rule. case map_of (aq_body_truth m) (rr_id rule) of Some t \<Rightarrow> t | None \<Rightarrow> Indeterminate))"

definition selected_body_diagnostic ::
  "authorize_request \<Rightarrow> decision_reason \<Rightarrow> string \<Rightarrow> body_diagnostic option"
where
  "selected_body_diagnostic m reason rid =
     (if reason = ByIndeterminate then map_of (aq_body_diagnostics m) rid else None)"

section \<open>What is shown and logged\<close>

record pending_entry =
  pe_session_id :: string
  pe_request_id :: string
  pe_target :: target_address
  pe_method :: string
  pe_request_kind :: request_kind
  pe_created_at :: int
  pe_updated_at :: int
  pe_review_context :: "review_context option"
  pe_rule_id :: string
  pe_ask_reason :: "decision_reason option"
  pe_body_diagnostic :: "body_diagnostic option"
  pe_audit_status :: "body_audit_status option"
  pe_approval_scopes :: "approval_scope list"
  pe_inject_headers :: "inject_preview list"
  pe_violations :: "violation_finding list option"

datatype audit_phase = PhaseAuthorization | PhaseRequestPolicy

record audit_violation =
  av_expect :: int
  av_at :: string
  av_kind :: finding_kind
  av_pointer :: string
  av_value :: "string option"
  av_label :: "string option"
  av_count :: nat

text \<open>\<open>AuditLogEntry\<close> without the random identifier, the time and the constant domain.\<close>

record audit_entry =
  ae_principal :: principal
  ae_session_id :: string
  ae_request_id :: string
  ae_decision :: verdict
  ae_reason :: string
  ae_phase :: audit_phase
  ae_rule_id :: "string option"
  ae_method :: "string option"
  ae_path :: "string option"
  ae_route :: "string option"
  ae_result :: "string option"
  ae_target :: "string option"
  ae_injected_headers :: "string list option"
  ae_body_diagnostic :: "body_diagnostic option"
  ae_audit_status :: "body_audit_status option"
  ae_violations :: "audit_violation list option"

definition to_audit_violation :: "violation_finding \<Rightarrow> audit_violation" where
  "to_audit_violation f =
     \<lparr>av_expect = vf_expect f, av_at = vf_at f, av_kind = vf_kind f, av_pointer = vf_pointer f,
      av_value = vf_value f, av_label = vf_label f, av_count = vf_count f\<rparr>"

definition masked_findings :: "string list \<Rightarrow> violation_finding list \<Rightarrow> violation_finding list" where
  "masked_findings patterns findings =
     (if length patterns = 0 then findings
      else map (\<lambda>f. f\<lparr>vf_pointer := mask_text (vf_pointer f) patterns,
                       vf_value := map_option (\<lambda>s. mask_text s patterns) (vf_value f),
                       vf_label := map_option (\<lambda>s. mask_text s patterns) (vf_label f),
                       vf_excerpt := map_option (\<lambda>s. mask_text s patterns) (vf_excerpt f)\<rparr>) findings)"

section \<open>The broker\<close>

text \<open>\<open>RequestBodyAuditConfig\<close>; the retention limits are passed on to the store.\<close>

record body_audit_config =
  ba_enable :: bool
  ba_max_body_bytes :: nat

text \<open>
  What the broker asks of the outside, in order: files of pending requests, the audit log, and
  notifications. The effects are a log of the model only, no code reads them back.
\<close>

datatype effect =
    WriteEntry pending_entry
  | RemoveEntry string string
  | AppendAudit audit_entry
  | Notify string target_address

text \<open>
  The fields of \<open>SessionBroker\<close>. The sets of keys are sets of strings, the maps association
  lists, and \<open>bk_heap\<close> holds every group object that was ever made: \<open>bk_groups\<close> refers to it
  by position, as do the continuations that still hold a group the map has dropped.
\<close>

record broker =
  bk_session_id :: string
  bk_document :: resolved_document
  bk_principal :: principal
  bk_audit_dir :: bool
  bk_secret_values :: secret_values
  bk_agent_credentials :: "agent_credential list"
  bk_proxy_masking :: bool
  bk_body_audit :: body_audit_config
  bk_mask_patterns :: "string list"
  bk_approved :: "string set"
  bk_denied :: "string set"
  bk_approved_violations :: "string set"
  bk_denied_violations :: "string set"
  bk_negative :: "(string, bool) ttl_lru_cache"
  bk_groups :: "(string \<times> nat) list"
  bk_request_index :: "(string \<times> string) list"
  bk_heap :: "pending_group list"
  bk_effects :: "effect list"

record broker_options =
  bo_session_id :: string
  bo_document :: resolved_document
  bo_principal :: principal
  bo_audit_dir :: bool
  bo_secret_values :: secret_values
  bo_agent_credentials :: "agent_credential list"
  bo_proxy_masking :: bool
  bo_body_audit :: body_audit_config
  bo_negative_ttl :: "int option"

text \<open>
  \<open>new TtlLruCache({ maxSize: 1024, ttlMs })\<close>, and the constructor. It raises for a negative
  period, which only tests pass.
\<close>

definition broker_new :: "broker_options \<Rightarrow> broker option" where
  "broker_new opts =
     map_option (\<lambda>cache.
       \<lparr>bk_session_id = bo_session_id opts, bk_document = bo_document opts,
        bk_principal = bo_principal opts, bk_audit_dir = bo_audit_dir opts,
        bk_secret_values = bo_secret_values opts,
        bk_agent_credentials = (if bo_principal opts = AgentPrincipal then bo_agent_credentials opts else []),
        bk_proxy_masking = bo_proxy_masking opts, bk_body_audit = bo_body_audit opts,
        bk_mask_patterns = expand_mask_patterns (concat (map snd (bo_secret_values opts))),
        bk_approved = {}, bk_denied = {}, bk_approved_violations = {}, bk_denied_violations = {},
        bk_negative = cache, bk_groups = [], bk_request_index = [], bk_heap = [], bk_effects = []\<rparr>)
       (cache_new 1024 (case bo_negative_ttl opts of Some t \<Rightarrow> t | None \<Rightarrow> 30000))"

text \<open>The nested broker for the daemon of the container, when the session has a document for it.\<close>

definition dind_broker_new :: "broker_options \<Rightarrow> resolved_document option \<Rightarrow> broker option" where
  "dind_broker_new opts dind_document =
     (case dind_document of
        None \<Rightarrow> None
      | Some document \<Rightarrow>
          (if bo_principal opts = AgentPrincipal
           then broker_new (opts\<lparr>bo_document := document, bo_principal := DindPrincipal, bo_agent_credentials := []\<rparr>)
           else None))"

definition decorate_allow ::
  "broker \<Rightarrow> decision_response \<Rightarrow> decision option \<Rightarrow> authorize_request \<Rightarrow> decision_response"
where
  "decorate_allow b decision decided request =
     apply_agent_credentials
       (decorate_with_policy (bk_secret_values b) (bk_proxy_masking b) decision decided)
       (ta_host (aq_target request)) (request_path (aq_review_context request)) (bk_agent_credentials b)"

definition masked_review_context :: "broker \<Rightarrow> review_context option \<Rightarrow> review_context option" where
  "masked_review_context b ctx = mask_review_context_with_patterns ctx (bk_mask_patterns b)"

definition to_violation_pending_entry ::
  "review_request \<Rightarrow> pending_group \<Rightarrow> int \<Rightarrow> review_context option \<Rightarrow> violation_finding list \<Rightarrow> pending_entry"
where
  "to_violation_pending_entry m grp now masked_context masked =
     \<lparr>pe_session_id = vq_session_id m, pe_request_id = vq_request_id m, pe_target = vq_target m,
      pe_method = vq_method m, pe_request_kind = KindForward, pe_created_at = pg_created_at grp,
      pe_updated_at = now, pe_review_context = masked_context, pe_rule_id = pg_rule_id grp,
      pe_ask_reason = None, pe_body_diagnostic = None, pe_audit_status = None,
      pe_approval_scopes = pg_allowed_scopes grp, pe_inject_headers = [], pe_violations = Some masked\<rparr>"

definition to_pending_entry ::
  "authorize_request \<Rightarrow> pending_group \<Rightarrow> decision_reason \<Rightarrow> inject_preview list \<Rightarrow> int \<Rightarrow>
     review_context option \<Rightarrow> body_audit_status \<Rightarrow> pending_entry"
where
  "to_pending_entry m grp reason inject_headers now masked_context status =
     \<lparr>pe_session_id = aq_session_id m, pe_request_id = aq_request_id m, pe_target = aq_target m,
      pe_method = aq_method m, pe_request_kind = aq_request_kind m, pe_created_at = pg_created_at grp,
      pe_updated_at = now, pe_review_context = masked_context, pe_rule_id = pg_rule_id grp,
      pe_ask_reason = Some reason,
      pe_body_diagnostic = selected_body_diagnostic m reason (pg_rule_id grp),
      pe_audit_status = Some status, pe_approval_scopes = pg_allowed_scopes grp,
      pe_inject_headers = inject_headers, pe_violations = None\<rparr>"

definition emit :: "effect \<Rightarrow> broker \<Rightarrow> broker" where
  "emit e b = b\<lparr>bk_effects := bk_effects b @ [e]\<rparr>"

definition record_audit ::
  "authorize_request \<Rightarrow> verdict \<Rightarrow> string \<Rightarrow> string \<Rightarrow> string list option \<Rightarrow> string option \<Rightarrow>
     body_diagnostic option \<Rightarrow> body_audit_status \<Rightarrow> broker \<Rightarrow> broker"
where
  "record_audit m decision reason target injected rid diagnostic status b =
     (if \<not> bk_audit_dir b \<and> \<not> ba_enable (bk_body_audit b) then b
      else emit (AppendAudit
        \<lparr>ae_principal = bk_principal b, ae_session_id = bk_session_id b, ae_request_id = aq_request_id m,
         ae_decision = decision, ae_reason = reason, ae_phase = PhaseAuthorization, ae_rule_id = rid,
         ae_method = Some (aq_method m),
         ae_path = request_path (masked_review_context b (aq_review_context m)),
         ae_route = None, ae_result = None, ae_target = Some target, ae_injected_headers = injected,
         ae_body_diagnostic = diagnostic, ae_audit_status = Some status, ae_violations = None\<rparr>) b)"

definition record_violation_audit ::
  "review_request \<Rightarrow> verdict \<Rightarrow> string \<Rightarrow> string \<Rightarrow> violation_finding list \<Rightarrow> broker \<Rightarrow> broker"
where
  "record_violation_audit m decision reason target findings b =
     (if \<not> bk_audit_dir b then b
      else emit (AppendAudit
        \<lparr>ae_principal = bk_principal b, ae_session_id = bk_session_id b, ae_request_id = vq_request_id m,
         ae_decision = decision, ae_reason = reason, ae_phase = PhaseRequestPolicy,
         ae_rule_id = Some (vq_rule_id m), ae_method = Some (vq_method m),
         ae_path = request_path (masked_review_context b (vq_review_context m)),
         ae_route = None, ae_result = None, ae_target = Some target, ae_injected_headers = None,
         ae_body_diagnostic = None, ae_audit_status = None,
         ae_violations = Some (map to_audit_violation (masked_findings (bk_mask_patterns b) findings))\<rparr>) b)"

text \<open>
  \<open>captureRequestBody\<close>. A stored body is the documented result of \<open>storeRequestBody\<close>, an
  argument: \<open>None\<close> when it raises.
\<close>

datatype request_body_capture =
    CaptureDisabled
  | CaptureNotApplicable
  | CaptureUnavailable string
  | CaptureAttached nat string

definition capture_request_body ::
  "body_audit_config \<Rightarrow> request_body_capture \<Rightarrow> body_audit_status option \<Rightarrow> body_audit_status"
where
  "capture_request_body config capture stored =
     (if \<not> ba_enable config then AuditDisabled
      else case capture of
        CaptureDisabled \<Rightarrow> AuditUnavailable ''invalid-capture''
      | CaptureNotApplicable \<Rightarrow> AuditNotApplicable
      | CaptureUnavailable code \<Rightarrow> AuditUnavailable code
      | CaptureAttached byte_length data \<Rightarrow>
          (if byte_length > ba_max_body_bytes config then AuditUnavailable ''body-too-large''
           else if length (base64_decode data) > ba_max_body_bytes config
                then AuditUnavailable ''body-too-large''
           else case stored of None \<Rightarrow> AuditUnavailable ''store-failed'' | Some status \<Rightarrow> status))"

section \<open>The keys identify\<close>

abbreviation nul_free :: "string \<Rightarrow> bool" where
  "nul_free s \<equiv> nul \<notin> set s"

lemma nul_split:
  assumes "nul_free a" "nul_free a'"
  shows "a @ nul # b = a' @ nul # b' \<longleftrightarrow> a = a' \<and> b = b'"
proof
  assume eq: "a @ nul # b = a' @ nul # b'"
  have "takeWhile (\<lambda>c. c \<noteq> nul) (x @ nul # y) = x \<and> dropWhile (\<lambda>c. c \<noteq> nul) (x @ nul # y) = nul # y"
    if "nul_free x" for x y
    using that by (induction x) auto
  from this [OF assms(1), of b] this [OF assms(2), of b'] show "a = a' \<and> b = b'"
    unfolding eq by (metis list.inject)
qed simp

lemma nat_text_nul_free [simp]: "nul_free (nat_text n)"
proof
  assume "nul \<in> set (nat_text n)"
  then have "is_digit nul" by (rule nat_text_digits)
  then show False by (simp add: nul_def is_digit_def less_eq_char_def)
qed

lemma int_text_nul_free [simp]: "nul_free (int_text i)"
  by (auto simp: int_text_def) (simp add: nul_def)

lemma reason_text_nul_free [simp]: "nul_free (reason_text r)"
  by (cases r) (simp_all add: nul_def)

lemma scope_text_nul_free [simp]: "nul_free (scope_text s)"
  by (cases s) (simp_all add: nul_def)

lemma reason_text_inject [simp]: "reason_text r = reason_text s \<longleftrightarrow> r = s"
  by (cases r; cases s) simp_all

lemma scope_text_inject [simp]: "scope_text r = scope_text s \<longleftrightarrow> r = s"
  by (cases r; cases s) simp_all

lemma json_escape_nul_free: "nul_free (json_escape c)"
proof (cases c rule: json_escape_cases)
  case hex
  have digit: "hex_lower m \<noteq> nul" if "m < 16" for m
  proof -
    have "of_char (hex_lower m) \<noteq> (of_char nul :: nat)" using that by (simp add: hex_lower_def nul_def)
    then show ?thesis by auto
  qed
  have "of_char c div 16 < (16 :: nat)" "of_char c mod 16 < (16 :: nat)" using hex(2) by simp_all
  from digit [OF this(1)] digit [OF this(2)] show ?thesis unfolding hex(1) by (simp add: nul_def)
next
  case short
  then show ?thesis by (auto simp: json_escape_def Let_def nul_def)
next
  case plain
  then show ?thesis by (auto simp: nul_def)
qed

lemma json_nullable_nul_free [simp]: "nul_free (json_stringify (json_nullable v))"
  by (cases v) (auto simp: json_nullable_def json_quote_def json_escape_nul_free, simp_all add: nul_def)

text \<open>The keys of the answers to a review.\<close>

lemma approval_key_inject:
  assumes "nul_free rid" "nul_free rid'"
  shows "approval_key rid r t s = approval_key rid' r' t' s' \<longleftrightarrow>
    rid = rid' \<and> r = r' \<and> s = s' \<and> (if s = ScHost then ta_host t = ta_host t' else t = t')"
  using assms by (auto simp: approval_key_def nul_split split: if_splits)

lemma pending_group_key_inject:
  assumes "nul_free rid" "nul_free rid'"
  shows "pending_group_key sid rid r t = pending_group_key sid rid' r' t' \<longleftrightarrow> rid = rid' \<and> r = r' \<and> t = t'"
  using assms by (simp add: pending_group_key_def nul_split)

lemma violation_key_inject:
  assumes "nul_free rid" "nul_free rid'"
  shows "violation_key rid f = violation_key rid' f' \<longleftrightarrow>
    rid = rid' \<and> vf_expect f = vf_expect f' \<and> vf_value f = vf_value f'"
  using assms by (simp add: violation_key_def nul_split)

text \<open>A group of violations: the parts between the NULs of its key, three for each identity.\<close>

definition key_parts :: "string \<Rightarrow> violation_finding \<Rightarrow> string list" where
  "key_parts rid f = [rid, int_text (vf_expect f), json_stringify (json_nullable (vf_value f))]"

lemma violation_key_parts: "violation_key rid f = join_with [nul] (key_parts rid f)"
  by (simp add: violation_key_def key_parts_def)

lemma join_with_append:
  "xs \<noteq> [] \<Longrightarrow> ys \<noteq> [] \<Longrightarrow> join_with sep (xs @ ys) = join_with sep xs @ sep @ join_with sep ys"
proof (induction xs rule: list_nonempty_induct)
  case (single x)
  then show ?case by (cases ys) simp_all
next
  case (cons x xs)
  then show ?case by (cases xs) simp_all
qed

lemma join_with_concat:
  "\<forall>p\<in>set pss. p \<noteq> [] \<Longrightarrow> join_with sep (map (join_with sep) pss) = join_with sep (concat pss)"
proof (induction pss)
  case (Cons p pss)
  show ?case
  proof (cases pss)
    case Nil
    then show ?thesis by simp
  next
    case (Cons q qs)
    then have "p \<noteq> []" "concat pss \<noteq> []" using \<open>\<forall>p\<in>set (p # pss). p \<noteq> []\<close> by auto
    from join_with_append [OF this, of sep] Cons.IH Cons.prems Cons show ?thesis by simp
  qed
qed simp

lemma concat_three_inject:
  "concat (map (\<lambda>f. [a f, b f, c f]) fs) = concat (map (\<lambda>f. [a f, b f, c f]) gs) \<Longrightarrow>
     map (\<lambda>f. (a f, b f, c f)) fs = map (\<lambda>f. (a f, b f, c f)) gs"
proof (induction fs arbitrary: gs)
  case Nil
  then show ?case by (cases gs) simp_all
next
  case (Cons f fs)
  then obtain g gs' where gs: "gs = g # gs'" by (cases gs) simp_all
  with Cons.prems have "concat (map (\<lambda>f. [a f, b f, c f]) fs) = concat (map (\<lambda>f. [a f, b f, c f]) gs')"
    by simp
  from Cons.IH [OF this] Cons.prems gs show ?case by simp
qed

lemma sort_map_key: "sort (map f xs) = map f (sort_key f xs)"
proof (induction xs)
  case (Cons x xs)
  have "insort (f x) (map f ys) = map f (insort_key f x ys)" for ys
    by (induction ys) simp_all
  with Cons show ?case by simp
qed simp

lemma sorted_identities:
  obtains gs where "sort (map (violation_key rid) fs) = map (violation_key rid) gs" "set gs = set fs"
  using sort_map_key [of "violation_key rid" fs] by (metis set_sort)

lemma violation_group_key_inject:
  assumes "nul_free rid" "nul_free rid'"
    and "violation_group_key sid rid (map (violation_key rid) fs) =
      violation_group_key sid rid' (map (violation_key rid') fs')"
  shows "rid = rid' \<and> violation_key rid ` set fs = violation_key rid' ` set fs'"
proof -
  obtain gs where gs: "sort (map (violation_key rid) fs) = map (violation_key rid) gs" "set gs = set fs"
    by (rule sorted_identities)
  obtain gs' where gs': "sort (map (violation_key rid') fs') = map (violation_key rid') gs'" "set gs' = set fs'"
    by (rule sorted_identities)
  have key: "violation_group_key sid r (map (violation_key r) xs) =
      sid @ [nul] @ join_with [nul] (r # concat (map (key_parts r) ys))"
    if "sort (map (violation_key r) xs) = map (violation_key r) ys" for r xs ys
  proof -
    have "r # concat (map (key_parts r) ys) = concat ([r] # map (key_parts r) ys)" by simp
    then have "join_with [nul] (r # concat (map (key_parts r) ys)) =
        join_with [nul] (map (join_with [nul]) ([r] # map (key_parts r) ys))"
      by (metis (no_types, lifting) join_with_concat key_parts_def list.distinct(1) list.set_map
          image_iff set_ConsD)
    also have "map (join_with [nul]) ([r] # map (key_parts r) ys) = r # map (violation_key r) ys"
      by (simp add: violation_key_parts)
    finally show ?thesis
      unfolding violation_group_key_def that by simp
  qed
  have "join_with [nul] (rid # concat (map (key_parts rid) gs)) =
      join_with [nul] (rid' # concat (map (key_parts rid') gs'))"
    using assms(3) unfolding key [OF gs(1)] key [OF gs'(1)] by simp
  moreover have "split_on nul (join_with [nul] (r # concat (map (key_parts r) ys))) = r # concat (map (key_parts r) ys)"
    if "nul_free r" for r ys
    using that by (intro split_join) (auto simp: key_parts_def split: if_splits)
  ultimately have eq: "rid = rid'" "concat (map (key_parts rid) gs) = concat (map (key_parts rid') gs')"
    using assms(1,2) by (metis list.inject)+
  then have "map (\<lambda>f. (rid, int_text (vf_expect f), json_stringify (json_nullable (vf_value f)))) gs =
      map (\<lambda>f. (rid, int_text (vf_expect f), json_stringify (json_nullable (vf_value f)))) gs'"
    by (intro concat_three_inject) (simp add: key_parts_def [abs_def])
  from arg_cong [OF this, of "map (\<lambda>(a, b, c). a @ [nul] @ b @ [nul] @ c)"]
  have "map (violation_key rid) gs = map (violation_key rid) gs'"
    by (simp add: violation_key_def [abs_def] comp_def)
  then have "violation_key rid ` set gs = violation_key rid ` set gs'"
    by (metis list.set_map)
  with eq(1) gs(2) gs'(2) show ?thesis by simp
qed

end
