(* ===== verification/BrokerSteps.thy ===== *)
theory BrokerSteps
  imports Broker
begin

text \<open>
  What the handlers of the session broker do (\<open>src/network/broker.ts\<close>). An \<open>async\<close> handler runs
  without interruption from one \<open>await\<close> to the next, and anything may happen in between. Each
  such segment is a function from the broker to the broker, the promises it settles and the
  task that continues when the awaited operation is over. The step relation of \<open>BrokerRuns\<close>
  runs the segments in any order.

  An operation whose awaiting has no effect on the broker (the audit log, a notification, a
  file) is an effect of the segment that starts it. \<open>resolveRequest\<close> first awaits the end of the
  notification of an emptied group and then the removal of the file; the two are one wait, and
  the removal is an effect of the segment after it.
\<close>

section \<open>Tasks\<close>

datatype broker_response =
    ReplyDecision decision_response
  | ReplyOutcome string
  | ReplyPending
  | ReplyAck string verdict
  | ReplyError string string

datatype pending_request = PendingAuthorize pending_authorize | PendingReview review_request

text \<open>
  A task is what a handler continues with: \<open>CaptureBody\<close> awaits the capture of the body,
  \<open>EntryWritten\<close> and \<open>ReviewEntryWritten\<close> the file of a pending request (the flag tells whether
  the group is new), \<open>Waiting\<close> the answer of a group, \<open>ResolvingGroup\<close> the end of a notification,
  \<open>EntryRemoved\<close> and \<open>RequestDetached\<close> the removal of a file, \<open>Audited\<close> and \<open>RequestAudited\<close> the
  log. The last argument of a resolution is the reply of the handler that started it; the
  timer has none.
\<close>

datatype task =
    CaptureBody authorize_request request_body_capture
  | EntryWritten nat authorize_request decision body_audit_status bool
  | ReviewEntryWritten nat review_request bool
  | Waiting nat
  | Replying broker_response
  | ResolvingGroup nat decision_response verdict bool "broker_response option"
  | EntryRemoved nat decision_response verdict "string list" string pending_request "broker_response option"
  | Audited nat decision_response verdict "string list" string decision_response "broker_response option"
  | RequestDetached nat pending_request "decision option" "nat option" decision_response verdict string
      "broker_response option"
  | RequestAudited nat "nat option" decision_response "broker_response option"
  | ClosingBroker
  | Done "broker_response option"
  | Failed

text \<open>The broker after a segment, the promises it settled, and how the task goes on.\<close>

type_synonym segment = "broker \<times> (nat \<times> decision_response) list \<times> task"

section \<open>Groups\<close>

definition update_group :: "nat \<Rightarrow> (pending_group \<Rightarrow> pending_group) \<Rightarrow> broker \<Rightarrow> broker" where
  "update_group ref f b = b\<lparr>bk_heap := (bk_heap b)[ref := f (bk_heap b ! ref)]\<rparr>"

definition index_request :: "string \<Rightarrow> string \<Rightarrow> broker \<Rightarrow> broker" where
  "index_request rid key b = b\<lparr>bk_request_index := AList.update rid key (bk_request_index b)\<rparr>"

definition unindex_request :: "string \<Rightarrow> broker \<Rightarrow> broker" where
  "unindex_request rid b = b\<lparr>bk_request_index := AList.delete rid (bk_request_index b)\<rparr>"

text \<open>\<open>clearTimeout\<close>, \<open>groups.delete\<close> and \<open>notificationAbort.abort\<close>.\<close>

definition drop_group :: "string \<Rightarrow> nat \<Rightarrow> broker \<Rightarrow> broker" where
  "drop_group key ref b =
     update_group ref (\<lambda>g. g\<lparr>pg_timer := False, pg_notified := False\<rparr>)
       (b\<lparr>bk_groups := AList.delete key (bk_groups b)\<rparr>)"

definition find_group_by_request_id :: "broker \<Rightarrow> string \<Rightarrow> nat option" where
  "find_group_by_request_id b rid =
     (case map_of (bk_request_index b) rid of
        None \<Rightarrow> None
      | Some key \<Rightarrow> if key = '''' then None else map_of (bk_groups b) key)"

definition register_waiter :: "nat \<Rightarrow> string \<Rightarrow> nat \<Rightarrow> broker \<Rightarrow> segment" where
  "register_waiter ref rid tid b =
     (update_group ref (\<lambda>g. g\<lparr>pg_waiters := AList.update rid tid (pg_waiters g)\<rparr>) b, [], Waiting ref)"

fun add_request :: "string \<Rightarrow> pending_request \<Rightarrow> decision option \<Rightarrow> group_body \<Rightarrow> group_body" where
  "add_request rid (PendingAuthorize pa) (Some d) (AuthorizeBody reason inject requests decisions) =
     AuthorizeBody reason inject (AList.update rid pa requests) (AList.update rid d decisions)"
| "add_request rid (PendingReview m) _ (ViolationBody identities findings requests) =
     ViolationBody identities findings (AList.update rid m requests)"
| "add_request rid _ _ body = body"

fun remove_request :: "string \<Rightarrow> group_body \<Rightarrow> group_body" where
  "remove_request rid (AuthorizeBody reason inject requests decisions) =
     AuthorizeBody reason inject (AList.delete rid requests) (AList.delete rid decisions)"
| "remove_request rid (ViolationBody identities findings requests) =
     ViolationBody identities findings (AList.delete rid requests)"

fun find_request :: "string \<Rightarrow> group_body \<Rightarrow> pending_request option" where
  "find_request rid (AuthorizeBody reason inject requests decisions) =
     map_option PendingAuthorize (map_of requests rid)"
| "find_request rid (ViolationBody identities findings requests) =
     map_option PendingReview (map_of requests rid)"

fun find_decision :: "string \<Rightarrow> group_body \<Rightarrow> decision option" where
  "find_decision rid (AuthorizeBody reason inject requests decisions) = map_of decisions rid"
| "find_decision rid (ViolationBody identities findings requests) = None"

text \<open>The file of a pending request of a group.\<close>

definition write_authorize_entry ::
  "nat \<Rightarrow> authorize_request \<Rightarrow> body_audit_status \<Rightarrow> int \<Rightarrow> broker \<Rightarrow> broker"
where
  "write_authorize_entry ref m status now b =
     (let grp = bk_heap b ! ref in
      case pg_body grp of
        AuthorizeBody reason inject requests decisions \<Rightarrow>
          emit (WriteEntry (to_pending_entry m grp reason inject now
            (masked_review_context b (aq_review_context m)) status)) b
      | ViolationBody identities findings requests \<Rightarrow> b)"

definition write_violation_entry :: "nat \<Rightarrow> review_request \<Rightarrow> int \<Rightarrow> broker \<Rightarrow> broker" where
  "write_violation_entry ref m now b =
     (let grp = bk_heap b ! ref in
      case pg_body grp of
        ViolationBody identities findings requests \<Rightarrow>
          emit (WriteEntry (to_violation_pending_entry m grp now
            (masked_review_context b (vq_review_context m)) (masked_findings (bk_mask_patterns b) findings))) b
      | AuthorizeBody reason inject requests decisions \<Rightarrow> b)"

section \<open>Authorizing\<close>

text \<open>A request joins a group: in the maps of the group and the index, and then on disk.\<close>

definition join_authorize ::
  "nat \<Rightarrow> authorize_request \<Rightarrow> decision \<Rightarrow> body_audit_status \<Rightarrow> int \<Rightarrow> broker \<Rightarrow> segment"
where
  "join_authorize ref m decided status now b =
     (let rid = aq_request_id m;
          pa = \<lparr>pa_request = m, pa_status = status\<rparr>;
          b1 = update_group ref (\<lambda>g. g\<lparr>pg_body := add_request rid (PendingAuthorize pa) (Some decided) (pg_body g)\<rparr>) b;
          b2 = index_request rid (pg_key (bk_heap b ! ref)) b1
      in (write_authorize_entry ref m status now b2, [], EntryWritten ref m decided status False))"

definition create_pending_group ::
  "string \<Rightarrow> authorize_request \<Rightarrow> decision \<Rightarrow> body_audit_status \<Rightarrow> int \<Rightarrow> broker \<Rightarrow> segment"
where
  "create_pending_group group_key m decided status now b =
     (let rid = aq_request_id m;
          ref = length (bk_heap b);
          grp = \<lparr>pg_key = group_key, pg_rule_id = de_rule_id decided, pg_created_at = now,
                 pg_target = aq_target m, pg_waiters = [], pg_timer = True, pg_notified = True,
                 pg_allowed_scopes = approval_scopes_for decided,
                 pg_body = AuthorizeBody (de_reason decided)
                   (describe_inject_headers (de_inject decided) (bk_secret_values b))
                   [(rid, \<lparr>pa_request = m, pa_status = status\<rparr>)] [(rid, decided)]\<rparr>;
          b1 = b\<lparr>bk_heap := bk_heap b @ [grp], bk_groups := AList.update group_key ref (bk_groups b)\<rparr>;
          b2 = index_request rid group_key b1
      in (write_authorize_entry ref m status now b2, [], EntryWritten ref m decided status True))"

text \<open>An answer that is logged before it is sent.\<close>

definition reply_decision :: "decision_response \<Rightarrow> broker \<Rightarrow> segment" where
  "reply_decision r b = (b, [], Replying (ReplyDecision r))"

definition deny_with_audit ::
  "bool \<Rightarrow> authorize_request \<Rightarrow> string \<Rightarrow> decision option \<Rightarrow> body_audit_status \<Rightarrow> broker \<Rightarrow> segment"
where
  "deny_with_audit should_audit m reason decided status b =
     reply_decision (deny_decision (aq_request_id m) reason None)
       (if should_audit
        then record_audit m Deny reason (target_key (aq_target m)) None (map_option de_rule_id decided)
          (Option.bind decided (\<lambda>d. selected_body_diagnostic m (de_reason d) (de_rule_id d))) status b
        else b)"

definition allow_with_audit ::
  "bool \<Rightarrow> authorize_request \<Rightarrow> string \<Rightarrow> decision \<Rightarrow> body_audit_status \<Rightarrow> broker \<Rightarrow> segment"
where
  "allow_with_audit should_audit m reason d status b =
     (let decision = decorate_allow b (allow_decision (aq_request_id m) reason None) (Some d) m in
      reply_decision decision
        (if should_audit
         then record_audit m Allow reason (target_key (aq_target m))
           (map_option (map ih_name) (rp_inject_headers decision)) (Some (de_rule_id d))
           (selected_body_diagnostic m (de_reason d) (de_rule_id d)) status b
         else b))"

text \<open>The part of \<open>authorize\<close> for a decision that asks for a review.\<close>

definition ask_for_review ::
  "nat \<Rightarrow> bool \<Rightarrow> authorize_request \<Rightarrow> decision \<Rightarrow> body_audit_status \<Rightarrow> int \<Rightarrow> broker \<Rightarrow> segment"
where
  "ask_for_review tid should_audit m d status now b =
     (let identity_keys = approval_keys (de_rule_id d) (de_reason d) (aq_target m) in
      if list_ex (\<lambda>key. key \<in> bk_denied b) identity_keys
      then deny_with_audit should_audit m ''denied-by-user'' (Some d) status b
      else if list_ex (\<lambda>key. key \<in> bk_approved b) identity_keys
      then allow_with_audit should_audit m ''approved'' d status b
      else
        (let group_key = pending_group_key (bk_session_id b) (de_rule_id d) (de_reason d) (aq_target m);
             found = cache_get (bk_negative b) group_key now;
             b1 = b\<lparr>bk_negative := snd found\<rparr>
         in if fst found \<noteq> None
            then deny_with_audit should_audit m ''recent-deny'' (Some d) status b1
            else (case map_of (bk_groups b1) group_key of
                    None \<Rightarrow> create_pending_group group_key m d status now b1
                  | Some ref \<Rightarrow>
                      (case pg_body (bk_heap b1 ! ref) of
                         ViolationBody identities findings requests \<Rightarrow>
                           create_pending_group group_key m d status now b1
                       | AuthorizeBody reason inject requests decisions \<Rightarrow>
                           (if aq_request_id m \<in> fst ` set requests
                            then register_waiter ref (aq_request_id m) tid b1
                            else join_authorize ref m d status now b1)))))"

text \<open>\<open>authorize\<close> after the capture of the body; an exception ends the handler without a reply.\<close>

definition authorize_segment ::
  "nat \<Rightarrow> authorize_request \<Rightarrow> body_audit_status \<Rightarrow> int \<Rightarrow> broker \<Rightarrow> segment"
where
  "authorize_segment tid m status now b =
     (let host = ta_host (aq_target m);
          path = request_path (aq_review_context m)
      in case deny_reason_for_target (aq_target m) of
           None \<Rightarrow> (b, [], Failed)
         | Some (Some reason) \<Rightarrow> deny_with_audit True m reason None status b
         | Some None \<Rightarrow>
             (if is_host_owned_credential_refresh (bk_agent_credentials b) host (aq_method m) path
              then deny_with_audit True m credential_refresh_deny_reason None status b
              else if is_revoked_credential_target (bk_agent_credentials b) host path
              then deny_with_audit True m credential_revoked_deny_reason None status b
              else (case decide_message (bk_document b) m of
                      None \<Rightarrow> (b, [], Failed)
                    | Some d \<Rightarrow>
                        (let should_audit = (de_audit d \<noteq> AuditOff \<or> ba_enable (bk_body_audit b)) in
                         if de_action d = ActDeny \<or> (bk_principal b = DindPrincipal \<and> de_action d = ActReview)
                         then deny_with_audit should_audit m (reason_text (de_reason d)) (Some d) status b
                         else if de_action d = ActAllow
                         then allow_with_audit should_audit m (reason_text (de_reason d)) d status b
                         else ask_for_review tid should_audit m d status now b))))"

text \<open>\<open>authorize\<close> after the file is written. A new group is looked at again: it may have lost the request.\<close>

definition entry_written ::
  "nat \<Rightarrow> nat \<Rightarrow> authorize_request \<Rightarrow> decision \<Rightarrow> body_audit_status \<Rightarrow> bool \<Rightarrow> int \<Rightarrow> broker \<Rightarrow> segment"
where
  "entry_written tid ref m d status created now b =
     (let rid = aq_request_id m;
          b1 = (if created then emit (Notify rid (pg_target (bk_heap b ! ref))) b else b)
      in if created \<and> rid \<notin> set (group_requests (pg_body (bk_heap b ! ref)))
         then join_authorize ref m d status now b1
         else register_waiter ref rid tid b1)"

section \<open>Reviewing violations\<close>

definition join_violation :: "nat \<Rightarrow> review_request \<Rightarrow> int \<Rightarrow> broker \<Rightarrow> segment" where
  "join_violation ref m now b =
     (let rid = vq_request_id m;
          b1 = update_group ref (\<lambda>g. g\<lparr>pg_body := add_request rid (PendingReview m) None (pg_body g)\<rparr>) b;
          b2 = index_request rid (pg_key (bk_heap b ! ref)) b1
      in (write_violation_entry ref m now b2, [], ReviewEntryWritten ref m False))"

definition create_violation_group ::
  "string \<Rightarrow> review_request \<Rightarrow> violation_finding list \<Rightarrow> int \<Rightarrow> broker \<Rightarrow> segment"
where
  "create_violation_group group_key m asked now b =
     (let rid = vq_request_id m;
          ref = length (bk_heap b);
          grp = \<lparr>pg_key = group_key, pg_rule_id = vq_rule_id m, pg_created_at = now,
                 pg_target = vq_target m, pg_waiters = [], pg_timer = True, pg_notified = True,
                 pg_allowed_scopes = violation_scopes_for asked,
                 pg_body = ViolationBody (map (violation_key (vq_rule_id m)) asked) (vq_findings m) [(rid, m)]\<rparr>;
          b1 = b\<lparr>bk_heap := bk_heap b @ [grp], bk_groups := AList.update group_key ref (bk_groups b)\<rparr>;
          b2 = index_request rid group_key b1
      in (write_violation_entry ref m now b2, [], ReviewEntryWritten ref m True))"

definition reply_review ::
  "bool \<Rightarrow> review_request \<Rightarrow> decision_response \<Rightarrow> broker \<Rightarrow> segment"
where
  "reply_review should_audit m r b =
     reply_decision r
       (if should_audit
        then record_violation_audit m (rp_verdict r) (rp_reason r) (target_key (vq_target m)) (vq_findings m) b
        else b)"

definition asked_findings :: "resolved_rule \<Rightarrow> review_request \<Rightarrow> violation_finding list" where
  "asked_findings rule m = filter (violation_needs_approval rule) (vq_findings m)"

definition review_violations :: "nat \<Rightarrow> review_request \<Rightarrow> int \<Rightarrow> broker \<Rightarrow> segment" where
  "review_violations tid m now b =
     (if bk_principal b = DindPrincipal
      then reply_decision (deny_decision (vq_request_id m) ''dind-review-forbidden'' None) b
      else case find_rule_by_id (bk_document b) (vq_rule_id m) of
        None \<Rightarrow>
          (b, [], Done (Some (ReplyError (vq_request_id m)
             ''request-policy review names a rule that has no expectations'')))
      | Some rule \<Rightarrow>
          (let should_audit = (rr_audit rule \<noteq> AuditOff);
               rid = vq_request_id m;
               key = violation_key (vq_rule_id m);
               asked = asked_findings rule m
           in if asked = []
              then reply_review should_audit m (deny_decision rid ''review-condition-mismatch'' None) b
              else if list_ex (\<lambda>finding. \<not> is_approvable_finding finding) asked
              then reply_review should_audit m (deny_decision rid ''unapprovable-violation'' None) b
              else if list_ex (\<lambda>k. k \<in> bk_denied_violations b) (map key asked)
              then reply_review should_audit m (deny_decision rid ''denied-by-user'' None) b
              else
                (let undecided = filter (\<lambda>finding. key finding \<notin> bk_approved_violations b) asked in
                 if undecided = []
                 then reply_review should_audit m (allow_decision rid ''approved'' None) b
                 else
                   (let group_key = violation_group_key (bk_session_id b) (vq_rule_id m) (map key undecided);
                        found = cache_get (bk_negative b) group_key now;
                        b1 = b\<lparr>bk_negative := snd found\<rparr>
                    in if fst found \<noteq> None
                       then reply_review should_audit m (deny_decision rid ''recent-deny'' None) b1
                       else (case map_of (bk_groups b1) group_key of
                               None \<Rightarrow> create_violation_group group_key m undecided now b1
                             | Some ref \<Rightarrow>
                                 (case pg_body (bk_heap b1 ! ref) of
                                    AuthorizeBody reason inject requests decisions \<Rightarrow>
                                      create_violation_group group_key m undecided now b1
                                  | ViolationBody identities findings requests \<Rightarrow>
                                      (if rid \<in> fst ` set requests
                                       then register_waiter ref rid tid b1
                                       else join_violation ref m now b1)))))))"

definition review_entry_written :: "nat \<Rightarrow> nat \<Rightarrow> review_request \<Rightarrow> bool \<Rightarrow> int \<Rightarrow> broker \<Rightarrow> segment" where
  "review_entry_written tid ref m created now b =
     (let rid = vq_request_id m;
          b1 = (if created then emit (Notify rid (pg_target (bk_heap b ! ref))) b else b)
      in if created \<and> rid \<notin> set (group_requests (pg_body (bk_heap b ! ref)))
         then join_violation ref m now b1
         else register_waiter ref rid tid b1)"

section \<open>Resolving a group\<close>

text \<open>The request a resolution is at; it visits the map in insertion order, additions included.\<close>

definition next_request :: "string list \<Rightarrow> group_body \<Rightarrow> string option" where
  "next_request visited body = List.find (\<lambda>rid. rid \<notin> set visited) (group_requests body)"

definition iterate_group ::
  "nat \<Rightarrow> decision_response \<Rightarrow> verdict \<Rightarrow> string list \<Rightarrow> broker_response option \<Rightarrow> broker \<Rightarrow> broker \<times> task"
where
  "iterate_group ref base outcome visited reply b =
     (case next_request visited (pg_body (bk_heap b ! ref)) of
        None \<Rightarrow> (b, Done reply)
      | Some rid \<Rightarrow>
          (case find_request rid (pg_body (bk_heap b ! ref)) of
             None \<Rightarrow> (b, Done reply)
           | Some request \<Rightarrow>
               (emit (RemoveEntry (bk_session_id b) rid) (unindex_request rid b),
                EntryRemoved ref base outcome visited rid request reply)))"

definition resolve_group ::
  "string \<Rightarrow> decision_response \<Rightarrow> verdict \<Rightarrow> bool \<Rightarrow> broker_response option \<Rightarrow> broker \<Rightarrow> segment"
where
  "resolve_group group_key base outcome use_negative_cache reply b =
     (case map_of (bk_groups b) group_key of
        None \<Rightarrow> (b, [], Done reply)
      | Some ref \<Rightarrow>
          (drop_group group_key ref b, [], ResolvingGroup ref base outcome use_negative_cache reply))"

text \<open>\<open>resolveGroup\<close> after \<open>closeNotification\<close>.\<close>

definition notification_closed ::
  "nat \<Rightarrow> decision_response \<Rightarrow> verdict \<Rightarrow> bool \<Rightarrow> broker_response option \<Rightarrow> int \<Rightarrow> broker \<Rightarrow> segment"
where
  "notification_closed ref base outcome use_negative_cache reply now b =
     (let b1 = (if outcome = Deny \<and> use_negative_cache
                then b\<lparr>bk_negative := cache_set (bk_negative b) (pg_key (bk_heap b ! ref)) True now\<rparr>
                else b);
          (b2, t) = iterate_group ref base outcome [] reply b1
      in (b2, [], t))"

definition settle :: "string \<Rightarrow> decision_response \<Rightarrow> pending_group \<Rightarrow> (nat \<times> decision_response) list" where
  "settle rid decision grp = (case map_of (pg_waiters grp) rid of None \<Rightarrow> [] | Some tid \<Rightarrow> [(tid, decision)])"

text \<open>The end of an iteration: the promise of the request is settled, and the next one begins.\<close>

definition request_settled ::
  "nat \<Rightarrow> decision_response \<Rightarrow> verdict \<Rightarrow> string list \<Rightarrow> string \<Rightarrow> decision_response \<Rightarrow>
     broker_response option \<Rightarrow> broker \<Rightarrow> segment"
where
  "request_settled ref base outcome visited rid decision reply b =
     (let (b1, t) = iterate_group ref base outcome (visited @ [rid]) reply b
      in (b1, settle rid decision (bk_heap b ! ref), t))"

definition rule_audit :: "broker \<Rightarrow> string \<Rightarrow> audit_mode" where
  "rule_audit b rid =
     (case find_rule_by_id (bk_document b) rid of
        Some rule \<Rightarrow> rr_audit rule
      | None \<Rightarrow> rd_audit (doc_defaults (bk_document b)))"

definition decision_audit :: "broker \<Rightarrow> decision option \<Rightarrow> audit_mode" where
  "decision_audit b decided =
     (case decided of Some d \<Rightarrow> de_audit d | None \<Rightarrow> rd_audit (doc_defaults (bk_document b)))"

text \<open>The answer to one request of a group, and whether it is logged first.\<close>

definition answer_request ::
  "nat \<Rightarrow> decision_response \<Rightarrow> verdict \<Rightarrow> pending_request \<Rightarrow> decision option \<Rightarrow> string \<Rightarrow> broker \<Rightarrow>
     broker \<times> decision_response \<times> bool"
where
  "answer_request ref base outcome request decided rid b =
     (case request of
        PendingAuthorize pa \<Rightarrow>
          (let m = pa_request pa;
               base_with_id = base\<lparr>rp_request_id := rid\<rparr>;
               decision = (if outcome = Allow then decorate_allow b base_with_id decided m else base_with_id)
           in if decision_audit b decided \<noteq> AuditOff \<or> ba_enable (bk_body_audit b)
              then (record_audit m outcome (rp_reason base) (target_key (aq_target m))
                      (map_option (map ih_name) (rp_inject_headers decision)) (map_option de_rule_id decided)
                      (Option.bind decided (\<lambda>d. selected_body_diagnostic m (de_reason d) (de_rule_id d)))
                      (pa_status pa) b, decision, True)
              else (b, decision, False))
      | PendingReview m \<Rightarrow>
          (let decision = base\<lparr>rp_request_id := rid\<rparr>;
               findings = (case pg_body (bk_heap b ! ref) of
                   ViolationBody identities fs requests \<Rightarrow> fs
                 | AuthorizeBody reason inject requests decisions \<Rightarrow> [])
           in if rule_audit b (pg_rule_id (bk_heap b ! ref)) \<noteq> AuditOff
              then (record_violation_audit m outcome (rp_reason base) (target_key (vq_target m)) findings b,
                    decision, True)
              else (b, decision, False)))"

definition entry_removed ::
  "nat \<Rightarrow> decision_response \<Rightarrow> verdict \<Rightarrow> string list \<Rightarrow> string \<Rightarrow> pending_request \<Rightarrow>
     broker_response option \<Rightarrow> broker \<Rightarrow> segment"
where
  "entry_removed ref base outcome visited rid request reply b =
     (let (b1, decision, audited) =
        answer_request ref base outcome request (find_decision rid (pg_body (bk_heap b ! ref))) rid b
      in if audited then (b1, [], Audited ref base outcome visited rid decision reply)
         else request_settled ref base outcome visited rid decision reply b1)"

section \<open>Resolving one request\<close>

definition detach_request :: "nat \<Rightarrow> string \<Rightarrow> broker \<Rightarrow> broker" where
  "detach_request ref rid b =
     (let b1 = update_group ref
            (\<lambda>g. g\<lparr>pg_body := remove_request rid (pg_body g), pg_waiters := AList.delete rid (pg_waiters g)\<rparr>)
            (unindex_request rid b)
      in if group_requests (pg_body (bk_heap b1 ! ref)) \<noteq> [] then b1
         else drop_group (pg_key (bk_heap b ! ref)) ref b1)"

definition resolve_request ::
  "string \<Rightarrow> decision_response \<Rightarrow> verdict \<Rightarrow> broker_response option \<Rightarrow> broker \<Rightarrow> segment"
where
  "resolve_request rid base outcome reply b =
     (case find_group_by_request_id b rid of
        None \<Rightarrow> (b, [], Done reply)
      | Some ref \<Rightarrow>
          (let grp = bk_heap b ! ref in
           case find_request rid (pg_body grp) of
             None \<Rightarrow> (b, [], Done reply)
           | Some request \<Rightarrow>
               (detach_request ref rid b, [],
                RequestDetached ref request (find_decision rid (pg_body grp)) (map_of (pg_waiters grp) rid)
                  base outcome rid reply)))"

definition settle_waiter :: "nat option \<Rightarrow> decision_response \<Rightarrow> (nat \<times> decision_response) list" where
  "settle_waiter waiter decision = (case waiter of None \<Rightarrow> [] | Some tid \<Rightarrow> [(tid, decision)])"

definition request_detached ::
  "nat \<Rightarrow> pending_request \<Rightarrow> decision option \<Rightarrow> nat option \<Rightarrow> decision_response \<Rightarrow> verdict \<Rightarrow> string \<Rightarrow>
     broker_response option \<Rightarrow> broker \<Rightarrow> segment"
where
  "request_detached ref request decided waiter base outcome rid reply b =
     (let (b1, decision, audited) =
        answer_request ref base outcome request decided rid (emit (RemoveEntry (bk_session_id b) rid) b)
      in if audited then (b1, [], RequestAudited ref waiter decision reply)
         else (b1, settle_waiter waiter decision, Done reply))"

section \<open>Approving and denying\<close>

definition remember :: "pending_group \<Rightarrow> approval_scope \<Rightarrow> verdict \<Rightarrow> broker \<Rightarrow> broker" where
  "remember grp scope outcome b =
     (if scope = ScOnce then b
      else case pg_body grp of
        ViolationBody identities findings requests \<Rightarrow>
          (if scope \<noteq> ScViolation then b
           else if outcome = Allow
           then b\<lparr>bk_approved_violations := bk_approved_violations b \<union> set identities,
                  bk_denied_violations := bk_denied_violations b - set identities\<rparr>
           else b\<lparr>bk_denied_violations := bk_denied_violations b \<union> set identities,
                  bk_approved_violations := bk_approved_violations b - set identities\<rparr>)
      | AuthorizeBody reason inject requests decisions \<Rightarrow>
          (if scope = ScViolation then b
           else (let key = approval_key (pg_rule_id grp) reason (pg_target grp) scope in
                 if outcome = Allow
                 then b\<lparr>bk_approved := insert key (bk_approved b), bk_denied := bk_denied b - {key}\<rparr>
                 else b\<lparr>bk_denied := insert key (bk_denied b), bk_approved := bk_approved b - {key}\<rparr>)))"

definition default_approval_scope :: approval_scope where "default_approval_scope = ScOnce"

definition pending_not_found :: "string \<Rightarrow> broker_response" where
  "pending_not_found rid = ReplyError rid (''Pending request not found: '' @ rid)"

definition scope_not_allowed :: "string \<Rightarrow> string \<Rightarrow> broker_response" where
  "scope_not_allowed rid scope = ReplyError rid (''scope not allowed for this request: '' @ scope)"

text \<open>
  The scope of a message is any text; an unknown one is in no group's list. The outcome of a
  press that is accepted: the group it was about and the scope it had.
\<close>

definition chosen_scope :: "string option \<Rightarrow> approval_scope list \<Rightarrow> approval_scope option option" where
  "chosen_scope scope allowed =
     (case scope of
        None \<Rightarrow> Some None
      | Some text \<Rightarrow>
          (case List.find (\<lambda>s. scope_text s = text) allowed of None \<Rightarrow> None | Some s \<Rightarrow> Some (Some s)))"

definition accepted_press :: "broker \<Rightarrow> string \<Rightarrow> string option \<Rightarrow> (nat \<times> approval_scope option) option" where
  "accepted_press b rid scope =
     (case find_group_by_request_id b rid of
        None \<Rightarrow> None
      | Some ref \<Rightarrow> map_option (Pair ref) (chosen_scope scope (pg_allowed_scopes (bk_heap b ! ref))))"

definition approve :: "string \<Rightarrow> string option \<Rightarrow> broker \<Rightarrow> segment" where
  "approve rid scope b =
     (case find_group_by_request_id b rid of
        None \<Rightarrow> (b, [], Done (Some (pending_not_found rid)))
      | Some ref \<Rightarrow>
          (let grp = bk_heap b ! ref in
           case chosen_scope scope (pg_allowed_scopes grp) of
             None \<Rightarrow> (b, [], Done (Some (scope_not_allowed rid (case scope of None \<Rightarrow> '''' | Some s \<Rightarrow> s))))
           | Some given \<Rightarrow>
               (let selected = (case given of None \<Rightarrow> default_approval_scope | Some s \<Rightarrow> s);
                    b1 = remember grp selected Allow b;
                    decision = allow_decision rid ''approved-by-user'' (Some selected);
                    ack = Some (ReplyAck rid Allow)
                in if selected = ScOnce then resolve_request rid decision Allow ack b1
                   else resolve_group (pg_key grp) decision Allow True ack b1)))"

definition deny :: "string \<Rightarrow> string option \<Rightarrow> broker \<Rightarrow> segment" where
  "deny rid scope b =
     (case find_group_by_request_id b rid of
        None \<Rightarrow> (b, [], Done (Some (pending_not_found rid)))
      | Some ref \<Rightarrow>
          (let grp = bk_heap b ! ref in
           case chosen_scope scope (pg_allowed_scopes grp) of
             None \<Rightarrow> (b, [], Done (Some (scope_not_allowed rid (case scope of None \<Rightarrow> '''' | Some s \<Rightarrow> s))))
           | Some given \<Rightarrow>
               (let b1 = (case given of None \<Rightarrow> b | Some s \<Rightarrow> remember grp s Deny b);
                    decision = deny_decision rid ''denied-by-user'' given;
                    ack = Some (ReplyAck rid Deny)
                in if given = Some ScOnce then resolve_request rid decision Deny ack b1
                   else resolve_group (pg_key grp) decision Deny (given = None) ack b1)))"

section \<open>Closing\<close>

definition close_group :: "nat \<Rightarrow> broker \<Rightarrow> broker" where
  "close_group ref = update_group ref (\<lambda>g. g\<lparr>pg_timer := False, pg_notified := False\<rparr>)"

text \<open>\<open>close\<close> until it awaits the notifications: every waiter of an open group is denied.\<close>

definition close_broker :: "broker \<Rightarrow> segment" where
  "close_broker b =
     (fold close_group (map snd (bk_groups b)) b,
      concat (map (\<lambda>(key, ref). map (\<lambda>(rid, tid). (tid, deny_decision rid ''broker closed'' None))
        (pg_waiters (bk_heap b ! ref))) (bk_groups b)),
      ClosingBroker)"

definition clear_policy_state :: "broker \<Rightarrow> broker" where
  "clear_policy_state b =
     b\<lparr>bk_groups := [], bk_request_index := [], bk_approved := {}, bk_denied := {},
       bk_approved_violations := {}, bk_denied_violations := {}, bk_negative := cache_clear (bk_negative b)\<rparr>"

section \<open>Continuing\<close>

text \<open>How a task goes on when what it awaits is over; only a group settles what is \<open>Waiting\<close>.\<close>

fun resume :: "nat \<Rightarrow> int \<Rightarrow> body_audit_status option \<Rightarrow> task \<Rightarrow> broker \<Rightarrow> segment option" where
  "resume tid now stored (CaptureBody m capture) b =
     Some (authorize_segment tid m (capture_request_body (bk_body_audit b) capture stored) now b)"
| "resume tid now stored (EntryWritten ref m d status created) b =
     Some (entry_written tid ref m d status created now b)"
| "resume tid now stored (ReviewEntryWritten ref m created) b =
     Some (review_entry_written tid ref m created now b)"
| "resume tid now stored (Waiting ref) b = None"
| "resume tid now stored (Replying r) b = Some (b, [], Done (Some r))"
| "resume tid now stored (ResolvingGroup ref base outcome use_negative_cache reply) b =
     Some (notification_closed ref base outcome use_negative_cache reply now b)"
| "resume tid now stored (EntryRemoved ref base outcome visited rid request reply) b =
     Some (entry_removed ref base outcome visited rid request reply b)"
| "resume tid now stored (Audited ref base outcome visited rid decision reply) b =
     Some (request_settled ref base outcome visited rid decision reply b)"
| "resume tid now stored (RequestDetached ref request decided waiter base outcome rid reply) b =
     Some (request_detached ref request decided waiter base outcome rid reply b)"
| "resume tid now stored (RequestAudited ref waiter decision reply) b =
     Some (b, settle_waiter waiter decision, Done reply)"
| "resume tid now stored ClosingBroker b = Some (clear_policy_state b, [], Done None)"
| "resume tid now stored (Done r) b = None"
| "resume tid now stored Failed b = None"

text \<open>What a failing operation can end: every task that awaits one.\<close>

fun awaiting :: "task \<Rightarrow> bool" where
  "awaiting (Waiting ref) = False"
| "awaiting (Done r) = False"
| "awaiting Failed = False"
| "awaiting t = True"

section \<open>Messages\<close>

record outcome_request =
  oq_request_id :: string
  oq_rule_id :: string
  oq_result :: string
  oq_reason :: string
  oq_findings :: "violation_finding list option"

text \<open>
  \<open>recordRequestPolicyOutcome\<close> after the validation. The log may refuse the entry: then the
  proxy is told, and blocks the request.
\<close>

definition record_request_policy_outcome :: "outcome_request \<Rightarrow> bool \<Rightarrow> broker \<Rightarrow> broker \<times> broker_response" where
  "record_request_policy_outcome m log_fails b =
     (let rule = find_rule_by_id (bk_document b) (oq_rule_id m);
          recorded = ReplyOutcome (oq_request_id m)
      in if bk_audit_dir b \<and> rule_audit b (oq_rule_id m) \<noteq> AuditOff
         then (let entry =
                 \<lparr>ae_principal = bk_principal b, ae_session_id = bk_session_id b, ae_request_id = oq_request_id m,
                  ae_decision = (if oq_result m = ''block'' then Deny else Allow), ae_reason = oq_reason m,
                  ae_phase = PhaseRequestPolicy, ae_rule_id = Some (oq_rule_id m), ae_method = None,
                  ae_path = None,
                  ae_route = map_option (\<lambda>r. join_with '' '' (map cp_source (rm_paths (rr_match r)))) rule,
                  ae_result = Some (oq_result m), ae_target = None, ae_injected_headers = None,
                  ae_body_diagnostic = None, ae_audit_status = None,
                  ae_violations =
                    (case oq_findings m of
                       None \<Rightarrow> None
                     | Some fs \<Rightarrow> if length fs > 0
                         then Some (map to_audit_violation (masked_findings (bk_mask_patterns b) fs)) else None)\<rparr>
               in if log_fails then (b, ReplyError (oq_request_id m) ''request-policy outcome audit unavailable'')
                  else (emit (AppendAudit entry) b, recorded))
         else (b, recorded))"

text \<open>\<open>parseBrokerMessage\<close>: the type of a message, and the arguments of the presses.\<close>

definition broker_message_types :: "string list" where
  "broker_message_types =
     [''authorize'', ''request_policy_outcome'', ''request_policy_review'', ''approve'', ''deny'', ''list_pending'']"

definition parse_broker_message :: "json \<Rightarrow> (string \<times> (string \<times> json) list) option" where
  "parse_broker_message v =
     (case json_object v of
        None \<Rightarrow> None
      | Some m \<Rightarrow>
          (case json_string (map_of m ''type'') of
             None \<Rightarrow> None
           | Some kind \<Rightarrow>
               (if kind \<notin> set broker_message_types then None
                else if kind = ''approve'' \<or> kind = ''deny''
                then (if json_string (map_of m ''requestId'') = None then None
                      else if map_of m ''scope'' \<noteq> None \<and> json_string (map_of m ''scope'') = None then None
                      else Some (kind, m))
                else Some (kind, m))))"

definition principal_text :: "principal \<Rightarrow> string" where
  "principal_text p = (case p of AgentPrincipal \<Rightarrow> ''agent'' | DindPrincipal \<Rightarrow> ''dind'')"

text \<open>
  \<open>handleMessage\<close>: which broker takes a message (its own or the nested one), or the error it
  answers at once. A message is taken by its own broker, by the nested one, or refused.
\<close>

datatype route = RouteHere | RouteNested | RouteError string

definition route_message :: "principal \<Rightarrow> bool \<Rightarrow> string \<Rightarrow> (string \<times> json) list \<Rightarrow> route" where
  "route_message own has_nested kind m =
     (if kind = ''authorize'' \<or> kind = ''request_policy_outcome'' \<or> kind = ''request_policy_review''
      then (let requested = (case map_of m ''principal'' of
                None \<Rightarrow> Some ''agent''
              | Some JNull \<Rightarrow> Some ''agent''
              | v \<Rightarrow> json_string v)
            in if requested \<noteq> Some ''agent'' \<and> requested \<noteq> Some ''dind''
               then RouteError ''invalid network principal''
               else if requested \<noteq> Some (principal_text own)
               then (if requested = Some ''dind'' \<and> has_nested then RouteNested
                     else RouteError ''network principal policy unavailable'')
               else RouteHere)
      else RouteHere)"

datatype request_message =
    MsgAuthorize authorize_request
  | MsgReview review_request
  | MsgControl

text \<open>The validation a broker makes of what it takes.\<close>

definition validate_message :: "broker \<Rightarrow> string \<Rightarrow> json \<Rightarrow> string option" where
  "validate_message b kind v =
     (if kind = ''authorize'' then validate_authorize_request v (bk_session_id b) (bk_document b)
      else if kind = ''request_policy_outcome''
      then validate_request_policy_outcome v (bk_session_id b) (bk_document b)
      else if kind = ''request_policy_review'' \<and> bk_principal b \<noteq> DindPrincipal
      then validate_request_policy_review v (bk_session_id b) (bk_document b)
      else None)"

text \<open>The parts of a message that \<open>Protocol\<close> does not read, once it is valid.\<close>

definition read_capture :: "json option \<Rightarrow> request_body_capture option" where
  "read_capture v =
     Option.bind (Option.bind v json_object) (\<lambda>m.
     Option.bind (json_string (map_of m ''state'')) (\<lambda>state.
       if state = ''disabled'' then Some CaptureDisabled
       else if state = ''not-applicable'' then Some CaptureNotApplicable
       else if state = ''unavailable''
       then map_option CaptureUnavailable (json_string (map_of m ''code''))
       else Option.bind (safe_integer (map_of m ''byteLength'')) (\<lambda>n.
         map_option (CaptureAttached (nat n)) (json_string (map_of m ''data'')))))"

definition read_outcome :: "json \<Rightarrow> outcome_request option" where
  "read_outcome v =
     Option.bind (json_object v) (\<lambda>m.
     Option.bind (json_string (map_of m ''requestId'')) (\<lambda>rid.
     Option.bind (json_string (map_of m ''ruleId'')) (\<lambda>rule.
     Option.bind (json_string (map_of m ''result'')) (\<lambda>result.
     Option.bind (json_string (map_of m ''reason'')) (\<lambda>reason.
     Option.bind
       (case map_of m ''findings'' of
          Some (JArr fs) \<Rightarrow> map_option Some (map_option_list read_finding fs)
        | _ \<Rightarrow> Some None) (\<lambda>findings.
       Some \<lparr>oq_request_id = rid, oq_rule_id = rule, oq_result = result, oq_reason = reason,
             oq_findings = findings\<rparr>))))))"

definition request_id_text :: "(string \<times> json) list \<Rightarrow> string" where
  "request_id_text m = (case json_string (map_of m ''requestId'') of None \<Rightarrow> '''' | Some s \<Rightarrow> s)"

text \<open>
  \<open>handleMessage\<close> of one broker: the first segment of the handler of a message, and the message
  as data. \<open>None\<close>: the message is malformed and dropped, or the nested broker takes it.
\<close>

definition dispatch_message ::
  "nat \<Rightarrow> int \<Rightarrow> bool \<Rightarrow> string \<Rightarrow> json \<Rightarrow> (string \<times> json) list \<Rightarrow> broker \<Rightarrow> (segment \<times> request_message) option"
where
  "dispatch_message tid now log_fails kind v m b =
     (let rid = request_id_text m in
      if kind = ''authorize''
      then Option.bind (read_authorize v) (\<lambda>q.
        map_option (\<lambda>capture. ((b, [], CaptureBody q capture), MsgAuthorize q))
          (read_capture (map_of m ''requestBodyCapture'')))
      else if kind = ''approve'' then Some (approve rid (json_string (map_of m ''scope'')) b, MsgControl)
      else if kind = ''deny'' then Some (deny rid (json_string (map_of m ''scope'')) b, MsgControl)
      else if kind = ''request_policy_outcome''
      then map_option (\<lambda>q. (let (b1, r) = record_request_policy_outcome q log_fails b
             in ((b1, [], Done (Some r)), MsgControl))) (read_outcome v)
      else if kind = ''request_policy_review''
      then (if bk_principal b = DindPrincipal
            then Some ((b, [], Done (Some (ReplyDecision (deny_decision rid ''dind-review-forbidden'' None)))), MsgControl)
            else map_option (\<lambda>q. (review_violations tid q now b, MsgReview q)) (read_review v))
      else Some ((b, [], Done (Some ReplyPending)), MsgControl))"

definition handle_message ::
  "nat \<Rightarrow> int \<Rightarrow> bool \<Rightarrow> bool \<Rightarrow> json \<Rightarrow> broker \<Rightarrow> (segment \<times> request_message) option"
where
  "handle_message tid now has_nested log_fails v b =
     (case parse_broker_message v of
        None \<Rightarrow> None
      | Some (kind, m) \<Rightarrow>
          (let error = (\<lambda>e. Some ((b, [], Done (Some (ReplyError (request_id_text m) e))), MsgControl))
           in case route_message (bk_principal b) has_nested kind m of
                RouteNested \<Rightarrow> None
              | RouteError e \<Rightarrow> error e
              | RouteHere \<Rightarrow>
                  (case validate_message b kind v of
                     Some e \<Rightarrow> error e
                   | None \<Rightarrow> dispatch_message tid now log_fails kind v m b)))"

text \<open>The press a message makes, when it is one and the broker accepts it.\<close>

definition message_press :: "json \<Rightarrow> broker \<Rightarrow> (verdict \<times> nat \<times> approval_scope option) option" where
  "message_press v b =
     (case parse_broker_message v of
        None \<Rightarrow> None
      | Some (kind, m) \<Rightarrow>
          (if kind = ''approve''
           then map_option (Pair Allow) (accepted_press b (request_id_text m) (json_string (map_of m ''scope'')))
           else if kind = ''deny''
           then map_option (Pair Deny) (accepted_press b (request_id_text m) (json_string (map_of m ''scope'')))
           else None))"

end
