(* ===== verification/BrokerRuns.thy ===== *)
theory BrokerRuns
  imports BrokerSteps
begin

text \<open>
  The runs of a session broker: handlers, timers and resolutions as tasks whose segments
  (\<open>BrokerSteps\<close>) interleave in any order, with the messages that started them and the presses
  of the user that were accepted so far as history. The invariant of the runs says what every
  task may still do; from it \<open>BrokerSafety\<close> concludes which answers were justified.
\<close>

section \<open>Worlds and steps\<close>

text \<open>What an answer is about: the review of a rule for a target, or a set of violations.\<close>

datatype identity =
    ReviewOf string decision_reason target_address
  | ViolationsOf string "string list"

fun group_identity :: "pending_group \<Rightarrow> identity" where
  "group_identity g =
     (case pg_body g of
        AuthorizeBody reason inject requests decisions \<Rightarrow> ReviewOf (pg_rule_id g) reason (pg_target g)
      | ViolationBody identities findings requests \<Rightarrow> ViolationsOf (pg_rule_id g) identities)"

declare group_identity.simps [simp del]

record press =
  pr_verdict :: verdict
  pr_scope :: "approval_scope option"
  pr_identity :: identity

record world =
  wd_broker :: broker
  wd_messages :: "request_message list"
  wd_tasks :: "task list"
  wd_presses :: "press list"

definition initial_world :: "broker \<Rightarrow> world" where
  "initial_world b = \<lparr>wd_broker = b, wd_messages = [], wd_tasks = [], wd_presses = []\<rparr>"

fun settle_task :: "decision_response \<Rightarrow> task \<Rightarrow> task" where
  "settle_task r (Waiting ref) = Done (Some (ReplyDecision r))"
| "settle_task r t = t"

definition deliver :: "task list \<Rightarrow> nat \<times> decision_response \<Rightarrow> task list" where
  "deliver tasks e = (case e of (tid, r) \<Rightarrow> tasks[tid := settle_task r (tasks ! tid)])"

definition press_of :: "broker \<Rightarrow> verdict \<times> nat \<times> approval_scope option \<Rightarrow> press" where
  "press_of b p =
     (case p of (v, ref, given) \<Rightarrow>
        \<lparr>pr_verdict = v,
         pr_scope = (if v = Allow then Some (case given of None \<Rightarrow> default_approval_scope | Some s \<Rightarrow> s) else given),
         pr_identity = group_identity (bk_heap b ! ref)\<rparr>)"

definition start_task ::
  "world \<Rightarrow> segment \<Rightarrow> request_message \<Rightarrow> (verdict \<times> nat \<times> approval_scope option) option \<Rightarrow> world"
where
  "start_task w seg msg press =
     (case seg of (b, ds, t) \<Rightarrow>
        \<lparr>wd_broker = b, wd_messages = wd_messages w @ [msg],
         wd_tasks = foldl deliver (wd_tasks w @ [t]) ds,
         wd_presses = wd_presses w @ (case press of None \<Rightarrow> [] | Some p \<Rightarrow> [press_of (wd_broker w) p])\<rparr>)"

definition continue_task :: "world \<Rightarrow> nat \<Rightarrow> segment \<Rightarrow> world" where
  "continue_task w tid seg =
     (case seg of (b, ds, t) \<Rightarrow>
        w\<lparr>wd_broker := b, wd_tasks := foldl deliver ((wd_tasks w)[tid := t]) ds\<rparr>)"

text \<open>The host replaces what its credentials say, never which requests they are for.\<close>

definition same_credential :: "agent_credential \<Rightarrow> agent_credential \<Rightarrow> bool" where
  "same_credential c c' \<longleftrightarrow> c' = c\<lparr>ag_headers := ag_headers c'\<rparr>"

inductive step :: "world \<Rightarrow> world \<Rightarrow> bool" where
  message: "handle_message (length (wd_tasks w)) now has_nested log_fails v (wd_broker w) = Some (seg, msg) \<Longrightarrow>
    step w (start_task w seg msg (message_press v (wd_broker w)))"
| timer: "ref < length (bk_heap (wd_broker w)) \<Longrightarrow> pg_timer (bk_heap (wd_broker w) ! ref) \<Longrightarrow>
    step w (start_task w
      (resolve_group (pg_key (bk_heap (wd_broker w) ! ref)) (deny_decision rid ''prompt-timeout'' None) Deny True
        None (wd_broker w)) MsgControl None)"
| resumed: "tid < length (wd_tasks w) \<Longrightarrow> resume tid now stored (wd_tasks w ! tid) (wd_broker w) = Some seg \<Longrightarrow>
    step w (continue_task w tid seg)"
| failed: "tid < length (wd_tasks w) \<Longrightarrow> awaiting (wd_tasks w ! tid) \<Longrightarrow>
    step w (continue_task w tid (wd_broker w, [], Failed))"
| credentials: "list_all2 same_credential (bk_agent_credentials (wd_broker w)) cs \<Longrightarrow>
    step w (w\<lparr>wd_broker := (wd_broker w)\<lparr>bk_agent_credentials := cs\<rparr>\<rparr>)"
| closing: "step w (start_task w (close_broker (wd_broker w)) MsgControl None)"

abbreviation steps :: "world \<Rightarrow> world \<Rightarrow> bool" where "steps \<equiv> step\<^sup>*\<^sup>*"

section \<open>What a segment may change\<close>

definition shape :: "pending_group \<Rightarrow> string \<times> identity" where
  "shape g = (pg_key g, group_identity g)"

text \<open>What never changes, but for what the credentials say.\<close>

definition static ::
  "broker \<Rightarrow> string \<times> resolved_document \<times> principal \<times> string list \<times> secret_values \<times>
     (string \<Rightarrow> string \<Rightarrow> string option \<Rightarrow> bool) list"
where
  "static b = (bk_session_id b, bk_document b, bk_principal b, bk_mask_patterns b, bk_secret_values b,
     map ag_is_host_owned_refresh (bk_agent_credentials b))"

definition remembered :: "broker \<Rightarrow> string set \<times> string set \<times> string set \<times> string set" where
  "remembered b = (bk_approved b, bk_denied b, bk_approved_violations b, bk_denied_violations b)"

text \<open>
  What is shown and logged of a request went through the mask: its path and what its violations
  quote. Without patterns there is nothing to hide.
\<close>

definition masked :: "string list \<Rightarrow> string \<Rightarrow> bool" where
  "masked patterns s \<longleftrightarrow> patterns = [] \<or> (\<exists>t. s = mask_text t patterns)"

definition masked_option :: "string list \<Rightarrow> string option \<Rightarrow> bool" where
  "masked_option patterns v \<longleftrightarrow> (case v of None \<Rightarrow> True | Some s \<Rightarrow> masked patterns s)"

definition finding_masked :: "string list \<Rightarrow> violation_finding \<Rightarrow> bool" where
  "finding_masked patterns f \<longleftrightarrow> masked patterns (vf_pointer f) \<and> masked_option patterns (vf_value f) \<and>
     masked_option patterns (vf_label f) \<and> masked_option patterns (vf_excerpt f)"

definition audit_violation_masked :: "string list \<Rightarrow> audit_violation \<Rightarrow> bool" where
  "audit_violation_masked patterns v \<longleftrightarrow> masked patterns (av_pointer v) \<and> masked_option patterns (av_value v) \<and>
     masked_option patterns (av_label v)"

fun effect_masked :: "string list \<Rightarrow> effect \<Rightarrow> bool" where
  "effect_masked patterns (WriteEntry pe) =
     (masked_option patterns (request_path (pe_review_context pe)) \<and>
      (case pe_violations pe of None \<Rightarrow> True | Some fs \<Rightarrow> list_all (finding_masked patterns) fs))"
| "effect_masked patterns (AppendAudit ae) =
     (masked_option patterns (ae_path ae) \<and>
      (case ae_violations ae of None \<Rightarrow> True | Some vs \<Rightarrow> list_all (audit_violation_masked patterns) vs))"
| "effect_masked patterns e = True"

definition effects_grow :: "broker \<Rightarrow> broker \<Rightarrow> bool" where
  "effects_grow b b' \<longleftrightarrow>
     (\<forall>e\<in>set (bk_effects b'). e \<in> set (bk_effects b) \<or> effect_masked (bk_mask_patterns b) e)"

lemma effects_grow_refl [simp]: "effects_grow b b"
  by (simp add: effects_grow_def)

lemma effects_grow_same: "bk_effects b' = bk_effects b \<Longrightarrow> effects_grow b b'"
  by (simp add: effects_grow_def)

lemma effects_grow_trans:
  "effects_grow b c \<Longrightarrow> effects_grow c d \<Longrightarrow> static c = static b \<Longrightarrow> effects_grow b d"
  by (auto simp: effects_grow_def static_def)

text \<open>No key is both approved and denied.\<close>

definition exclusive :: "broker \<Rightarrow> bool" where
  "exclusive b \<longleftrightarrow> bk_approved b \<inter> bk_denied b = {} \<and>
     bk_approved_violations b \<inter> bk_denied_violations b = {}"

lemma exclusive_remembered: "remembered b' = remembered b \<Longrightarrow> exclusive b' = exclusive b"
  by (simp add: exclusive_def remembered_def)

lemma exclusive_moves:
  "exclusive b \<Longrightarrow> exclusive (b\<lparr>bk_approved := insert k (bk_approved b), bk_denied := bk_denied b - {k}\<rparr>)"
  "exclusive b \<Longrightarrow> exclusive (b\<lparr>bk_denied := insert k (bk_denied b), bk_approved := bk_approved b - {k}\<rparr>)"
  "exclusive b \<Longrightarrow> exclusive (b\<lparr>bk_approved_violations := bk_approved_violations b \<union> ks,
     bk_denied_violations := bk_denied_violations b - ks\<rparr>)"
  "exclusive b \<Longrightarrow> exclusive (b\<lparr>bk_denied_violations := bk_denied_violations b \<union> ks,
     bk_approved_violations := bk_approved_violations b - ks\<rparr>)"
  by (auto simp: exclusive_def)

lemma exclusive_remember: "exclusive b \<Longrightarrow> exclusive (remember g s v b)"
  by (cases "pg_body g") (simp_all add: remember_def Let_def exclusive_moves)

text \<open>A group that is not open stays so, and a timer that is off stays off.\<close>

definition recedes :: "broker \<Rightarrow> broker \<Rightarrow> bool" where
  "recedes b b' \<longleftrightarrow> snd ` set (bk_groups b') \<subseteq> snd ` set (bk_groups b) \<union> {length (bk_heap b)..} \<and>
     (\<forall>ref<length (bk_heap b). pg_timer (bk_heap b' ! ref) \<longrightarrow> pg_timer (bk_heap b ! ref))"

lemma recedes_refl [simp]: "recedes b b"
  by (simp add: recedes_def)

lemma recedes_same: "bk_heap b' = bk_heap b \<Longrightarrow> set (bk_groups b') \<subseteq> set (bk_groups b) \<Longrightarrow> recedes b b'"
  by (auto simp: recedes_def)

lemma recedes_trans:
  assumes "recedes b c" "recedes c d" "length (bk_heap b) \<le> length (bk_heap c)"
  shows "recedes b d"
  unfolding recedes_def
proof
  have late: "{length (bk_heap c)..} \<subseteq> {length (bk_heap b)..}" using assms(3) by auto
  note c = assms(1) [unfolded recedes_def, THEN conjunct1] and d = assms(2) [unfolded recedes_def, THEN conjunct1]
  have "snd ` set (bk_groups d) \<subseteq> (snd ` set (bk_groups b) \<union> {length (bk_heap b)..}) \<union> {length (bk_heap c)..}"
    by (rule order_trans [OF d Un_mono [OF c order_refl]])
  then show "snd ` set (bk_groups d) \<subseteq> snd ` set (bk_groups b) \<union> {length (bk_heap b)..}"
    unfolding Un_assoc Un_absorb2 [OF late] .
next
  show "\<forall>ref<length (bk_heap b). pg_timer (bk_heap d ! ref) \<longrightarrow> pg_timer (bk_heap b ! ref)"
    using assms unfolding recedes_def by (meson less_le_trans)
qed

text \<open>
  Groups keep their key and identity, and the waiters of a group are old ones or in the set of
  new pairs of a group and a task.
\<close>

definition evolves :: "broker \<Rightarrow> broker \<Rightarrow> (nat \<times> nat) set \<Rightarrow> bool" where
  "evolves b b' new \<longleftrightarrow> static b' = static b \<and> effects_grow b b' \<and>
     (exclusive b \<longrightarrow> exclusive b') \<and> recedes b b' \<and> length (bk_heap b) \<le> length (bk_heap b') \<and>
     (\<forall>ref<length (bk_heap b). shape (bk_heap b' ! ref) = shape (bk_heap b ! ref)) \<and>
     (\<forall>ref<length (bk_heap b'). \<forall>e\<in>set (pg_waiters (bk_heap b' ! ref)).
        (ref < length (bk_heap b) \<and> e \<in> set (pg_waiters (bk_heap b ! ref))) \<or> (ref, snd e) \<in> new)"

text \<open>Every group has the key of its identity, and the map of the open groups is by key.\<close>

fun identity_key :: "string \<Rightarrow> identity \<Rightarrow> string" where
  "identity_key session (ReviewOf rid reason target) = pending_group_key session rid reason target"
| "identity_key session (ViolationsOf rid identities) = violation_group_key session rid identities"

fun identity_wf :: "identity \<Rightarrow> bool" where
  "identity_wf (ReviewOf rid reason target) = nul_free rid"
| "identity_wf (ViolationsOf rid identities) = (nul_free rid \<and> (\<exists>fs. identities = map (violation_key rid) fs))"

definition group_wf :: "string \<Rightarrow> pending_group \<Rightarrow> bool" where
  "group_wf session g \<longleftrightarrow> pg_key g = identity_key session (group_identity g) \<and> identity_wf (group_identity g)"

definition store_wf :: "broker \<Rightarrow> bool" where
  "store_wf b \<longleftrightarrow> list_all (group_wf (bk_session_id b)) (bk_heap b) \<and>
     (\<forall>(key, ref)\<in>set (bk_groups b). ref < length (bk_heap b) \<and> pg_key (bk_heap b ! ref) = key)"

lemma evolves_refl [simp, intro]: "evolves b b new"
  by (simp add: evolves_def)

lemma evolves_trans:
  assumes "evolves b c new" and "evolves c d new"
  shows "evolves b d new"
proof -
  have "shape (bk_heap d ! ref) = shape (bk_heap b ! ref)" if "ref < length (bk_heap b)" for ref
    using assms that by (simp add: evolves_def)
  moreover have "(ref < length (bk_heap b) \<and> e \<in> set (pg_waiters (bk_heap b ! ref))) \<or> (ref, snd e) \<in> new"
    if "ref < length (bk_heap d)" "e \<in> set (pg_waiters (bk_heap d ! ref))" for ref e
    using assms that unfolding evolves_def by meson
  moreover have "effects_grow b d"
    using assms effects_grow_trans by (auto simp: evolves_def)
  moreover have "recedes b d"
    using assms recedes_trans by (auto simp: evolves_def)
  ultimately show ?thesis
    using assms by (simp add: evolves_def)
qed

lemma evolves_mono: "evolves b b' new \<Longrightarrow> new \<subseteq> new' \<Longrightarrow> evolves b b' new'"
  unfolding evolves_def by blast

lemma shape_identity: "shape g = shape h \<Longrightarrow> group_identity g = group_identity h \<and> pg_key g = pg_key h"
  by (simp add: shape_def)

lemma evolves_identity:
  "evolves b b' new \<Longrightarrow> ref < length (bk_heap b) \<Longrightarrow>
     ref < length (bk_heap b') \<and> group_identity (bk_heap b' ! ref) = group_identity (bk_heap b ! ref)"
  by (auto simp: evolves_def shape_def)

lemma nth_update: "j < length xs \<Longrightarrow> xs[i := x] ! j = (if i = j then x else xs ! j)"
  by (cases "i < length xs") simp_all

lemma update_group_fields [simp]:
  "bk_groups (update_group ref f b) = bk_groups b"
  "bk_session_id (update_group ref f b) = bk_session_id b"
  "static (update_group ref f b) = static b"
  "remembered (update_group ref f b) = remembered b"
  "bk_effects (update_group ref f b) = bk_effects b"
  "length (bk_heap (update_group ref f b)) = length (bk_heap b)"
  "bk_heap (update_group ref f b) = (bk_heap b)[ref := f (bk_heap b ! ref)]"
  by (simp_all add: update_group_def static_def remembered_def)

lemma update_group_evolves:
  assumes "\<And>g. shape (f g) = shape g"
    and "\<And>e. ref < length (bk_heap b) \<Longrightarrow> e \<in> set (pg_waiters (f (bk_heap b ! ref))) \<Longrightarrow>
      e \<in> set (pg_waiters (bk_heap b ! ref)) \<or> (ref, snd e) \<in> new"
    and "\<And>g. pg_timer (f g) \<Longrightarrow> pg_timer g"
  shows "evolves b (update_group ref f b) new"
proof -
  have "recedes b (update_group ref f b)"
    unfolding recedes_def update_group_fields using assms(3) by (auto simp: nth_update split: if_splits)
  then show ?thesis
    unfolding evolves_def update_group_fields
    using assms(1,2) exclusive_remembered [OF update_group_fields(4)]
    by (auto simp: nth_update effects_grow_same split: if_splits)
qed

lemma shape_pg_key: "shape g = shape h \<Longrightarrow> pg_key g = pg_key h"
  by (simp add: shape_def)

lemma update_group_store_wf:
  assumes "store_wf b" and same: "\<And>g. shape (f g) = shape g"
  shows "store_wf (update_group ref f b)"
proof -
  have keys: "pg_key ((bk_heap b)[ref := f (bk_heap b ! ref)] ! r) = pg_key (bk_heap b ! r)"
    if "r < length (bk_heap b)" for r
    using that same by (cases "r = ref") (auto dest: shape_pg_key)
  have "group_wf sid (f g) = group_wf sid g" for sid g
    using same [of g] by (simp add: group_wf_def shape_def)
  then have "list_all (group_wf sid) ((bk_heap b)[ref := f (bk_heap b ! ref)])"
    if "list_all (group_wf sid) (bk_heap b)" for sid
    using that by (auto simp: list_all_length nth_update)
  with assms(1) keys show ?thesis
    by (auto simp: store_wf_def)
qed

subsection \<open>Steps that leave the groups alone\<close>

definition quiet :: "broker \<Rightarrow> broker \<Rightarrow> bool" where
  "quiet b b' \<longleftrightarrow> bk_heap b' = bk_heap b \<and> bk_groups b' = bk_groups b \<and> static b' = static b \<and>
     remembered b' = remembered b \<and> effects_grow b b'"

lemma quiet_refl [simp]: "quiet b b"
  by (simp add: quiet_def)

lemma quiet_trans: "quiet b c \<Longrightarrow> quiet c d \<Longrightarrow> quiet b d"
  using effects_grow_trans by (auto simp: quiet_def)

lemma quiet_emit: "effect_masked (bk_mask_patterns b) e \<Longrightarrow> quiet b (emit e b)"
  by (simp add: quiet_def emit_def static_def remembered_def effects_grow_def)

lemma quiet_emit_plain [simp]:
  "quiet b (emit (Notify rid t) b)" "quiet b (emit (RemoveEntry sid rid) b)"
  by (simp_all add: quiet_emit)

lemma quiet_index [simp]: "quiet b (index_request rid key b)"
  by (simp add: quiet_def index_request_def static_def remembered_def effects_grow_def)

lemma quiet_unindex [simp]: "quiet b (unindex_request rid b)"
  by (simp add: quiet_def unindex_request_def static_def remembered_def effects_grow_def)

lemma quiet_negative [simp]: "quiet b (b\<lparr>bk_negative := c\<rparr>)"
  by (simp add: quiet_def static_def remembered_def effects_grow_def)

lemma masked_context [simp]: "masked_option (bk_mask_patterns b) (request_path (masked_review_context b ctx))"
  by (auto simp: masked_option_def masked_def request_path_def masked_review_context_def
      mask_review_context_with_patterns_def split: option.splits)

lemma masked_findings_masked [simp]: "list_all (finding_masked ps) (masked_findings ps fs)"
  by (auto simp: masked_findings_def list_all_iff finding_masked_def masked_option_def masked_def split: option.splits)

lemma masked_audit_violations [simp]:
  "list_all (audit_violation_masked ps) (map to_audit_violation (masked_findings ps fs))"
proof -
  have "finding_masked ps f \<Longrightarrow> audit_violation_masked ps (to_audit_violation f)" for f
    by (simp add: finding_masked_def audit_violation_masked_def to_audit_violation_def)
  then show ?thesis using masked_findings_masked [of ps fs] by (simp add: list_all_iff)
qed

lemma quiet_record_audit [simp]: "quiet b (record_audit m v r t i rid d s b)"
  by (simp add: record_audit_def quiet_emit)

lemma quiet_record_violation_audit [simp]: "quiet b (record_violation_audit m v r t f b)"
  by (simp add: record_violation_audit_def quiet_emit del: list.pred_map)

lemma quiet_write_authorize_entry [simp]: "quiet b (write_authorize_entry ref m s now b)"
  by (simp add: write_authorize_entry_def to_pending_entry_def Let_def quiet_emit split: group_body.splits)

lemma quiet_write_violation_entry [simp]: "quiet b (write_violation_entry ref m now b)"
  by (simp add: write_violation_entry_def to_violation_pending_entry_def Let_def quiet_emit split: group_body.splits)

lemma static_session: "static b = static b' \<Longrightarrow> bk_session_id b = bk_session_id b'"
  by (simp add: static_def)

lemma quiet_evolves: "quiet b b' \<Longrightarrow> evolves b b' new"
  by (auto simp: quiet_def evolves_def exclusive_def remembered_def recedes_same)

lemma quiet_store_wf: "quiet b b' \<Longrightarrow> store_wf b \<Longrightarrow> store_wf b'"
  by (auto simp: quiet_def store_wf_def dest: static_session)

text \<open>The contract of a segment of task \<open>tid\<close>: it evolves, and only a waiting task becomes a waiter.\<close>

definition new_waiters :: "nat \<Rightarrow> task \<Rightarrow> (nat \<times> nat) set" where
  "new_waiters tid t = (case t of Waiting ref \<Rightarrow> {(ref, tid)} | _ \<Rightarrow> {})"

definition tame :: "broker \<Rightarrow> nat \<Rightarrow> broker \<Rightarrow> task \<Rightarrow> bool" where
  "tame b tid b' t \<longleftrightarrow> evolves b b' (new_waiters tid t) \<and> store_wf b' \<and> remembered b' = remembered b"

lemma tame_quiet: "quiet b b' \<Longrightarrow> store_wf b \<Longrightarrow> tame b tid b' t"
  by (simp add: tame_def quiet_evolves quiet_store_wf) (simp add: quiet_def)

lemma tame_after: "quiet b c \<Longrightarrow> (store_wf c \<Longrightarrow> tame c tid d t) \<Longrightarrow> store_wf b \<Longrightarrow> tame b tid d t"
  unfolding tame_def by (metis evolves_trans quiet_def quiet_evolves quiet_store_wf)

lemma tame_before: "tame b tid c t \<Longrightarrow> quiet c d \<Longrightarrow> tame b tid d t"
  unfolding tame_def by (metis evolves_trans quiet_def quiet_evolves quiet_store_wf)

lemma tame_trans: "tame b tid c t \<Longrightarrow> tame c tid d t \<Longrightarrow> tame b tid d t"
  unfolding tame_def using evolves_trans by metis

lemma tame_update_group:
  assumes "store_wf b" "\<And>g. shape (f g) = shape g"
    and "\<And>e. ref < length (bk_heap b) \<Longrightarrow> e \<in> set (pg_waiters (f (bk_heap b ! ref))) \<Longrightarrow>
      e \<in> set (pg_waiters (bk_heap b ! ref)) \<or> (ref, snd e) \<in> new_waiters tid t"
    and "\<And>g. pg_timer (f g) \<Longrightarrow> pg_timer g"
  shows "tame b tid (update_group ref f b) t"
  using update_group_evolves [OF assms(2-4)] update_group_store_wf [OF assms(1,2)]
  by (simp add: tame_def)

lemma set_delete_subset: "set (AList.delete k es) \<subseteq> set es"
  by (induction es) auto

lemma shape_waiters [simp]: "shape (g\<lparr>pg_waiters := ws\<rparr>) = shape g"
  by (cases "pg_body g") (simp_all add: shape_def group_identity.simps)

lemma shape_timer [simp]: "shape (g\<lparr>pg_timer := x, pg_notified := y\<rparr>) = shape g"
  by (cases "pg_body g") (simp_all add: shape_def group_identity.simps)

lemma shape_add_request [simp]: "shape (g\<lparr>pg_body := add_request rid p d (pg_body g)\<rparr>) = shape g"
  by (cases "(rid, p, d, pg_body g)" rule: add_request.cases)
    (auto simp: shape_def group_identity.simps split: group_body.splits)

lemma shape_remove_request [simp]: "shape (g\<lparr>pg_body := remove_request rid (pg_body g)\<rparr>) = shape g"
  by (cases "pg_body g") (simp_all add: shape_def group_identity.simps)

lemma tame_drop_group: "store_wf b \<Longrightarrow> tame b tid (drop_group key ref b) t"
proof -
  assume wf: "store_wf b"
  let ?c = "b\<lparr>bk_groups := AList.delete key (bk_groups b)\<rparr>"
  have c: "store_wf ?c" "evolves b ?c new" "remembered ?c = remembered b" for new
    using wf set_delete_subset [of key "bk_groups b"]
    by (auto simp: store_wf_def evolves_def static_def remembered_def effects_grow_def exclusive_def
        intro!: recedes_same)
  have "tame ?c tid (drop_group key ref b) t"
    unfolding drop_group_def by (rule tame_update_group [OF c(1)]) auto
  with c(2,3) show ?thesis
    unfolding tame_def using evolves_trans by metis
qed

lemma tame_register:
  "store_wf b \<Longrightarrow> register_waiter ref rid tid b = (b', ds, t) \<Longrightarrow> tame b tid b' t \<and> ds = [] \<and> t = Waiting ref"
  by (auto simp: register_waiter_def new_waiters_def dest!: set_mp [OF set_update_subset]
      intro!: tame_update_group)

lemma tame_new_group:
  assumes "store_wf b" "group_wf (bk_session_id b) grp" "pg_waiters grp = []" "pg_key grp = key"
  shows "tame b tid (b\<lparr>bk_heap := bk_heap b @ [grp], bk_groups := AList.update key (length (bk_heap b)) (bk_groups b)\<rparr>) t"
    (is "tame b tid ?c t")
proof -
  have "recedes b ?c"
    using set_update_subset [of key "length (bk_heap b)" "bk_groups b"] by (force simp: recedes_def nth_append)
  then have "evolves b ?c new" for new
    using assms(3) by (auto simp: evolves_def static_def nth_append less_Suc_eq effects_grow_def exclusive_def)
  moreover have "store_wf ?c"
    using assms set_update_subset [of key "length (bk_heap b)" "bk_groups b"]
    by (fastforce simp: store_wf_def nth_append)
  ultimately show ?thesis by (simp add: tame_def remembered_def)
qed

section \<open>When an answer is justified\<close>

text \<open>Screened: neither a special target nor a refresh of a token the host owns.\<close>

definition screened :: "broker \<Rightarrow> authorize_request \<Rightarrow> bool" where
  "screened b m \<longleftrightarrow> deny_reason_for_target (aq_target m) = Some None \<and>
     \<not> is_host_owned_credential_refresh (bk_agent_credentials b) (ta_host (aq_target m)) (aq_method m)
         (request_path (aq_review_context m))"

definition pressed :: "press list \<Rightarrow> identity \<Rightarrow> bool" where
  "pressed ps i \<longleftrightarrow> list_ex (\<lambda>p. pr_verdict p = Allow \<and> pr_identity p = i) ps"

text \<open>An approval covers a decision on a target: for the target itself, or for its host.\<close>

definition covers :: "press \<Rightarrow> decision \<Rightarrow> target_address \<Rightarrow> bool" where
  "covers p d target \<longleftrightarrow> pr_verdict p = Allow \<and>
     (case pr_identity p of
        ReviewOf rid reason t \<Rightarrow> rid = de_rule_id d \<and> reason = de_reason d \<and>
          (t = target \<or> (pr_scope p = Some ScHost \<and> ta_host t = ta_host target))
      | ViolationsOf rid identities \<Rightarrow> False)"

definition review_approved :: "press list \<Rightarrow> decision \<Rightarrow> target_address \<Rightarrow> bool" where
  "review_approved ps d target \<longleftrightarrow> list_ex (\<lambda>p. covers p d target) ps"

definition violation_approved :: "press list \<Rightarrow> string \<Rightarrow> bool" where
  "violation_approved ps key \<longleftrightarrow>
     list_ex (\<lambda>p. pr_verdict p = Allow \<and>
       (case pr_identity p of ViolationsOf rid identities \<Rightarrow> key \<in> set identities | _ \<Rightarrow> False)) ps"

definition review_justified :: "broker \<Rightarrow> press list \<Rightarrow> review_request \<Rightarrow> bool" where
  "review_justified b ps m \<longleftrightarrow> bk_principal b = AgentPrincipal \<and>
     (case find_rule_by_id (bk_document b) (vq_rule_id m) of
        None \<Rightarrow> False
      | Some rule \<Rightarrow> asked_findings rule m \<noteq> [] \<and>
          list_all (\<lambda>f. is_approvable_finding f \<and> violation_approved ps (violation_key (vq_rule_id m) f))
            (asked_findings rule m))"

definition authorize_justified :: "broker \<Rightarrow> press list \<Rightarrow> authorize_request \<Rightarrow> bool" where
  "authorize_justified b ps m \<longleftrightarrow> screened b m \<and>
     (case decide_message (bk_document b) m of
        None \<Rightarrow> False
      | Some d \<Rightarrow> de_action d = ActAllow \<or>
          (de_action d = ActReview \<and> bk_principal b = AgentPrincipal \<and> review_approved ps d (aq_target m)))"

fun justified :: "broker \<Rightarrow> press list \<Rightarrow> request_message \<Rightarrow> bool" where
  "justified b ps (MsgAuthorize m) = authorize_justified b ps m"
| "justified b ps (MsgReview m) = review_justified b ps m"
| "justified b ps MsgControl = False"

text \<open>
  A message fits a group when the approval of the group justifies the answer to the message.
\<close>

fun fits :: "broker \<Rightarrow> press list \<Rightarrow> request_message \<Rightarrow> identity \<Rightarrow> bool" where
  "fits b ps (MsgAuthorize m) i = (screened b m \<and> bk_principal b = AgentPrincipal \<and>
     (\<exists>d. decide_message (bk_document b) m = Some d \<and> de_action d = ActReview \<and>
       i = ReviewOf (de_rule_id d) (de_reason d) (aq_target m)))"
| "fits b ps (MsgReview m) i = (bk_principal b = AgentPrincipal \<and>
     (\<exists>rule. find_rule_by_id (bk_document b) (vq_rule_id m) = Some rule \<and> asked_findings rule m \<noteq> [] \<and>
       (\<forall>f\<in>set (asked_findings rule m). is_approvable_finding f \<and>
          (violation_approved ps (violation_key (vq_rule_id m) f) \<or>
           (\<exists>ids. i = ViolationsOf (vq_rule_id m) ids \<and> violation_key (vq_rule_id m) f \<in> set ids)))))"
| "fits b ps MsgControl i = False"

lemma pressed_mono: "pressed ps i \<Longrightarrow> pressed (ps @ qs) i"
  by (simp add: pressed_def)

lemma violation_approved_mono: "violation_approved ps k \<Longrightarrow> violation_approved (ps @ qs) k"
  by (simp add: violation_approved_def)

lemma review_approved_mono: "review_approved ps d t \<Longrightarrow> review_approved (ps @ qs) d t"
  by (simp add: review_approved_def)

lemma refresh_static:
  "map ag_is_host_owned_refresh cs = map ag_is_host_owned_refresh cs' \<Longrightarrow>
     is_host_owned_credential_refresh cs h m p = is_host_owned_credential_refresh cs' h m p"
proof -
  have "is_host_owned_credential_refresh cs h m p = list_ex (\<lambda>f. f h m p) (map ag_is_host_owned_refresh cs)" for cs
    by (induction cs) (simp_all add: is_host_owned_credential_refresh_def)
  then show "map ag_is_host_owned_refresh cs = map ag_is_host_owned_refresh cs' \<Longrightarrow> ?thesis" by simp
qed

lemma static_parts:
  assumes "static b' = static b"
  shows "bk_session_id b' = bk_session_id b" "bk_document b' = bk_document b" "bk_principal b' = bk_principal b"
    "bk_mask_patterns b' = bk_mask_patterns b" "bk_secret_values b' = bk_secret_values b"
  using assms by (simp_all add: static_def)

lemma screened_static:
  assumes "static b' = static b"
  shows "screened b' m = screened b m"
proof -
  have "map ag_is_host_owned_refresh (bk_agent_credentials b') = map ag_is_host_owned_refresh (bk_agent_credentials b)"
    using assms by (simp add: static_def)
  from refresh_static [OF this] show ?thesis by (simp only: screened_def)
qed

lemma authorize_justified_mono: "authorize_justified b ps m \<Longrightarrow> authorize_justified b (ps @ qs) m"
  unfolding authorize_justified_def using review_approved_mono by (fastforce split: option.splits)

lemma review_justified_mono: "review_justified b ps m \<Longrightarrow> review_justified b (ps @ qs) m"
  unfolding review_justified_def list_all_iff using violation_approved_mono by (fastforce split: option.splits)

lemma justified_mono: "justified b ps msg \<Longrightarrow> justified b (ps @ qs) msg"
  by (cases msg) (simp_all add: authorize_justified_mono review_justified_mono)

lemma justified_static:
  assumes "static b' = static b"
  shows "justified b' ps msg = justified b ps msg"
  by (cases msg) (simp_all only: justified.simps authorize_justified_def review_justified_def
      static_parts(2,3) [OF assms] screened_static [OF assms])

lemma fits_mono: "fits b ps msg i \<Longrightarrow> fits b (ps @ qs) msg i"
  by (cases msg) (simp_all, meson violation_approved_mono)

lemma fits_static:
  assumes "static b' = static b"
  shows "fits b' ps msg i = fits b ps msg i"
  by (cases msg) (simp_all only: fits.simps static_parts(2,3) [OF assms] screened_static [OF assms])

lemma fits_move: "fits b ps msg i \<Longrightarrow> static b' = static b \<Longrightarrow> fits b' ps msg i"
  by (rule iffD2 [OF fits_static])

lemma justified_move: "justified b ps msg \<Longrightarrow> static b' = static b \<Longrightarrow> justified b' ps msg"
  by (rule iffD2 [OF justified_static])

lemma pressed_violation: "pressed ps (ViolationsOf rid ids) \<Longrightarrow> k \<in> set ids \<Longrightarrow> violation_approved ps k"
  unfolding pressed_def violation_approved_def list_ex_iff by fastforce

lemma fits_justified:
  assumes "fits b ps msg i" and "pressed ps i"
  shows "justified b ps msg"
proof (cases msg)
  case (MsgAuthorize m)
  obtain d where d: "screened b m" "bk_principal b = AgentPrincipal"
      "decide_message (bk_document b) m = Some d" "de_action d = ActReview"
      "i = ReviewOf (de_rule_id d) (de_reason d) (aq_target m)"
    using assms(1) unfolding MsgAuthorize fits.simps by (elim conjE exE) (rule that; assumption)
  obtain p where p: "p \<in> set ps" "pr_verdict p = Allow" "pr_identity p = i"
    using assms(2) unfolding pressed_def list_ex_iff by blast
  with d(5) have "review_approved ps d (aq_target m)"
    by (auto simp: review_approved_def list_ex_iff covers_def)
  with d MsgAuthorize show ?thesis by (simp add: authorize_justified_def)
next
  case (MsgReview m)
  obtain rule where rule: "bk_principal b = AgentPrincipal"
      "find_rule_by_id (bk_document b) (vq_rule_id m) = Some rule" "asked_findings rule m \<noteq> []"
      and all: "\<forall>f\<in>set (asked_findings rule m). is_approvable_finding f \<and>
        (violation_approved ps (violation_key (vq_rule_id m) f) \<or>
         (\<exists>ids. i = ViolationsOf (vq_rule_id m) ids \<and> violation_key (vq_rule_id m) f \<in> set ids))"
    using assms(1) unfolding MsgReview fits.simps by (elim conjE exE) (rule that; assumption)
  have "violation_approved ps (violation_key (vq_rule_id m) f)" if "f \<in> set (asked_findings rule m)" for f
  proof -
    from all that consider "violation_approved ps (violation_key (vq_rule_id m) f)"
      | ids where "i = ViolationsOf (vq_rule_id m) ids" "violation_key (vq_rule_id m) f \<in> set ids"
      by metis
    then show ?thesis
    proof cases
      case 2
      from pressed_violation [OF assms(2) [unfolded 2(1)] 2(2)] show ?thesis .
    qed
  qed
  with all rule MsgReview show ?thesis by (simp add: review_justified_def list_all_iff)
next
  case MsgControl
  with assms show ?thesis by simp
qed

section \<open>The invariant\<close>

text \<open>Every remembered approval was pressed.\<close>

definition approvals_pressed :: "broker \<Rightarrow> press list \<Rightarrow> bool" where
  "approvals_pressed b ps \<longleftrightarrow>
     (\<forall>key\<in>bk_approved b. \<exists>p\<in>set ps. \<exists>rid reason target scope.
        pr_verdict p = Allow \<and> pr_scope p = Some scope \<and> pr_identity p = ReviewOf rid reason target \<and>
        nul_free rid \<and> key = approval_key rid reason target scope) \<and>
     (\<forall>key\<in>bk_approved_violations b. violation_approved ps key)"

text \<open>A promise that a group may settle is that of a task waiting for it, or settled already.\<close>

definition waits_for :: "task list \<Rightarrow> nat \<Rightarrow> nat \<Rightarrow> bool" where
  "waits_for tasks tid ref \<longleftrightarrow> tid < length tasks \<and>
     (tasks ! tid = Waiting ref \<or> (\<exists>r. tasks ! tid = Done r))"

definition waiters_ok :: "broker \<Rightarrow> task list \<Rightarrow> bool" where
  "waiters_ok b tasks \<longleftrightarrow>
     (\<forall>ref<length (bk_heap b). \<forall>e\<in>set (pg_waiters (bk_heap b ! ref)). waits_for tasks (snd e) ref)"

definition resolution_ok :: "broker \<Rightarrow> press list \<Rightarrow> nat \<Rightarrow> decision_response \<Rightarrow> verdict \<Rightarrow> bool" where
  "resolution_ok b ps ref base outcome \<longleftrightarrow> ref < length (bk_heap b) \<and> rp_verdict base = outcome \<and>
     (outcome = Allow \<longrightarrow> pressed ps (group_identity (bk_heap b ! ref)))"

definition control_reply :: "broker_response option \<Rightarrow> bool" where
  "control_reply reply \<longleftrightarrow> (\<forall>r. reply \<noteq> Some (ReplyDecision r))"

definition settles_ok :: "broker \<Rightarrow> press list \<Rightarrow> task list \<Rightarrow> nat \<Rightarrow> nat option \<Rightarrow> verdict \<Rightarrow> bool" where
  "settles_ok b ps tasks ref waiter outcome \<longleftrightarrow> ref < length (bk_heap b) \<and>
     (outcome = Allow \<longrightarrow> pressed ps (group_identity (bk_heap b ! ref))) \<and>
     (case waiter of None \<Rightarrow> True | Some tid \<Rightarrow> waits_for tasks tid ref)"

fun reply_ok :: "broker \<Rightarrow> press list \<Rightarrow> request_message \<Rightarrow> broker_response option \<Rightarrow> bool" where
  "reply_ok b ps msg (Some (ReplyDecision r)) = (rp_verdict r = Allow \<longrightarrow> justified b ps msg)"
| "reply_ok b ps msg reply = True"

fun task_ok :: "broker \<Rightarrow> press list \<Rightarrow> task list \<Rightarrow> request_message \<Rightarrow> task \<Rightarrow> bool" where
  "task_ok b ps tasks msg (CaptureBody m capture) = (msg = MsgAuthorize m)"
| "task_ok b ps tasks msg (EntryWritten ref m d status created) =
     (msg = MsgAuthorize m \<and> ref < length (bk_heap b) \<and> fits b ps msg (group_identity (bk_heap b ! ref)))"
| "task_ok b ps tasks msg (ReviewEntryWritten ref m created) =
     (msg = MsgReview m \<and> ref < length (bk_heap b) \<and> fits b ps msg (group_identity (bk_heap b ! ref)))"
| "task_ok b ps tasks msg (Waiting ref) =
     (ref < length (bk_heap b) \<and> fits b ps msg (group_identity (bk_heap b ! ref)))"
| "task_ok b ps tasks msg (Replying r) = reply_ok b ps msg (Some r)"
| "task_ok b ps tasks msg (ResolvingGroup ref base outcome use_negative_cache reply) =
     (resolution_ok b ps ref base outcome \<and> control_reply reply)"
| "task_ok b ps tasks msg (EntryRemoved ref base outcome visited rid request reply) =
     (resolution_ok b ps ref base outcome \<and> control_reply reply)"
| "task_ok b ps tasks msg (Audited ref base outcome visited rid decision reply) =
     (resolution_ok b ps ref base outcome \<and> rp_verdict decision = outcome \<and> control_reply reply)"
| "task_ok b ps tasks msg (RequestDetached ref request decided waiter base outcome rid reply) =
     (resolution_ok b ps ref base outcome \<and> settles_ok b ps tasks ref waiter outcome \<and> control_reply reply)"
| "task_ok b ps tasks msg (RequestAudited ref waiter decision reply) =
     (settles_ok b ps tasks ref waiter (rp_verdict decision) \<and> control_reply reply)"
| "task_ok b ps tasks msg ClosingBroker = True"
| "task_ok b ps tasks msg (Done reply) = reply_ok b ps msg reply"
| "task_ok b ps tasks msg Failed = True"

definition tasks_ok :: "broker \<Rightarrow> press list \<Rightarrow> request_message list \<Rightarrow> task list \<Rightarrow> bool" where
  "tasks_ok b ps msgs tasks \<longleftrightarrow> length msgs = length tasks \<and>
     (\<forall>tid<length tasks. task_ok b ps tasks (msgs ! tid) (tasks ! tid))"

text \<open>The names of the rules have no NUL: every key can be taken apart again.\<close>

definition nul_free_document :: "resolved_document \<Rightarrow> bool" where
  "nul_free_document doc \<longleftrightarrow>
     list_all (\<lambda>s. nul_free (rs_fallback_rule_id s) \<and> list_all (\<lambda>r. nul_free (rr_id r)) (rs_rules s)) (doc_scopes doc)"

definition effects_masked :: "broker \<Rightarrow> bool" where
  "effects_masked b \<longleftrightarrow> list_all (effect_masked (bk_mask_patterns b)) (bk_effects b)"

lemma evolves_effects_masked: "evolves b b' new \<Longrightarrow> effects_masked b \<Longrightarrow> effects_masked b'"
  unfolding evolves_def effects_masked_def effects_grow_def static_def list_all_iff by (metis Pair_inject)

lemma evolves_exclusive: "evolves b b' new \<Longrightarrow> exclusive b \<Longrightarrow> exclusive b'"
  by (simp add: evolves_def)

definition world_ok :: "world \<Rightarrow> bool" where
  "world_ok w \<longleftrightarrow> exclusive (wd_broker w) \<and> effects_masked (wd_broker w) \<and> store_wf (wd_broker w) \<and> nul_free_document (bk_document (wd_broker w)) \<and>
     approvals_pressed (wd_broker w) (wd_presses w) \<and> waiters_ok (wd_broker w) (wd_tasks w) \<and>
     tasks_ok (wd_broker w) (wd_presses w) (wd_messages w) (wd_tasks w)"

subsection \<open>Preservation, whatever the segment\<close>

lemma reply_ok_mono:
  assumes "reply_ok b ps msg r" and "static b' = static b"
  shows "reply_ok b' (ps @ qs) msg r"
  using assms(1) justified_mono justified_static [OF assms(2)]
  by (cases "(b, ps, msg, r)" rule: reply_ok.cases) auto

lemma task_ok_evolves:
  assumes "task_ok b ps tasks msg t" and ev: "evolves b b' new"
    and keep: "\<And>tid ref. waits_for tasks tid ref \<Longrightarrow> waits_for tasks' tid ref"
  shows "task_ok b' (ps @ qs) tasks' msg t"
proof -
  have st: "static b' = static b" using ev by (simp add: evolves_def)
  have id: "ref < length (bk_heap b') \<and> group_identity (bk_heap b' ! ref) = group_identity (bk_heap b ! ref)"
    if "ref < length (bk_heap b)" for ref
    using evolves_identity [OF ev that] .
  note fits = fits_static [OF st] fits_mono [of b ps msg _ qs]
  have res: "resolution_ok b' (ps @ qs) ref base outcome" if "resolution_ok b ps ref base outcome" for ref base outcome
    using that id pressed_mono by (auto simp: resolution_ok_def)
  have set: "settles_ok b' (ps @ qs) tasks' ref waiter outcome" if "settles_ok b ps tasks ref waiter outcome"
    for ref waiter outcome
    using that id pressed_mono keep by (auto simp: settles_ok_def split: option.splits)
  show ?thesis
    using assms(1) id fits res set reply_ok_mono [OF _ st]
    by (cases t) (auto simp del: fits.simps)
qed

lemma waits_for_update:
  assumes "waits_for tasks tid' ref" and "\<not> (\<exists>ref. tasks ! tid = Waiting ref)" and "\<not> (\<exists>r. tasks ! tid = Done r)"
  shows "waits_for (tasks[tid := t]) tid' ref"
  using assms by (cases "tid' = tid") (auto simp: waits_for_def)

lemma waits_for_append: "waits_for tasks tid ref \<Longrightarrow> waits_for (tasks @ ts) tid ref"
  by (auto simp: waits_for_def nth_append)

lemma waits_for_deliver: "waits_for tasks tid' ref \<Longrightarrow> waits_for (deliver tasks e) tid' ref"
  by (cases e; cases "tasks ! fst e") (auto simp: waits_for_def deliver_def nth_update)

lemma length_deliver [simp]: "length (deliver tasks e) = length tasks"
  by (cases e) (simp add: deliver_def)

lemma length_deliver_all [simp]: "length (foldl deliver tasks ds) = length tasks"
  by (induction ds arbitrary: tasks) simp_all

definition delivery_ok :: "broker \<Rightarrow> press list \<Rightarrow> task list \<Rightarrow> nat \<times> decision_response \<Rightarrow> bool" where
  "delivery_ok b ps tasks e \<longleftrightarrow> (\<exists>ref<length (bk_heap b). waits_for tasks (fst e) ref \<and>
     (rp_verdict (snd e) = Allow \<longrightarrow> pressed ps (group_identity (bk_heap b ! ref))))"

lemma delivery_ok_keep:
  assumes "delivery_ok b ps tasks e" and "\<And>i ref. waits_for tasks i ref \<Longrightarrow> waits_for tasks' i ref"
  shows "delivery_ok b ps tasks' e"
  using assms unfolding delivery_ok_def by blast

lemma deliver_ok:
  assumes "tasks_ok b ps msgs tasks" and "waiters_ok b tasks" and "delivery_ok b ps tasks e"
  shows "tasks_ok b ps msgs (deliver tasks e) \<and> waiters_ok b (deliver tasks e)"
proof -
  obtain tid r where e: "e = (tid, r)" by (cases e)
  from assms(3) e obtain ref where ref: "ref < length (bk_heap b)" "waits_for tasks tid ref"
      "rp_verdict r = Allow \<Longrightarrow> pressed ps (group_identity (bk_heap b ! ref))"
    by (auto simp: delivery_ok_def)
  have keep: "\<And>tid ref. waits_for tasks tid ref \<Longrightarrow> waits_for (deliver tasks e) tid ref"
    by (rule waits_for_deliver)
  have "task_ok b ps (deliver tasks e) (msgs ! i) (deliver tasks e ! i)" if i: "i < length tasks" for i
  proof -
    have ok: "task_ok b ps tasks (msgs ! i) (tasks ! i)"
      using assms(1) i by (simp add: tasks_ok_def)
    have old: "task_ok b ps (deliver tasks e) (msgs ! i) (tasks ! i)"
      using task_ok_evolves [OF ok evolves_refl keep, of "[]"] by simp
    show ?thesis
    proof (cases "i = tid \<and> (\<exists>ref'. tasks ! i = Waiting ref')")
      case False
      have "deliver tasks e ! i = tasks ! i"
        using False i by (cases "tasks ! i") (auto simp: deliver_def e nth_update)
      with old show ?thesis by simp
    next
      case True
      with ref(2) have w: "tasks ! i = Waiting ref" "i = tid" by (auto simp: waits_for_def)
      then have "fits b ps (msgs ! i) (group_identity (bk_heap b ! ref))" using ok by simp
      with ref(3) fits_justified have "reply_ok b ps (msgs ! i) (Some (ReplyDecision r))" by auto
      moreover have "deliver tasks e ! i = Done (Some (ReplyDecision r))"
        using w i by (simp add: deliver_def e)
      ultimately show ?thesis by simp
    qed
  qed
  with assms(1) have "tasks_ok b ps msgs (deliver tasks e)" by (simp add: tasks_ok_def)
  moreover have "waiters_ok b (deliver tasks e)"
    using assms(2) keep by (simp add: waiters_ok_def)
  ultimately show ?thesis by blast
qed

lemma deliver_all_ok:
  "tasks_ok b ps msgs tasks \<Longrightarrow> waiters_ok b tasks \<Longrightarrow> \<forall>e\<in>set ds. delivery_ok b ps tasks e \<Longrightarrow>
     tasks_ok b ps msgs (foldl deliver tasks ds) \<and> waiters_ok b (foldl deliver tasks ds)"
proof (induction ds arbitrary: tasks)
  case (Cons e ds)
  have "\<forall>d\<in>set ds. delivery_ok b ps (deliver tasks e) d"
  proof
    fix d
    assume "d \<in> set ds"
    then have "delivery_ok b ps tasks d" using Cons.prems(3) by simp
    then show "delivery_ok b ps (deliver tasks e) d"
      by (rule delivery_ok_keep) (rule waits_for_deliver)
  qed
  moreover have "tasks_ok b ps msgs (deliver tasks e) \<and> waiters_ok b (deliver tasks e)"
    using deliver_ok [OF Cons.prems(1,2)] Cons.prems(3) by simp
  ultimately show ?case using Cons.IH by simp
qed simp

text \<open>The contract of a segment of task \<open>tid\<close>, whose message is \<open>msg\<close>.\<close>

definition segment_ok :: "broker \<Rightarrow> press list \<Rightarrow> task list \<Rightarrow> nat \<Rightarrow> request_message \<Rightarrow> segment \<Rightarrow> bool" where
  "segment_ok b ps tasks tid msg seg \<longleftrightarrow>
     (case seg of (b', ds, t) \<Rightarrow>
        evolves b b' (new_waiters tid t) \<and> store_wf b' \<and> approvals_pressed b' ps \<and>
        task_ok b' ps tasks msg t \<and> (\<forall>e\<in>set ds. delivery_ok b' ps tasks e))"

lemma waiters_ok_evolves:
  assumes "waiters_ok b tasks" and ev: "evolves b b' (new_waiters tid t)"
    and keep: "\<And>tid ref. waits_for tasks tid ref \<Longrightarrow> waits_for tasks' tid ref"
    and own: "tid < length tasks'" "tasks' ! tid = t"
  shows "waiters_ok b' tasks'"
  unfolding waiters_ok_def
proof (intro allI impI ballI)
  fix ref e
  assume ref: "ref < length (bk_heap b')" "e \<in> set (pg_waiters (bk_heap b' ! ref))"
  then consider "ref < length (bk_heap b)" "e \<in> set (pg_waiters (bk_heap b ! ref))" | "(ref, snd e) \<in> new_waiters tid t"
    using ev unfolding evolves_def by blast
  then show "waits_for tasks' (snd e) ref"
  proof cases
    case 1
    then show ?thesis using assms(1) keep by (simp add: waiters_ok_def)
  next
    case 2
    then show ?thesis using own by (auto simp: new_waiters_def waits_for_def split: task.splits)
  qed
qed

lemma continue_ok:
  assumes ok: "world_ok w" and tid: "tid < length (wd_tasks w)"
    and busy: "\<not> (\<exists>ref. wd_tasks w ! tid = Waiting ref)" "\<not> (\<exists>r. wd_tasks w ! tid = Done r)"
    and seg: "segment_ok (wd_broker w) (wd_presses w) (wd_tasks w) tid (wd_messages w ! tid) seg"
  shows "world_ok (continue_task w tid seg)"
proof -
  obtain b' ds t where s: "seg = (b', ds, t)" by (cases seg)
  let ?b = "wd_broker w" and ?ps = "wd_presses w" and ?tasks = "wd_tasks w" and ?msgs = "wd_messages w"
  let ?new = "?tasks[tid := t]"
  have ev: "evolves ?b b' (new_waiters tid t)" and wf: "store_wf b'" "approvals_pressed b' ?ps"
    and t: "task_ok b' ?ps ?tasks (?msgs ! tid) t" and ds: "\<forall>e\<in>set ds. delivery_ok b' ?ps ?tasks e"
    using seg by (auto simp: segment_ok_def s)
  have keep: "\<And>i ref. waits_for ?tasks i ref \<Longrightarrow> waits_for ?new i ref"
    using waits_for_update busy by blast
  have "task_ok b' ?ps ?new (?msgs ! i) (?new ! i)" if "i < length ?tasks" for i
  proof (cases "i = tid")
    case True
    then show ?thesis using task_ok_evolves [OF t evolves_refl keep, of "[]"] tid by simp
  next
    case False
    have "task_ok ?b ?ps ?tasks (?msgs ! i) (?tasks ! i)"
      using ok that by (simp add: world_ok_def tasks_ok_def)
    from task_ok_evolves [OF this ev keep, of "[]"] False show ?thesis by simp
  qed
  then have tasks: "tasks_ok b' ?ps ?msgs ?new"
    using ok by (simp add: world_ok_def tasks_ok_def)
  have waiters: "waiters_ok b' ?new"
    by (rule waiters_ok_evolves [OF _ ev keep]) (use ok tid in \<open>simp_all add: world_ok_def\<close>)
  have "\<forall>e\<in>set ds. delivery_ok b' ?ps ?new e"
    using ds delivery_ok_keep [OF _ keep] by blast
  note delivered = deliver_all_ok [OF tasks waiters this]
  have "bk_document b' = bk_document ?b" using ev by (simp add: evolves_def static_def)
  with delivered wf ok evolves_effects_masked [OF ev] evolves_exclusive [OF ev] show ?thesis
    by (simp add: continue_task_def s world_ok_def)
qed

lemma start_ok:
  assumes ok: "world_ok w"
    and seg: "segment_ok (wd_broker w) (wd_presses (start_task w seg msg press)) (wd_tasks w)
      (length (wd_tasks w)) msg seg"
  shows "world_ok (start_task w seg msg press)"
proof -
  obtain b' ds t where s: "seg = (b', ds, t)" by (cases seg)
  let ?b = "wd_broker w" and ?tasks = "wd_tasks w" and ?msgs = "wd_messages w @ [msg]"
  let ?new = "?tasks @ [t]" and ?ps = "wd_presses (start_task w seg msg press)" and ?tid = "length (wd_tasks w)"
  obtain qs where ps: "?ps = wd_presses w @ qs" by (simp add: start_task_def s)
  have ev: "evolves ?b b' (new_waiters ?tid t)" and wf: "store_wf b'" "approvals_pressed b' ?ps"
    and t: "task_ok b' ?ps ?tasks msg t" and ds: "\<forall>e\<in>set ds. delivery_ok b' ?ps ?tasks e"
    using seg by (auto simp: segment_ok_def s)
  have keep: "\<And>i ref. waits_for ?tasks i ref \<Longrightarrow> waits_for ?new i ref"
    by (rule waits_for_append)
  have len: "length (wd_messages w) = length ?tasks"
    using ok by (simp add: world_ok_def tasks_ok_def)
  have "task_ok b' ?ps ?new (?msgs ! i) (?new ! i)" if "i < length ?new" for i
  proof (cases "i = ?tid")
    case True
    moreover have "?msgs ! ?tid = msg" unfolding len [symmetric] by (rule nth_append_length)
    ultimately show ?thesis using task_ok_evolves [OF t evolves_refl keep, of "[]"] by simp
  next
    case False
    then have i: "i < length ?tasks" using that by simp
    then have "task_ok ?b (wd_presses w) ?tasks (wd_messages w ! i) (?tasks ! i)"
      using ok by (simp add: world_ok_def tasks_ok_def)
    from task_ok_evolves [OF this ev keep, of qs] i len show ?thesis by (simp add: nth_append ps)
  qed
  then have tasks: "tasks_ok b' ?ps ?msgs ?new"
    using len by (simp add: tasks_ok_def)
  have waiters: "waiters_ok b' ?new"
    by (rule waiters_ok_evolves [OF _ ev keep]) (use ok in \<open>simp_all add: world_ok_def\<close>)
  have "\<forall>e\<in>set ds. delivery_ok b' ?ps ?new e"
    using ds delivery_ok_keep [OF _ keep] by blast
  note delivered = deliver_all_ok [OF tasks waiters this]
  have "bk_document b' = bk_document ?b" using ev by (simp add: evolves_def static_def)
  with delivered wf ok evolves_effects_masked [OF ev] evolves_exclusive [OF ev] show ?thesis
    by (simp add: start_task_def s world_ok_def)
qed

end
