(* ===== verification/BrokerInvariant.thy ===== *)
theory BrokerInvariant
  imports BrokerRuns
begin

text \<open>
  Every segment of a session broker keeps the invariant of \<open>BrokerRuns\<close>, one lemma for each
  operation of \<open>BrokerSteps\<close>; so does every step of a run, whatever the order of its segments.
\<close>

section \<open>Every segment keeps the invariant\<close>

text \<open>What the segments of a task may assume.\<close>

definition segment_context :: "broker \<Rightarrow> press list \<Rightarrow> task list \<Rightarrow> bool" where
  "segment_context b ps tasks \<longleftrightarrow> store_wf b \<and> nul_free_document (bk_document b) \<and>
     approvals_pressed b ps \<and> waiters_ok b tasks"

lemma segment_context_quiet:
  assumes "segment_context b ps tasks" and "quiet b c"
  shows "segment_context c ps tasks"
proof -
  have "bk_document c = bk_document b" using assms(2) by (simp add: quiet_def static_def)
  moreover have "approvals_pressed c ps" "waiters_ok c tasks"
    using assms by (simp_all add: segment_context_def quiet_def approvals_pressed_def waiters_ok_def remembered_def)
  ultimately show ?thesis
    using assms quiet_store_wf by (simp add: segment_context_def)
qed

lemma approvals_pressed_remembered:
  "remembered b' = remembered b \<Longrightarrow> approvals_pressed b ps \<Longrightarrow> approvals_pressed b' ps"
  by (simp add: approvals_pressed_def remembered_def)

lemma segment_okI:
  assumes "segment_context b ps tasks" and "tame b tid b' t" and "task_ok b' ps tasks msg t"
    and "\<forall>e\<in>set ds. delivery_ok b' ps tasks e"
  shows "segment_ok b ps tasks tid msg (b', ds, t)"
  using assms approvals_pressed_remembered
  by (auto simp: segment_ok_def segment_context_def tame_def)

lemma segment_ok_quiet:
  assumes "segment_context b ps tasks" and "quiet b b'" and "task_ok b' ps tasks msg t"
    and "\<forall>e\<in>set ds. delivery_ok b' ps tasks e"
  shows "segment_ok b ps tasks tid msg (b', ds, t)"
  using assms by (intro segment_okI) (auto simp: segment_context_def intro: tame_quiet)

lemma segment_ok_after:
  assumes "quiet b c" and "segment_ok c ps tasks tid msg seg"
  shows "segment_ok b ps tasks tid msg seg"
  using assms quiet_evolves evolves_trans by (fastforce simp: segment_ok_def)

text \<open>Replies.\<close>

lemma segment_ok_reply:
  assumes "segment_context b ps tasks" and "quiet b c" and "rp_verdict r = Allow \<Longrightarrow> justified b ps msg"
  shows "segment_ok b ps tasks tid msg (reply_decision r c)"
proof -
  have "static c = static b" using assms(2) by (simp add: quiet_def)
  with assms(3) justified_move have "task_ok c ps tasks msg (Replying (ReplyDecision r))"
    unfolding task_ok.simps reply_ok.simps by blast
  then show ?thesis
    unfolding reply_decision_def by (intro segment_ok_quiet [OF assms(1,2)]) auto
qed

lemma deny_decision_verdict [simp]: "rp_verdict (deny_decision rid reason scope) = Deny"
  by (simp add: deny_decision_def)

lemma allow_decision_verdict [simp]: "rp_verdict (allow_decision rid reason scope) = Allow"
  by (simp add: allow_decision_def)

lemma decorate_policy_verdict [simp]: "rp_verdict (decorate_with_policy secrets masking r d) = rp_verdict r"
  by (cases d) (auto simp: decorate_with_policy_def Let_def)

lemma decorate_allow_verdict [simp]: "rp_verdict (decorate_allow b r d m) = rp_verdict r"
  by (simp add: decorate_allow_def apply_keeps)

lemma segment_ok_deny:
  assumes "segment_context b ps tasks"
  shows "segment_ok b ps tasks tid msg (deny_with_audit audited m reason d status b)"
  unfolding deny_with_audit_def by (rule segment_ok_reply [OF assms]) simp_all

lemma segment_ok_allow:
  assumes "segment_context b ps tasks" and "justified b ps msg"
  shows "segment_ok b ps tasks tid msg (allow_with_audit audited m reason d status b)"
  unfolding allow_with_audit_def Let_def by (rule segment_ok_reply [OF assms(1)]) (simp_all add: assms(2))

text \<open>A segment with branches keeps the invariant when every branch does.\<close>

lemma segment_ok_if:
  assumes "c \<Longrightarrow> segment_ok b ps tasks tid msg x" and "\<not> c \<Longrightarrow> segment_ok b ps tasks tid msg y"
  shows "segment_ok b ps tasks tid msg (if c then x else y)"
  using assms by simp

lemma segment_ok_option:
  assumes "v = None \<Longrightarrow> segment_ok b ps tasks tid msg x"
    and "\<And>r. v = Some r \<Longrightarrow> segment_ok b ps tasks tid msg (f r)"
  shows "segment_ok b ps tasks tid msg (case v of None \<Rightarrow> x | Some r \<Rightarrow> f r)"
  using assms by (cases v) simp_all

lemma segment_ok_body:
  assumes "\<And>reason inject requests decisions. body = AuthorizeBody reason inject requests decisions \<Longrightarrow>
      segment_ok b ps tasks tid msg (f reason inject requests decisions)"
    and "\<And>identities findings requests. body = ViolationBody identities findings requests \<Longrightarrow>
      segment_ok b ps tasks tid msg (g identities findings requests)"
  shows "segment_ok b ps tasks tid msg
    (case body of AuthorizeBody reason inject requests decisions \<Rightarrow> f reason inject requests decisions
     | ViolationBody identities findings requests \<Rightarrow> g identities findings requests)"
  using assms by (cases body) simp_all

lemmas segment_ok_branches = segment_ok_if segment_ok_option segment_ok_body

text \<open>Joining and making groups.\<close>

lemma evolves_group:
  assumes "evolves b c new" and "ref < length (bk_heap b)"
    and "fits b ps msg (group_identity (bk_heap b ! ref))"
  shows "ref < length (bk_heap c) \<and> fits c ps msg (group_identity (bk_heap c ! ref))"
proof -
  note id = evolves_identity [OF assms(1,2)]
  have "static c = static b" using assms(1) by (simp add: evolves_def)
  from fits_move [OF assms(3) this] show ?thesis unfolding conjunct2 [OF id] using id by blast
qed

lemma join_body:
  assumes ctx: "segment_context b ps tasks" and ref: "ref < length (bk_heap b)"
    and fits: "fits b ps msg (group_identity (bk_heap b ! ref))"
    and q: "quiet (update_group ref (\<lambda>g. g\<lparr>pg_body := add_request rid p d (pg_body g)\<rparr>) b) c"
    and t: "ref < length (bk_heap c) \<Longrightarrow> fits c ps msg (group_identity (bk_heap c ! ref)) \<Longrightarrow>
      task_ok c ps tasks msg t"
  shows "segment_ok b ps tasks tid msg (c, [], t)"
proof -
  have wf: "store_wf b" using ctx by (simp add: segment_context_def)
  have tame: "tame b tid c t"
    by (rule tame_before [OF tame_update_group q]) (simp_all add: wf)
  then have "evolves b c (new_waiters tid t)" by (simp add: tame_def)
  from evolves_group [OF this ref fits] t show ?thesis
    by (intro segment_okI [OF ctx tame]) auto
qed

lemma segment_ok_join_authorize:
  assumes "segment_context b ps tasks" "ref < length (bk_heap b)"
    and "fits b ps (MsgAuthorize m) (group_identity (bk_heap b ! ref))"
  shows "segment_ok b ps tasks tid (MsgAuthorize m) (join_authorize ref m d status now b)"
  unfolding join_authorize_def Let_def
proof (rule join_body [OF assms])
  show "quiet (update_group ref (\<lambda>g. g\<lparr>pg_body := add_request (aq_request_id m)
      (PendingAuthorize \<lparr>pa_request = m, pa_status = status\<rparr>) (Some d) (pg_body g)\<rparr>) b)
    (write_authorize_entry ref m status now (index_request (aq_request_id m) (pg_key (bk_heap b ! ref))
      (update_group ref (\<lambda>g. g\<lparr>pg_body := add_request (aq_request_id m)
      (PendingAuthorize \<lparr>pa_request = m, pa_status = status\<rparr>) (Some d) (pg_body g)\<rparr>) b)))"
    by (rule quiet_trans [OF quiet_index quiet_write_authorize_entry])
qed (simp_all only: task_ok.simps simp_thms)

lemma segment_ok_join_violation:
  assumes "segment_context b ps tasks" "ref < length (bk_heap b)"
    and "fits b ps (MsgReview m) (group_identity (bk_heap b ! ref))"
  shows "segment_ok b ps tasks tid (MsgReview m) (join_violation ref m now b)"
  unfolding join_violation_def Let_def
proof (rule join_body [OF assms])
  show "quiet (update_group ref (\<lambda>g. g\<lparr>pg_body := add_request (vq_request_id m) (PendingReview m) None (pg_body g)\<rparr>) b)
    (write_violation_entry ref m now (index_request (vq_request_id m) (pg_key (bk_heap b ! ref))
      (update_group ref (\<lambda>g. g\<lparr>pg_body := add_request (vq_request_id m) (PendingReview m) None (pg_body g)\<rparr>) b)))"
    by (rule quiet_trans [OF quiet_index quiet_write_violation_entry])
qed (simp_all only: task_ok.simps simp_thms)

lemma segment_ok_register:
  assumes ctx: "segment_context b ps tasks" and ref: "ref < length (bk_heap b)"
    and fits: "fits b ps msg (group_identity (bk_heap b ! ref))"
  shows "segment_ok b ps tasks tid msg (register_waiter ref rid tid b)"
proof -
  obtain b' ds t where seg: "register_waiter ref rid tid b = (b', ds, t)" by (metis prod_cases3)
  have "store_wf b" using ctx by (simp add: segment_context_def)
  from tame_register [OF this seg] have tame: "tame b tid b' t" "ds = []" "t = Waiting ref" by auto
  then have "evolves b b' (new_waiters tid t)" by (simp add: tame_def)
  from evolves_group [OF this ref fits] have "task_ok b' ps tasks msg t"
    by (simp only: tame(3) task_ok.simps simp_thms)
  then show ?thesis
    unfolding seg tame(2) by (intro segment_okI [OF ctx tame(1)]) simp_all
qed

lemma segment_ok_new_group:
  assumes ctx: "segment_context b ps tasks"
    and grp: "group_wf (bk_session_id b) grp" "pg_waiters grp = []" "pg_key grp = key"
    and q: "quiet (b\<lparr>bk_heap := bk_heap b @ [grp], bk_groups := AList.update key (length (bk_heap b)) (bk_groups b)\<rparr>) c"
    and ok: "\<And>ref. ref = length (bk_heap b) \<Longrightarrow> ref < length (bk_heap c) \<Longrightarrow> bk_heap c ! ref = grp \<Longrightarrow>
      static c = static b \<Longrightarrow> task_ok c ps tasks msg t"
  shows "segment_ok b ps tasks tid msg (c, [], t)"
proof -
  have wf: "store_wf b" using ctx by (simp add: segment_context_def)
  have tame: "tame b tid c t"
    by (rule tame_before [OF tame_new_group [OF wf grp] q])
  have heap: "bk_heap c = bk_heap b @ [grp]" using q by (simp add: quiet_def)
  have st: "static c = static b" using tame by (simp add: tame_def evolves_def)
  have "task_ok c ps tasks msg t"
    by (rule ok [OF refl _ _ st]) (simp_all add: heap)
  then show ?thesis by (intro segment_okI [OF ctx tame]) simp_all
qed

subsection \<open>Authorizing\<close>

lemma first_decision_rule_id:
  assumes "first_decision scope leaf rules = Some d"
  shows "de_rule_id d = rs_fallback_rule_id scope \<or> (\<exists>r\<in>set rules. de_rule_id d = rr_id r)"
  using assms
proof (induction rules)
  case Nil
  then show ?case by (auto simp: scope_fallback_decision_def)
next
  case (Cons r rules)
  then show ?case
    by (auto simp: from_rule_def split: option.splits truth.splits)
qed

lemma ordered_candidates_subset:
  "ordered_candidates scope request = Some rules \<Longrightarrow> set rules \<subseteq> set (rs_rules scope)"
proof -
  have sub: "set (candidates scope request) \<subseteq> set (rs_rules scope)"
    by (auto simp: candidates_def)
  have "set rules = set (candidates scope request)" if po: "precedence_order f (candidates scope request) = Inr rules" for f
  proof -
    obtain out where "rules = map ((!) (candidates scope request)) out" "set out = {0..<length (candidates scope request)}"
      using precedence_order_sorted [OF po] by auto
    then show ?thesis by (metis list.set_map map_nth set_upt)
  qed
  then show "ordered_candidates scope request = Some rules \<Longrightarrow> ?thesis"
    using sub by (auto simp: ordered_candidates_def Let_def split: if_splits sum.splits)
qed

lemma decide_nul_free:
  assumes doc: "nul_free_document doc" and "decide doc address request leaf = Some d"
  shows "nul_free (de_rule_id d)"
proof (cases "select_scope doc address")
  case None
  then show ?thesis
    using assms(2)
    by (auto simp: decide_def Let_def outside_decision_def fallback_rule_key_def nul_def split: if_splits)
next
  case (Some scope)
  then have mem: "scope \<in> set (doc_scopes doc)" using select_scope_mem by blast
  have nf: "nul_free (rs_fallback_rule_id scope)" "\<forall>r\<in>set (rs_rules scope). nul_free (rr_id r)"
    using doc mem by (auto simp: nul_free_document_def list_all_iff)
  from assms(2) Some consider "d = websocket_denied scope"
    | rules f where "ordered_candidates scope request = Some rules" "first_decision scope f rules = Some d"
    by (auto simp: decide_def Let_def split: if_splits option.splits)
  then show ?thesis
  proof cases
    case 1
    then show ?thesis using nf(1) by (simp add: websocket_denied_def)
  next
    case 2
    from first_decision_rule_id [OF 2(2)] ordered_candidates_subset [OF 2(1)] nf show ?thesis by auto
  qed
qed

lemma open_group:
  assumes "store_wf b" and "map_of (bk_groups b) key = Some ref"
  shows "ref < length (bk_heap b) \<and> key = identity_key (bk_session_id b) (group_identity (bk_heap b ! ref)) \<and>
    identity_wf (group_identity (bk_heap b ! ref))"
proof -
  have mem: "(key, ref) \<in> set (bk_groups b)" using assms(2) by (rule map_of_SomeD)
  then have "ref < length (bk_heap b)" "pg_key (bk_heap b ! ref) = key"
    using assms(1) by (auto simp: store_wf_def)
  with assms(1) show ?thesis by (auto simp: store_wf_def list_all_length group_wf_def)
qed

text \<open>A remembered approval that lets a request pass was pressed, for its target or its host.\<close>

lemma remembered_approval:
  assumes "approvals_pressed b ps" and "nul_free (de_rule_id d)"
    and "list_ex (\<lambda>key. key \<in> bk_approved b) (approval_keys (de_rule_id d) (de_reason d) target)"
  shows "review_approved ps d target"
proof -
  from assms(3) obtain s where s: "s \<in> {ScRule, ScHostPort, ScHost}"
      "approval_key (de_rule_id d) (de_reason d) target s \<in> bk_approved b"
    by (auto simp: approval_keys_def)
  with assms(1) obtain p rid reason t scope where p: "p \<in> set ps" "pr_verdict p = Allow" "pr_scope p = Some scope"
      "pr_identity p = ReviewOf rid reason t" "nul_free rid"
      "approval_key (de_rule_id d) (de_reason d) target s = approval_key rid reason t scope"
    by (auto simp: approvals_pressed_def)
  then have "de_rule_id d = rid" "de_reason d = reason" "s = scope"
      "if s = ScHost then ta_host target = ta_host t else target = t"
    using approval_key_inject [OF assms(2) p(5)] by auto
  with p have "covers p d target" by (auto simp: covers_def split: if_splits)
  with p(1) show ?thesis by (auto simp: review_approved_def list_ex_iff)
qed

lemma group_body_authorize:
  "pg_body g = AuthorizeBody reason inject requests decisions \<Longrightarrow>
     group_identity g = ReviewOf (pg_rule_id g) reason (pg_target g)"
  by (simp add: group_identity.simps)

lemma group_body_violation:
  "pg_body g = ViolationBody identities findings requests \<Longrightarrow>
     group_identity g = ViolationsOf (pg_rule_id g) identities"
  by (simp add: group_identity.simps)

lemma segment_ok_create_authorize:
  assumes ctx: "segment_context b ps tasks" and d: "nul_free (de_rule_id d)"
    and key: "key = pending_group_key (bk_session_id b) (de_rule_id d) (de_reason d) (aq_target m)"
    and fits: "fits b ps (MsgAuthorize m) (ReviewOf (de_rule_id d) (de_reason d) (aq_target m))"
  shows "segment_ok b ps tasks tid (MsgAuthorize m) (create_pending_group key m d status now b)"
  unfolding create_pending_group_def Let_def
proof (rule segment_ok_new_group [OF ctx _ _ _ quiet_trans [OF quiet_index quiet_write_authorize_entry]])
  fix ref c
  assume c: "ref = length (bk_heap b)" "ref < length (bk_heap c)" "static c = static b"
  assume grp: "bk_heap c ! ref = \<lparr>pg_key = key, pg_rule_id = de_rule_id d, pg_created_at = now,
      pg_target = aq_target m, pg_waiters = [], pg_timer = True, pg_notified = True,
      pg_allowed_scopes = approval_scopes_for d,
      pg_body = AuthorizeBody (de_reason d) (describe_inject_headers (de_inject d) (bk_secret_values b))
        [(aq_request_id m, \<lparr>pa_request = m, pa_status = status\<rparr>)] [(aq_request_id m, d)]\<rparr>"
  have "group_identity (bk_heap c ! ref) = ReviewOf (de_rule_id d) (de_reason d) (aq_target m)"
    by (simp add: grp group_identity.simps)
  with fits_move [OF fits c(3)] c(1,2)
  show "task_ok c ps tasks (MsgAuthorize m) (EntryWritten (length (bk_heap b)) m d status True)"
    by (simp only: task_ok.simps simp_thms)
qed (simp_all add: group_wf_def group_identity.simps key d)

lemma segment_ok_ask_for_review:
  assumes ctx: "segment_context b ps tasks" and screened: "screened b m"
    and d: "decide_message (bk_document b) m = Some d" "de_action d = ActReview" "bk_principal b = AgentPrincipal"
  shows "segment_ok b ps tasks tid (MsgAuthorize m) (ask_for_review tid audited m d status now b)"
proof -
  have nf: "nul_free (de_rule_id d)"
    using decide_nul_free d(1) ctx unfolding decide_message_def segment_context_def by blast
  let ?key = "pending_group_key (bk_session_id b) (de_rule_id d) (de_reason d) (aq_target m)"
  let ?i = "ReviewOf (de_rule_id d) (de_reason d) (aq_target m)"
  let ?b = "b\<lparr>bk_negative := snd (cache_get (bk_negative b) ?key now)\<rparr>"
  have q: "quiet b ?b" by simp
  have ctx1: "segment_context ?b ps tasks" by (rule segment_context_quiet [OF ctx q])
  have fits: "fits b ps (MsgAuthorize m) ?i" using screened d by simp
  have fits1: "fits ?b ps (MsgAuthorize m) ?i"
    by (rule fits_move [OF fits]) (use q in \<open>simp add: quiet_def\<close>)
  have approved: "segment_ok b ps tasks tid (MsgAuthorize m) (allow_with_audit audited m ''approved'' d status b)"
    if "list_ex (\<lambda>key. key \<in> bk_approved b) (approval_keys (de_rule_id d) (de_reason d) (aq_target m))"
    by (rule segment_ok_allow [OF ctx])
      (use remembered_approval [OF _ nf that] ctx screened d in
        \<open>simp add: segment_context_def authorize_justified_def\<close>)
  have create: "segment_ok b ps tasks tid (MsgAuthorize m) (create_pending_group ?key m d status now ?b)"
    by (rule segment_ok_after [OF q segment_ok_create_authorize [OF ctx1 nf _ fits1]]) simp
  have joined: "segment_ok b ps tasks tid (MsgAuthorize m) (register_waiter ref rid tid ?b)"
      "segment_ok b ps tasks tid (MsgAuthorize m) (join_authorize ref m d status now ?b)"
    if ref: "map_of (bk_groups ?b) ?key = Some ref"
      "pg_body (bk_heap ?b ! ref) = AuthorizeBody reason inject requests decisions"
    for ref rid reason inject requests decisions
  proof -
    have wf: "store_wf ?b" using ctx1 by (simp add: segment_context_def)
    note og = open_group [OF wf ref(1)] and id = group_body_authorize [OF ref(2)]
    have "nul_free (pg_rule_id (bk_heap ?b ! ref))" using og id by simp
    then have "group_identity (bk_heap ?b ! ref) = ?i"
      using og id pending_group_key_inject [OF nf, of "pg_rule_id (bk_heap ?b ! ref)"] by simp
    then have fits2: "fits ?b ps (MsgAuthorize m) (group_identity (bk_heap ?b ! ref))" using fits1 by simp
    have len: "ref < length (bk_heap ?b)" using og by blast
    show "segment_ok b ps tasks tid (MsgAuthorize m) (register_waiter ref rid tid ?b)"
      by (rule segment_ok_after [OF q segment_ok_register [OF ctx1 len fits2]])
    show "segment_ok b ps tasks tid (MsgAuthorize m) (join_authorize ref m d status now ?b)"
      by (rule segment_ok_after [OF q segment_ok_join_authorize [OF ctx1 len fits2]])
  qed
  have denied: "segment_ok b ps tasks tid (MsgAuthorize m) (deny_with_audit audited m ''recent-deny'' (Some d) status ?b)"
    by (rule segment_ok_after [OF q segment_ok_deny [OF ctx1]])
  show ?thesis
    unfolding ask_for_review_def Let_def
    by (intro segment_ok_branches create denied segment_ok_deny [OF ctx])
      (erule approved joined, (assumption+)?)+
qed

lemma segment_ok_authorize:
  assumes ctx: "segment_context b ps tasks"
  shows "segment_ok b ps tasks tid (MsgAuthorize m) (authorize_segment tid m status now b)"
proof -
  have raised: "segment_ok b ps tasks tid (MsgAuthorize m) (b, [], Failed)"
    by (rule segment_ok_quiet [OF ctx]) simp_all
  show ?thesis
  proof (cases "deny_reason_for_target (aq_target m)")
    case None
    then show ?thesis by (simp add: authorize_segment_def raised)
  next
    case (Some special)
    show ?thesis
    proof (cases special)
      case (Some reason)
      with \<open>deny_reason_for_target (aq_target m) = Some special\<close> show ?thesis
        by (simp add: authorize_segment_def Let_def segment_ok_deny [OF ctx])
    next
      case None
      with Some have special: "deny_reason_for_target (aq_target m) = Some None" by simp
      have review: "segment_ok b ps tasks tid (MsgAuthorize m)
          (if de_action d = ActDeny \<or> (bk_principal b = DindPrincipal \<and> de_action d = ActReview)
           then deny_with_audit audited m (reason_text (de_reason d)) (Some d) status b
           else if de_action d = ActAllow
           then allow_with_audit audited m (reason_text (de_reason d)) d status b
           else ask_for_review tid audited m d status now b)"
        if d: "decide_message (bk_document b) m = Some d" and scr: "screened b m" for d audited
      proof (intro segment_ok_if segment_ok_deny [OF ctx] segment_ok_allow [OF ctx] segment_ok_ask_for_review [OF ctx])
        show "justified b ps (MsgAuthorize m)" if "de_action d = ActAllow"
          using that d scr by (simp add: authorize_justified_def)
        show "de_action d = ActReview"
          if "\<not> (de_action d = ActDeny \<or> bk_principal b = DindPrincipal \<and> de_action d = ActReview)" "de_action d \<noteq> ActAllow"
          using that by (cases "de_action d") simp_all
        then show "bk_principal b = AgentPrincipal"
          if "\<not> (de_action d = ActDeny \<or> bk_principal b = DindPrincipal \<and> de_action d = ActReview)" "de_action d \<noteq> ActAllow"
          using that by (cases "bk_principal b") simp_all
      qed (use d scr in simp_all)
      show ?thesis
        unfolding authorize_segment_def Let_def special option.case
        by (intro segment_ok_branches segment_ok_deny [OF ctx] raised review)
          (simp_all add: screened_def special)
    qed
  qed
qed

lemma segment_ok_entry_written:
  assumes ctx: "segment_context b ps tasks" and ref: "ref < length (bk_heap b)"
    and fits: "fits b ps (MsgAuthorize m) (group_identity (bk_heap b ! ref))"
  shows "segment_ok b ps tasks tid (MsgAuthorize m) (entry_written tid ref m d status created now b)"
proof -
  let ?b = "if created then emit (Notify (aq_request_id m) (pg_target (bk_heap b ! ref))) b else b"
  have q: "quiet b ?b" by simp
  have heap: "bk_heap ?b = bk_heap b" using q by (simp add: quiet_def)
  have ctx1: "segment_context ?b ps tasks" by (rule segment_context_quiet [OF ctx q])
  have ref1: "ref < length (bk_heap ?b)" using ref by (simp only: heap)
  have fits1: "fits ?b ps (MsgAuthorize m) (group_identity (bk_heap ?b ! ref))"
    unfolding heap by (rule fits_move [OF fits]) (use q in \<open>simp add: quiet_def\<close>)
  show ?thesis
    unfolding entry_written_def Let_def
    by (intro segment_ok_if segment_ok_after [OF q segment_ok_join_authorize [OF ctx1 ref1 fits1]]
        segment_ok_after [OF q segment_ok_register [OF ctx1 ref1 fits1]])
qed

subsection \<open>Reviewing\<close>

lemma safe_rule_id_nul_free:
  assumes "is_safe_rule_id rid"
  shows "nul_free rid"
proof
  assume nul: "nul \<in> set rid"
  have key: "nul_free k" if "is_rule_key k" for k
    using that by (cases k) (auto simp: list_all_iff is_rule_key_char_def is_lower_def is_digit_def
        less_eq_char_def nul_def)
  from assms consider "is_rule_key rid" | "suffix ''.$fallback'' rid" "is_rule_key (take (length rid - 10) rid)"
    by (auto simp: is_safe_rule_id_def)
  then show False
  proof cases
    case 1
    with key nul show False by blast
  next
    case 2
    then obtain k where "rid = k @ ''.$fallback''" by (auto simp: suffix_def)
    with 2(2) key [of k] nul show False by (auto simp: nul_def)
  qed
qed

lemma segment_ok_create_violation:
  assumes ctx: "segment_context b ps tasks" and rid: "nul_free (vq_rule_id m)"
    and key: "key = violation_group_key (bk_session_id b) (vq_rule_id m) (map (violation_key (vq_rule_id m)) asked)"
    and fits: "fits b ps (MsgReview m) (ViolationsOf (vq_rule_id m) (map (violation_key (vq_rule_id m)) asked))"
  shows "segment_ok b ps tasks tid (MsgReview m) (create_violation_group key m asked now b)"
  unfolding create_violation_group_def Let_def
proof (rule segment_ok_new_group [OF ctx _ _ _ quiet_trans [OF quiet_index quiet_write_violation_entry]])
  fix ref c
  assume c: "ref = length (bk_heap b)" "ref < length (bk_heap c)" "static c = static b"
  assume grp: "bk_heap c ! ref = \<lparr>pg_key = key, pg_rule_id = vq_rule_id m, pg_created_at = now,
      pg_target = vq_target m, pg_waiters = [], pg_timer = True, pg_notified = True,
      pg_allowed_scopes = violation_scopes_for asked,
      pg_body = ViolationBody (map (violation_key (vq_rule_id m)) asked) (vq_findings m) [(vq_request_id m, m)]\<rparr>"
  have "group_identity (bk_heap c ! ref) = ViolationsOf (vq_rule_id m) (map (violation_key (vq_rule_id m)) asked)"
    by (simp add: grp group_identity.simps)
  with fits_move [OF fits c(3)] c(1,2)
  show "task_ok c ps tasks (MsgReview m) (ReviewEntryWritten (length (bk_heap b)) m True)"
    by (simp only: task_ok.simps simp_thms)
qed (auto simp add: group_wf_def group_identity.simps key rid)

lemma segment_ok_review_violations:
  assumes ctx: "segment_context b ps tasks" and rid: "nul_free (vq_rule_id m)"
  shows "segment_ok b ps tasks tid (MsgReview m) (review_violations tid m now b)"
proof (cases "bk_principal b = DindPrincipal \<or> find_rule_by_id (bk_document b) (vq_rule_id m) = None")
  case True
  have "segment_ok b ps tasks tid (MsgReview m) (reply_decision (deny_decision r why None) b)" for r why
    by (rule segment_ok_reply [OF ctx]) simp_all
  moreover have "segment_ok b ps tasks tid (MsgReview m) (b, [], Done (Some (ReplyError r e)))" for r e
    by (rule segment_ok_quiet [OF ctx]) simp_all
  ultimately show ?thesis using True by (auto simp: review_violations_def)
next
  case False
  then obtain rule where agent: "bk_principal b = AgentPrincipal"
      and rule: "find_rule_by_id (bk_document b) (vq_rule_id m) = Some rule"
    by (cases "bk_principal b") auto
  define key where "key = violation_key (vq_rule_id m)"
  define asked where "asked = asked_findings rule m"
  define undecided where "undecided = filter (\<lambda>f. key f \<notin> bk_approved_violations b) asked"
  define gk where "gk = violation_group_key (bk_session_id b) (vq_rule_id m) (map key undecided)"
  define b1 where "b1 = b\<lparr>bk_negative := snd (cache_get (bk_negative b) gk now)\<rparr>"
  have q: "quiet b b1" by (simp add: b1_def)
  have ctx1: "segment_context b1 ps tasks" by (rule segment_context_quiet [OF ctx q])
  have st: "static b1 = static b" using q by (simp add: quiet_def)
  have approved: "violation_approved ps k" if "k \<in> bk_approved_violations b" for k
    using ctx that by (simp add: segment_context_def approvals_pressed_def)
  have deny: "segment_ok b ps tasks tid (MsgReview m) (reply_review audited m (deny_decision r why None) c)"
    if "quiet b c" for audited r why c
    unfolding reply_review_def
    by (rule segment_ok_reply [OF ctx]) (use that quiet_trans in \<open>auto intro: quiet_trans\<close>)
  have allow: "segment_ok b ps tasks tid (MsgReview m) (reply_review audited m (allow_decision r why None) b)"
    if "asked \<noteq> []" "\<not> list_ex (\<lambda>f. \<not> is_approvable_finding f) asked" "undecided = []" for audited r why
    unfolding reply_review_def
  proof (rule segment_ok_reply [OF ctx])
    have "key f \<in> bk_approved_violations b" if "f \<in> set asked" for f
      using \<open>undecided = []\<close> that by (auto simp: undecided_def filter_empty_conv)
    then show "justified b ps (MsgReview m)"
      using that agent rule approved
      by (simp add: review_justified_def list_all_iff list_ex_iff asked_def [symmetric] key_def [symmetric])
  qed simp
  have fits: "fits b1 ps (MsgReview m) i"
    if some: "asked \<noteq> []" "\<not> list_ex (\<lambda>f. \<not> is_approvable_finding f) asked"
      and ids: "\<And>f. f \<in> set undecided \<Longrightarrow> \<exists>ids. i = ViolationsOf (vq_rule_id m) ids \<and> key f \<in> set ids"
    for i
  proof (rule fits_move [OF _ st])
    have "violation_approved ps (key f) \<or> (\<exists>ids. i = ViolationsOf (vq_rule_id m) ids \<and> key f \<in> set ids)"
      if "f \<in> set asked" for f
      using approved that ids by (auto simp: undecided_def)
    then show "fits b ps (MsgReview m) i"
      using some agent rule
      by (auto simp: list_ex_iff asked_def [symmetric] key_def [symmetric])
  qed
  have create: "segment_ok b ps tasks tid (MsgReview m) (create_violation_group gk m undecided now b1)"
    if "asked \<noteq> []" "\<not> list_ex (\<lambda>f. \<not> is_approvable_finding f) asked"
  proof (rule segment_ok_after [OF q segment_ok_create_violation [OF ctx1 rid]])
    show "gk = violation_group_key (bk_session_id b1) (vq_rule_id m) (map (violation_key (vq_rule_id m)) undecided)"
      by (simp add: gk_def b1_def key_def)
    show "fits b1 ps (MsgReview m) (ViolationsOf (vq_rule_id m) (map (violation_key (vq_rule_id m)) undecided))"
      by (rule fits [OF that]) (simp add: key_def)
  qed
  have joined: "segment_ok b ps tasks tid (MsgReview m) (register_waiter ref r tid b1)"
      "segment_ok b ps tasks tid (MsgReview m) (join_violation ref m now b1)"
    if "asked \<noteq> []" "\<not> list_ex (\<lambda>f. \<not> is_approvable_finding f) asked" "map_of (bk_groups b1) gk = Some ref"
      "pg_body (bk_heap b1 ! ref) = ViolationBody identities findings requests"
    for ref r identities findings requests
  proof -
    have wf: "store_wf b1" using ctx1 by (simp add: segment_context_def)
    note og = open_group [OF wf that(3)] and id = group_body_violation [OF that(4)]
    have len: "ref < length (bk_heap b1)" using og by blast
    obtain fs where fs: "identities = map (violation_key (pg_rule_id (bk_heap b1 ! ref))) fs"
        "nul_free (pg_rule_id (bk_heap b1 ! ref))"
      using og id by auto
    have "violation_group_key (bk_session_id b1) (vq_rule_id m) (map (violation_key (vq_rule_id m)) undecided) =
        violation_group_key (bk_session_id b1) (pg_rule_id (bk_heap b1 ! ref))
          (map (violation_key (pg_rule_id (bk_heap b1 ! ref))) fs)"
      using og id by (simp add: fs(1) gk_def key_def b1_def)
    from violation_group_key_inject [OF rid fs(2) this]
    have same: "vq_rule_id m = pg_rule_id (bk_heap b1 ! ref)" "key ` set undecided = set identities"
      by (auto simp: fs(1) key_def)
    have fits2: "fits b1 ps (MsgReview m) (group_identity (bk_heap b1 ! ref))"
      unfolding id by (rule fits [OF that(1,2)]) (use same in auto)
    show "segment_ok b ps tasks tid (MsgReview m) (register_waiter ref r tid b1)"
      by (rule segment_ok_after [OF q segment_ok_register [OF ctx1 len fits2]])
    show "segment_ok b ps tasks tid (MsgReview m) (join_violation ref m now b1)"
      by (rule segment_ok_after [OF q segment_ok_join_violation [OF ctx1 len fits2]])
  qed
  show ?thesis
    unfolding review_violations_def Let_def rule option.case asked_def [symmetric] key_def [symmetric]
      undecided_def [symmetric] gk_def [symmetric] b1_def [symmetric]
    using agent
    by (intro segment_ok_branches deny quiet_refl q) (simp_all add: allow create joined)
qed

lemma segment_ok_review_entry_written:
  assumes ctx: "segment_context b ps tasks" and ref: "ref < length (bk_heap b)"
    and fits: "fits b ps (MsgReview m) (group_identity (bk_heap b ! ref))"
  shows "segment_ok b ps tasks tid (MsgReview m) (review_entry_written tid ref m created now b)"
proof -
  let ?b = "if created then emit (Notify (vq_request_id m) (pg_target (bk_heap b ! ref))) b else b"
  have q: "quiet b ?b" by simp
  have heap: "bk_heap ?b = bk_heap b" using q by (simp add: quiet_def)
  have ctx1: "segment_context ?b ps tasks" by (rule segment_context_quiet [OF ctx q])
  have ref1: "ref < length (bk_heap ?b)" using ref by (simp only: heap)
  have fits1: "fits ?b ps (MsgReview m) (group_identity (bk_heap ?b ! ref))"
    unfolding heap by (rule fits_move [OF fits]) (use q in \<open>simp add: quiet_def\<close>)
  show ?thesis
    unfolding review_entry_written_def Let_def
    by (intro segment_ok_if segment_ok_after [OF q segment_ok_join_violation [OF ctx1 ref1 fits1]]
        segment_ok_after [OF q segment_ok_register [OF ctx1 ref1 fits1]])
qed

subsection \<open>Resolving\<close>

lemma resolution_ok_evolves:
  assumes "resolution_ok b ps ref base outcome" and "evolves b c new"
  shows "resolution_ok c ps ref base outcome"
  using assms(1) evolves_identity [OF assms(2), of ref] by (auto simp: resolution_ok_def)

lemma iterate_group_ok:
  assumes "iterate_group ref base outcome visited reply b = (b', t)"
    and "resolution_ok b ps ref base outcome" and "control_reply reply"
  shows "quiet b b' \<and> task_ok b' ps tasks msg t"
proof -
  have reply: "reply_ok b ps msg reply"
    using assms(3) by (cases "(b, ps, msg, reply)" rule: reply_ok.cases) (auto simp: control_reply_def)
  have "quiet b (emit (RemoveEntry sid rid) (unindex_request rid b))" for sid rid
    by (rule quiet_trans [OF quiet_unindex quiet_emit_plain(2)])
  then have removed: "quiet b (emit (RemoveEntry sid rid) (unindex_request rid b)) \<and>
      resolution_ok (emit (RemoveEntry sid rid) (unindex_request rid b)) ps ref base outcome" for sid rid
    using resolution_ok_evolves [OF assms(2) quiet_evolves] by blast
  show ?thesis
    using assms(1,3) reply removed
    by (auto simp: iterate_group_def split: option.splits)
qed

lemma resolve_group_ok:
  assumes ctx: "segment_context b ps tasks" and reply: "control_reply reply"
    and "rp_verdict base = outcome"
    and "\<And>ref. map_of (bk_groups b) key = Some ref \<Longrightarrow> outcome = Allow \<Longrightarrow>
      pressed ps (group_identity (bk_heap b ! ref))"
  shows "segment_ok b ps tasks tid msg (resolve_group key base outcome neg reply b)"
proof (cases "map_of (bk_groups b) key")
  case None
  have "reply_ok b ps msg reply"
    using reply by (cases "(b, ps, msg, reply)" rule: reply_ok.cases) (auto simp: control_reply_def)
  then show ?thesis
    using None by (auto simp: resolve_group_def intro!: segment_ok_quiet [OF ctx])
next
  case (Some ref)
  have wf: "store_wf b" using ctx by (simp add: segment_context_def)
  have ok: "resolution_ok b ps ref base outcome"
    using assms(3,4) Some open_group [OF wf Some] by (simp add: resolution_ok_def)
  let ?t = "ResolvingGroup ref base outcome neg reply"
  have tame: "tame b tid (drop_group key ref b) ?t" by (rule tame_drop_group [OF wf])
  then have "resolution_ok (drop_group key ref b) ps ref base outcome"
    using resolution_ok_evolves [OF ok] unfolding tame_def by blast
  then have "task_ok (drop_group key ref b) ps tasks msg ?t" using reply by simp
  then show ?thesis
    using Some segment_okI [OF ctx tame] by (simp add: resolve_group_def)
qed

lemma notification_closed_ok:
  assumes ctx: "segment_context b ps tasks" and "resolution_ok b ps ref base outcome" and "control_reply reply"
  shows "segment_ok b ps tasks tid msg (notification_closed ref base outcome neg reply now b)"
proof -
  let ?b = "if outcome = Deny \<and> neg
      then b\<lparr>bk_negative := cache_set (bk_negative b) (pg_key (bk_heap b ! ref)) True now\<rparr> else b"
  have q: "quiet b ?b" by simp
  obtain b' t where it: "iterate_group ref base outcome [] reply ?b = (b', t)" by (cases "iterate_group ref base outcome [] reply ?b")
  have "resolution_ok ?b ps ref base outcome"
    by (rule resolution_ok_evolves [OF assms(2) quiet_evolves [OF q]])
  from iterate_group_ok [OF it this assms(3)] quiet_trans [OF q] show ?thesis
    using it by (auto simp: notification_closed_def intro!: segment_ok_quiet [OF ctx])
qed

lemma settle_ok:
  assumes "segment_context b ps tasks" and "resolution_ok b ps ref base outcome" and "rp_verdict decision = outcome"
    and "quiet b c" and "e \<in> set (settle rid decision (bk_heap b ! ref))"
  shows "delivery_ok c ps tasks e"
proof -
  obtain tid where tid: "e = (tid, decision)" "map_of (pg_waiters (bk_heap b ! ref)) rid = Some tid"
    using assms(5) by (auto simp: settle_def split: option.splits)
  have "waits_for tasks tid ref"
    using assms(1,2) map_of_SomeD [OF tid(2)]
    by (fastforce simp: segment_context_def waiters_ok_def resolution_ok_def)
  moreover have "bk_heap c = bk_heap b" using assms(4) by (simp add: quiet_def)
  ultimately show ?thesis
    using assms(2,3) tid(1) by (auto simp: delivery_ok_def resolution_ok_def)
qed

lemma request_settled_ok:
  assumes ctx: "segment_context b ps tasks" and res: "resolution_ok b ps ref base outcome"
    and "rp_verdict decision = outcome" and "control_reply reply"
  shows "segment_ok b ps tasks tid msg (request_settled ref base outcome visited rid decision reply b)"
proof -
  obtain b' t where it: "iterate_group ref base outcome (visited @ [rid]) reply b = (b', t)"
    by (cases "iterate_group ref base outcome (visited @ [rid]) reply b")
  note ok = iterate_group_ok [OF it res assms(4)]
  have "\<forall>e\<in>set (settle rid decision (bk_heap b ! ref)). delivery_ok b' ps tasks e"
    using settle_ok [OF ctx res assms(3)] ok by blast
  with ok show ?thesis
    using it by (auto simp: request_settled_def intro!: segment_ok_quiet [OF ctx])
qed

lemma answer_request_ok:
  assumes "answer_request ref base outcome request decided rid b = (b', decision, audited)"
  shows "quiet b b' \<and> rp_verdict decision = rp_verdict base"
  using assms
  by (auto simp: answer_request_def Let_def split: pending_request.splits if_splits)

lemma entry_removed_ok:
  assumes ctx: "segment_context b ps tasks" and res: "resolution_ok b ps ref base outcome" and reply: "control_reply reply"
  shows "segment_ok b ps tasks tid msg (entry_removed ref base outcome visited rid request reply b)"
proof -
  let ?d = "find_decision rid (pg_body (bk_heap b ! ref))"
  obtain b' decision audited where ans: "answer_request ref base outcome request ?d rid b = (b', decision, audited)"
    by (metis prod_cases3)
  from answer_request_ok [OF this] have q: "quiet b b'" and v: "rp_verdict decision = outcome"
    using res by (auto simp: resolution_ok_def)
  have res1: "resolution_ok b' ps ref base outcome"
    by (rule resolution_ok_evolves [OF res quiet_evolves [OF q]])
  have ctx1: "segment_context b' ps tasks" by (rule segment_context_quiet [OF ctx q])
  show ?thesis
    using segment_ok_after [OF q request_settled_ok [OF ctx1 res1 v reply]] q res1 v reply
    by (auto simp: entry_removed_def ans intro!: segment_ok_quiet [OF ctx])
qed

lemma tame_detach_request:
  assumes wf: "store_wf b"
  shows "tame b tid (detach_request ref rid b) t"
proof -
  let ?b0 = "unindex_request rid b"
  let ?f = "\<lambda>g. g\<lparr>pg_body := remove_request rid (pg_body g), pg_waiters := AList.delete rid (pg_waiters g)\<rparr>"
  let ?b1 = "update_group ref ?f ?b0"
  have wf0: "store_wf ?b0" by (rule quiet_store_wf [OF quiet_unindex wf])
  have t1: "tame ?b0 tid ?b1 t"
    by (rule tame_update_group [OF wf0]) (auto dest: set_mp [OF set_delete_subset])
  then have t1': "tame b tid ?b1 t" by (rule tame_after [OF quiet_unindex]) (rule wf)
  have wf1: "store_wf ?b1" using t1 by (simp add: tame_def)
  have t2: "tame ?b1 tid (drop_group key ref ?b1) t" for key by (rule tame_drop_group [OF wf1])
  have "tame b tid (drop_group key ref ?b1) t" for key
    by (rule tame_trans [OF t1' t2])
  with t1' show ?thesis by (simp add: detach_request_def Let_def)
qed

lemma resolve_request_ok:
  assumes ctx: "segment_context b ps tasks" and reply: "control_reply reply"
    and v: "rp_verdict base = outcome"
    and pr: "\<And>ref. find_group_by_request_id b rid = Some ref \<Longrightarrow> outcome = Allow \<Longrightarrow>
      pressed ps (group_identity (bk_heap b ! ref))"
  shows "segment_ok b ps tasks tid msg (resolve_request rid base outcome reply b)"
proof -
  have "reply_ok b ps msg reply"
    using reply by (cases "(b, ps, msg, reply)" rule: reply_ok.cases) (auto simp: control_reply_def)
  then have finished: "segment_ok b ps tasks tid msg (b, [], Done reply)"
    by (intro segment_ok_quiet [OF ctx]) simp_all
  have wf: "store_wf b" using ctx by (simp add: segment_context_def)
  have found: "segment_ok b ps tasks tid msg (detach_request ref rid b, [],
      RequestDetached ref request decided (map_of (pg_waiters (bk_heap b ! ref)) rid) base outcome rid reply)"
    if f: "find_group_by_request_id b rid = Some ref" for ref request decided
  proof (rule segment_okI [OF ctx tame_detach_request [OF wf]])
    obtain key where "map_of (bk_groups b) key = Some ref"
      using f by (auto simp: find_group_by_request_id_def split: option.splits if_splits)
    from open_group [OF wf this] have len: "ref < length (bk_heap b)" by blast
    have res: "resolution_ok b ps ref base outcome" using v pr [OF f] len by (simp add: resolution_ok_def)
    have ev: "evolves b (detach_request ref rid b) (new_waiters 0 Failed)"
      using tame_detach_request [OF wf] unfolding tame_def by blast
    have res1: "resolution_ok (detach_request ref rid b) ps ref base outcome"
      by (rule resolution_ok_evolves [OF res ev])
    have "case map_of (pg_waiters (bk_heap b ! ref)) rid of None \<Rightarrow> True | Some tid \<Rightarrow> waits_for tasks tid ref"
      using ctx len by (auto simp: segment_context_def waiters_ok_def split: option.splits dest!: map_of_SomeD)
        (metis snd_conv)
    with res1 reply show "task_ok (detach_request ref rid b) ps tasks msg
        (RequestDetached ref request decided (map_of (pg_waiters (bk_heap b ! ref)) rid) base outcome rid reply)"
      by (simp add: settles_ok_def resolution_ok_def)
  qed simp
  show ?thesis
    unfolding resolve_request_def Let_def
    by (intro segment_ok_option finished found)
qed

lemma settle_waiter_ok:
  assumes "settles_ok b ps tasks ref waiter (rp_verdict decision)" and "e \<in> set (settle_waiter waiter decision)"
  shows "delivery_ok b ps tasks e"
  using assms by (auto simp: settles_ok_def settle_waiter_def delivery_ok_def split: option.splits)

lemma settles_ok_quiet:
  "settles_ok b ps tasks ref waiter outcome \<Longrightarrow> quiet b c \<Longrightarrow> settles_ok c ps tasks ref waiter outcome"
  by (simp add: settles_ok_def quiet_def)

lemma request_detached_ok:
  assumes ctx: "segment_context b ps tasks" and res: "resolution_ok b ps ref base outcome"
    and set: "settles_ok b ps tasks ref waiter outcome" and reply: "control_reply reply"
  shows "segment_ok b ps tasks tid msg (request_detached ref request decided waiter base outcome rid reply b)"
proof -
  let ?b0 = "emit (RemoveEntry (bk_session_id b) rid) b"
  obtain b' decision audited where ans: "answer_request ref base outcome request decided rid ?b0 = (b', decision, audited)"
    by (metis prod_cases3)
  from answer_request_ok [OF this] have q: "quiet b b'" and v: "rp_verdict decision = outcome"
    using res quiet_trans [OF quiet_emit_plain(2)] by (auto simp: resolution_ok_def)
  have set1: "settles_ok b' ps tasks ref waiter (rp_verdict decision)"
    unfolding v by (rule settles_ok_quiet [OF set q])
  have "reply_ok b' ps msg reply"
    using reply by (cases "(b, ps, msg, reply)" rule: reply_ok.cases) (auto simp: control_reply_def)
  with settle_waiter_ok [OF set1] set1 q reply show ?thesis
    by (auto simp: request_detached_def ans Let_def intro!: segment_ok_quiet [OF ctx])
qed

subsection \<open>Pressing\<close>

lemma segment_ok_after_evolves:
  assumes "evolves b c {}" and "segment_ok c ps tasks tid msg seg"
  shows "segment_ok b ps tasks tid msg seg"
proof -
  have "evolves b c new" for new using evolves_mono [OF assms(1)] by blast
  then show ?thesis using assms(2) evolves_trans by (fastforce simp: segment_ok_def)
qed

lemma approvals_pressed_mono: "approvals_pressed b ps \<Longrightarrow> approvals_pressed b (ps @ qs)"
  unfolding approvals_pressed_def using violation_approved_mono [of ps _ qs] by (auto 4 3)

lemma segment_context_mono: "segment_context b ps tasks \<Longrightarrow> segment_context b (ps @ qs) tasks"
  using approvals_pressed_mono by (auto simp: segment_context_def)

lemma remember_same:
  "bk_heap (remember g s v b) = bk_heap b" "bk_groups (remember g s v b) = bk_groups b"
  "static (remember g s v b) = static b" "bk_effects (remember g s v b) = bk_effects b" "bk_request_index (remember g s v b) = bk_request_index b"
  by (auto simp: remember_def Let_def static_def split: group_body.splits)

lemma evolves_remember: "evolves b (remember g s v b) {}"
  by (auto simp: evolves_def remember_same effects_grow_same exclusive_remember recedes_same)

lemma segment_context_remember:
  assumes ctx: "segment_context b ps tasks" and "approvals_pressed (remember g s v b) ps"
  shows "segment_context (remember g s v b) ps tasks"
proof -
  have "bk_document (remember g s v b) = bk_document b" "bk_session_id (remember g s v b) = bk_session_id b"
    using remember_same(3) [of g s v b] by (simp_all add: static_def)
  with assms show ?thesis
    by (auto simp: segment_context_def store_wf_def waiters_ok_def remember_same)
qed

lemma remember_deny: "approvals_pressed b ps \<Longrightarrow> approvals_pressed (remember g s Deny b) ps"
  by (auto simp: approvals_pressed_def remember_def Let_def split: group_body.splits)

lemma remember_allow:
  assumes ok: "approvals_pressed b ps" and wf: "identity_wf (group_identity g)"
    and p: "p \<in> set ps" "pr_verdict p = Allow" "pr_scope p = Some s" "pr_identity p = group_identity g"
  shows "approvals_pressed (remember g s Allow b) ps"
proof (cases "s = ScOnce")
  case True
  then show ?thesis using ok by (simp add: remember_def)
next
  case False
  show ?thesis
  proof (cases "pg_body g")
    case (AuthorizeBody reason inject requests decisions)
    note id = group_body_authorize [OF AuthorizeBody]
    have "\<exists>p\<in>set ps. \<exists>rid r target scope. pr_verdict p = Allow \<and> pr_scope p = Some scope \<and>
        pr_identity p = ReviewOf rid r target \<and> nul_free rid \<and>
        approval_key (pg_rule_id g) reason (pg_target g) s = approval_key rid r target scope"
      using p wf id by auto
    with ok False AuthorizeBody show ?thesis
      by (simp add: approvals_pressed_def remember_def Let_def)
  next
    case (ViolationBody identities findings requests)
    note id = group_body_violation [OF ViolationBody]
    have "pressed ps (ViolationsOf (pg_rule_id g) identities)"
      using p id by (auto simp: pressed_def list_ex_iff)
    from pressed_violation [OF this] ok False ViolationBody show ?thesis
      by (auto simp: approvals_pressed_def remember_def)
  qed
qed

lemma find_group_open:
  "find_group_by_request_id b rid = Some ref \<Longrightarrow> \<exists>key. map_of (bk_groups b) key = Some ref"
  by (auto simp: find_group_by_request_id_def split: option.splits if_splits)

definition press_list :: "broker \<Rightarrow> (verdict \<times> nat \<times> approval_scope option) option \<Rightarrow> press list" where
  "press_list b press = (case press of None \<Rightarrow> [] | Some p \<Rightarrow> [press_of b p])"

lemma find_group_remember [simp]:
  "find_group_by_request_id (remember g s v b) rid = find_group_by_request_id b rid"
  by (simp add: find_group_by_request_id_def remember_same split: option.split)

lemma group_key_open:
  assumes "store_wf b" and "map_of (bk_groups b) key = Some ref"
  shows "pg_key (bk_heap b ! ref) = key"
  using assms(1) map_of_SomeD [OF assms(2)] by (auto simp: store_wf_def)

lemma segment_ok_error: "segment_context b ps tasks \<Longrightarrow>
    segment_ok b ps tasks tid msg (b, [], Done (Some (ReplyError r e)))"
  by (rule segment_ok_quiet) simp_all

lemma approve_ok:
  assumes ctx: "segment_context b ps tasks"
  shows "segment_ok b (ps @ press_list b (map_option (Pair Allow) (accepted_press b rid scope))) tasks tid msg
    (approve rid scope b)" (is "segment_ok b ?ps tasks tid msg _")
proof (cases "find_group_by_request_id b rid")
  case None
  then show ?thesis
    using segment_ok_error [OF ctx] by (simp add: approve_def accepted_press_def press_list_def pending_not_found_def)
next
  case (Some ref)
  let ?g = "bk_heap b ! ref"
  show ?thesis
  proof (cases "chosen_scope scope (pg_allowed_scopes ?g)")
    case None
    then show ?thesis
      using Some segment_ok_error [OF ctx]
      by (simp add: approve_def accepted_press_def press_list_def scope_not_allowed_def)
  next
    case given: (Some given)
    define s where "s = (case given of None \<Rightarrow> default_approval_scope | Some s \<Rightarrow> s)"
    define p where "p = \<lparr>pr_verdict = Allow, pr_scope = Some s, pr_identity = group_identity ?g\<rparr>"
    have ps: "?ps = ps @ [p]"
      using Some given by (simp add: accepted_press_def press_list_def press_of_def p_def s_def)
    have wf: "store_wf b" using ctx by (simp add: segment_context_def)
    obtain key where key: "map_of (bk_groups b) key = Some ref" using find_group_open [OF Some] by blast
    note og = open_group [OF wf key]
    let ?b1 = "remember ?g s Allow b"
    have ctx0: "segment_context b ?ps tasks" unfolding ps by (rule segment_context_mono [OF ctx])
    have ctx1: "segment_context ?b1 ?ps tasks"
    proof (rule segment_context_remember [OF ctx0 remember_allow [of b ?ps ?g p s]])
      show "approvals_pressed b ?ps" using ctx0 by (simp add: segment_context_def)
    qed (use og in \<open>simp_all add: ps p_def\<close>)
    have pr: "pressed ?ps (group_identity (bk_heap ?b1 ! ref))"
      by (simp add: ps p_def pressed_def remember_same)
    have req: "segment_ok ?b1 ?ps tasks tid msg (resolve_request rid (allow_decision rid why sc) Allow (Some (ReplyAck rid Allow)) ?b1)"
      for why sc
      by (rule resolve_request_ok [OF ctx1]) (use pr Some in \<open>auto simp: control_reply_def\<close>)
    have grp: "segment_ok ?b1 ?ps tasks tid msg (resolve_group (pg_key ?g) (allow_decision rid why sc) Allow True (Some (ReplyAck rid Allow)) ?b1)"
      for why sc
      by (rule resolve_group_ok [OF ctx1])
        (use pr key group_key_open [OF wf key] in \<open>auto simp: control_reply_def remember_same\<close>)
    show ?thesis
      unfolding approve_def Some given option.case Let_def s_def [symmetric]
      by (intro segment_ok_if segment_ok_after_evolves [OF evolves_remember req]
          segment_ok_after_evolves [OF evolves_remember grp])
  qed
qed

lemma deny_ok:
  assumes ctx: "segment_context b ps tasks"
  shows "segment_ok b (ps @ press_list b (map_option (Pair Deny) (accepted_press b rid scope))) tasks tid msg
    (deny rid scope b)" (is "segment_ok b ?ps tasks tid msg _")
proof (cases "find_group_by_request_id b rid")
  case None
  then show ?thesis
    using segment_ok_error [OF ctx] by (simp add: deny_def accepted_press_def press_list_def pending_not_found_def)
next
  case (Some ref)
  let ?g = "bk_heap b ! ref"
  show ?thesis
  proof (cases "chosen_scope scope (pg_allowed_scopes ?g)")
    case None
    then show ?thesis
      using Some segment_ok_error [OF ctx]
      by (simp add: deny_def accepted_press_def press_list_def scope_not_allowed_def)
  next
    case given: (Some given)
    let ?b1 = "case given of None \<Rightarrow> b | Some s \<Rightarrow> remember ?g s Deny b"
    have ev: "evolves b ?b1 {}" by (cases given) (simp_all add: evolves_remember)
    have ctx0: "segment_context b ?ps tasks" by (rule segment_context_mono [OF ctx])
    then have "approvals_pressed b ?ps" by (simp add: segment_context_def)
    then have ctx1: "segment_context ?b1 ?ps tasks"
      using ctx0 segment_context_remember [OF ctx0 remember_deny] by (cases given) simp_all
    have req: "segment_ok ?b1 ?ps tasks tid msg (resolve_request rid (deny_decision rid why sc) Deny (Some (ReplyAck rid Deny)) ?b1)"
      for why sc
      by (rule resolve_request_ok [OF ctx1]) (auto simp: control_reply_def)
    have grp: "segment_ok ?b1 ?ps tasks tid msg (resolve_group (pg_key ?g) (deny_decision rid why sc) Deny neg (Some (ReplyAck rid Deny)) ?b1)"
      for why sc neg
      by (rule resolve_group_ok [OF ctx1]) (auto simp: control_reply_def)
    show ?thesis
      unfolding deny_def Some given option.case Let_def
      by (intro segment_ok_if segment_ok_after_evolves [OF ev req] segment_ok_after_evolves [OF ev grp])
  qed
qed

subsection \<open>Closing and the credentials\<close>

lemma close_groups_tame: "store_wf b \<Longrightarrow> tame b tid (fold close_group refs b) t"
proof (induction refs arbitrary: b)
  case Nil
  then show ?case using tame_quiet [OF quiet_refl] by simp
next
  case (Cons ref refs)
  have t: "tame b tid (close_group ref b) t"
    unfolding close_group_def by (rule tame_update_group [OF Cons.prems]) auto
  then have "store_wf (close_group ref b)" by (simp add: tame_def)
  from tame_trans [OF t Cons.IH [OF this]] show ?case by simp
qed

lemma close_broker_ok:
  assumes ctx: "segment_context b ps tasks"
  shows "segment_ok b ps tasks tid msg (close_broker b)"
  unfolding close_broker_def
proof (rule segment_okI [OF ctx close_groups_tame])
  show wf: "store_wf b" using ctx by (simp add: segment_context_def)
  have ev: "evolves b (fold close_group (map snd (bk_groups b)) b) (new_waiters 0 Failed)"
    using close_groups_tame [OF wf] unfolding tame_def by blast
  show "\<forall>e\<in>set (concat (map (\<lambda>(key, ref). map (\<lambda>(rid, tid). (tid, deny_decision rid ''broker closed'' None))
        (pg_waiters (bk_heap b ! ref))) (bk_groups b))).
      delivery_ok (fold close_group (map snd (bk_groups b)) b) ps tasks e"
  proof
    fix e
    assume "e \<in> set (concat (map (\<lambda>(key, ref). map (\<lambda>(rid, tid). (tid, deny_decision rid ''broker closed'' None))
        (pg_waiters (bk_heap b ! ref))) (bk_groups b)))"
    then obtain key ref rid i where e: "(key, ref) \<in> set (bk_groups b)"
        "(rid, i) \<in> set (pg_waiters (bk_heap b ! ref))" "e = (i, deny_decision rid ''broker closed'' None)"
      by auto
    have len: "ref < length (bk_heap b)" using wf e(1) by (auto simp: store_wf_def)
    then have "waits_for tasks i ref"
      using ctx e(2) by (fastforce simp: segment_context_def waiters_ok_def)
    then show "delivery_ok (fold close_group (map snd (bk_groups b)) b) ps tasks e"
      using evolves_identity [OF ev len] e(3) by (auto simp: delivery_ok_def)
  qed
qed simp

lemma clear_policy_state_ok:
  assumes ctx: "segment_context b ps tasks"
  shows "segment_ok b ps tasks tid msg (clear_policy_state b, [], Done None)"
proof -
  let ?c = "clear_policy_state b"
  have same: "bk_heap ?c = bk_heap b" "static ?c = static b" "bk_session_id ?c = bk_session_id b"
    by (simp_all add: clear_policy_state_def static_def)
  have "bk_effects ?c = bk_effects b" by (simp add: clear_policy_state_def)
  moreover have "exclusive ?c" by (simp add: exclusive_def clear_policy_state_def)
  moreover have "recedes b ?c" by (simp add: recedes_def clear_policy_state_def)
  ultimately have "evolves b ?c new" for new by (auto simp: evolves_def same effects_grow_same)
  moreover have "store_wf ?c" using ctx by (simp add: segment_context_def store_wf_def same) (simp add: clear_policy_state_def)
  moreover have "approvals_pressed ?c ps" by (simp add: approvals_pressed_def clear_policy_state_def)
  ultimately show ?thesis by (simp add: segment_ok_def)
qed

lemma same_credential_functions:
  assumes "same_credential c c'"
  shows "ag_is_host_owned_refresh c' = ag_is_host_owned_refresh c"
proof -
  have "c' = c\<lparr>ag_headers := ag_headers c'\<rparr>" using assms by (simp add: same_credential_def)
  from arg_cong [OF this, of ag_is_host_owned_refresh] show ?thesis by simp
qed

lemma same_credential_refresh:
  "list_all2 same_credential cs cs' \<Longrightarrow> map ag_is_host_owned_refresh cs' = map ag_is_host_owned_refresh cs"
  by (induction rule: list_all2_induct) (simp_all add: same_credential_functions)

subsection \<open>Every step\<close>

lemma segment_ok_reply_error:
  assumes "segment_context b ps tasks" and "quiet b c" and "\<forall>r. reply \<noteq> ReplyDecision r"
  shows "segment_ok b ps tasks tid msg (c, [], Done (Some reply))"
  using assms(3) by (intro segment_ok_quiet [OF assms(1,2)]) (cases reply; simp)+

lemma outcome_quiet: "record_request_policy_outcome q fails b = (c, r) \<Longrightarrow> quiet b c \<and> (\<forall>d. r \<noteq> ReplyDecision d)"
  by (auto simp: record_request_policy_outcome_def Let_def masked_option_def simp del: list.pred_map
      split: if_splits option.splits intro!: quiet_emit)

lemma dispatch_message_ok:
  assumes ctx: "segment_context b ps tasks" and km: "parse_broker_message v = Some (kind, m)"
    and valid: "validate_message b kind v = None"
    and h: "dispatch_message tid now fails kind v m b = Some (seg, msg)"
  shows "segment_ok b (ps @ press_list b (message_press v b)) tasks tid msg seg"
proof -
  let ?ps = "ps @ press_list b (message_press v b)"
  have ctx1: "segment_context b ?ps tasks" by (rule segment_context_mono [OF ctx])
  consider (auth) "kind = ''authorize''" | (approve) "kind = ''approve''" | (deny) "kind = ''deny''"
    | (outcome) "kind = ''request_policy_outcome''" | (review) "kind = ''request_policy_review''"
    | (other) "kind \<noteq> ''authorize''" "kind \<noteq> ''approve''" "kind \<noteq> ''deny''"
        "kind \<noteq> ''request_policy_outcome''" "kind \<noteq> ''request_policy_review''"
    by blast
  then show ?thesis
  proof cases
    case auth
    with h obtain q capture where "seg = (b, [], CaptureBody q capture)" "msg = MsgAuthorize q"
      by (auto simp: dispatch_message_def bind_eq_Some_conv)
    then show ?thesis by (auto intro: segment_ok_quiet [OF ctx1])
  next
    case approve
    with h have "seg = approve (request_id_text m) (json_string (map_of m ''scope'')) b"
      by (simp add: dispatch_message_def)
    with approve approve_ok [OF ctx] km show ?thesis by (simp add: message_press_def)
  next
    case deny
    with h have "seg = deny (request_id_text m) (json_string (map_of m ''scope'')) b"
      by (simp add: dispatch_message_def)
    with deny deny_ok [OF ctx] km show ?thesis by (simp add: message_press_def)
  next
    case outcome
    obtain q where q: "(let (b1, r) = record_request_policy_outcome q fails b
        in ((b1, [], Done (Some r)), MsgControl)) = (seg, msg)"
      using h outcome by (auto simp: dispatch_message_def)
    obtain c r where "record_request_policy_outcome q fails b = (c, r)" by fastforce
    moreover from this q have "seg = (c, [], Done (Some r))" by simp
    ultimately show ?thesis using outcome_quiet segment_ok_reply_error [OF ctx1] by blast
  next
    case review
    show ?thesis
    proof (cases "bk_principal b = DindPrincipal")
      case True
      with h review have "seg = (b, [], Done (Some (ReplyDecision
          (deny_decision (request_id_text m) ''dind-review-forbidden'' None))))"
        by (simp add: dispatch_message_def)
      then show ?thesis by (auto intro: segment_ok_quiet [OF ctx1])
    next
      case False
      with h review obtain q where q: "read_review v = Some q" "seg = review_violations tid q now b" "msg = MsgReview q"
        by (auto simp: dispatch_message_def)
      from valid review False have "validate_request_policy_review v (bk_session_id b) (bk_document b) = None"
        by (simp add: validate_message_def)
      from review_message_shape [OF this] q(1) have "is_safe_rule_id (vq_rule_id q)"
        by (auto simp: review_shape_def)
      from segment_ok_review_violations [OF ctx1 safe_rule_id_nul_free [OF this]] q show ?thesis by simp
    qed
  next
    case other
    with h have "seg = (b, [], Done (Some ReplyPending))" by (simp add: dispatch_message_def)
    then show ?thesis using segment_ok_reply_error [OF ctx1 quiet_refl] by simp
  qed
qed

lemma handle_message_ok:
  assumes ctx: "segment_context b ps tasks"
    and h: "handle_message tid now nested fails v b = Some (seg, msg)"
  shows "segment_ok b (ps @ press_list b (message_press v b)) tasks tid msg seg"
proof -
  obtain kind m where km: "parse_broker_message v = Some (kind, m)"
    using h by (auto simp: handle_message_def split: option.splits)
  from h km consider e where "seg = (b, [], Done (Some (ReplyError (request_id_text m) e)))"
    | "validate_message b kind v = None" "dispatch_message tid now fails kind v m b = Some (seg, msg)"
    by (auto simp: handle_message_def Let_def split: route.splits option.splits)
  then show ?thesis
  proof cases
    case 1
    then show ?thesis using segment_ok_error [OF segment_context_mono [OF ctx]] by simp
  next
    case 2
    from dispatch_message_ok [OF ctx km 2] show ?thesis .
  qed
qed

lemma world_context: "world_ok w \<Longrightarrow> segment_context (wd_broker w) (wd_presses w) (wd_tasks w)"
  by (simp add: world_ok_def segment_context_def)

lemma resume_ok:
  assumes ok: "world_ok w" and tid: "tid < length (wd_tasks w)"
    and r: "resume tid now stored (wd_tasks w ! tid) (wd_broker w) = Some seg"
  shows "segment_ok (wd_broker w) (wd_presses w) (wd_tasks w) tid (wd_messages w ! tid) seg"
proof -
  note ctx = world_context [OF ok]
  let ?b = "wd_broker w" and ?ps = "wd_presses w" and ?tasks = "wd_tasks w" and ?msg = "wd_messages w ! tid"
  have t: "task_ok ?b ?ps ?tasks ?msg (?tasks ! tid)"
    using ok tid by (simp add: world_ok_def tasks_ok_def)
  show ?thesis
  proof (cases "?tasks ! tid")
    case (CaptureBody m capture)
    with t r segment_ok_authorize [OF ctx] show ?thesis by auto
  next
    case (EntryWritten ref m d status created)
    from t [unfolded EntryWritten] have msg: "?msg = MsgAuthorize m" and ref: "ref < length (bk_heap ?b)"
      and fits: "fits ?b ?ps ?msg (group_identity (bk_heap ?b ! ref))"
      unfolding task_ok.simps by blast+
    from segment_ok_entry_written [OF ctx ref fits [unfolded msg]] r EntryWritten msg show ?thesis by auto
  next
    case (ReviewEntryWritten ref m created)
    from t [unfolded ReviewEntryWritten] have msg: "?msg = MsgReview m" and ref: "ref < length (bk_heap ?b)"
      and fits: "fits ?b ?ps ?msg (group_identity (bk_heap ?b ! ref))"
      unfolding task_ok.simps by blast+
    from segment_ok_review_entry_written [OF ctx ref fits [unfolded msg]] r ReviewEntryWritten msg show ?thesis
      by auto
  next
    case (Replying reply)
    with t r show ?thesis by (auto intro!: segment_ok_quiet [OF ctx])
  next
    case (ResolvingGroup ref base outcome neg reply)
    with t r notification_closed_ok [OF ctx] show ?thesis by auto
  next
    case (EntryRemoved ref base outcome visited rid request reply)
    with t r entry_removed_ok [OF ctx] show ?thesis by auto
  next
    case (Audited ref base outcome visited rid decision reply)
    with t r request_settled_ok [OF ctx] show ?thesis by auto
  next
    case (RequestDetached ref request decided waiter base outcome rid reply)
    with t r request_detached_ok [OF ctx] show ?thesis by auto
  next
    case (RequestAudited ref waiter decision reply)
    with t have set: "settles_ok ?b ?ps ?tasks ref waiter (rp_verdict decision)" and reply: "control_reply reply" by simp_all
    have "reply_ok ?b ?ps ?msg reply"
      using reply by (cases "(?b, ?ps, ?msg, reply)" rule: reply_ok.cases) (auto simp: control_reply_def)
    with settle_waiter_ok [OF set] r RequestAudited show ?thesis
      by (auto intro!: segment_ok_quiet [OF ctx])
  next
    case ClosingBroker
    with r clear_policy_state_ok [OF ctx] show ?thesis by auto
  qed (use r in simp_all)
qed

lemma start_presses: "wd_presses (start_task w seg msg press) = wd_presses w @ press_list (wd_broker w) press"
  by (cases seg) (simp add: start_task_def press_list_def)

lemma resume_busy:
  "resume tid now stored t b = Some seg \<Longrightarrow> \<not> (\<exists>ref. t = Waiting ref) \<and> \<not> (\<exists>r. t = Done r)"
  "awaiting t \<Longrightarrow> \<not> (\<exists>ref. t = Waiting ref) \<and> \<not> (\<exists>r. t = Done r)"
  by auto

text \<open>A step starts a task, continues one or replaces the credentials.\<close>

lemma step_segment:
  assumes "step w w'" and "world_ok w"
  obtains (start) seg msg press where "w' = start_task w seg msg press"
      "segment_ok (wd_broker w) (wd_presses w') (wd_tasks w) (length (wd_tasks w)) msg seg"
    | (continue) tid seg where "w' = continue_task w tid seg" "tid < length (wd_tasks w)"
      "\<not> (\<exists>ref. wd_tasks w ! tid = Waiting ref)" "\<not> (\<exists>r. wd_tasks w ! tid = Done r)"
      "segment_ok (wd_broker w) (wd_presses w) (wd_tasks w) tid (wd_messages w ! tid) seg"
    | (credentials) cs where "w' = w\<lparr>wd_broker := (wd_broker w)\<lparr>bk_agent_credentials := cs\<rparr>\<rparr>"
      "list_all2 same_credential (bk_agent_credentials (wd_broker w)) cs"
  using assms(1)
proof (cases rule: step.cases)
  case (message now nested fails v seg msg)
  from handle_message_ok [OF world_context [OF assms(2)] message(2)] show ?thesis
    by (intro start [OF message(1)]) (simp add: message(1) start_presses)
next
  case (timer ref rid)
  show ?thesis
    by (rule start [OF timer(1)], rule resolve_group_ok)
      (use world_context [OF assms(2)] timer in \<open>simp_all add: control_reply_def start_presses press_list_def\<close>)
next
  case (resumed tid now stored seg)
  from continue [OF resumed(1,2)] resume_busy(1) [OF resumed(3)] resume_ok [OF assms(2) resumed(2,3)]
  show ?thesis by simp
next
  case (failed tid)
  from continue [OF failed(1,2)] resume_busy(2) [OF failed(3)] show ?thesis
    by (simp add: segment_ok_quiet [OF world_context [OF assms(2)]])
next
  case (credentials cs)
  then show ?thesis by (rule that(3))
next
  case closing
  show ?thesis
    by (rule start [OF closing])
      (use close_broker_ok [OF world_context [OF assms(2)]] closing in \<open>simp add: start_presses press_list_def\<close>)
qed

lemma credentials_evolve:
  assumes "list_all2 same_credential (bk_agent_credentials b) cs"
  shows "evolves b (b\<lparr>bk_agent_credentials := cs\<rparr>) {}"
  using same_credential_refresh [OF assms] by (simp add: evolves_def static_def effects_grow_same exclusive_def recedes_same)

lemma step_ok:
  assumes "step w w'" and "world_ok w"
  shows "world_ok w'"
  using assms
proof (cases rule: step_segment)
  case (start seg msg press)
  from start_ok [OF assms(2)] start(2) show ?thesis unfolding start(1) .
next
  case (continue tid seg)
  from continue_ok [OF assms(2)] continue show ?thesis by blast
next
  case (credentials cs)
  let ?b = "wd_broker w" and ?c = "(wd_broker w)\<lparr>bk_agent_credentials := cs\<rparr>"
  note ev = credentials_evolve [OF credentials(2)]
  have "static ?c = static ?b" using ev by (simp add: evolves_def)
  moreover have "tasks_ok ?c (wd_presses w) (wd_messages w) (wd_tasks w)"
    using assms(2) task_ok_evolves [OF _ ev, of _ _ _ _ _ "[]"] by (auto simp: world_ok_def tasks_ok_def)
  ultimately show ?thesis
    using assms(2) credentials evolves_effects_masked [OF ev] evolves_exclusive [OF ev]
    by (auto simp: world_ok_def store_wf_def approvals_pressed_def waiters_ok_def)
qed

text \<open>What a session is about never changes.\<close>

lemma segment_ok_static: "segment_ok b ps tasks tid msg (c, ds, t) \<Longrightarrow> static c = static b"
  by (simp add: segment_ok_def evolves_def)

lemma step_static:
  assumes "step w w'" and "world_ok w"
  shows "static (wd_broker w') = static (wd_broker w)"
  using assms
proof (cases rule: step_segment)
  case (start seg msg press)
  then show ?thesis by (cases seg) (auto simp: start_task_def dest: segment_ok_static)
next
  case (continue tid seg)
  then show ?thesis by (cases seg) (auto simp: continue_task_def dest: segment_ok_static)
next
  case (credentials cs)
  then show ?thesis using credentials_evolve [OF credentials(2)] by (simp add: evolves_def)
qed

lemma steps_ok: "steps w w' \<Longrightarrow> world_ok w \<Longrightarrow> world_ok w'"
  by (induction rule: rtranclp_induct) (simp_all add: step_ok)

lemma steps_static: "steps w w' \<Longrightarrow> world_ok w \<Longrightarrow> static (wd_broker w') = static (wd_broker w)"
  by (induction rule: rtranclp_induct) (simp_all add: step_static steps_ok)

lemma initial_ok:
  assumes "broker_new opts = Some b" and "nul_free_document (bo_document opts)"
  shows "world_ok (initial_world b)"
  using assms
  by (auto simp: broker_new_def initial_world_def world_ok_def store_wf_def approvals_pressed_def waiters_ok_def
      tasks_ok_def exclusive_def effects_masked_def)

end
