(* ===== verification/BrokerEvents.thy ===== *)
theory BrokerEvents
  imports BrokerInvariant
begin

text \<open>
  The runs of a session broker as lists of events that can be executed: a message arrives, a
  timer fires, a task goes on or fails, the broker closes. Every list of events that runs is a
  run of \<open>BrokerRuns\<close>. The example plays a session on concrete messages.
\<close>

section \<open>Runs\<close>

definition reachable :: "broker_options \<Rightarrow> world \<Rightarrow> bool" where
  "reachable opts w \<longleftrightarrow> (\<exists>b. broker_new opts = Some b \<and> steps (initial_world b) w)"

text \<open>A step as data, and its result; a list of them is a run.\<close>

datatype event =
    Message int bool bool json
  | Timer nat string
  | Resume nat int "body_audit_status option"
  | Failing nat
  | Closing

fun happen :: "event \<Rightarrow> world \<Rightarrow> world option" where
  "happen (Message now nested fails v) w =
     map_option (\<lambda>(seg, msg). start_task w seg msg (message_press v (wd_broker w)))
       (handle_message (length (wd_tasks w)) now nested fails v (wd_broker w))"
| "happen (Timer ref rid) w =
     (if ref < length (bk_heap (wd_broker w)) \<and> pg_timer (bk_heap (wd_broker w) ! ref)
      then Some (start_task w
        (resolve_group (pg_key (bk_heap (wd_broker w) ! ref)) (deny_decision rid ''prompt-timeout'' None) Deny True
          None (wd_broker w)) MsgControl None)
      else None)"
| "happen (Resume tid now stored) w =
     (if tid < length (wd_tasks w)
      then map_option (continue_task w tid) (resume tid now stored (wd_tasks w ! tid) (wd_broker w))
      else None)"
| "happen (Failing tid) w =
     (if tid < length (wd_tasks w) \<and> awaiting (wd_tasks w ! tid)
      then Some (continue_task w tid (wd_broker w, [], Failed)) else None)"
| "happen Closing w = Some (start_task w (close_broker (wd_broker w)) MsgControl None)"

fun happen_all :: "event list \<Rightarrow> world \<Rightarrow> world option" where
  "happen_all [] w = Some w"
| "happen_all (e # es) w = Option.bind (happen e w) (happen_all es)"

lemma happen_step: "happen e w = Some w' \<Longrightarrow> step w w'"
  by (cases e) (auto intro: step.intros split: if_splits)

lemma happen_steps: "happen_all es w = Some w' \<Longrightarrow> steps w w'"
proof (induction es arbitrary: w)
  case (Cons e es)
  then show ?case by (auto simp: bind_eq_Some_conv intro: happen_step converse_rtranclp_into_rtranclp)
qed simp

lemma happen_reachable:
  assumes "broker_new opts = Some b" and "happen_all es (initial_world b) = Some w"
  shows "reachable opts w"
  using assms happen_steps by (auto simp: reachable_def)

lemma reachable_ok: "reachable opts w \<Longrightarrow> nul_free_document (bo_document opts) \<Longrightarrow> world_ok w"
  using initial_ok steps_ok by (auto simp: reachable_def)

section \<open>An example\<close>

definition demo_scope :: "resolved_limits \<Rightarrow> resolved_scope" where
  "demo_scope l =
     \<lparr>rs_name = ''api'', rs_targets = [], rs_fallback = ActDeny, rs_web_socket = WsDeny,
      rs_fallback_rule_id = ''api.$fallback'', rs_limits = l, rs_secrets = [], rs_inject = [],
      rs_audit = AuditOff,
      rs_rules = [\<lparr>rr_id = ''api.read'', rr_key = ''read'', rr_precedes = [],
        rr_match = \<lparr>rm_methods = None, rm_paths = [], rm_body_format = None, rm_equals = [], rm_one_of = [],
          rm_graphql = None\<rparr>,
        rr_on_match = ActReview, rr_on_indeterminate = IaDeny,
        rr_expect = [\<lparr>re_check = RcEmptyBody, re_on_violation = VaReview\<rparr>],
        rr_limits = l, rr_secrets = [], rr_inject = [], rr_audit = AuditAlways\<rparr>]\<rparr>"

definition demo_options :: "resolved_limits \<Rightarrow> principal \<Rightarrow> broker_options" where
  "demo_options l p =
     \<lparr>bo_session_id = ''s1'',
      bo_document = \<lparr>doc_fallback = NfReview, doc_defaults = \<lparr>rd_limits = l, rd_secrets = [], rd_audit = AuditAlways\<rparr>,
        doc_scopes = [demo_scope l]\<rparr>,
      bo_principal = p, bo_audit_dir = True, bo_secret_values = [(''token'', [''hunter22''])], bo_agent_credentials = [],
      bo_proxy_masking = False, bo_body_audit = \<lparr>ba_enable = False, ba_max_body_bytes = 0\<rparr>,
      bo_negative_ttl = None\<rparr>"

definition demo_request :: "string \<Rightarrow> json" where
  "demo_request rid =
     JObj [(''version'', JNum ''1''), (''type'', JStr ''authorize''), (''requestId'', JStr rid),
           (''sessionId'', JStr ''s1''), (''target'', JObj [(''host'', JStr ''api''), (''port'', JNum ''8'')]),
           (''method'', JStr ''get''), (''transport'', JStr ''http''), (''requestKind'', JStr ''forward''),
           (''observedAt'', JStr ''now''), (''bodyTruth'', JObj []), (''bodyDiagnostics'', JObj []),
           (''requestBodyCapture'', JObj [(''state'', JStr ''disabled'')]),
           (''reviewContext'', JObj [(''path'', JStr ''/v1?key=hunter22''), (''contentType'', JNull),
              (''bodySize'', JNum ''0'')])]"

definition demo_press :: "string \<Rightarrow> string \<Rightarrow> string \<Rightarrow> json" where
  "demo_press kind rid scope = JObj [(''type'', JStr kind), (''requestId'', JStr rid), (''scope'', JStr scope)]"


definition demo_review :: json where
  "demo_review =
     JObj [(''version'', JNum ''1''), (''type'', JStr ''request_policy_review''), (''requestId'', JStr ''v1''),
           (''sessionId'', JStr ''s1''), (''ruleId'', JStr ''api.read''),
           (''target'', JObj [(''host'', JStr ''api''), (''port'', JNum ''8'')]), (''method'', JStr ''post''),
           (''findings'', JArr [JObj [(''expect'', JNum ''0''), (''expectKind'', JStr ''body''), (''at'', JStr ''''),
              (''kind'', JStr ''schema-mismatch''), (''pointer'', JStr ''''), (''value'', JStr ''x''),
              (''label'', JNull), (''excerpt'', JNull), (''count'', JNum ''1'')]])]"

text \<open>Two requests on one question, answered by one press, and the review of a violation.\<close>

definition demo_events :: "event list" where
  "demo_events =
     [Message 0 False False (demo_request ''r1''), Resume 0 0 None, Resume 0 0 None,
      Message 0 False False (demo_press ''approve'' ''r1'' ''host-port''),
      Resume 1 0 None, Resume 1 0 None, Resume 1 0 None,
      Message 0 False False (demo_request ''r2''), Resume 2 0 None, Resume 2 0 None,
      Message 0 False False demo_review, Resume 3 0 None,
      Message 0 False False (demo_press ''approve'' ''v1'' ''violation''),
      Resume 4 0 None, Resume 4 0 None, Resume 4 0 None]"

definition allowed_task :: "world \<Rightarrow> nat \<Rightarrow> bool" where
  "allowed_task w tid \<longleftrightarrow> tid < length (wd_tasks w) \<and>
     (case wd_tasks w ! tid of Done (Some (ReplyDecision r)) \<Rightarrow> rp_verdict r = Allow | _ \<Rightarrow> False)"

lemma demo_agent_run:
  "case broker_new (demo_options l AgentPrincipal) of None \<Rightarrow> False | Some b \<Rightarrow>
     (case happen_all demo_events (initial_world b) of
        None \<Rightarrow> False
      | Some w \<Rightarrow> list_all (allowed_task w) [0, 2, 3] \<and> length (wd_presses w) = 2 \<and>
          (case bk_effects (wd_broker w) of
             WriteEntry pe # es \<Rightarrow> request_path (pe_review_context pe) = Some ''/v1?key=****'' | _ \<Rightarrow> False) \<and>
          (case wd_messages w of [MsgAuthorize m1, MsgControl, MsgAuthorize m2, MsgReview q, MsgControl] \<Rightarrow> True
           | _ \<Rightarrow> False))"
  by code_simp

lemma demo_nul_free [simp]: "nul_free_document (bo_document (demo_options l p))"
  by (simp add: nul_free_document_def demo_options_def demo_scope_def nul_def)

lemma demo_agent_world:
  obtains b w m1 m2 q pe es where "broker_new (demo_options l AgentPrincipal) = Some b"
    "happen_all demo_events (initial_world b) = Some w" "reachable (demo_options l AgentPrincipal) w"
    "wd_messages w = [MsgAuthorize m1, MsgControl, MsgAuthorize m2, MsgReview q, MsgControl]"
    "allowed_task w 0" "allowed_task w 2" "allowed_task w 3" "length (wd_presses w) = 2"
    "bk_effects (wd_broker w) = WriteEntry pe # es"
    "request_path (pe_review_context pe) = Some ''/v1?key=****''"
proof -
  from demo_agent_run [of l] obtain b w m1 m2 q pe es where
      "broker_new (demo_options l AgentPrincipal) = Some b" "happen_all demo_events (initial_world b) = Some w"
      "wd_messages w = [MsgAuthorize m1, MsgControl, MsgAuthorize m2, MsgReview q, MsgControl]"
      "allowed_task w 0" "allowed_task w 2" "allowed_task w 3" "length (wd_presses w) = 2"
      "bk_effects (wd_broker w) = WriteEntry pe # es"
      "request_path (pe_review_context pe) = Some ''/v1?key=****''"
    by (auto split: option.splits list.splits request_message.splits effect.splits)
  with that happen_reachable show ?thesis by blast
qed

text \<open>
  A second request joins the group while its file is being written; the press on the first
  resolves the group, and the second begins to wait only then.
\<close>

definition demo_late_events :: "event list" where
  "demo_late_events =
     [Message 0 False False (demo_request ''r1''), Resume 0 0 None, Resume 0 0 None,
      Message 0 False False (demo_request ''r2''), Resume 1 0 None,
      Message 0 False False (demo_press ''approve'' ''r1'' ''host-port''),
      Resume 2 0 None, Resume 2 0 None, Resume 2 0 None, Resume 2 0 None, Resume 2 0 None,
      Resume 1 0 None]"

lemma demo_late_run:
  "case broker_new (demo_options l AgentPrincipal) of None \<Rightarrow> False | Some b \<Rightarrow>
     (case happen_all demo_late_events (initial_world b) of
        None \<Rightarrow> False
      | Some w \<Rightarrow> allowed_task w 0 \<and> length (wd_tasks w) = 3 \<and>
          (case wd_tasks w ! 1 of Waiting ref \<Rightarrow> ref = 0 | _ \<Rightarrow> False) \<and>
          list_all (\<lambda>t. case t of Done reply \<Rightarrow> True | Waiting ref \<Rightarrow> True | _ \<Rightarrow> False) (wd_tasks w) \<and>
          bk_groups (wd_broker w) = [] \<and> length (bk_heap (wd_broker w)) = 1 \<and>
          \<not> pg_timer (bk_heap (wd_broker w) ! 0) \<and> map_of (pg_waiters (bk_heap (wd_broker w) ! 0)) ''r2'' = Some 1)"
  by code_simp

text \<open>A request whose group times out, and a session of the nested daemon.\<close>

definition demo_timeout_events :: "event list" where
  "demo_timeout_events = [Message 0 False False (demo_request ''r1''), Resume 0 0 None, Resume 0 0 None]"

lemma demo_timeout_run:
  "case broker_new (demo_options l AgentPrincipal) of None \<Rightarrow> False | Some b \<Rightarrow>
     (case happen_all demo_timeout_events (initial_world b) of
        None \<Rightarrow> False
      | Some w \<Rightarrow> (case wd_tasks w of [Waiting ref] \<Rightarrow> ref = 0 | _ \<Rightarrow> False) \<and>
          length (bk_heap (wd_broker w)) = 1 \<and>
          bk_groups (wd_broker w) = [(pg_key (bk_heap (wd_broker w) ! 0), 0)] \<and>
          map_of (pg_waiters (bk_heap (wd_broker w) ! 0)) ''r1'' = Some 0 \<and>
          pg_timer (bk_heap (wd_broker w) ! 0) \<and>
          ''r1'' \<in> set (group_requests (pg_body (bk_heap (wd_broker w) ! 0))))"
  by code_simp

end
