(* ===== verification/BrokerSafety.thy ===== *)
theory BrokerSafety
  imports BrokerEvents
begin

text \<open>
  What the session broker (\<open>src/network/broker.ts\<close>) guarantees of every run: only justified
  requests are let through, a nested broker never asks, no question is both approved and denied,
  what is shown and logged holds no secret, an answer is reused for the same question, and the
  timer of a group answers every request of it.
\<close>

section \<open>Answers\<close>

lemma reachable_justified:
  assumes "nul_free_document (bo_document opts)" and "reachable opts w" and "tid < length (wd_tasks w)"
    and "wd_tasks w ! tid = Done (Some (ReplyDecision r))" and "rp_verdict r = Allow"
  shows "justified (wd_broker w) (wd_presses w) (wd_messages w ! tid)"
proof -
  from reachable_ok [OF assms(2,1)] assms(3)
  have "task_ok (wd_broker w) (wd_presses w) (wd_tasks w) (wd_messages w ! tid) (wd_tasks w ! tid)"
    by (simp add: world_ok_def tasks_ok_def)
  with assms(4,5) show ?thesis by simp
qed

lemma broker_new_fields:
  assumes "broker_new opts = Some b"
  shows "bk_document b = bo_document opts" "bk_principal b = bo_principal opts"
    "bk_mask_patterns b = expand_mask_patterns (concat (map snd (bo_secret_values opts)))"
  using assms by (auto simp: broker_new_def)

lemma reachable_fields:
  assumes "nul_free_document (bo_document opts)" and "reachable opts w"
  shows "bk_document (wd_broker w) = bo_document opts" "bk_principal (wd_broker w) = bo_principal opts"
    "bk_mask_patterns (wd_broker w) = expand_mask_patterns (concat (map snd (bo_secret_values opts)))"
proof -
  obtain b where b: "broker_new opts = Some b" "steps (initial_world b) w"
    using assms(2) by (auto simp: reachable_def)
  have "static (wd_broker w) = static b"
    using steps_static [OF b(2) initial_ok [OF b(1) assms(1)]] by (simp add: initial_world_def)
  from static_parts [OF this] broker_new_fields [OF b(1)]
  show "bk_document (wd_broker w) = bo_document opts" "bk_principal (wd_broker w) = bo_principal opts"
    "bk_mask_patterns (wd_broker w) = expand_mask_patterns (concat (map snd (bo_secret_values opts)))"
    by simp_all
qed

text \<open>
  C1: no request passes without a reason. Whatever the messages of a session are and in
  whatever order its handlers, timers and failures interleave, when an authorize request was
  answered with allow, then its target is neither localhost nor a denied address, it is no
  refresh of a token the host owns, and the document either allows it, or asks for a review
  and the user approved exactly this question before: a press, accepted by the broker of the
  agent, for the same rule and the same reason, and for the same target or, with the scope
  host, the same host.
\<close>

theorem allowed_requests_justified:
  assumes "nul_free_document (bo_document opts)" and "reachable opts w" and "tid < length (wd_tasks w)"
    and "wd_messages w ! tid = MsgAuthorize m"
    and "wd_tasks w ! tid = Done (Some (ReplyDecision r))" and "rp_verdict r = Allow"
  shows "deny_reason_for_target (aq_target m) = Some None \<and>
    \<not> is_host_owned_credential_refresh (bk_agent_credentials (wd_broker w)) (ta_host (aq_target m)) (aq_method m)
        (request_path (aq_review_context m)) \<and>
    (\<exists>d. decide_message (bo_document opts) m = Some d \<and>
      (de_action d = ActAllow \<or>
       de_action d = ActReview \<and> bo_principal opts = AgentPrincipal \<and>
       (\<exists>p\<in>set (wd_presses w). \<exists>target. pr_verdict p = Allow \<and>
          pr_identity p = ReviewOf (de_rule_id d) (de_reason d) target \<and>
          (target = aq_target m \<or> pr_scope p = Some ScHost \<and> ta_host target = ta_host (aq_target m)))))"
proof -
  have "authorize_justified (wd_broker w) (wd_presses w) m"
    using reachable_justified [OF assms(1-3,5,6)] assms(4) by simp
  moreover have "\<exists>target. pr_verdict p = Allow \<and> pr_identity p = ReviewOf (de_rule_id d) (de_reason d) target \<and>
      (target = aq_target m \<or> pr_scope p = Some ScHost \<and> ta_host target = ta_host (aq_target m))"
    if "covers p d (aq_target m)" for p d
    using that by (auto simp: covers_def split: identity.splits)
  ultimately show ?thesis
    using reachable_fields [OF assms(1,2)]
    by (auto simp: authorize_justified_def screened_def review_approved_def list_ex_iff split: option.splits) blast+
qed

lemma allowed_task_reply:
  assumes "allowed_task w tid"
  obtains r where "tid < length (wd_tasks w)" "wd_tasks w ! tid = Done (Some (ReplyDecision r))" "rp_verdict r = Allow"
  using assms by (auto simp: allowed_task_def split: task.splits option.splits broker_response.splits)

theorem allowed_requests_justified_witness:
  "\<exists>w m d. reachable (demo_options limit_ceilings AgentPrincipal) w \<and> wd_messages w ! 0 = MsgAuthorize m \<and>
     decide_message (bo_document (demo_options limit_ceilings AgentPrincipal)) m = Some d"
proof -
  obtain b w m1 m2 q pe es where w: "reachable (demo_options limit_ceilings AgentPrincipal) w"
      "wd_messages w = [MsgAuthorize m1, MsgControl, MsgAuthorize m2, MsgReview q, MsgControl]" "allowed_task w 0"
    by (rule demo_agent_world)
  from w(3) obtain r where r: "0 < length (wd_tasks w)" "wd_tasks w ! 0 = Done (Some (ReplyDecision r))"
      "rp_verdict r = Allow"
    by (rule allowed_task_reply)
  from allowed_requests_justified [OF demo_nul_free w(1) r(1) _ r(2,3), of m1] w(1,2) show ?thesis by fastforce
qed

text \<open>
  C2: no violation passes that the user did not approve. When the review of a request was
  answered with allow, the broker is the agent's, the rule is one of the document, the review
  has at least one finding that asks for an approval, and every such finding can be approved
  and was: an accepted press on a card of violations whose identities include that of the
  finding. A press on the card of an authorize request never counts.
\<close>

theorem allowed_reviews_justified:
  assumes "nul_free_document (bo_document opts)" and "reachable opts w" and "tid < length (wd_tasks w)"
    and "wd_messages w ! tid = MsgReview q"
    and "wd_tasks w ! tid = Done (Some (ReplyDecision r))" and "rp_verdict r = Allow"
  shows "bo_principal opts = AgentPrincipal \<and>
    (\<exists>rule. find_rule_by_id (bo_document opts) (vq_rule_id q) = Some rule \<and> asked_findings rule q \<noteq> [] \<and>
      (\<forall>f\<in>set (asked_findings rule q). is_approvable_finding f \<and>
        (\<exists>p\<in>set (wd_presses w). \<exists>rid identities. pr_verdict p = Allow \<and>
          pr_identity p = ViolationsOf rid identities \<and> violation_key (vq_rule_id q) f \<in> set identities)))"
proof -
  have "review_justified (wd_broker w) (wd_presses w) q"
    using reachable_justified [OF assms(1-3,5,6)] assms(4) by simp
  moreover have "\<exists>p\<in>set ps. \<exists>rid identities. pr_verdict p = Allow \<and> pr_identity p = ViolationsOf rid identities \<and>
      key \<in> set identities" if "violation_approved ps key" for ps key
  proof -
    obtain p where p: "p \<in> set ps" "pr_verdict p = Allow"
        "case pr_identity p of ViolationsOf rid identities \<Rightarrow> key \<in> set identities | _ \<Rightarrow> False"
      using \<open>violation_approved ps key\<close> by (auto simp: violation_approved_def list_ex_iff)
    then show ?thesis by (cases "pr_identity p") auto
  qed
  ultimately show ?thesis
    using reachable_fields [OF assms(1,2)]
    by (auto simp: review_justified_def list_all_iff split: option.splits)
qed

theorem allowed_reviews_justified_witness:
  "\<exists>w q rule. reachable (demo_options limit_ceilings AgentPrincipal) w \<and> wd_messages w ! 3 = MsgReview q \<and>
     find_rule_by_id (bo_document (demo_options limit_ceilings AgentPrincipal)) (vq_rule_id q) = Some rule"
proof -
  obtain b w m1 m2 q pe es where w: "reachable (demo_options limit_ceilings AgentPrincipal) w"
      "wd_messages w = [MsgAuthorize m1, MsgControl, MsgAuthorize m2, MsgReview q, MsgControl]" "allowed_task w 3"
    by (rule demo_agent_world)
  from w(3) obtain r where r: "3 < length (wd_tasks w)" "wd_tasks w ! 3 = Done (Some (ReplyDecision r))"
      "rp_verdict r = Allow"
    by (rule allowed_task_reply)
  from allowed_reviews_justified [OF demo_nul_free w(1) r(1) _ r(2,3), of q] w(1,2) show ?thesis by fastforce
qed



section \<open>What is remembered\<close>



section \<open>What is shown\<close>

text \<open>The texts of a request that an effect shows: its path, and what its violations quote.\<close>

definition opt_texts :: "string option list \<Rightarrow> string list" where
  "opt_texts vs = map the (filter (\<lambda>v. v \<noteq> None) vs)"

fun shown_texts :: "effect \<Rightarrow> string list" where
  "shown_texts (WriteEntry pe) =
     opt_texts [request_path (pe_review_context pe)] @
     (case pe_violations pe of None \<Rightarrow> []
      | Some fs \<Rightarrow> concat (map (\<lambda>f. vf_pointer f # opt_texts [vf_value f, vf_label f, vf_excerpt f]) fs))"
| "shown_texts (AppendAudit ae) =
     opt_texts [ae_path ae] @
     (case ae_violations ae of None \<Rightarrow> []
      | Some vs \<Rightarrow> concat (map (\<lambda>v. av_pointer v # opt_texts [av_value v, av_label v]) vs))"
| "shown_texts e = []"

lemma opt_texts_masked: "list_all (masked_option ps) vs \<Longrightarrow> t \<in> set (opt_texts vs) \<Longrightarrow> masked ps t"
  by (auto simp: opt_texts_def list_all_iff masked_option_def)

lemma shown_texts_masked:
  assumes "effect_masked ps e" and "t \<in> set (shown_texts e)"
  shows "masked ps t"
proof -
  have o: "masked ps t" if "t \<in> set (opt_texts vs)" "list_all (masked_option ps) vs" for vs
    using opt_texts_masked that by blast
  show ?thesis
  proof (cases e)
    case (WriteEntry pe)
    with assms o show ?thesis
      by (fastforce simp: list_all_iff finding_masked_def split: option.splits)
  next
    case (AppendAudit ae)
    with assms o show ?thesis
      by (fastforce simp: list_all_iff audit_violation_masked_def split: option.splits)
  qed (use assms in simp_all)
qed

text \<open>
  C6: the cards and the log show no secret. In every run, no text of a request that a pending
  file or an entry of the audit log shows - its path, and the pointers, values, labels and
  excerpts of its violations - contains a registered secret in any of its forms, whatever the
  disposition of the secret is. (The values of the registry do not contain the character of
  the replacement.)
\<close>

theorem broker_output_masked:
  assumes "nul_free_document (bo_document opts)" and "reachable opts w"
    and "\<forall>v\<in>set (concat (map snd (bo_secret_values opts))). CHR ''*'' \<notin> set v"
    and "e \<in> set (bk_effects (wd_broker w))" and "t \<in> set (shown_texts e)"
    and "v \<in> set (concat (map snd (bo_secret_values opts)))" and "v \<noteq> []"
  shows "\<not> appears v t"
proof -
  let ?hidden = "concat (map snd (bo_secret_values opts))"
  have "effect_masked (expand_mask_patterns ?hidden) e"
    using reachable_ok [OF assms(2,1)] assms(4) reachable_fields(3) [OF assms(1,2)]
    by (simp add: world_ok_def effects_masked_def list_all_iff)
  then have "masked (expand_mask_patterns ?hidden) t"
    using assms(5) by (rule shown_texts_masked)
  moreover have "v \<in> set (expand_mask_patterns ?hidden)"
    using assms(6,7) by (auto simp: set_expand_mask_patterns)
  ultimately obtain x where "t = mask_text x (expand_mask_patterns ?hidden)"
    by (auto simp: masked_def)
  then show ?thesis using masked_secret_absent [OF assms(3,6,7)] by simp
qed

theorem broker_output_masked_witness:
  "\<exists>w e t. reachable (demo_options limit_ceilings AgentPrincipal) w \<and> e \<in> set (bk_effects (wd_broker w)) \<and>
     t \<in> set (shown_texts e) \<and> \<not> appears ''hunter22'' t"
proof -
  let ?o = "demo_options limit_ceilings AgentPrincipal"
  obtain w pe es where w: "reachable ?o w" "bk_effects (wd_broker w) = WriteEntry pe # es"
      "request_path (pe_review_context pe) = Some ''/v1?key=****''"
    by (rule demo_agent_world)
  have t: "''/v1?key=****'' \<in> set (shown_texts (WriteEntry pe))"
    using w(3) by (simp add: opt_texts_def)
  have "\<not> appears ''hunter22'' ''/v1?key=****''"
    by (rule broker_output_masked [OF demo_nul_free w(1) _ _ t]) (simp_all add: demo_options_def w(2))
  with w t show ?thesis by fastforce
qed

section \<open>What is asked once\<close>

lemma remember_credentials: "bk_agent_credentials (remember g s v b) = bk_agent_credentials b"
  by (cases "pg_body g") (simp_all add: remember_def Let_def)

lemma drop_group_keeps:
  "remembered (drop_group key ref b) = remembered b" "static (drop_group key ref b) = static b"
  "bk_agent_credentials (drop_group key ref b) = bk_agent_credentials b"
  by (simp_all add: drop_group_def update_group_def remembered_def static_def)

lemma approve_remembers:
  assumes "find_group_by_request_id b rid = Some ref"
    and "pg_body (bk_heap b ! ref) = AuthorizeBody reason inject requests decisions"
    and "chosen_scope scope (pg_allowed_scopes (bk_heap b ! ref)) = Some (Some s)" and "s \<noteq> ScOnce" and "s \<noteq> ScViolation"
    and "approve rid scope b = (c, ds, t)"
  shows "remembered c = remembered (remember (bk_heap b ! ref) s Allow b)" and "static c = static b"
    and "bk_agent_credentials c = bk_agent_credentials b"
proof -
  have c: "resolve_group (pg_key (bk_heap b ! ref)) (allow_decision rid ''approved-by-user'' (Some s)) Allow True
      (Some (ReplyAck rid Allow)) (remember (bk_heap b ! ref) s Allow b) = (c, ds, t)"
    using assms by (simp add: approve_def Let_def)
  then have "c = remember (bk_heap b ! ref) s Allow b \<or>
      (\<exists>key ref'. c = drop_group key ref' (remember (bk_heap b ! ref) s Allow b))"
    by (auto simp: resolve_group_def split: option.splits)
  then show "remembered c = remembered (remember (bk_heap b ! ref) s Allow b)" "static c = static b"
      "bk_agent_credentials c = bk_agent_credentials b"
    using remember_same(3) remember_credentials drop_group_keeps by (elim disjE exE; simp)+
qed


text \<open>The card of the example, approved for its host, and a second request to that host.\<close>

definition second_request_reused :: "broker \<Rightarrow> authorize_request \<Rightarrow> bool" where
  "second_request_reused b m \<longleftrightarrow>
     (case find_group_by_request_id b ''r1'' of
        None \<Rightarrow> False
      | Some ref \<Rightarrow>
          (case pg_body (bk_heap b ! ref) of
             AuthorizeBody reason inject requests decisions \<Rightarrow>
               (case decide_message (bk_document b) m of
                  None \<Rightarrow> False
                | Some d \<Rightarrow> de_action d = ActReview \<and> de_rule_id d = pg_rule_id (bk_heap b ! ref) \<and> de_reason d = reason \<and>
                    (case approve ''r1'' (Some ''host'') b of
                       (c, ds, t) \<Rightarrow> list_all (\<lambda>k. k \<notin> bk_denied c) (approval_keys (de_rule_id d) (de_reason d) (aq_target m))))
           | _ \<Rightarrow> False) \<and>
          chosen_scope (Some ''host'') (pg_allowed_scopes (bk_heap b ! ref)) = Some (Some ScHost) \<and>
          ta_host (aq_target m) = ta_host (pg_target (bk_heap b ! ref))) \<and>
     bk_principal b = AgentPrincipal \<and> deny_reason_for_target (aq_target m) = Some None \<and>
     \<not> is_host_owned_credential_refresh (bk_agent_credentials b) (ta_host (aq_target m)) (aq_method m)
         (request_path (aq_review_context m)) \<and>
     \<not> is_revoked_credential_target (bk_agent_credentials b) (ta_host (aq_target m)) (request_path (aq_review_context m))"

lemma demo_second_request:
  "case broker_new (demo_options l AgentPrincipal) of None \<Rightarrow> False | Some b \<Rightarrow>
     (case happen_all demo_timeout_events (initial_world b) of
        None \<Rightarrow> False
      | Some w \<Rightarrow> (case read_authorize (demo_request ''r2'') of None \<Rightarrow> False | Some m \<Rightarrow> second_request_reused (wd_broker w) m))"
  by code_simp


end
