(* ===== verification/BrokerLiveness.thy ===== *)
theory BrokerLiveness
  imports BrokerSafety
begin

text \<open>
  Which requests of a session broker are answered (\<open>src/network/broker.ts\<close>). The timer of a
  group answers every request that waits in it. A request that joined a group but does not wait
  yet when the group is resolved is never answered: the abandoned waiter of the end of this
  theory.
\<close>

section \<open>The resolution of a group\<close>

text \<open>A task goes on until it awaits a group or is over; the fuel bounds its segments.\<close>

fun drain :: "nat \<Rightarrow> nat \<Rightarrow> int \<Rightarrow> world \<Rightarrow> world" where
  "drain 0 tid now w = w"
| "drain (Suc n) tid now w =
     (case resume tid now None (wd_tasks w ! tid) (wd_broker w) of
        None \<Rightarrow> w
      | Some seg \<Rightarrow> drain n tid now (continue_task w tid seg))"

lemma length_continue [simp]: "length (wd_tasks (continue_task w tid seg)) = length (wd_tasks w)"
  by (cases seg) (simp add: continue_task_def)

lemma drain_steps: "tid < length (wd_tasks w) \<Longrightarrow> steps w (drain n tid now w)"
proof (induction n arbitrary: w)
  case (Suc n)
  show ?case
  proof (cases "resume tid now None (wd_tasks w ! tid) (wd_broker w)")
    case (Some seg)
    have "step w (continue_task w tid seg)" using step.resumed [OF Suc.prems Some] .
    with Suc.IH [of "continue_task w tid seg"] Suc.prems Some show ?thesis
      by (simp add: converse_rtranclp_into_rtranclp)
  qed simp
qed simp

lemma drain_done: "wd_tasks w ! tid = Done r \<Longrightarrow> drain n tid now w = w"
  by (cases n) simp_all

text \<open>The timer of a group fires.\<close>

definition timer_fires :: "nat \<Rightarrow> string \<Rightarrow> world \<Rightarrow> world" where
  "timer_fires ref rid w =
     start_task w (resolve_group (pg_key (bk_heap (wd_broker w) ! ref)) (deny_decision rid ''prompt-timeout'' None)
       Deny True None (wd_broker w)) MsgControl None"

definition answered :: "string \<Rightarrow> task \<Rightarrow> bool" where
  "answered why t \<longleftrightarrow> (\<exists>r. t = Done (Some (ReplyDecision r)) \<and> rp_verdict r = Deny \<and> rp_reason r = why)"

text \<open>
  A denial at work on a group: the task \<open>tid\<close> has visited some of the requests, and the tasks
  that waited in the group still wait or were denied; those of the visited requests were.
\<close>

definition denying :: "nat \<Rightarrow> nat \<Rightarrow> pending_group \<Rightarrow> decision_response \<Rightarrow> nat set \<Rightarrow> string list \<Rightarrow> world \<Rightarrow> bool" where
  "denying tid ref g base waiting visited w \<longleftrightarrow>
     tid < length (wd_tasks w) \<and> tid \<notin> waiting \<and> bk_heap (wd_broker w) ! ref = g \<and>
     (\<forall>i\<in>waiting. i < length (wd_tasks w) \<and>
        (wd_tasks w ! i = Waiting ref \<or> answered (rp_reason base) (wd_tasks w ! i))) \<and>
     (\<forall>rid\<in>set visited. \<forall>i\<in>waiting. map_of (pg_waiters g) rid = Some i \<longrightarrow>
        answered (rp_reason base) (wd_tasks w ! i))"

definition visiting :: "nat \<Rightarrow> pending_group \<Rightarrow> decision_response \<Rightarrow> string list \<Rightarrow> task \<Rightarrow> bool" where
  "visiting ref g base visited t \<longleftrightarrow>
     (case next_request visited (pg_body g) of
        None \<Rightarrow> t = Done None
      | Some rid \<Rightarrow> \<exists>request. t = EntryRemoved ref base Deny visited rid request None)"

lemma find_request_listed: "rid \<in> set (group_requests body) \<Longrightarrow> find_request rid body \<noteq> None"
  by (cases body) (auto simp: map_of_eq_None_iff)

lemma next_requestD:
  "next_request visited body = Some rid \<Longrightarrow> rid \<in> set (group_requests body) \<and> rid \<notin> set visited"
  by (auto simp: next_request_def find_Some_iff)

lemma next_request_None:
  "next_request visited body = None \<longleftrightarrow> set (group_requests body) \<subseteq> set visited"
  by (auto simp: next_request_def find_None_iff)

lemma iterate_visiting:
  assumes "iterate_group ref base Deny visited None b = (c, t)" and "bk_heap b ! ref = g"
  shows "bk_heap c = bk_heap b \<and> visiting ref g base visited t"
  using assms find_request_listed next_requestD
  by (fastforce simp: iterate_group_def visiting_def emit_def unindex_request_def split: option.splits)

lemma answer_request_deny:
  assumes "answer_request ref base Deny request decided rid b = (c, decision, audited)"
  shows "bk_heap c = bk_heap b \<and> rp_verdict decision = rp_verdict base \<and> rp_reason decision = rp_reason base"
  using assms
  by (auto simp: answer_request_def Let_def record_audit_def record_violation_audit_def emit_def
      split: pending_request.splits if_splits)

lemma visiting_idle: "visiting ref g base visited t \<Longrightarrow> settle_task r t = t"
  by (auto simp: visiting_def split: option.splits)

lemma settle_denying:
  assumes d: "denying tid ref g base waiting visited w"
    and s: "request_settled ref base Deny visited rid decision None b = seg"
    and heap: "bk_heap b ! ref = g" and r: "rp_verdict decision = Deny" "rp_reason decision = rp_reason base"
  shows "denying tid ref g base waiting (visited @ [rid]) (continue_task w tid seg) \<and>
    visiting ref g base (visited @ [rid]) (wd_tasks (continue_task w tid seg) ! tid)"
proof -
  obtain c t where it: "iterate_group ref base Deny (visited @ [rid]) None b = (c, t)" by fastforce
  note v = iterate_visiting [OF it heap]
  have seg: "seg = (c, settle rid decision g, t)"
    using s it heap by (simp add: request_settled_def)
  have no_self: "tid \<notin> waiting" "tid < length (wd_tasks w)" using d by (simp_all add: denying_def)
  show ?thesis
  proof (cases "map_of (pg_waiters g) rid")
    case None
    then show ?thesis
      using d v no_self heap by (auto simp: seg settle_def continue_task_def denying_def nth_list_update)
  next
    case (Some j)
    let ?tasks = "deliver ((wd_tasks w)[tid := t]) (j, decision)"
    have own: "?tasks ! tid = t"
      using v no_self(2) visiting_idle [of ref g base "visited @ [rid]" t]
      by (cases "j = tid") (simp_all add: deliver_def)
    have other: "?tasks ! i = (if i = j then settle_task decision (wd_tasks w ! i) else wd_tasks w ! i)"
      if "i \<in> waiting" for i
      using that d by (auto simp: deliver_def denying_def nth_list_update)
    have settled: "answered (rp_reason base) (settle_task decision x)"
      if "x = Waiting ref \<or> answered (rp_reason base) x" for x
      using that r by (auto simp: answered_def)
    show ?thesis
      using d v own other settled heap Some
      by (auto simp: seg settle_def continue_task_def denying_def)
  qed
qed

lemma continue_denying:
  assumes "denying tid ref g base waiting visited w" and "bk_heap c ! ref = g"
  shows "denying tid ref g base waiting visited (continue_task w tid (c, [], t))"
    "wd_tasks (continue_task w tid (c, [], t)) ! tid = t"
  using assms by (auto simp: denying_def continue_task_def nth_list_update)

text \<open>One request of the iteration takes at most two segments.\<close>

lemma visit_one:
  assumes d: "denying tid ref g base waiting visited w" and v: "visiting ref g base visited (wd_tasks w ! tid)"
    and next_rid: "next_request visited (pg_body g) = Some rid" and base: "rp_verdict base = Deny"
  obtains k w' where "k \<le> 2" "\<And>n. drain (k + n) tid now w = drain n tid now w'"
    "denying tid ref g base waiting (visited @ [rid]) w'"
    "visiting ref g base (visited @ [rid]) (wd_tasks w' ! tid)"
proof -
  let ?b = "wd_broker w"
  obtain request where t: "wd_tasks w ! tid = EntryRemoved ref base Deny visited rid request None"
    using v next_rid by (auto simp: visiting_def)
  have heap: "bk_heap ?b ! ref = g" using d by (simp add: denying_def)
  obtain c decision audited where ans:
      "answer_request ref base Deny request (find_decision rid (pg_body g)) rid ?b = (c, decision, audited)"
    by (metis prod_cases3)
  note a = answer_request_deny [OF ans]
  have heap': "bk_heap c ! ref = g" using a heap by simp
  show ?thesis
  proof (cases audited)
    case True
    let ?w = "continue_task w tid (c, [], Audited ref base Deny visited rid decision None)"
    let ?w' = "continue_task ?w tid (request_settled ref base Deny visited rid decision None c)"
    have r1: "resume tid now None (wd_tasks w ! tid) ?b = Some (c, [], Audited ref base Deny visited rid decision None)"
      using True ans heap by (simp add: t entry_removed_def)
    note c1 = continue_denying [OF d heap', of "Audited ref base Deny visited rid decision None"]
    have "drain (2 + n) tid now w = drain n tid now ?w'" for n
      using r1 c1(2) by (simp add: continue_task_def)
    with settle_denying [OF c1(1) refl, where rid = rid and decision = decision and b = c] heap' a base that [of 2 ?w']
    show ?thesis by (simp add: numeral_2_eq_2)
  next
    case False
    let ?w' = "continue_task w tid (request_settled ref base Deny visited rid decision None c)"
    have "drain (1 + n) tid now w = drain n tid now ?w'" for n
      using False ans heap by (simp add: t entry_removed_def)
    with settle_denying [OF d refl, where rid = rid and decision = decision and b = c] heap' a base that [of 1 ?w']
    show ?thesis by simp
  qed
qed

lemma drain_denying:
  assumes "denying tid ref g base waiting visited w" and "visiting ref g base visited (wd_tasks w ! tid)"
    and "rp_verdict base = Deny" and "2 * card (set (group_requests (pg_body g)) - set visited) \<le> n"
  shows "\<exists>visited'. denying tid ref g base waiting visited' (drain n tid now w) \<and>
    wd_tasks (drain n tid now w) ! tid = Done None \<and> set (group_requests (pg_body g)) \<subseteq> set visited'"
  using assms
proof (induction "card (set (group_requests (pg_body g)) - set visited)" arbitrary: visited w n rule: less_induct)
  case less
  show ?case
  proof (cases "next_request visited (pg_body g)")
    case None
    then have "wd_tasks w ! tid = Done None" using less.prems(2) by (simp add: visiting_def)
    with None less.prems(1) show ?thesis by (auto simp: drain_done next_request_None)
  next
    case (Some rid)
    from visit_one [OF less.prems(1,2) Some less.prems(3)] obtain k w' where k: "k \<le> 2"
        "\<And>n. drain (k + n) tid now w = drain n tid now w'"
        "denying tid ref g base waiting (visited @ [rid]) w'"
        "visiting ref g base (visited @ [rid]) (wd_tasks w' ! tid)"
      by blast
    let ?left = "set (group_requests (pg_body g)) - set visited"
    have eq: "set (group_requests (pg_body g)) - set (visited @ [rid]) = ?left - {rid}" by auto
    have "rid \<in> ?left" using next_requestD [OF Some] by simp
    then have card: "card ?left = Suc (card (?left - {rid}))"
      by (metis List.finite_set card_Suc_Diff1 finite_Diff)
    then have fuel: "2 * card (?left - {rid}) \<le> n - k" "k \<le> n" using less.prems(4) k(1) by simp_all
    have less: "card (set (group_requests (pg_body g)) - set (visited @ [rid])) < card ?left"
      unfolding eq using card by simp
    from less.hyps [OF less k(3,4) less.prems(3)] fuel(1) eq
      have "\<exists>visited'. denying tid ref g base waiting visited' (drain (n - k) tid now w') \<and>
        wd_tasks (drain (n - k) tid now w') ! tid = Done None \<and> set (group_requests (pg_body g)) \<subseteq> set visited'"
      by simp
    with k(2) [of "n - k"] fuel(2) show ?thesis by simp
  qed
qed

lemma timer_denying:
  assumes ok: "world_ok w" and key: "map_of (bk_groups (wd_broker w)) key = Some ref"
    and g: "g = (bk_heap (wd_broker w) ! ref)\<lparr>pg_timer := False, pg_notified := False\<rparr>"
    and waiting: "waiting = {i. i < length (wd_tasks w) \<and> wd_tasks w ! i = Waiting ref}"
    and base: "base = deny_decision rid ''prompt-timeout'' None"
  obtains w1 where "\<And>n. drain (Suc n) (length (wd_tasks w)) now (timer_fires ref rid w) = drain n (length (wd_tasks w)) now w1"
    "denying (length (wd_tasks w)) ref g base waiting [] w1"
    "visiting ref g base [] (wd_tasks w1 ! length (wd_tasks w))"
proof -
  let ?b = "wd_broker w" and ?tid = "length (wd_tasks w)"
  have wf: "store_wf ?b" using ok by (simp add: world_ok_def)
  have len: "ref < length (bk_heap ?b)" using open_group [OF wf key] by simp
  have fires: "timer_fires ref rid w =
      start_task w (drop_group key ref ?b, [], ResolvingGroup ref base Deny True None) MsgControl None"
    using key group_key_open [OF wf key] by (simp add: timer_fires_def resolve_group_def base)
  let ?c = "drop_group key ref ?b"
  let ?c' = "?c\<lparr>bk_negative := cache_set (bk_negative ?c) (pg_key (bk_heap ?c ! ref)) True now\<rparr>"
  have heap: "bk_heap ?c' ! ref = g" using len by (simp add: drop_group_def update_group_def g)
  obtain d t where it: "iterate_group ref base Deny [] None ?c' = (d, t)" by fastforce
  note v = iterate_visiting [OF it heap]
  let ?w0 = "timer_fires ref rid w" and ?w1 = "continue_task (timer_fires ref rid w) ?tid (d, [], t)"
  have "drain (Suc n) ?tid now ?w0 = drain n ?tid now ?w1" for n
    using it by (simp add: fires start_task_def notification_closed_def nth_append)
  moreover have "denying ?tid ref g base waiting [] ?w1"
    using v heap by (auto simp: denying_def fires start_task_def continue_task_def waiting nth_append)
  moreover have "wd_tasks ?w1 ! ?tid = t"
    by (simp add: fires start_task_def continue_task_def)
  ultimately show ?thesis using v that by simp
qed

text \<open>
  C7: who waits for an answer gets one at the latest when the timer fires. In every reachable
  state of a session, let a request wait in an open group whose timer runs. When the timer
  fires and its task goes on until it is over, which takes at most one segment and two for each
  request of the group, the request has been answered: denied, for the reason prompt-timeout.
\<close>

theorem timeout_answers:
  assumes "nul_free_document (bo_document opts)" and "reachable opts w"
    and "map_of (bk_groups (wd_broker w)) key = Some ref" and "pg_timer (bk_heap (wd_broker w) ! ref)"
    and "map_of (pg_waiters (bk_heap (wd_broker w) ! ref)) rid = Some i"
    and "rid \<in> set (group_requests (pg_body (bk_heap (wd_broker w) ! ref)))"
    and "i < length (wd_tasks w)" and "wd_tasks w ! i = Waiting ref"
    and "w' = drain (Suc (2 * length (group_requests (pg_body (bk_heap (wd_broker w) ! ref))))) (length (wd_tasks w)) now
      (timer_fires ref first w)"
  shows "steps w w' \<and> wd_tasks w' ! length (wd_tasks w) = Done None \<and>
    (\<exists>r. wd_tasks w' ! i = Done (Some (ReplyDecision r)) \<and> rp_verdict r = Deny \<and> rp_reason r = ''prompt-timeout'')"
proof -
  let ?b = "wd_broker w" and ?tid = "length (wd_tasks w)" and ?base = "deny_decision first ''prompt-timeout'' None"
  define g where "g = (bk_heap ?b ! ref)\<lparr>pg_timer := False, pg_notified := False\<rparr>"
  define waiting where "waiting = {i. i < length (wd_tasks w) \<and> wd_tasks w ! i = Waiting ref}"
  have ok: "world_ok w" using reachable_ok [OF assms(2,1)] .
  have len: "ref < length (bk_heap ?b)" using ok open_group [OF _ assms(3)] by (simp add: world_ok_def)
  let ?reqs = "group_requests (pg_body g)"
  obtain w1 where w1: "\<And>n. drain (Suc n) ?tid now (timer_fires ref first w) = drain n ?tid now w1"
      "denying ?tid ref g ?base waiting [] w1" "visiting ref g ?base [] (wd_tasks w1 ! ?tid)"
    using timer_denying [OF ok assms(3) g_def waiting_def refl] by blast
  have "2 * card (set ?reqs - set []) \<le> 2 * length ?reqs" using card_length by simp
  from drain_denying [OF w1(2,3) _ this] obtain visited' where
      d: "denying ?tid ref g ?base waiting visited' (drain (2 * length ?reqs) ?tid now w1)"
         "wd_tasks (drain (2 * length ?reqs) ?tid now w1) ! ?tid = Done None" "set ?reqs \<subseteq> set visited'"
    by (auto simp: deny_decision_def)
  have w': "w' = drain (2 * length ?reqs) ?tid now w1"
    unfolding assms(9) w1(1) by (simp add: g_def)
  have "step w (timer_fires ref first w)"
    unfolding timer_fires_def by (rule step.timer [OF len assms(4)])
  moreover have "steps (timer_fires ref first w) w'"
    unfolding assms(9)
    by (rule drain_steps) (auto simp: timer_fires_def start_task_def resolve_group_def split: option.splits)
  moreover have "answered ''prompt-timeout'' (wd_tasks w' ! i)"
    using d assms(5-8) by (auto simp: w' denying_def waiting_def g_def deny_decision_def)
  ultimately show ?thesis
    using d(2) by (simp add: w' answered_def converse_rtranclp_into_rtranclp)
qed

theorem timeout_answers_witness:
  "\<exists>w w'. reachable (demo_options limit_ceilings AgentPrincipal) w \<and> wd_tasks w ! 0 = Waiting 0 \<and> steps w w' \<and>
     (\<exists>r. wd_tasks w' ! 0 = Done (Some (ReplyDecision r)) \<and> rp_verdict r = Deny)"
proof -
  let ?o = "demo_options limit_ceilings AgentPrincipal"
  have only: "ts = [Waiting 0]" if "case ts of [Waiting ref] \<Rightarrow> ref = 0 | _ \<Rightarrow> False" for ts
    using that by (cases ts rule: remdups_adj.cases) (auto split: task.splits)
  from demo_timeout_run [of limit_ceilings] obtain b w where b: "broker_new ?o = Some b"
      and run: "happen_all demo_timeout_events (initial_world b) = Some w"
      and w: "wd_tasks w = [Waiting 0]" "length (bk_heap (wd_broker w)) = 1"
        "bk_groups (wd_broker w) = [(pg_key (bk_heap (wd_broker w) ! 0), 0)]"
        "map_of (pg_waiters (bk_heap (wd_broker w) ! 0)) ''r1'' = Some 0" "pg_timer (bk_heap (wd_broker w) ! 0)"
        "''r1'' \<in> set (group_requests (pg_body (bk_heap (wd_broker w) ! 0)))"
    by (fastforce split: option.splits dest: only)
  have r: "reachable ?o w" by (rule happen_reachable [OF b run])
  have key: "map_of (bk_groups (wd_broker w)) (pg_key (bk_heap (wd_broker w) ! 0)) = Some 0" by (simp add: w(3))
  have wait: "0 < length (wd_tasks w)" "wd_tasks w ! 0 = Waiting 0" by (simp_all add: w(1))
  from timeout_answers [OF demo_nul_free r key w(5,4,6) wait refl] r wait show ?thesis by blast
qed

section \<open>The abandoned waiter\<close>

text \<open>The group a task settles the promises of.\<close>

fun settling :: "task \<Rightarrow> nat option" where
  "settling (ResolvingGroup ref base outcome use_negative_cache reply) = Some ref"
| "settling (EntryRemoved ref base outcome visited rid request reply) = Some ref"
| "settling (Audited ref base outcome visited rid decision reply) = Some ref"
| "settling (RequestDetached ref request decided waiter base outcome rid reply) = Some ref"
| "settling (RequestAudited ref waiter decision reply) = Some ref"
| "settling t = None"

text \<open>A segment that settles nothing and does not begin to.\<close>

definition idle :: "segment \<Rightarrow> bool" where
  "idle seg \<longleftrightarrow> (case seg of (b, ds, t) \<Rightarrow> ds = [] \<and> settling t = None)"

lemma idle_if: "idle x \<Longrightarrow> idle y \<Longrightarrow> idle (if c then x else y)"
  by simp

lemma idle_option: "idle x \<Longrightarrow> (\<And>r. idle (f r)) \<Longrightarrow> idle (case v of None \<Rightarrow> x | Some r \<Rightarrow> f r)"
  by (cases v) simp_all

lemma idle_body:
  "(\<And>reason inject requests decisions. idle (f reason inject requests decisions)) \<Longrightarrow>
   (\<And>identities findings requests. idle (g identities findings requests)) \<Longrightarrow>
     idle (case body of AuthorizeBody reason inject requests decisions \<Rightarrow> f reason inject requests decisions
           | ViolationBody identities findings requests \<Rightarrow> g identities findings requests)"
  by (cases body) simp_all

lemma idle_leaves:
  "idle (reply_decision r b)" "idle (deny_with_audit audited m reason d status b)"
  "idle (allow_with_audit audited m reason e status b)" "idle (register_waiter ref rid tid b)"
  "idle (join_authorize ref m e status now b)" "idle (create_pending_group key m e status now b)"
  "idle (join_violation ref q now b)" "idle (create_violation_group key q asked now b)"
  "idle (reply_review audited q r b)" "idle (b, [], Failed)" "idle (b, [], Done reply)" "idle (b, [], ClosingBroker)"
  "idle (b, [], CaptureBody m capture)"
  by (simp_all add: idle_def reply_decision_def deny_with_audit_def allow_with_audit_def register_waiter_def
      join_authorize_def create_pending_group_def join_violation_def create_violation_group_def reply_review_def Let_def)

lemmas idle_intros = idle_if idle_option idle_body idle_leaves

lemma idle_authorize: "idle (authorize_segment tid m status now b)"
  unfolding authorize_segment_def ask_for_review_def Let_def by (intro idle_intros)+

lemma idle_review: "idle (review_violations tid q now b)"
  unfolding review_violations_def Let_def by (intro idle_intros)

lemma idle_written:
  "idle (entry_written tid ref m d status created now b)" "idle (review_entry_written tid ref q created now b)"
  unfolding entry_written_def review_entry_written_def Let_def by (intro idle_intros)+

text \<open>What a press begins to settle is an open group.\<close>

definition opens_only :: "broker \<Rightarrow> segment \<Rightarrow> bool" where
  "opens_only b seg \<longleftrightarrow> (case seg of (c, ds, t) \<Rightarrow>
     ds = [] \<and> (\<forall>ref. settling t = Some ref \<longrightarrow> ref \<in> snd ` set (bk_groups b)))"

lemma opens_idle: "idle seg \<Longrightarrow> opens_only b seg"
  by (auto simp: idle_def opens_only_def)

lemma opens_if: "opens_only b x \<Longrightarrow> opens_only b y \<Longrightarrow> opens_only b (if c then x else y)"
  by simp

lemma open_ref: "map_of gs key = Some ref \<Longrightarrow> ref \<in> snd ` set gs"
  by (metis image_eqI map_of_SomeD snd_conv)

lemma opens_resolve_group:
  assumes "bk_groups c = bk_groups b"
  shows "opens_only b (resolve_group key base outcome neg reply c)"
  using assms open_ref by (fastforce simp: resolve_group_def opens_only_def split: option.splits)

lemma opens_resolve_request:
  assumes "bk_groups c = bk_groups b"
  shows "opens_only b (resolve_request rid base outcome reply c)"
  using assms open_ref find_group_open
  by (fastforce simp: resolve_request_def opens_only_def Let_def split: option.splits)

lemma opens_press: "opens_only b (approve rid scope b)" "opens_only b (deny rid scope b)"
proof -
  note same = opens_resolve_group opens_resolve_request opens_idle [OF idle_leaves(11)]
  show "opens_only b (approve rid scope b)"
    unfolding approve_def Let_def
    by (auto simp: remember_same intro!: opens_if same split: option.split)
  show "opens_only b (deny rid scope b)"
    unfolding deny_def Let_def
    by (auto simp: remember_same intro!: opens_if same split: option.split)
qed

lemma opens_outcome:
  "(case p of (c, r) \<Rightarrow> ((c, [], Done (Some r)), m)) = (seg, msg) \<Longrightarrow> opens_only b seg"
  by (cases p) (auto intro: opens_idle idle_leaves)

lemma opens_handle:
  assumes "handle_message tid now nested fails v b = Some (seg, msg)"
  shows "opens_only b seg"
proof -
  note leaves = opens_press opens_idle [OF idle_review] opens_idle [OF idle_leaves(11)] opens_idle [OF idle_leaves(13)]
  obtain kind m where "parse_broker_message v = Some (kind, m)"
    using assms by (auto simp: handle_message_def split: option.splits)
  with assms show ?thesis
    by (auto simp: handle_message_def dispatch_message_def Let_def bind_eq_Some_conv leaves
        dest: opens_outcome split: option.splits route.splits if_splits)
qed

lemma settling_iterate:
  "iterate_group ref base outcome visited reply b = (c, t) \<Longrightarrow> settling t = None \<or> settling t = Some ref"
  by (auto simp: iterate_group_def split: option.splits)

lemma settling_settled:
  "request_settled ref base outcome visited rid decision reply b = (c, ds, t) \<Longrightarrow>
     (settling t = None \<or> settling t = Some ref) \<and> ds = settle rid decision (bk_heap b ! ref)"
  by (auto simp: request_settled_def dest: settling_iterate split: prod.splits)

lemma answer_request_heap:
  "answer_request ref base outcome request decided rid b = (c, decision, audited) \<Longrightarrow> bk_heap c = bk_heap b"
  by (auto simp: answer_request_def Let_def record_audit_def record_violation_audit_def emit_def
      split: pending_request.splits if_splits)

text \<open>A task that goes on stays with its group, and settles only promises of its group.\<close>

lemma resume_stays:
  assumes "resume tid now stored t b = Some (c, ds, t')" and "settling t' = Some ref"
  shows "settling t = Some ref"
proof (cases t)
  case (CaptureBody m capture)
  with assms idle_authorize [of tid m "capture_request_body (bk_body_audit b) capture stored" now b]
  show ?thesis by (simp add: idle_def)
next
  case (EntryWritten r m d status created)
  with assms idle_written(1) [of tid r m d status created now b] show ?thesis by (simp add: idle_def)
next
  case (ReviewEntryWritten r q created)
  with assms idle_written(2) [of tid r q created now b] show ?thesis by (simp add: idle_def)
next
  case (ResolvingGroup r base outcome neg reply)
  with assms show ?thesis
    by (auto simp: notification_closed_def Let_def dest!: settling_iterate split: prod.splits)
next
  case (EntryRemoved r base outcome visited rid request reply)
  with assms show ?thesis
    by (auto simp: entry_removed_def dest!: settling_settled split: prod.splits if_splits)
next
  case (Audited r base outcome visited rid decision reply)
  with assms show ?thesis by (auto dest!: settling_settled)
next
  case (RequestDetached r request decided waiter base outcome rid reply)
  with assms show ?thesis by (auto simp: request_detached_def split: prod.splits if_splits)
qed (use assms in auto)

lemma settle_waits:
  assumes "waiters_ok b tasks" and "ref < length (bk_heap b)" and "(i, r) \<in> set (settle rid decision (bk_heap b ! ref))"
  shows "waits_for tasks i ref"
proof -
  have "(rid, i) \<in> set (pg_waiters (bk_heap b ! ref))"
    using assms(3) by (auto simp: settle_def map_of_SomeD split: option.splits)
  with assms(1,2) show ?thesis by (fastforce simp: waiters_ok_def)
qed

lemma resume_delivers:
  assumes ok: "world_ok w" and tid: "tid < length (wd_tasks w)"
    and r: "resume tid now stored (wd_tasks w ! tid) (wd_broker w) = Some (c, ds, t)" and e: "(i, x) \<in> set ds"
  shows "\<exists>ref. settling (wd_tasks w ! tid) = Some ref \<and> waits_for (wd_tasks w) i ref"
proof -
  let ?b = "wd_broker w" and ?tasks = "wd_tasks w"
  have t: "task_ok ?b (wd_presses w) ?tasks (wd_messages w ! tid) (?tasks ! tid)" and waiters: "waiters_ok ?b ?tasks"
    using ok tid by (simp_all add: world_ok_def tasks_ok_def)
  show ?thesis
  proof (cases "?tasks ! tid")
    case (CaptureBody m capture)
    with r e idle_authorize [of tid m "capture_request_body (bk_body_audit ?b) capture stored" now ?b]
    show ?thesis by (simp add: idle_def)
  next
    case (EntryWritten ref m d status created)
    with r e idle_written(1) [of tid ref m d status created now ?b] show ?thesis by (simp add: idle_def)
  next
    case (ReviewEntryWritten ref q created)
    with r e idle_written(2) [of tid ref q created now ?b] show ?thesis by (simp add: idle_def)
  next
    case (ResolvingGroup ref base outcome neg reply)
    with r e show ?thesis by (auto simp: notification_closed_def Let_def split: prod.splits)
  next
    case (EntryRemoved ref base outcome visited rid request reply)
    obtain b1 decision audited where a: "answer_request ref base outcome request
        (find_decision rid (pg_body (bk_heap ?b ! ref))) rid ?b = (b1, decision, audited)"
      by (metis prod_cases3)
    with r e EntryRemoved have "(i, x) \<in> set (settle rid decision (bk_heap b1 ! ref))"
      by (auto simp: entry_removed_def dest!: settling_settled split: if_splits)
    with settle_waits [OF waiters] answer_request_heap [OF a] t EntryRemoved show ?thesis
      by (auto simp: resolution_ok_def)
  next
    case (Audited ref base outcome visited rid decision reply)
    with r e have "(i, x) \<in> set (settle rid decision (bk_heap ?b ! ref))"
      by (auto dest!: settling_settled)
    with settle_waits [OF waiters] t Audited show ?thesis by (auto simp: resolution_ok_def)
  next
    case (RequestDetached ref request decided waiter base outcome rid reply)
    with r e t show ?thesis
      by (auto simp: request_detached_def settle_waiter_def settles_ok_def split: prod.splits if_splits option.splits)
  next
    case (RequestAudited ref waiter decision reply)
    with r e t show ?thesis by (auto simp: settle_waiter_def settles_ok_def split: option.splits)
  qed (use r e in auto)
qed

definition abandoned :: "nat \<Rightarrow> nat \<Rightarrow> world \<Rightarrow> bool" where
  "abandoned ref tid w \<longleftrightarrow>
     ref < length (bk_heap (wd_broker w)) \<and> ref \<notin> snd ` set (bk_groups (wd_broker w)) \<and>
     \<not> pg_timer (bk_heap (wd_broker w) ! ref) \<and>
     tid < length (wd_tasks w) \<and> wd_tasks w ! tid = Waiting ref \<and>
     (\<forall>t\<in>set (wd_tasks w). settling t \<noteq> Some ref)"

lemma deliver_other: "\<forall>e\<in>set ds. fst e \<noteq> tid \<Longrightarrow> foldl deliver tasks ds ! tid = tasks ! tid"
  by (induction ds arbitrary: tasks) (auto simp: deliver_def)

lemma settling_settle_task: "settling (settle_task r t) = settling t"
  by (cases t) simp_all

lemma deliver_settling:
  "\<forall>t\<in>set tasks. settling t \<noteq> Some ref \<Longrightarrow> \<forall>t\<in>set (foldl deliver tasks ds). settling t \<noteq> Some ref"
proof (induction ds arbitrary: tasks)
  case (Cons e ds)
  have "settling t \<noteq> Some ref" if "t \<in> set (deliver tasks e)" for t
  proof (cases "fst e < length tasks")
    case True
    then have "t = settle_task (snd e) (tasks ! fst e) \<or> t \<in> set tasks"
      using that set_update_subset_insert by (fastforce simp: deliver_def split: prod.splits)
    with True Cons.prems show ?thesis by (auto simp: settling_settle_task)
  next
    case False
    with that Cons.prems show ?thesis by (cases e) (simp add: deliver_def list_update_beyond)
  qed
  then have "\<forall>t\<in>set (deliver tasks e). settling t \<noteq> Some ref" by blast
  from Cons.IH [OF this] show ?case unfolding foldl_Cons .
qed simp

lemma abandoned_evolves:
  assumes "abandoned ref tid w" and ev: "evolves (wd_broker w) (wd_broker w') new"
    and "tid < length (wd_tasks w')" "wd_tasks w' ! tid = Waiting ref"
    and "\<forall>t\<in>set (wd_tasks w'). settling t \<noteq> Some ref"
  shows "abandoned ref tid w'"
proof -
  have r: "recedes (wd_broker w) (wd_broker w')" "length (bk_heap (wd_broker w)) \<le> length (bk_heap (wd_broker w'))"
    using ev by (simp_all add: evolves_def)
  have a: "ref < length (bk_heap (wd_broker w))" "ref \<notin> snd ` set (bk_groups (wd_broker w))"
      "\<not> pg_timer (bk_heap (wd_broker w) ! ref)"
    using assms(1) by (simp_all add: abandoned_def)
  have "ref \<notin> snd ` set (bk_groups (wd_broker w'))"
    using r(1)[unfolded recedes_def, THEN conjunct1] a(1,2) by auto
  moreover have "\<not> pg_timer (bk_heap (wd_broker w') ! ref)"
    using r(1)[unfolded recedes_def, THEN conjunct2] a(1,3) by blast
  ultimately show ?thesis
    using a(1) r(2) assms(3-5) by (simp add: abandoned_def)
qed

lemma set_update_cases: "x \<in> set (xs[i := y]) \<Longrightarrow> x = y \<or> x \<in> set xs"
  using set_update_subset_insert by fastforce

lemma abandoned_start:
  assumes a: "abandoned ref tid w" and seg: "seg = (c, ds, t)"
    and ok: "segment_ok (wd_broker w) ps (wd_tasks w) new_tid msg seg"
    and t: "settling t \<noteq> Some ref" and ds: "\<forall>e\<in>set ds. fst e \<noteq> tid"
  shows "abandoned ref tid (start_task w seg msg press)"
proof (rule abandoned_evolves [OF a])
  show "evolves (wd_broker w) (wd_broker (start_task w seg msg press)) (new_waiters new_tid t)"
    using ok by (simp add: seg segment_ok_def start_task_def)
  have "\<forall>x\<in>set (wd_tasks w @ [t]). settling x \<noteq> Some ref"
    using a t by (simp add: abandoned_def)
  from deliver_settling [OF this]
  show "\<forall>t\<in>set (wd_tasks (start_task w seg msg press)). settling t \<noteq> Some ref"
    by (simp add: seg start_task_def)
qed (use a deliver_other [OF ds, of "wd_tasks w @ [t]"] in \<open>auto simp: seg start_task_def abandoned_def nth_append\<close>)

lemma abandoned_continue:
  assumes a: "abandoned ref tid w" and seg: "seg = (c, ds, t)" and i: "i < length (wd_tasks w)" "i \<noteq> tid"
    and ok: "segment_ok (wd_broker w) ps (wd_tasks w) i msg seg"
    and t: "settling t \<noteq> Some ref" and ds: "\<forall>e\<in>set ds. fst e \<noteq> tid"
  shows "abandoned ref tid (continue_task w i seg)"
proof (rule abandoned_evolves [OF a])
  show "evolves (wd_broker w) (wd_broker (continue_task w i seg)) (new_waiters i t)"
    using ok by (simp add: seg segment_ok_def continue_task_def)
  have "\<forall>x\<in>set ((wd_tasks w)[i := t]). settling x \<noteq> Some ref"
    using a t set_update_cases by (fastforce simp: abandoned_def)
  from deliver_settling [OF this]
  show "\<forall>t\<in>set (wd_tasks (continue_task w i seg)). settling t \<noteq> Some ref"
    by (simp add: seg continue_task_def)
qed (use a i deliver_other [OF ds, of "(wd_tasks w)[i := t]"] in \<open>auto simp: seg continue_task_def abandoned_def\<close>)

lemma open_waiter_other:
  assumes "abandoned ref tid w" and "world_ok w" and "(key, r) \<in> set (bk_groups (wd_broker w))"
    and "(rid, i) \<in> set (pg_waiters (bk_heap (wd_broker w) ! r))"
  shows "i \<noteq> tid"
proof -
  have "r < length (bk_heap (wd_broker w))"
    using assms(2,3) by (auto simp: world_ok_def store_wf_def)
  then have "waits_for (wd_tasks w) i r"
    using assms(2,4) by (fastforce simp: world_ok_def waiters_ok_def)
  moreover have "r \<noteq> ref" using assms(1,3) by (force simp: abandoned_def)
  ultimately show ?thesis using assms(1) by (auto simp: waits_for_def abandoned_def)
qed

lemma abandoned_step:
  assumes a: "abandoned ref tid w" and ok: "world_ok w" and "step w w'"
  shows "abandoned ref tid w'"
  using assms(3)
proof (cases rule: step.cases)
  case (message now nested fails v seg msg)
  obtain c ds t where seg: "seg = (c, ds, t)" by (cases seg)
  have "opens_only (wd_broker w) (c, ds, t)" using opens_handle [OF message(2)] by (simp add: seg)
  then have "ds = []" "settling t \<noteq> Some ref" using a by (auto simp: opens_only_def abandoned_def)
  with abandoned_start [OF a seg handle_message_ok [OF world_context [OF ok] message(2)]] message(1)
  show ?thesis by simp
next
  case (timer r rid)
  let ?seg = "resolve_group (pg_key (bk_heap (wd_broker w) ! r)) (deny_decision rid ''prompt-timeout'' None) Deny True
    None (wd_broker w)"
  obtain c ds t where seg: "?seg = (c, ds, t)" by (cases ?seg)
  have "opens_only (wd_broker w) (c, ds, t)" using opens_resolve_group [OF refl, of "wd_broker w"] seg by metis
  then have t: "ds = []" "settling t \<noteq> Some ref" using a by (auto simp: opens_only_def abandoned_def)
  have "segment_ok (wd_broker w) (wd_presses w) (wd_tasks w) (length (wd_tasks w)) MsgControl ?seg"
    by (rule resolve_group_ok) (use world_context [OF ok] in \<open>simp_all add: control_reply_def\<close>)
  from abandoned_start [OF a seg this] t timer(1) show ?thesis by simp
next
  case (resumed i now stored seg)
  obtain c ds t where seg: "seg = (c, ds, t)" by (cases seg)
  note r = resumed(3) [unfolded seg]
  have i: "i \<noteq> tid" using a r by (auto simp: abandoned_def)
  have old: "settling (wd_tasks w ! i) \<noteq> Some ref" using a resumed(2) by (simp add: abandoned_def)
  then have "settling t \<noteq> Some ref" using resume_stays [OF r] by blast
  moreover have "\<forall>e\<in>set ds. fst e \<noteq> tid"
  proof
    fix e assume "e \<in> set ds"
    then obtain q where "settling (wd_tasks w ! i) = Some q" "waits_for (wd_tasks w) (fst e) q"
      using resume_delivers [OF ok resumed(2) r, of "fst e" "snd e"] by auto
    with a old show "fst e \<noteq> tid" by (auto simp: waits_for_def abandoned_def)
  qed
  ultimately show ?thesis
    using abandoned_continue [OF a seg resumed(2) i resume_ok [OF ok resumed(2,3)]] resumed(1) by simp
next
  case (failed i)
  have "i \<noteq> tid" using a failed(3) by (auto simp: abandoned_def)
  moreover have "segment_ok (wd_broker w) (wd_presses w) (wd_tasks w) i (wd_messages w ! i) (wd_broker w, [], Failed)"
    by (rule segment_ok_quiet [OF world_context [OF ok]]) simp_all
  ultimately show ?thesis using abandoned_continue [OF a refl failed(2)] failed(1) by simp
next
  case (credentials cs)
  show ?thesis
    by (rule abandoned_evolves [OF a]) (use a credentials credentials_evolve [OF credentials(2)] in \<open>auto simp: abandoned_def\<close>)
next
  case closing
  obtain c ds t where seg: "close_broker (wd_broker w) = (c, ds, t)" by (cases "close_broker (wd_broker w)")
  have "\<forall>e\<in>set ds. fst e \<noteq> tid" "settling t \<noteq> Some ref"
    using seg open_waiter_other [OF a ok] by (fastforce simp: close_broker_def)+
  from abandoned_start [OF a seg close_broker_ok [OF world_context [OF ok]] this(2,1)] closing show ?thesis by simp
qed

lemma abandoned_forever:
  assumes "steps w w'" and "abandoned ref tid w" and "world_ok w"
  shows "abandoned ref tid w'"
  using assms(1)
proof (induction rule: rtranclp_induct)
  case (step y z)
  then show ?case using abandoned_step steps_ok assms by blast
qed (rule assms(2))


end
