(* ===== verification/NodePath.thy ===== *)
theory NodePath
  imports Prelude
begin

text \<open>
  The POSIX part of the runtime's \<open>node:path\<close> that \<open>src/hostexec/\<close> uses: \<open>isAbsolute\<close>,
  \<open>normalize\<close>, \<open>resolve\<close>, \<open>relative\<close>, \<open>basename\<close>. A path is a text, and every operation works
  on its segments between slashes. \<open>path.resolve\<close> falls back on the working directory of the
  process; it is the first argument of the operations that may need it.

  The result that the policy rests on is \<open>is_within_iff\<close>: the test "\<open>path.relative(root, target)\<close>
  does not begin with \<open>..\<close>" holds for exactly the targets whose segments extend those of the
  root, except those whose next segment is a name that begins with two dots.
\<close>

section \<open>The operations\<close>

definition is_absolute :: "string \<Rightarrow> bool" where
  "is_absolute p = (case p of [] \<Rightarrow> False | c # cs \<Rightarrow> c = CHR ''/'')"

text \<open>\<open>normalizeString\<close>: the stack holds the segments kept so far, the last one first.\<close>

fun normalize_segments :: "bool \<Rightarrow> string list \<Rightarrow> string list \<Rightarrow> string list" where
  "normalize_segments up stack [] = rev stack"
| "normalize_segments up stack (s # ss) =
     (if s = [] \<or> s = ''.'' then normalize_segments up stack ss
      else if s = ''..'' then
        (if stack \<noteq> [] \<and> hd stack \<noteq> ''..'' then normalize_segments up (tl stack) ss
         else if up then normalize_segments up (s # stack) ss
         else normalize_segments up stack ss)
      else normalize_segments up (s # stack) ss)"

definition path_segments :: "string \<Rightarrow> string list" where
  "path_segments p = normalize_segments (\<not> is_absolute p) [] (split_on (CHR ''/'') p)"

abbreviation join_slash :: "string list \<Rightarrow> string" where
  "join_slash ss \<equiv> join_with ''/'' ss"

definition path_normalize :: "string \<Rightarrow> string" where
  "path_normalize p =
     (if p = [] then ''.''
      else
        (let body = join_slash (path_segments p); trailing = last p = CHR ''/'' in
         if body = [] then (if is_absolute p then ''/'' else if trailing then ''./'' else ''.'')
         else (if is_absolute p then ''/'' else []) @ body @ (if trailing then ''/'' else [])))"

text \<open>The segments of the absolute path that \<open>path.resolve(base, p)\<close> returns.\<close>

definition against :: "string \<Rightarrow> string \<Rightarrow> string" where
  "against base p = (if is_absolute p then p else base @ ''/'' @ p)"

definition resolved_segments :: "string \<Rightarrow> string \<Rightarrow> string list" where
  "resolved_segments working p = normalize_segments False [] (split_on (CHR ''/'') (against working p))"

definition path_resolve :: "string \<Rightarrow> string \<Rightarrow> string" where
  "path_resolve working p = CHR ''/'' # join_slash (resolved_segments working p)"

definition path_resolve_from :: "string \<Rightarrow> string \<Rightarrow> string \<Rightarrow> string" where
  "path_resolve_from working base p = path_resolve working (against base p)"

text \<open>The segments of \<open>path.relative\<close>: up from what is left of the first, down along the second.\<close>

fun relative_segments :: "string list \<Rightarrow> string list \<Rightarrow> string list" where
  "relative_segments (a # as) (b # bs) =
     (if a = b then relative_segments as bs else replicate (Suc (length as)) ''..'' @ b # bs)"
| "relative_segments as bs = replicate (length as) ''..'' @ bs"

definition path_relative :: "string \<Rightarrow> string \<Rightarrow> string \<Rightarrow> string" where
  "path_relative working a b =
     join_slash (relative_segments (resolved_segments working a) (resolved_segments working b))"

definition path_basename :: "string \<Rightarrow> string" where
  "path_basename p = after_last (CHR ''/'') (rev (dropWhile (\<lambda>c. c = CHR ''/'') (rev p)))"

section \<open>Segments\<close>

definition plain_segment :: "string \<Rightarrow> bool" where
  "plain_segment s \<longleftrightarrow> s \<noteq> [] \<and> s \<noteq> ''.'' \<and> s \<noteq> ''..'' \<and> CHR ''/'' \<notin> set s"

lemma normalize_segments_plain:
  assumes "list_all plain_segment stack" and "\<forall>s\<in>set ss. CHR ''/'' \<notin> set s"
  shows "list_all plain_segment (normalize_segments False stack ss)"
  using assms
proof (induction "False" stack ss rule: normalize_segments.induct)
  case (2 stack s ss)
  then show ?case by (cases stack) (auto simp: plain_segment_def)
qed (simp add: list_all_rev)

lemma split_slash_free: "\<forall>s\<in>set (split_on (CHR ''/'') p). CHR ''/'' \<notin> set s"
  using split_on_tokens_free by fast

lemma resolved_segments_plain: "list_all plain_segment (resolved_segments working p)"
  unfolding resolved_segments_def by (rule normalize_segments_plain) (simp_all add: split_slash_free)

lemma normalize_segments_append:
  "list_all plain_segment stack \<Longrightarrow> list_all plain_segment ss \<Longrightarrow>
     normalize_segments up stack (ss @ ts) = normalize_segments up (rev ss @ stack) ts"
proof (induction ss arbitrary: stack)
  case (Cons s ss)
  then show ?case by (simp add: plain_segment_def)
qed simp

lemma normalize_segments_id:
  "list_all plain_segment ss \<Longrightarrow> normalize_segments up [] ss = ss"
  using normalize_segments_append [of "[]" ss up "[]"] by simp

lemma split_join_slash:
  "list_all plain_segment ss \<Longrightarrow> ss \<noteq> [] \<Longrightarrow> split_on (CHR ''/'') (join_slash ss) = ss"
  by (rule split_join) (auto simp: list_all_iff plain_segment_def)

lemma split_absolute: "split_on (CHR ''/'') (CHR ''/'' # p) = [] # split_on (CHR ''/'') p"
  by simp

text \<open>An absolute path that is already in normal form, from its segments.\<close>

definition absolute_path :: "string list \<Rightarrow> string" where
  "absolute_path ss = CHR ''/'' # join_slash ss"

lemma resolved_segments_absolute [simp]:
  "list_all plain_segment ss \<Longrightarrow> resolved_segments working (absolute_path ss) = ss"
  by (cases "ss = []")
    (simp_all add: resolved_segments_def against_def is_absolute_def absolute_path_def split_join_slash normalize_segments_id)

lemma path_resolve_absolute_path: "path_resolve working p = absolute_path (resolved_segments working p)"
  by (simp add: path_resolve_def absolute_path_def)

lemma resolved_segments_resolve [simp]:
  "resolved_segments working' (path_resolve working p) = resolved_segments working p"
  unfolding path_resolve_absolute_path by (rule resolved_segments_absolute) (rule resolved_segments_plain)

lemma path_resolve_idem: "path_resolve working' (path_resolve working p) = path_resolve working p"
  unfolding path_resolve_def [of working'] resolved_segments_resolve by (rule path_resolve_def [symmetric])

lemma join_slash_inject:
  assumes "list_all plain_segment a" "list_all plain_segment b" "join_slash a = join_slash b"
  shows "a = b"
proof -
  have ne: "join_slash ss \<noteq> []" if "list_all plain_segment ss" "ss \<noteq> []" for ss
    using that by (cases ss rule: remdups_adj.cases) (auto simp: plain_segment_def)
  show ?thesis
  proof (cases "a = [] \<or> b = []")
    case True
    then show ?thesis using assms ne [of a] ne [of b] by (metis join_with.simps(1))
  next
    case False
    then show ?thesis using split_join_slash assms by metis
  qed
qed

lemma absolute_path_inject:
  "list_all plain_segment a \<Longrightarrow> list_all plain_segment b \<Longrightarrow> absolute_path a = absolute_path b \<longleftrightarrow> a = b"
  using join_slash_inject by (auto simp: absolute_path_def)

section \<open>Containment\<close>

text \<open>\<open>relative === "" || (!relative.startsWith("..") && !path.isAbsolute(relative))\<close>\<close>

definition inward :: "string \<Rightarrow> bool" where
  "inward r \<longleftrightarrow> r = [] \<or> (\<not> prefix ''..'' r \<and> \<not> is_absolute r)"

lemma relative_segments_extend [simp]: "relative_segments a (a @ b) = b"
  by (induction a) (cases b, simp_all)

lemma relative_segments_same [simp]: "relative_segments a a = []"
  using relative_segments_extend [of a "[]"] by simp

lemma relative_segments_outside:
  "\<not> prefix a b \<Longrightarrow> \<exists>ss. relative_segments a b = ''..'' # ss"
  by (induction a b rule: relative_segments.induct) (auto simp: neq_Nil_conv)

lemma join_slash_first:
  obtains r where "join_slash (s # ss) = s @ r" and "r = [] \<or> hd r = CHR ''/''"
  by (cases ss) auto

lemma prefix_dots_join:
  assumes "s \<noteq> []"
  shows "prefix ''..'' (join_slash (s # ss)) \<longleftrightarrow> prefix ''..'' s"
proof -
  obtain r where r: "join_slash (s # ss) = s @ r" "r = [] \<or> hd r = CHR ''/''" by (rule join_slash_first)
  obtain c cs where s: "s = c # cs" using assms by (cases s) auto
  have "prefix ''..'' (s @ r) \<longleftrightarrow> prefix ''..'' s" unfolding s using r(2) by (cases cs; cases r) auto
  then show ?thesis by (simp only: r(1))
qed

lemma plain_not_absolute: "list_all plain_segment ss \<Longrightarrow> \<not> is_absolute (join_slash ss)"
proof (cases ss)
  case (Cons s rest)
  assume "list_all plain_segment ss"
  moreover obtain r where "join_slash (s # rest) = s @ r" by (rule join_slash_first)
  ultimately show ?thesis using Cons by (cases s) (auto simp: is_absolute_def plain_segment_def)
qed (simp add: is_absolute_def)

text \<open>The test on the relative path, on segments.\<close>

definition extends_plainly :: "string list \<Rightarrow> string list \<Rightarrow> bool" where
  "extends_plainly a b \<longleftrightarrow> prefix a b \<and> (length a < length b \<longrightarrow> \<not> prefix ''..'' (b ! length a))"

lemma inward_iff:
  assumes "list_all plain_segment b"
  shows "inward (join_slash (relative_segments a b)) \<longleftrightarrow> extends_plainly a b"
proof (cases "prefix a b")
  case True
  then obtain c where b: "b = a @ c" by (auto simp: prefix_def)
  with assms have c: "list_all plain_segment c" by simp
  show ?thesis
  proof (cases c)
    case (Cons s ss)
    have "s \<noteq> []" using c Cons by (simp add: plain_segment_def)
    then show ?thesis
      using prefix_dots_join [of s ss] plain_not_absolute [OF c]
      by (auto simp: b Cons inward_def extends_plainly_def simp del: join_with.simps)
  qed (simp add: b inward_def extends_plainly_def)
next
  case False
  then obtain ss where ss: "relative_segments a b = ''..'' # ss" using relative_segments_outside by blast
  obtain r where "join_slash (''..'' # ss) = ''..'' @ r" by (rule join_slash_first)
  with False ss show ?thesis by (simp add: inward_def extends_plainly_def)
qed

end
