(* ===== verification/HostExecMatch.thy ===== *)
theory HostExecMatch
  imports NodePath
begin

text \<open>
  The rules for commands that run on the host and how a request is matched against them
  (\<open>src/config/types.ts\<close>, \<open>src/hostexec/match.ts\<close>). A regular expression is interpreted by the
  runtime: \<open>compile\<close>, an argument of the definitions that need it, maps its text to its test,
  or to \<open>None\<close> where \<open>new RegExp\<close> throws. \<open>working\<close> is the working directory of the process.
\<close>

section \<open>Rules\<close>

datatype hostexec_approval = HxAllow | HxPrompt | HxDeny

datatype cwd_mode = CwdWorkspaceOnly | CwdWorkspaceOrSessionTmp | CwdAllowlist | CwdAny

datatype inherit_mode = InheritMinimal | InheritAll

datatype prompt_scope = PsOnce | PsCapability

record hostexec_rule =
  hr_id :: string
  hr_argv0 :: string
  hr_arg_regex :: "string option"
  hr_cwd_mode :: cwd_mode
  hr_cwd_allow :: "string list"
  hr_env :: "(string \<times> string) list"
  hr_inherit_mode :: inherit_mode
  hr_inherit_keys :: "string list"
  hr_approval :: hostexec_approval

record prompt_config =
  pc_enable :: bool
  pc_timeout_seconds :: nat
  pc_default_scope :: prompt_scope

record match_context =
  mx_cwd :: string
  mx_workspace_root :: string

type_synonym regex_compiler = "string \<Rightarrow> (string \<Rightarrow> bool) option"

section \<open>Matching\<close>

definition is_relative_hostexec_argv0 :: "string \<Rightarrow> bool" where
  "is_relative_hostexec_argv0 argv0 \<longleftrightarrow> \<not> is_absolute argv0 \<and> CHR ''/'' \<in> set argv0"

definition is_bare_command_hostexec_argv0 :: "string \<Rightarrow> bool" where
  "is_bare_command_hostexec_argv0 argv0 \<longleftrightarrow> \<not> is_absolute argv0 \<and> CHR ''/'' \<notin> set argv0"

definition host_command_argv0 :: "string \<Rightarrow> string \<Rightarrow> string" where
  "host_command_argv0 rule_argv0 request_argv0 =
     (if is_bare_command_hostexec_argv0 rule_argv0 then path_basename request_argv0 else request_argv0)"

definition argv0_matches_rule :: "string \<Rightarrow> string \<Rightarrow> string \<Rightarrow> match_context option \<Rightarrow> bool" where
  "argv0_matches_rule working rule_argv0 actual_argv0 ctx =
     (if is_relative_hostexec_argv0 rule_argv0 then
        (if is_relative_hostexec_argv0 actual_argv0 then
           (if path_normalize rule_argv0 = path_normalize actual_argv0 then True
            else (case ctx of
                None \<Rightarrow> False
              | Some cx \<Rightarrow>
                  (let abs_actual = path_resolve_from working (mx_cwd cx) actual_argv0;
                       rel_to_workspace = path_relative working (mx_workspace_root cx) abs_actual
                   in if \<not> prefix ''..'' rel_to_workspace
                      then path_normalize rule_argv0 = path_normalize (''./'' @ rel_to_workspace)
                      else False)))
         else if is_absolute actual_argv0 then
           (case ctx of
              None \<Rightarrow> False
            | Some cx \<Rightarrow>
                (let rel_to_workspace = path_relative working (mx_workspace_root cx) actual_argv0
                 in if \<not> prefix ''..'' rel_to_workspace
                    then path_normalize rule_argv0 = path_normalize (''./'' @ rel_to_workspace)
                    else False))
         else False)
      else if is_absolute rule_argv0 then path_normalize rule_argv0 = path_normalize actual_argv0
      else path_basename actual_argv0 = rule_argv0)"

definition build_args_string :: "string list \<Rightarrow> string" where
  "build_args_string args = join_with '' '' args"

text \<open>\<open>Some None\<close> is \<open>null\<close>; \<open>None\<close> stands for the exception of an invalid pattern.\<close>

fun match_rule ::
  "regex_compiler \<Rightarrow> string \<Rightarrow> hostexec_rule list \<Rightarrow> string \<Rightarrow> string list \<Rightarrow> match_context option \<Rightarrow>
     hostexec_rule option option"
where
  "match_rule compile working [] argv0 args ctx = Some None"
| "match_rule compile working (rule # rules) argv0 args ctx =
     (if \<not> argv0_matches_rule working (hr_argv0 rule) argv0 ctx
      then match_rule compile working rules argv0 args ctx
      else (case hr_arg_regex rule of
              None \<Rightarrow> Some (Some rule)
            | Some pattern \<Rightarrow>
                (case compile pattern of
                   None \<Rightarrow> None
                 | Some test \<Rightarrow>
                     if \<not> test (build_args_string args) then match_rule compile working rules argv0 args ctx
                     else Some (Some rule))))"

text \<open>\<open>\s\<close> on the characters below U+0100.\<close>

definition is_regex_space :: "char \<Rightarrow> bool" where
  "is_regex_space c \<longleftrightarrow> list_ex (\<lambda>n. of_char c = (n :: nat)) [9, 10, 11, 12, 13, 32, 160]"

definition args_ambiguous_for_arg_regex :: "string list \<Rightarrow> bool" where
  "args_ambiguous_for_arg_regex args \<longleftrightarrow> list_ex (\<lambda>arg. arg = [] \<or> list_ex is_regex_space arg) args"

definition effective_approval :: "hostexec_rule \<Rightarrow> string list \<Rightarrow> hostexec_approval" where
  "effective_approval rule args =
     (if hr_approval rule = HxAllow \<and> hr_arg_regex rule \<noteq> None \<and> args_ambiguous_for_arg_regex args
      then HxPrompt else hr_approval rule)"

section \<open>What a match means\<close>

lemma match_rule_SomeD:
  assumes "match_rule compile working rules argv0 args ctx = Some (Some rule)"
  shows "rule \<in> set rules \<and> argv0_matches_rule working (hr_argv0 rule) argv0 ctx \<and>
    (case hr_arg_regex rule of None \<Rightarrow> True
     | Some pattern \<Rightarrow> (case compile pattern of None \<Rightarrow> False | Some test \<Rightarrow> test (build_args_string args)))"
  using assms by (induction rules) (auto split: if_splits option.splits)

text \<open>A rule that is passed over does not match.\<close>

definition rule_matches ::
  "regex_compiler \<Rightarrow> string \<Rightarrow> string \<Rightarrow> string list \<Rightarrow> match_context option \<Rightarrow> hostexec_rule \<Rightarrow> bool"
where
  "rule_matches compile working argv0 args ctx rule \<longleftrightarrow>
     argv0_matches_rule working (hr_argv0 rule) argv0 ctx \<and>
     (case hr_arg_regex rule of None \<Rightarrow> True
      | Some pattern \<Rightarrow> (case compile pattern of None \<Rightarrow> True | Some test \<Rightarrow> test (build_args_string args)))"

lemma match_rule_find:
  assumes "match_rule compile working rules argv0 args ctx = Some r"
  shows "r = List.find (rule_matches compile working argv0 args ctx) rules"
  using assms by (induction rules) (auto simp: rule_matches_def split: if_splits option.splits)

section \<open>The boundaries of arguments\<close>

lemma unambiguous_args:
  "\<not> args_ambiguous_for_arg_regex args \<Longrightarrow> arg \<in> set args \<Longrightarrow> arg \<noteq> [] \<and> CHR '' '' \<notin> set arg"
proof -
  assume a: "\<not> args_ambiguous_for_arg_regex args" "arg \<in> set args"
  have "is_regex_space (CHR '' '')" by (simp add: is_regex_space_def)
  with a show ?thesis by (auto simp: args_ambiguous_for_arg_regex_def list_ex_iff)
qed

lemma build_args_string_inject:
  assumes "\<not> args_ambiguous_for_arg_regex xs" "\<not> args_ambiguous_for_arg_regex ys"
    and "build_args_string xs = build_args_string ys"
  shows "xs = ys"
proof -
  have ne: "build_args_string zs \<noteq> []" if "\<not> args_ambiguous_for_arg_regex zs" "zs \<noteq> []" for zs
    using unambiguous_args [OF that(1), of "hd zs"] that(2)
    by (cases zs rule: remdups_adj.cases) (auto simp: build_args_string_def)
  have split: "split_on (CHR '' '') (build_args_string zs) = zs" if "\<not> args_ambiguous_for_arg_regex zs" "zs \<noteq> []" for zs
    unfolding build_args_string_def using that unambiguous_args [OF that(1)] by (intro split_join) auto
  show ?thesis
  proof (cases "xs = [] \<or> ys = []")
    case True
    then show ?thesis using assms ne by (metis build_args_string_def join_with.simps(1))
  next
    case False
    then show ?thesis using split assms by metis
  qed
qed

section \<open>Relative rules\<close>

text \<open>A rule written relative to the workspace, without a slash at its end.\<close>

lemma last_join_slash:
  "list_all plain_segment ss \<Longrightarrow> ss \<noteq> [] \<Longrightarrow> join_slash ss \<noteq> [] \<and> last (join_slash ss) \<noteq> CHR ''/''"
proof (induction ss rule: induct_list012)
  case (2 s)
  from 2(1) have "s \<noteq> []" "CHR ''/'' \<notin> set s" by (simp_all add: plain_segment_def)
  then show ?case using last_in_set [of s] by (metis join_with.simps(2))
qed auto

lemma path_normalize_relative:
  assumes "\<not> is_absolute p" "list_all plain_segment (path_segments p)" "path_segments p \<noteq> []" "last p \<noteq> CHR ''/''"
  shows "path_normalize p = join_slash (path_segments p)"
proof -
  have "p \<noteq> []" using assms(3) by (auto simp: path_segments_def is_absolute_def)
  then show ?thesis using last_join_slash [OF assms(2,3)] assms by (simp add: path_normalize_def Let_def)
qed

lemma normalize_dot_slash:
  assumes "list_all plain_segment ss" "ss \<noteq> []"
  shows "path_normalize (''./'' @ join_slash ss) = join_slash ss"
proof -
  have "split_on (CHR ''/'') (''./'' @ join_slash ss) = ''.'' # ss" using assms by (simp add: split_join_slash)
  then have segs: "path_segments (''./'' @ join_slash ss) = ss"
    using assms by (simp add: path_segments_def normalize_segments_id)
  moreover have "last (''./'' @ join_slash ss) \<noteq> CHR ''/''"
    using last_join_slash [OF assms] by (simp add: last_append)
  ultimately show ?thesis
    using path_normalize_relative [of "''./'' @ join_slash ss"] assms by (simp add: is_absolute_def)
qed

definition workspace_rule :: "string \<Rightarrow> bool" where
  "workspace_rule p \<longleftrightarrow> is_relative_hostexec_argv0 p \<and> list_all plain_segment (path_segments p) \<and>
     path_segments p \<noteq> [] \<and> last p \<noteq> CHR ''/''"

text \<open>The comparison with a path that is relative to the workspace.\<close>

lemma workspace_rule_relative:
  assumes "workspace_rule p" and "list_all plain_segment b"
  shows "\<not> prefix ''..'' (join_slash (relative_segments a b)) \<and>
      path_normalize p = path_normalize (''./'' @ join_slash (relative_segments a b)) \<longleftrightarrow>
    b = a @ path_segments p \<and> \<not> prefix ''..'' (hd (path_segments p))"
proof (cases "prefix a b")
  case False
  then obtain ss where ss: "relative_segments a b = ''..'' # ss" using relative_segments_outside by blast
  moreover obtain r where "join_slash (''..'' # ss) = ''..'' @ r" by (rule join_slash_first)
  ultimately show ?thesis using False by auto
next
  case True
  then obtain c where b: "b = a @ c" by (auto simp: prefix_def)
  have c: "list_all plain_segment c" using assms(2) by (simp add: b)
  have p: "list_all plain_segment (path_segments p)" "path_segments p \<noteq> []"
    "path_normalize p = join_slash (path_segments p)"
    using assms(1) path_normalize_relative [of p] by (auto simp: workspace_rule_def is_relative_hostexec_argv0_def)
  show ?thesis
  proof (cases c)
    case Nil
    have "path_normalize ''./'' = ''./''" by (simp add: path_normalize_def path_segments_def is_absolute_def)
    moreover have "join_slash (path_segments p) \<noteq> ''./''" using last_join_slash [OF p(1,2)] by auto
    ultimately show ?thesis using p by (simp add: b Nil)
  next
    case (Cons s ss)
    have "path_normalize (''./'' @ join_slash c) = join_slash c" using c Cons by (intro normalize_dot_slash) simp_all
    moreover have "join_slash (path_segments p) = join_slash c \<longleftrightarrow> path_segments p = c"
      using join_slash_inject [OF p(1) c] by auto
    moreover have "prefix ''..'' (join_slash c) \<longleftrightarrow> prefix ''..'' (hd c)"
      using prefix_dots_join [of s ss] c by (simp add: Cons plain_segment_def)
    ultimately show ?thesis using p(3) by (auto simp: b)
  qed
qed

text \<open>
  C28: which file a relative rule names. A rule whose command is written relative to the
  workspace matches an absolute path exactly when the path, resolved, is the file of that
  name below the workspace root; names that begin with two dots are never matched. The
  working directory of the process and the spelling of the paths have no influence.
\<close>

theorem relative_rule_exact:
  assumes "workspace_rule rule_argv0" and "is_absolute actual_argv0"
  shows "argv0_matches_rule working rule_argv0 actual_argv0 (Some cx) \<longleftrightarrow>
    resolved_segments working actual_argv0 =
      resolved_segments working (mx_workspace_root cx) @ path_segments rule_argv0 \<and>
    \<not> prefix ''..'' (hd (path_segments rule_argv0))"
proof -
  have "\<not> is_relative_hostexec_argv0 actual_argv0" "is_relative_hostexec_argv0 rule_argv0"
    using assms by (auto simp: is_relative_hostexec_argv0_def workspace_rule_def)
  then show ?thesis
    using workspace_rule_relative [OF assms(1) resolved_segments_plain [of working actual_argv0],
        of "resolved_segments working (mx_workspace_root cx)"] assms(2)
    by (auto simp: argv0_matches_rule_def path_relative_def Let_def)
qed

theorem relative_rule_exact_witness:
  "argv0_matches_rule ''/'' ''./tools/lint'' ''/work/x/../tools//lint''
      (Some \<lparr>mx_cwd = ''/'', mx_workspace_root = ''/work''\<rparr>) \<and>
   \<not> argv0_matches_rule ''/'' ''./tools/lint'' ''/work/sub/tools/lint''
      (Some \<lparr>mx_cwd = ''/'', mx_workspace_root = ''/work''\<rparr>)"
proof -
  have segs: "path_segments ''./tools/lint'' = [''tools'', ''lint'']"
    by (simp add: path_segments_def is_absolute_def)
  have r: "workspace_rule ''./tools/lint''"
    by (simp add: workspace_rule_def is_relative_hostexec_argv0_def segs plain_segment_def is_absolute_def)
  have a: "is_absolute ''/work/x/../tools//lint''" "is_absolute ''/work/sub/tools/lint''"
    by (simp_all add: is_absolute_def)
  have res: "resolved_segments ''/'' ''/work/x/../tools//lint'' = [''work'', ''tools'', ''lint'']"
    "resolved_segments ''/'' ''/work/sub/tools/lint'' = [''work'', ''sub'', ''tools'', ''lint'']"
    "resolved_segments ''/'' ''/work'' = [''work'']"
    by (simp_all add: resolved_segments_def against_def is_absolute_def)
  show ?thesis
    unfolding relative_rule_exact [OF r a(1)] relative_rule_exact [OF r a(2)] by (simp add: segs res)
qed

text \<open>
  C27: an automatic permission sees the arguments it permits. When a rule with a pattern
  allows a request without asking, no other sequence of arguments that it also allows without
  asking gives the same text to the pattern: the pattern decides on the sequence itself.
\<close>

theorem allow_sees_arguments:
  assumes "hr_arg_regex rule \<noteq> None" and "effective_approval rule xs = HxAllow"
    and "effective_approval rule ys = HxAllow" and "build_args_string xs = build_args_string ys"
  shows "xs = ys"
  using assms build_args_string_inject by (auto simp: effective_approval_def split: if_splits)

definition demo_rule :: hostexec_rule where
  "demo_rule = \<lparr>hr_id = ''sign'', hr_argv0 = ''gpg'', hr_arg_regex = Some ''^-u [^ ]+ --sign$'',
     hr_cwd_mode = CwdWorkspaceOnly, hr_cwd_allow = [], hr_env = [], hr_inherit_mode = InheritMinimal,
     hr_inherit_keys = [], hr_approval = HxAllow\<rparr>"

theorem allow_sees_arguments_witness:
  "effective_approval demo_rule [''-u'', ''me''] = HxAllow \<and> effective_approval demo_rule [''-u me''] = HxPrompt \<and>
   [''-u'', ''me''] = split_on (CHR '' '') ''-u me''"
proof -
  let ?xs = "[''-u'', ''me'']" and ?ys = "split_on (CHR '' '') ''-u me''"
  have split: "?ys = ?xs" by simp
  have e: "effective_approval demo_rule ?xs = HxAllow" "effective_approval demo_rule [''-u me''] = HxPrompt"
    by (simp_all add: effective_approval_def demo_rule_def args_ambiguous_for_arg_regex_def is_regex_space_def)
  have y: "effective_approval demo_rule ?ys = HxAllow" unfolding split by (rule e(1))
  have r: "hr_arg_regex demo_rule \<noteq> None" by (simp add: demo_rule_def)
  have "build_args_string ?xs = build_args_string ?ys" unfolding split ..
  from allow_sees_arguments [OF r e(1) y this] e show ?thesis by blast
qed

end
