(* ===== verification/HostExecRequest.thy ===== *)
theory HostExecRequest
  imports HostExecMatch JsonText "HOL-Library.List_Lexorder"
begin

text \<open>
  What a matched request becomes (\<open>resolveRequest\<close> and its helpers in
  \<open>src/hostexec/broker.ts\<close>, and \<open>src/hostexec/integrity.ts\<close>): the directory it runs in, the
  environment it inherits, the capability that an approval is remembered for, and whether the
  file it would run is still the file that was there when the session began.

  What the operating system and the runtime answer is the record \<open>host_view\<close>, an argument: it
  may be another one at each \<open>await\<close>. What does not change is the record \<open>host_static\<close>. Where
  the code throws, the result is \<open>None\<close>.
\<close>

section \<open>What the host answers\<close>

record file_integrity =
  fi_inode :: nat
  fi_mtime_ms :: int
  fi_size :: nat
  fi_sha256 :: string

datatype integrity_snapshot = SnapAbsent | SnapFile file_integrity

datatype integrity_outcome = IvPass | IvPrompt

record host_static =
  hs_working :: string
  hs_home :: string
  hs_compile :: regex_compiler
  hs_collation :: "string \<Rightarrow> string"
  hs_digest :: "string \<Rightarrow> string"
  hs_url_credentials :: "string \<Rightarrow> (string \<times> string) option"

record host_view =
  hv_realpath :: "string \<Rightarrow> string option"
  hv_env :: "(string \<times> string) list"
  hv_secret :: "string \<Rightarrow> string option"
  hv_integrity :: "string \<Rightarrow> integrity_snapshot option"

section \<open>The environment\<close>

definition minimal_env_keys :: "string list" where
  "minimal_env_keys = [''HOME'', ''PATH'', ''LANG'', ''TERM'', ''USER'', ''LOGNAME'']"

definition default_path :: string where
  "default_path = ''/usr/local/sbin:/usr/local/bin:/usr/sbin:/usr/bin:/sbin:/bin''"

definition is_nas_owned_env_key :: "string \<Rightarrow> bool" where
  "is_nas_owned_env_key key \<longleftrightarrow> prefix ''NAS_'' key"

definition proxy_env_keys :: "string list" where
  "proxy_env_keys = [''http_proxy'', ''https_proxy'', ''all_proxy'', ''ftp_proxy'']"

text \<open>\<open>new URL\<close> gives the user name and the password, or throws.\<close>

definition is_proxy_credential_env :: "host_static \<Rightarrow> string \<Rightarrow> string \<Rightarrow> bool" where
  "is_proxy_credential_env host key v =
     (if to_lower key \<notin> set proxy_env_keys then False
      else (case hs_url_credentials host (if sublist ''://'' v then v else ''http://'' @ v) of
              None \<Rightarrow> False
            | Some (username, password) \<Rightarrow> username \<noteq> [] \<or> password \<noteq> []))"

definition copy_keys :: "string list \<Rightarrow> (string \<times> string) list \<Rightarrow> (string \<times> string) list \<Rightarrow> (string \<times> string) list" where
  "copy_keys keys host_env env_vars =
     fold (\<lambda>key acc. case map_of host_env key of None \<Rightarrow> acc | Some v \<Rightarrow> AList.update key v acc) keys env_vars"

definition build_inherited_env :: "host_static \<Rightarrow> hostexec_rule \<Rightarrow> (string \<times> string) list \<Rightarrow> (string \<times> string) list" where
  "build_inherited_env host rule host_env =
     (let env_vars =
        (case hr_inherit_mode rule of
           InheritAll \<Rightarrow>
             fold (\<lambda>(key, v) acc.
                 if is_nas_owned_env_key key then acc
                 else if is_proxy_credential_env host key v then acc
                 else AList.update key v acc) host_env []
         | InheritMinimal \<Rightarrow>
             (let copied = copy_keys minimal_env_keys host_env []
              in AList.update ''PATH'' (case map_of copied ''PATH'' of None \<Rightarrow> default_path | Some v \<Rightarrow> v) copied))
      in copy_keys (hr_inherit_keys rule) host_env env_vars)"

definition build_env :: "host_static \<Rightarrow> host_view \<Rightarrow> hostexec_rule \<Rightarrow> (string \<times> string) list option" where
  "build_env host view rule =
     map_option (\<lambda>env_vars.
         AList.update ''GIT_TERMINAL_PROMPT''
           (case map_of env_vars ''GIT_TERMINAL_PROMPT'' of None \<Rightarrow> ''0'' | Some v \<Rightarrow> v) env_vars)
       (fold_option (\<lambda>(key, ref) acc. map_option (\<lambda>v. AList.update key v acc) (hv_secret view (drop 7 ref)))
          (hr_env rule) (build_inherited_env host rule (hv_env view)))"

section \<open>The working directory\<close>

definition is_within :: "string \<Rightarrow> string \<Rightarrow> string \<Rightarrow> bool" where
  "is_within working target root \<longleftrightarrow> inward (path_relative working root target)"

text \<open>\<open>realpath(p).catch(() => path.resolve(p))\<close>\<close>

definition real_or_resolved :: "host_static \<Rightarrow> host_view \<Rightarrow> string \<Rightarrow> string" where
  "real_or_resolved host view p =
     (case hv_realpath view p of None \<Rightarrow> path_resolve (hs_working host) p | Some r \<Rightarrow> r)"

definition assert_within_root :: "string \<Rightarrow> string \<Rightarrow> string \<Rightarrow> string option" where
  "assert_within_root working resolved root =
     (let rel = path_relative working root resolved
      in if rel \<noteq> [] \<and> (prefix ''..'' rel \<or> is_absolute rel) then None else Some resolved)"

definition expand_tilde :: "string \<Rightarrow> string \<Rightarrow> string" where
  "expand_tilde raw home =
     (if raw = ''~'' then home
      else if prefix ''~/'' raw
      then path_normalize (if drop 2 raw = [] then home else home @ ''/'' @ drop 2 raw) else raw)"

definition resolve_allow_entry :: "host_static \<Rightarrow> host_view \<Rightarrow> string \<Rightarrow> string \<Rightarrow> string \<Rightarrow> string option" where
  "resolve_allow_entry host view workspace_root session_tmp_dir entry =
     (if prefix ''workspace:'' entry
      then assert_within_root (hs_working host)
             (path_resolve_from (hs_working host) workspace_root (drop 10 entry)) workspace_root
      else if prefix ''session_tmp:'' entry
      then assert_within_root (hs_working host)
             (path_resolve_from (hs_working host) session_tmp_dir (drop 12 entry)) session_tmp_dir
      else Some (real_or_resolved host view (expand_tilde entry (hs_home host))))"

definition normalize_allowed_cwd ::
  "host_static \<Rightarrow> host_view \<Rightarrow> string \<Rightarrow> string \<Rightarrow> string \<Rightarrow> hostexec_rule \<Rightarrow> string option"
where
  "normalize_allowed_cwd host view cwd workspace_root session_tmp_dir rule =
     (let normalized = real_or_resolved host view cwd;
          within_workspace = is_within (hs_working host) normalized workspace_root;
          within_session_tmp = is_within (hs_working host) normalized session_tmp_dir
      in case hr_cwd_mode rule of
           CwdWorkspaceOnly \<Rightarrow> (if \<not> within_workspace then None else Some normalized)
         | CwdWorkspaceOrSessionTmp \<Rightarrow>
             (if \<not> within_workspace \<and> \<not> within_session_tmp then None else Some normalized)
         | CwdAllowlist \<Rightarrow>
             (case map_option_list (resolve_allow_entry host view workspace_root session_tmp_dir) (hr_cwd_allow rule) of
                None \<Rightarrow> None
              | Some allowed \<Rightarrow>
                  (if \<not> list_ex (is_within (hs_working host) normalized) allowed then None else Some normalized))
         | CwdAny \<Rightarrow> Some normalized)"

section \<open>The capability\<close>

record capability =
  cp_rule_id :: string
  cp_argv0 :: string
  cp_normalized_argv :: "string list"
  cp_normalized_cwd :: string
  cp_env_bindings :: "(string \<times> string) list"
  cp_inherit_mode :: inherit_mode
  cp_inherit_keys :: "string list"

record resolved_execution =
  rx_rule :: hostexec_rule
  rx_approval :: hostexec_approval
  rx_cwd :: string
  rx_capability :: capability
  rx_env_vars :: "(string \<times> string) list"

record execute_request =
  eq_session_id :: string
  eq_request_id :: string
  eq_argv0 :: string
  eq_args :: "string list"
  eq_cwd :: string
  eq_tty :: bool
  eq_stdin_fd :: bool

fun inherit_mode_text :: "inherit_mode \<Rightarrow> string" where
  "inherit_mode_text InheritMinimal = ''minimal''"
| "inherit_mode_text InheritAll = ''unsafe-inherit-all''"

definition capability_json :: "capability \<Rightarrow> json" where
  "capability_json c =
     JObj [(''ruleId'', JStr (cp_rule_id c)), (''argv0'', JStr (cp_argv0 c)),
           (''normalizedArgv'', JArr (map JStr (cp_normalized_argv c))),
           (''normalizedCwd'', JStr (cp_normalized_cwd c)),
           (''envBindings'', JArr (map (\<lambda>(key, source). JObj [(''key'', JStr key), (''source'', JStr source)])
              (cp_env_bindings c))),
           (''inheritEnv'', JObj [(''mode'', JStr (inherit_mode_text (cp_inherit_mode c))),
              (''keys'', JArr (map JStr (cp_inherit_keys c)))])]"

text \<open>
  The entries of an object are sorted by their names as \<open>localeCompare\<close> orders them, which
  \<open>collation\<close> gives as sort keys. The code maps the values after sorting.
\<close>

fun sort_json_value :: "(string \<Rightarrow> string) \<Rightarrow> json \<Rightarrow> json" where
  "sort_json_value collation (JArr xs) = JArr (map (sort_json_value collation) xs)"
| "sort_json_value collation (JObj ms) =
     JObj (sort_key (\<lambda>(key, v). collation key) (map (\<lambda>(key, v). (key, sort_json_value collation v)) ms))"
| "sort_json_value collation v = v"

definition canonical_json :: "(string \<Rightarrow> string) \<Rightarrow> json \<Rightarrow> string" where
  "canonical_json collation v = json_stringify (sort_json_value collation v)"

definition build_approval_key :: "host_static \<Rightarrow> capability \<Rightarrow> string" where
  "build_approval_key host c = hs_digest host (canonical_json (hs_collation host) (capability_json c))"

section \<open>Resolving a request\<close>

definition is_installed_script_request :: "string option \<Rightarrow> string \<Rightarrow> bool" where
  "is_installed_script_request installed argv0 =
     (case installed of None \<Rightarrow> False | Some p \<Rightarrow> is_absolute argv0 \<and> path_normalize argv0 = p)"

definition normalize_installed_script_path :: "string option \<Rightarrow> string option" where
  "normalize_installed_script_path v =
     (case v of None \<Rightarrow> None | Some p \<Rightarrow> if p \<noteq> [] \<and> is_absolute p then Some (path_normalize p) else None)"

text \<open>\<open>Some None\<close>: no rule matches.\<close>

definition resolve_execute_request ::
  "host_static \<Rightarrow> host_view \<Rightarrow> hostexec_rule list \<Rightarrow> string \<Rightarrow> string \<Rightarrow> string option \<Rightarrow> execute_request \<Rightarrow>
     resolved_execution option option"
where
  "resolve_execute_request host view rules workspace_root session_tmp_dir installed message =
     (let argv0 = eq_argv0 message
      in case match_rule (hs_compile host) (hs_working host) rules argv0 (eq_args message)
             (Some \<lparr>mx_cwd = eq_cwd message, mx_workspace_root = workspace_root\<rparr>) of
           None \<Rightarrow> None
         | Some None \<Rightarrow> Some None
         | Some (Some rule) \<Rightarrow>
             (case normalize_allowed_cwd host view (eq_cwd message) workspace_root session_tmp_dir rule of
                None \<Rightarrow> None
              | Some normalized_cwd \<Rightarrow>
                  (case build_env host view rule of
                     None \<Rightarrow> None
                   | Some env_vars \<Rightarrow>
                       (let host_argv0 = (if is_installed_script_request installed argv0 then argv0
                                          else host_command_argv0 (hr_argv0 rule) argv0)
                        in Some (Some
                             \<lparr>rx_rule = rule, rx_approval = effective_approval rule (eq_args message),
                              rx_cwd = normalized_cwd,
                              rx_capability =
                                \<lparr>cp_rule_id = hr_id rule, cp_argv0 = host_argv0,
                                 cp_normalized_argv = host_argv0 # eq_args message,
                                 cp_normalized_cwd = normalized_cwd,
                                 cp_env_bindings = sort_key (\<lambda>(key, source). hs_collation host key) (hr_env rule),
                                 cp_inherit_mode = hr_inherit_mode rule,
                                 cp_inherit_keys = sort (hr_inherit_keys rule)\<rparr>,
                              rx_env_vars = env_vars\<rparr>)))))"

section \<open>Integrity\<close>

definition decide_integrity :: "integrity_snapshot option \<Rightarrow> integrity_snapshot \<Rightarrow> integrity_outcome" where
  "decide_integrity baseline current =
     (case baseline of
        None \<Rightarrow> IvPrompt
      | Some SnapAbsent \<Rightarrow> (if current = SnapAbsent then IvPass else IvPrompt)
      | Some (SnapFile b) \<Rightarrow>
          (case current of SnapAbsent \<Rightarrow> IvPrompt
           | SnapFile c \<Rightarrow> if fi_sha256 c = fi_sha256 b then IvPass else IvPrompt))"

definition integrity_verdict ::
  "host_static \<Rightarrow> host_view \<Rightarrow> string list \<Rightarrow> (string \<times> integrity_snapshot) list \<Rightarrow> string option \<Rightarrow>
     execute_request \<Rightarrow> resolved_execution \<Rightarrow> integrity_outcome option"
where
  "integrity_verdict host view targets baseline installed request resolved =
     (if is_installed_script_request installed (eq_argv0 request) then Some IvPass
      else if targets = [] then Some IvPass
      else
        (let rule_argv0 = hr_argv0 (rx_rule resolved)
         in if \<not> is_absolute rule_argv0 \<and> \<not> is_relative_hostexec_argv0 rule_argv0 then Some IvPass
            else
              (let host_path = (if is_absolute (eq_argv0 request) then eq_argv0 request
                                else path_resolve_from (hs_working host) (rx_cwd resolved) (eq_argv0 request));
                   canonical_host_path = real_or_resolved host view host_path
               in map_option (decide_integrity (map_of baseline canonical_host_path))
                    (hv_integrity view canonical_host_path))))"

text \<open>The snapshot when the broker starts; a file that cannot be read is left out.\<close>

definition snapshot_baseline :: "host_static \<Rightarrow> host_view \<Rightarrow> string list \<Rightarrow> (string \<times> integrity_snapshot) list" where
  "snapshot_baseline host view targets =
     fold (\<lambda>target acc.
         let canonical_target = real_or_resolved host view target
         in case hv_integrity view canonical_target of
              None \<Rightarrow> acc
            | Some snapshot \<Rightarrow> AList.update canonical_target snapshot acc) targets []"

definition tracked_targets :: "string option \<Rightarrow> string list \<Rightarrow> string list" where
  "tracked_targets installed targets =
     filter (\<lambda>target. installed = None \<or> \<not> is_absolute target \<or> Some (path_normalize target) \<noteq> installed) targets"

section \<open>What is started\<close>

record start_message =
  sm_argv0 :: string
  sm_args :: "string list"
  sm_cwd :: string
  sm_env :: "(string \<times> string) list"

definition installed_script_payload :: "string list \<Rightarrow> (string \<times> string list) option" where
  "installed_script_payload request_args =
     (if request_args \<noteq> [] \<and> (hd request_args = ''-h'' \<or> hd request_args = ''--help'') then None
      else
        (let payload = (if request_args \<noteq> [] \<and> hd request_args = ''--'' then tl request_args else request_args)
         in case payload of [] \<Rightarrow> None | p # ps \<Rightarrow> Some (p, ps)))"

text \<open>The message that starts the command; \<open>None\<close> sends the request back to the container.\<close>

definition launch :: "string option \<Rightarrow> execute_request \<Rightarrow> resolved_execution \<Rightarrow> start_message option" where
  "launch installed request resolved =
     (let env = AList.update ''PWD'' (rx_cwd resolved) (rx_env_vars resolved)
      in if is_installed_script_request installed (eq_argv0 request)
         then map_option (\<lambda>(argv0, args). \<lparr>sm_argv0 = argv0, sm_args = args, sm_cwd = rx_cwd resolved, sm_env = env\<rparr>)
                (installed_script_payload (eq_args request))
         else Some \<lparr>sm_argv0 = cp_argv0 (rx_capability resolved), sm_args = eq_args request,
                    sm_cwd = rx_cwd resolved, sm_env = env\<rparr>)"

section \<open>Where a command may run\<close>

lemma is_within_iff:
  "is_within working target root \<longleftrightarrow> extends_plainly (resolved_segments working root) (resolved_segments working target)"
  by (simp add: is_within_def path_relative_def inward_iff resolved_segments_plain)

lemma is_within_prefix:
  "is_within working target root \<Longrightarrow> prefix (resolved_segments working root) (resolved_segments working target)"
  by (simp add: is_within_iff extends_plainly_def)

lemma assert_within_root_prefix:
  "assert_within_root working p root = Some q \<Longrightarrow> q = p \<and> prefix (resolved_segments working root) (resolved_segments working p)"
  using is_within_prefix [of working p root]
  by (auto simp: assert_within_root_def is_within_def inward_def Let_def split: if_splits)

text \<open>The directories a rule names: the workspace, the temporary directory of the session, listed paths.\<close>

definition entry_root :: "host_static \<Rightarrow> host_view \<Rightarrow> string \<Rightarrow> string \<Rightarrow> string \<Rightarrow> string" where
  "entry_root host view workspace_root session_tmp_dir entry =
     (if prefix ''workspace:'' entry then workspace_root
      else if prefix ''session_tmp:'' entry then session_tmp_dir
      else real_or_resolved host view (expand_tilde entry (hs_home host)))"

definition permitted_roots :: "host_static \<Rightarrow> host_view \<Rightarrow> string \<Rightarrow> string \<Rightarrow> hostexec_rule \<Rightarrow> string list" where
  "permitted_roots host view workspace_root session_tmp_dir rule =
     (case hr_cwd_mode rule of
        CwdWorkspaceOnly \<Rightarrow> [workspace_root]
      | CwdWorkspaceOrSessionTmp \<Rightarrow> [workspace_root, session_tmp_dir]
      | CwdAllowlist \<Rightarrow> map (entry_root host view workspace_root session_tmp_dir) (hr_cwd_allow rule)
      | CwdAny \<Rightarrow> [''/''])"

lemma resolve_allow_entry_prefix:
  "resolve_allow_entry host view ws tmp entry = Some p \<Longrightarrow>
     prefix (resolved_segments (hs_working host) (entry_root host view ws tmp entry)) (resolved_segments (hs_working host) p)"
  by (auto simp: resolve_allow_entry_def entry_root_def split: if_splits dest: assert_within_root_prefix)


section \<open>What a command inherits\<close>

lemma copy_keys_lookup:
  "map_of (copy_keys keys host_env base) key =
     (if key \<in> set keys \<and> map_of host_env key \<noteq> None then map_of host_env key else map_of base key)"
proof (induction keys arbitrary: base)
  case (Cons k keys)
  have "copy_keys (k # keys) host_env base =
      copy_keys keys host_env (case map_of host_env k of None \<Rightarrow> base | Some v \<Rightarrow> AList.update k v base)"
    by (simp add: copy_keys_def)
  then show ?case by (cases "map_of host_env k") (auto simp: Cons)
qed (simp add: copy_keys_def)

lemma copy_all_lookup:
  assumes "distinct (map fst host_env)"
  shows "map_of (fold (\<lambda>(key, v) acc. if skip key then acc else if hide key v then acc else AList.update key v acc)
      host_env base) key =
    (case map_of host_env key of None \<Rightarrow> map_of base key
     | Some v \<Rightarrow> if skip key \<or> hide key v then map_of base key else Some v)"
  using assms
proof (induction host_env arbitrary: base)
  case (Cons e host_env)
  obtain k v where e: "e = (k, v)" by (cases e)
  have "map_of host_env k = None" using Cons.prems by (simp add: e map_of_eq_None_iff)
  then show ?case using Cons by (auto simp: e split: option.splits)
qed simp

text \<open>
  C24: what a command inherits. Every variable of the inherited environment has its value from
  the environment of the host, except the default search path; and unless the rule names it, it
  is one of the six of the minimal set, or, for a rule that inherits everything, neither one of
  nas's own variables nor a proxy variable with credentials in its address.
\<close>

theorem inherited_env_confined:
  assumes "distinct (map fst host_env)" and "map_of (build_inherited_env host rule host_env) key = Some v"
  shows "(map_of host_env key = Some v \<or> key = ''PATH'' \<and> v = default_path) \<and>
    (key \<in> set (hr_inherit_keys rule) \<or>
     (case hr_inherit_mode rule of
        InheritMinimal \<Rightarrow> key \<in> set minimal_env_keys
      | InheritAll \<Rightarrow> \<not> prefix ''NAS_'' key \<and> \<not> is_proxy_credential_env host key v))"
proof (cases "key \<in> set (hr_inherit_keys rule) \<and> map_of host_env key \<noteq> None")
  case True
  then show ?thesis using assms(2) by (auto simp: build_inherited_env_def Let_def copy_keys_lookup)
next
  case False
  show ?thesis
  proof (cases "hr_inherit_mode rule")
    case InheritMinimal
    with False assms(2) show ?thesis
      by (auto simp: build_inherited_env_def Let_def copy_keys_lookup minimal_env_keys_def split: option.splits if_splits)
  next
    case InheritAll
    with False assms show ?thesis
      by (auto simp: build_inherited_env_def Let_def copy_keys_lookup copy_all_lookup is_nas_owned_env_key_def
          split: option.splits if_splits)
  qed
qed

section \<open>What an approval is remembered for\<close>

lemma set_sorted_object:
  assumes "sort_json_value collation (JObj ms) = sort_json_value collation (JObj ns)"
  shows "(\<lambda>(k, v). (k, sort_json_value collation v)) ` set ms = (\<lambda>(k, v). (k, sort_json_value collation v)) ` set ns"
proof -
  let ?sorted = "\<lambda>ms. sort_key (\<lambda>(key, v). collation key) (map (\<lambda>(key, v). (key, sort_json_value collation v)) ms)"
  have "?sorted ms = ?sorted ns" using assms by (simp only: sort_json_value.simps json.inject)
  then have "set (?sorted ms) = set (?sorted ns)" by (rule arg_cong)
  then show ?thesis by (simp only: set_sort list.set_map)
qed

lemma sorted_binding [simp]:
  "sort_json_value collation (JStr s) = JStr s" "sort_json_value collation (JArr (map JStr ss)) = JArr (map JStr ss)"
  by simp_all

lemma numberless_sorted: "numberless v \<Longrightarrow> numberless (sort_json_value collation v)"
proof (induction v)
  case (JObj ms)
  then show ?case by (force simp: list_all_iff)
qed (auto simp: list_all_iff)

lemma sort_json_text_list [simp]: "map (sort_json_value collation \<circ> JStr) xs = map JStr xs"
  by simp

lemma binding_inject:
  assumes "sort_json_value collation (JObj [(''key'', JStr a), (''source'', JStr s)]) =
    sort_json_value collation (JObj [(''key'', JStr b), (''source'', JStr t)])"
  shows "a = b \<and> s = t"
proof -
  have mem: "e \<in> {(''key'', JStr a), (''source'', JStr s)} \<longleftrightarrow> e \<in> {(''key'', JStr b), (''source'', JStr t)}" for e
    using set_sorted_object [OF assms] by simp
  from mem [of "(''key'', JStr a)"] mem [of "(''source'', JStr s)"] show ?thesis by simp
qed

text \<open>
  C19: an approval is for one capability. Two capabilities have the same canonical text, the
  text whose digest is the key an approval is remembered under, only when they are the same:
  the rule, the command with each argument, the directory, the bindings of secrets and the
  inherited variables. Nothing rests on the order the collation gives to names.
\<close>

theorem capability_text_exact:
  "canonical_json collation (capability_json a) = canonical_json collation (capability_json b) \<longleftrightarrow> a = b"
proof
  let ?bind = "\<lambda>(key, source). JObj [(''key'', JStr key), (''source'', JStr source)]"
  let ?entries = "\<lambda>c. {(''ruleId'', JStr (cp_rule_id c)), (''argv0'', JStr (cp_argv0 c)),
      (''normalizedArgv'', JArr (map JStr (cp_normalized_argv c))), (''normalizedCwd'', JStr (cp_normalized_cwd c)),
      (''envBindings'', JArr (map (sort_json_value collation \<circ> ?bind) (cp_env_bindings c))),
      (''inheritEnv'', sort_json_value collation (JObj [(''mode'', JStr (inherit_mode_text (cp_inherit_mode c))),
         (''keys'', JArr (map JStr (cp_inherit_keys c)))]))}"
  have numberless: "numberless (capability_json c)" for c
    by (auto simp: capability_json_def list_all_iff)
  assume "canonical_json collation (capability_json a) = canonical_json collation (capability_json b)"
  then have same: "sort_json_value collation (capability_json a) = sort_json_value collation (capability_json b)"
    using numberless by (simp add: canonical_json_def json_stringify_inject numberless_sorted)
  have "?entries a = ?entries b"
    using set_sorted_object [OF same [unfolded capability_json_def]]
    by (simp only: list.set image_insert image_empty prod.case sorted_binding sort_json_value.simps(1) map_map sort_json_text_list)
  then have mem: "e \<in> ?entries a \<longleftrightarrow> e \<in> ?entries b" for e by (simp only:)
  have "cp_rule_id a = cp_rule_id b" using mem [of "(''ruleId'', JStr (cp_rule_id a))"] by simp
  moreover have "cp_argv0 a = cp_argv0 b" using mem [of "(''argv0'', JStr (cp_argv0 a))"] by simp
  moreover have "cp_normalized_argv a = cp_normalized_argv b"
    using mem [of "(''normalizedArgv'', JArr (map JStr (cp_normalized_argv a)))"] by (simp add: inj_map_eq_map inj_def)
  moreover have "cp_normalized_cwd a = cp_normalized_cwd b"
    using mem [of "(''normalizedCwd'', JStr (cp_normalized_cwd a))"] by simp
  moreover have "cp_env_bindings a = cp_env_bindings b"
  proof -
    have "inj (sort_json_value collation \<circ> ?bind)"
      using binding_inject by (auto simp: inj_def simp del: sort_json_value.simps(2))
    moreover have "map (sort_json_value collation \<circ> ?bind) (cp_env_bindings a) = map (sort_json_value collation \<circ> ?bind) (cp_env_bindings b)"
      using mem [of "(''envBindings'', JArr (map (sort_json_value collation \<circ> ?bind) (cp_env_bindings a)))"] by (simp del: sort_json_value.simps(2))
    ultimately show ?thesis by (simp only: inj_map_eq_map)
  qed
  moreover have "cp_inherit_mode a = cp_inherit_mode b \<and> cp_inherit_keys a = cp_inherit_keys b"
  proof -
    let ?inherit = "\<lambda>c. JObj [(''mode'', JStr (inherit_mode_text (cp_inherit_mode c))), (''keys'', JArr (map JStr (cp_inherit_keys c)))]"
    have "sort_json_value collation (?inherit a) = sort_json_value collation (?inherit b)"
      using mem [of "(''inheritEnv'', sort_json_value collation (?inherit a))"] by (simp del: sort_json_value.simps(2))
    from set_sorted_object [OF this]
    have "{(''mode'', JStr (inherit_mode_text (cp_inherit_mode a))), (''keys'', JArr (map JStr (cp_inherit_keys a)))} =
        {(''mode'', JStr (inherit_mode_text (cp_inherit_mode b))), (''keys'', JArr (map JStr (cp_inherit_keys b)))}"
      by (simp only: list.set image_insert image_empty prod.case sorted_binding)
    then have mem': "e \<in> {(''mode'', JStr (inherit_mode_text (cp_inherit_mode a))), (''keys'', JArr (map JStr (cp_inherit_keys a)))} \<longleftrightarrow>
        e \<in> {(''mode'', JStr (inherit_mode_text (cp_inherit_mode b))), (''keys'', JArr (map JStr (cp_inherit_keys b)))}" for e
      by (simp only:)
    have "inherit_mode_text (cp_inherit_mode a) = inherit_mode_text (cp_inherit_mode b)"
      using mem' [of "(''mode'', JStr (inherit_mode_text (cp_inherit_mode a)))"] by simp
    then have "cp_inherit_mode a = cp_inherit_mode b" by (cases "cp_inherit_mode a"; cases "cp_inherit_mode b") simp_all
    then show ?thesis
      using mem' [of "(''keys'', JArr (map JStr (cp_inherit_keys a)))"] by (simp add: inj_map_eq_map inj_def)
  qed
  ultimately show "a = b" by simp
qed simp

section \<open>What is shown and what is run\<close>

text \<open>
  what is shown is what runs. The command and the arguments of a resolved request, which
  the card, the log and the key of the approval show, are the ones that are started, in the
  directory that was checked; only the installed script, whose arguments are the command,
  starts another one.
\<close>

theorem shown_is_started:
  assumes "resolve_execute_request host view rules ws tmp installed message = Some (Some r)"
    and "launch installed message r = Some s"
  shows "sm_cwd s = cp_normalized_cwd (rx_capability r) \<and> map_of (sm_env s) ''PWD'' = Some (sm_cwd s) \<and>
    (if is_installed_script_request installed (eq_argv0 message)
     then suffix (sm_argv0 s # sm_args s) (cp_normalized_argv (rx_capability r))
     else sm_argv0 s # sm_args s = cp_normalized_argv (rx_capability r))"
proof -
  have r: "rx_cwd r = cp_normalized_cwd (rx_capability r)"
    "cp_normalized_argv (rx_capability r) = cp_argv0 (rx_capability r) # eq_args message"
    using assms(1) by (auto simp: resolve_execute_request_def Let_def split: option.splits)
  have payload: "suffix (p # ps) (eq_args message)" if "installed_script_payload (eq_args message) = Some (p, ps)" for p ps
    using that by (cases "eq_args message") (auto simp: installed_script_payload_def suffix_def Let_def split: if_splits list.splits)
  show ?thesis
  proof (cases "is_installed_script_request installed (eq_argv0 message)")
    case True
    then obtain p ps where p: "installed_script_payload (eq_args message) = Some (p, ps)" "sm_argv0 s = p" "sm_args s = ps"
        "sm_cwd s = rx_cwd r" "map_of (sm_env s) ''PWD'' = Some (rx_cwd r)"
      using assms(2) by (auto simp: launch_def Let_def)
    show ?thesis using payload [OF p(1)] True p(2-5) r by (auto intro: suffix_order.trans suffix_ConsI)
  next
    case False
    then show ?thesis using assms(2) r by (auto simp: launch_def Let_def)
  qed
qed

section \<open>Unchanged files\<close>

definition same_content :: "integrity_snapshot \<Rightarrow> integrity_snapshot \<Rightarrow> bool" where
  "same_content a b \<longleftrightarrow>
     (case (a, b) of
        (SnapAbsent, SnapAbsent) \<Rightarrow> True
      | (SnapFile x, SnapFile y) \<Rightarrow> fi_sha256 x = fi_sha256 y
      | _ \<Rightarrow> False)"


section \<open>An example\<close>

definition demo_host :: host_static where
  "demo_host = \<lparr>hs_working = ''/'', hs_home = ''/home/u'', hs_compile = (\<lambda>_. None), hs_collation = (\<lambda>s. s),
     hs_digest = (\<lambda>s. s), hs_url_credentials = (\<lambda>_. None)\<rparr>"

definition demo_view :: host_view where
  "demo_view = \<lparr>hv_realpath = Some, hv_env = [(''NAS_X'', ''1''), (''HOME'', ''/home/u''), (''LANG'', ''C'')],
     hv_secret = (\<lambda>name. if name = ''token'' then Some ''s3'' else None),
     hv_integrity = (\<lambda>p. Some (SnapFile \<lparr>fi_inode = 1, fi_mtime_ms = 2, fi_size = 3, fi_sha256 = p\<rparr>))\<rparr>"

definition demo_git_rule :: hostexec_rule where
  "demo_git_rule = \<lparr>hr_id = ''git'', hr_argv0 = ''./tools/git'', hr_arg_regex = None, hr_cwd_mode = CwdAllowlist,
     hr_cwd_allow = [''workspace:src''], hr_env = [(''TOKEN'', ''secret:token'')], hr_inherit_mode = InheritAll,
     hr_inherit_keys = [], hr_approval = HxAllow\<rparr>"

definition demo_execute :: execute_request where
  "demo_execute = \<lparr>eq_session_id = ''s'', eq_request_id = ''r1'', eq_argv0 = ''/work/tools/git'', eq_args = [''log''],
     eq_cwd = ''/work/src/a'', eq_tty = False, eq_stdin_fd = False\<rparr>"

definition demo_resolved :: resolved_execution where
  "demo_resolved = \<lparr>rx_rule = demo_git_rule, rx_approval = HxAllow, rx_cwd = ''/work/src/a'',
     rx_capability = \<lparr>cp_rule_id = ''git'', cp_argv0 = ''/work/tools/git'', cp_normalized_argv = [''/work/tools/git'', ''log''],
       cp_normalized_cwd = ''/work/src/a'', cp_env_bindings = [(''TOKEN'', ''secret:token'')], cp_inherit_mode = InheritAll,
       cp_inherit_keys = []\<rparr>,
     rx_env_vars = [(''HOME'', ''/home/u''), (''LANG'', ''C''), (''TOKEN'', ''s3''), (''GIT_TERMINAL_PROMPT'', ''0'')]\<rparr>"

lemma demo_cwd: "normalize_allowed_cwd demo_host demo_view ''/work/src/a'' ''/work'' ''/tmp/s'' demo_git_rule = Some ''/work/src/a''"
  by code_simp

lemma demo_resolves:
  "resolve_execute_request demo_host demo_view [demo_git_rule] ''/work'' ''/tmp/s'' None demo_execute = Some (Some demo_resolved)"
  by code_simp


theorem inherited_env_confined_witness:
  "map_of (build_inherited_env demo_host demo_git_rule (hv_env demo_view)) ''LANG'' = Some ''C'' \<and>
   \<not> prefix ''NAS_'' ''LANG''"
proof -
  have v: "map_of (build_inherited_env demo_host demo_git_rule (hv_env demo_view)) ''LANG'' = Some ''C''" by code_simp
  have "distinct (map fst (hv_env demo_view))" by code_simp
  from inherited_env_confined [OF this v] v show ?thesis by (simp add: demo_git_rule_def)
qed

theorem shown_is_started_witness:
  "\<exists>s. launch None demo_execute demo_resolved = Some s \<and> sm_argv0 s # sm_args s = [''/work/tools/git'', ''log'']"
proof -
  obtain s where s: "launch None demo_execute demo_resolved = Some s" by (simp add: launch_def is_installed_script_request_def)
  from shown_is_started [OF demo_resolves s] s show ?thesis
    by (simp add: is_installed_script_request_def demo_resolved_def)
qed


end
