(* ===== verification/GatewayProtocol.thy ===== *)
theory GatewayProtocol
  imports Protocol MaskPatterns HostExecRequest
begin

text \<open>
  The messages between the session's gateway, which owns the container side and the host
  processes, and the broker (\<open>src/hostexec/gateway_protocol.ts\<close>): their schemas, the states in
  which each may be sent, and the bounds on their size. Messages are read from JSON values;
  decoding UTF-8 and parsing JSON are the runtime's, so a line is a function from its bytes to
  a value (\<open>parse_text\<close>).
\<close>

section \<open>Messages\<close>

definition max_control_bytes :: nat where "max_control_bytes = 4 * 1024 * 1024"

definition max_chunk_bytes :: nat where "max_chunk_bytes = 64 * 1024"

datatype gateway_state = AwaitingDecision | RunningState | AwaitingResult | TerminalState

datatype gateway_to_broker =
    GwExecute execute_request
  | GwSpawned string int
  | GwRawChunk string nat string
  | GwProcessExit string int
  | GwCancelled string string
  | GwTransportError string string

datatype kill_signal = SigTerm | SigKill

datatype broker_to_gateway =
    BgFallback string
  | BgError string string
  | BgStart string start_message
  | BgMaskedChunk string nat string
  | BgResult string int
  | BgKill string kill_signal

section \<open>Schemas\<close>

text \<open>\<open>chunkDataSchema\<close>: canonical base64 of at most 64 KiB.\<close>

definition chunk_ok :: "string \<Rightarrow> bool" where
  "chunk_ok data \<longleftrightarrow> is_canonical_base64 data \<and> length (base64_decode data) \<le> max_chunk_bytes"

definition process_integer_ok :: "int \<Rightarrow> bool" where
  "process_integer_ok i \<longleftrightarrow> - 2147483648 \<le> i \<and> i \<le> 2147483647"

text \<open>The fields of a strict object: exactly the named ones.\<close>

definition strict_object :: "json \<Rightarrow> string list \<Rightarrow> (string \<times> json) list option" where
  "strict_object v names =
     (case json_object v of
        None \<Rightarrow> None
      | Some fs \<Rightarrow> if has_exact_fields fs names then Some fs else None)"

definition read_process_integer :: "json option \<Rightarrow> int option" where
  "read_process_integer v =
     (case safe_integer v of None \<Rightarrow> None | Some i \<Rightarrow> if process_integer_ok i then Some i else None)"

definition read_stream_fd :: "json option \<Rightarrow> nat option" where
  "read_stream_fd v = (if v = Some (JNum ''1'') then Some 1 else if v = Some (JNum ''2'') then Some 2 else None)"

definition read_chunk :: "json option \<Rightarrow> string option" where
  "read_chunk v = (case json_string v of None \<Rightarrow> None | Some data \<Rightarrow> if chunk_ok data then Some data else None)"

definition read_texts :: "json option \<Rightarrow> string list option" where
  "read_texts v = (case v of Some (JArr xs) \<Rightarrow> map_option_list (\<lambda>x. json_string (Some x)) xs | _ \<Rightarrow> None)"

definition read_flag :: "json option \<Rightarrow> bool option" where
  "read_flag v = (case v of Some (JBool b) \<Rightarrow> Some b | _ \<Rightarrow> None)"

definition read_text_map :: "json option \<Rightarrow> (string \<times> string) list option" where
  "read_text_map v =
     (case v of
        Some (JObj ms) \<Rightarrow> map_option_list (\<lambda>(k, x). map_option (Pair k) (json_string (Some x))) ms
      | _ \<Rightarrow> None)"

definition external_execute_fields :: "string list" where
  "external_execute_fields =
     [''version'', ''type'', ''sessionId'', ''requestId'', ''argv0'', ''args'', ''cwd'', ''tty'', ''stdinMode'']"

text \<open>\<open>externalExecuteSchema\<close>\<close>

definition read_external_execute :: "json \<Rightarrow> execute_request option" where
  "read_external_execute v =
     Option.bind (strict_object v external_execute_fields) (\<lambda>fs.
       if map_of fs ''version'' \<noteq> Some (JNum ''2'') \<or> map_of fs ''type'' \<noteq> Some (JStr ''execute'') then None
       else
         Option.bind (json_string (map_of fs ''sessionId'')) (\<lambda>session.
         Option.bind (json_string (map_of fs ''requestId'')) (\<lambda>rid.
         Option.bind (json_string (map_of fs ''argv0'')) (\<lambda>argv0.
         Option.bind (read_texts (map_of fs ''args'')) (\<lambda>args.
         Option.bind (json_string (map_of fs ''cwd'')) (\<lambda>cwd.
         Option.bind (read_flag (map_of fs ''tty'')) (\<lambda>tty.
         Option.bind (json_string (map_of fs ''stdinMode'')) (\<lambda>mode.
           if mode = ''fd'' \<or> mode = ''none''
           then Some \<lparr>eq_session_id = session, eq_request_id = rid, eq_argv0 = argv0, eq_args = args, eq_cwd = cwd,
                      eq_tty = tty, eq_stdin_fd = (mode = ''fd'')\<rparr>
           else None))))))))"

definition message_type :: "json \<Rightarrow> string option" where
  "message_type v = Option.bind (json_object v) (\<lambda>fs. json_string (map_of fs ''type''))"

text \<open>An object with the fields \<open>type\<close>, \<open>requestId\<close> and the named ones, and its request id.\<close>

definition with_request_id ::
  "json \<Rightarrow> string list \<Rightarrow> ((string \<times> json) list \<Rightarrow> string \<Rightarrow> 'a option) \<Rightarrow> 'a option"
where
  "with_request_id v names k =
     Option.bind (strict_object v (''type'' # ''requestId'' # names)) (\<lambda>fs.
     Option.bind (json_string (map_of fs ''requestId'')) (\<lambda>rid. k fs rid))"

text \<open>\<open>gatewayToBrokerSchema\<close>\<close>

definition read_gateway_to_broker :: "json \<Rightarrow> gateway_to_broker option" where
  "read_gateway_to_broker v =
     (case message_type v of
        None \<Rightarrow> None
      | Some kind \<Rightarrow>
          (if kind = ''execute''
           then Option.bind (strict_object v [''type'', ''request'']) (\<lambda>fs.
             Option.bind (map_of fs ''request'') (\<lambda>r. map_option GwExecute (read_external_execute r)))
           else if kind = ''spawned''
           then with_request_id v [''pid''] (\<lambda>fs rid. map_option (GwSpawned rid) (read_process_integer (map_of fs ''pid'')))
           else if kind = ''raw_chunk''
           then with_request_id v [''fd'', ''data''] (\<lambda>fs rid.
             Option.bind (read_stream_fd (map_of fs ''fd'')) (\<lambda>fd.
             map_option (GwRawChunk rid fd) (read_chunk (map_of fs ''data''))))
           else if kind = ''process_exit''
           then with_request_id v [''exitCode''] (\<lambda>fs rid.
             map_option (GwProcessExit rid) (read_process_integer (map_of fs ''exitCode'')))
           else if kind = ''cancelled''
           then with_request_id v [''reason''] (\<lambda>fs rid. map_option (GwCancelled rid) (json_string (map_of fs ''reason'')))
           else if kind = ''transport_error''
           then with_request_id v [''message''] (\<lambda>fs rid. map_option (GwTransportError rid) (json_string (map_of fs ''message'')))
           else None))"

text \<open>\<open>brokerToGatewaySchema\<close>\<close>

definition read_broker_to_gateway :: "json \<Rightarrow> broker_to_gateway option" where
  "read_broker_to_gateway v =
     (case message_type v of
        None \<Rightarrow> None
      | Some kind \<Rightarrow>
          (if kind = ''fallback'' then with_request_id v [] (\<lambda>fs rid. Some (BgFallback rid))
           else if kind = ''error''
           then with_request_id v [''message''] (\<lambda>fs rid. map_option (BgError rid) (json_string (map_of fs ''message'')))
           else if kind = ''start''
           then with_request_id v [''argv0'', ''args'', ''cwd'', ''env''] (\<lambda>fs rid.
             Option.bind (json_string (map_of fs ''argv0'')) (\<lambda>argv0.
             Option.bind (read_texts (map_of fs ''args'')) (\<lambda>args.
             Option.bind (json_string (map_of fs ''cwd'')) (\<lambda>cwd.
             map_option (\<lambda>env. BgStart rid \<lparr>sm_argv0 = argv0, sm_args = args, sm_cwd = cwd, sm_env = env\<rparr>)
               (read_text_map (map_of fs ''env''))))))
           else if kind = ''masked_chunk''
           then with_request_id v [''fd'', ''data''] (\<lambda>fs rid.
             Option.bind (read_stream_fd (map_of fs ''fd'')) (\<lambda>fd.
             map_option (BgMaskedChunk rid fd) (read_chunk (map_of fs ''data''))))
           else if kind = ''result''
           then with_request_id v [''exitCode''] (\<lambda>fs rid.
             map_option (BgResult rid) (read_process_integer (map_of fs ''exitCode'')))
           else if kind = ''kill''
           then with_request_id v [''signal''] (\<lambda>fs rid.
             if map_of fs ''signal'' = Some (JStr ''SIGTERM'') then Some (BgKill rid SigTerm)
             else if map_of fs ''signal'' = Some (JStr ''SIGKILL'') then Some (BgKill rid SigKill)
             else None)
           else None))"

section \<open>Writing\<close>

definition stream_fd_json :: "nat \<Rightarrow> json" where
  "stream_fd_json fd = JNum (nat_text fd)"

definition integer_json :: "int \<Rightarrow> json" where
  "integer_json i = JNum (int_text i)"

definition execute_json :: "execute_request \<Rightarrow> json" where
  "execute_json q =
     JObj [(''version'', JNum ''2''), (''type'', JStr ''execute''), (''sessionId'', JStr (eq_session_id q)),
           (''requestId'', JStr (eq_request_id q)), (''argv0'', JStr (eq_argv0 q)), (''args'', JArr (map JStr (eq_args q))),
           (''cwd'', JStr (eq_cwd q)), (''tty'', JBool (eq_tty q)),
           (''stdinMode'', JStr (if eq_stdin_fd q then ''fd'' else ''none''))]"

fun gateway_json :: "gateway_to_broker \<Rightarrow> json" where
  "gateway_json (GwExecute q) = JObj [(''type'', JStr ''execute''), (''request'', execute_json q)]"
| "gateway_json (GwSpawned rid pid) = JObj [(''type'', JStr ''spawned''), (''requestId'', JStr rid), (''pid'', integer_json pid)]"
| "gateway_json (GwRawChunk rid fd data) =
     JObj [(''type'', JStr ''raw_chunk''), (''requestId'', JStr rid), (''fd'', stream_fd_json fd), (''data'', JStr data)]"
| "gateway_json (GwProcessExit rid code) =
     JObj [(''type'', JStr ''process_exit''), (''requestId'', JStr rid), (''exitCode'', integer_json code)]"
| "gateway_json (GwCancelled rid reason) =
     JObj [(''type'', JStr ''cancelled''), (''requestId'', JStr rid), (''reason'', JStr reason)]"
| "gateway_json (GwTransportError rid message) =
     JObj [(''type'', JStr ''transport_error''), (''requestId'', JStr rid), (''message'', JStr message)]"

fun signal_text :: "kill_signal \<Rightarrow> string" where
  "signal_text SigTerm = ''SIGTERM''"
| "signal_text SigKill = ''SIGKILL''"

fun broker_json :: "broker_to_gateway \<Rightarrow> json" where
  "broker_json (BgFallback rid) = JObj [(''type'', JStr ''fallback''), (''requestId'', JStr rid)]"
| "broker_json (BgError rid message) =
     JObj [(''type'', JStr ''error''), (''requestId'', JStr rid), (''message'', JStr message)]"
| "broker_json (BgStart rid s) =
     JObj [(''type'', JStr ''start''), (''requestId'', JStr rid), (''argv0'', JStr (sm_argv0 s)),
           (''args'', JArr (map JStr (sm_args s))), (''cwd'', JStr (sm_cwd s)),
           (''env'', JObj (map (\<lambda>(k, x). (k, JStr x)) (sm_env s)))]"
| "broker_json (BgMaskedChunk rid fd data) =
     JObj [(''type'', JStr ''masked_chunk''), (''requestId'', JStr rid), (''fd'', stream_fd_json fd), (''data'', JStr data)]"
| "broker_json (BgResult rid code) =
     JObj [(''type'', JStr ''result''), (''requestId'', JStr rid), (''exitCode'', integer_json code)]"
| "broker_json (BgKill rid s) =
     JObj [(''type'', JStr ''kill''), (''requestId'', JStr rid), (''signal'', JStr (signal_text s))]"

text \<open>\<open>assertControlSize\<close>\<close>

definition control_size_ok :: "json \<Rightarrow> bool" where
  "control_size_ok v \<longleftrightarrow> length (utf8_bytes (json_stringify v)) \<le> max_control_bytes"

section \<open>States\<close>

fun states_for_gateway :: "gateway_to_broker \<Rightarrow> gateway_state list" where
  "states_for_gateway (GwExecute q) = [AwaitingDecision]"
| "states_for_gateway (GwSpawned rid pid) = [RunningState]"
| "states_for_gateway (GwRawChunk rid fd data) = [RunningState]"
| "states_for_gateway (GwProcessExit rid code) = [RunningState]"
| "states_for_gateway (GwCancelled rid reason) = [AwaitingDecision, RunningState, AwaitingResult]"
| "states_for_gateway (GwTransportError rid message) = [AwaitingDecision, RunningState, AwaitingResult]"

fun states_for_broker :: "broker_to_gateway \<Rightarrow> gateway_state list" where
  "states_for_broker (BgFallback rid) = [AwaitingDecision]"
| "states_for_broker (BgError rid message) = [AwaitingDecision, AwaitingResult]"
| "states_for_broker (BgStart rid s) = [AwaitingDecision]"
| "states_for_broker (BgMaskedChunk rid fd data) = [RunningState, AwaitingResult]"
| "states_for_broker (BgResult rid code) = [AwaitingResult]"
| "states_for_broker (BgKill rid s) = [RunningState]"

definition parse_external_execute :: "json \<Rightarrow> execute_request option" where
  "parse_external_execute v =
     (case read_external_execute v of
        None \<Rightarrow> None
      | Some q \<Rightarrow> if control_size_ok (execute_json q) then Some q else None)"

definition parse_gateway_to_broker :: "json \<Rightarrow> gateway_state \<Rightarrow> gateway_to_broker option" where
  "parse_gateway_to_broker v st =
     (case read_gateway_to_broker v of
        None \<Rightarrow> None
      | Some m \<Rightarrow> if control_size_ok (gateway_json m) \<and> st \<in> set (states_for_gateway m) then Some m else None)"

definition parse_broker_to_gateway :: "json \<Rightarrow> gateway_state \<Rightarrow> broker_to_gateway option" where
  "parse_broker_to_gateway v st =
     (case read_broker_to_gateway v of
        None \<Rightarrow> None
      | Some m \<Rightarrow> if control_size_ok (broker_json m) \<and> st \<in> set (states_for_broker m) then Some m else None)"

text \<open>\<open>parseWireLine\<close>: the payload of a line is what precedes \<open>\n\<close> or \<open>\r\n\<close>.\<close>

definition wire_payload :: "nat list \<Rightarrow> nat list" where
  "wire_payload bytes =
     (if bytes \<noteq> [] \<and> last bytes = 10
      then (let payload = butlast bytes
            in if payload \<noteq> [] \<and> last payload = 13 then butlast payload else payload)
      else bytes)"

definition parse_wire_line :: "(nat list \<Rightarrow> json option) \<Rightarrow> nat list \<Rightarrow> json option" where
  "parse_wire_line parse_text bytes =
     (let payload = wire_payload bytes
      in if length payload > max_control_bytes then None else parse_text payload)"

definition parse_gateway_to_broker_line ::
  "(nat list \<Rightarrow> json option) \<Rightarrow> nat list \<Rightarrow> gateway_state \<Rightarrow> gateway_to_broker option"
where
  "parse_gateway_to_broker_line parse_text line st =
     Option.bind (parse_wire_line parse_text line) (\<lambda>v. parse_gateway_to_broker v st)"

definition parse_broker_to_gateway_line ::
  "(nat list \<Rightarrow> json option) \<Rightarrow> nat list \<Rightarrow> gateway_state \<Rightarrow> broker_to_gateway option"
where
  "parse_broker_to_gateway_line parse_text line st =
     Option.bind (parse_wire_line parse_text line) (\<lambda>v. parse_broker_to_gateway v st)"

section \<open>Round trips\<close>

text \<open>What the schemas ask of the values of a message.\<close>

fun gateway_message_ok :: "gateway_to_broker \<Rightarrow> bool" where
  "gateway_message_ok (GwSpawned rid pid) = process_integer_ok pid"
| "gateway_message_ok (GwRawChunk rid fd data) = (fd \<in> {1, 2} \<and> chunk_ok data)"
| "gateway_message_ok (GwProcessExit rid code) = process_integer_ok code"
| "gateway_message_ok m = True"

fun broker_message_ok :: "broker_to_gateway \<Rightarrow> bool" where
  "broker_message_ok (BgMaskedChunk rid fd data) = (fd \<in> {1, 2} \<and> chunk_ok data)"
| "broker_message_ok (BgResult rid code) = process_integer_ok code"
| "broker_message_ok m = True"

lemma read_texts_map [simp]: "read_texts (Some (JArr (map JStr xs))) = Some xs"
  by (simp add: read_texts_def) (induction xs, simp_all)

lemma read_text_map_map [simp]: "read_text_map (Some (JObj (map (\<lambda>(k, x). (k, JStr x)) ms))) = Some ms"
  by (simp add: read_text_map_def) (induction ms, auto)

lemma read_flag_bool [simp]: "read_flag (Some (JBool b)) = Some b"
  by (simp add: read_flag_def)

lemma read_process_integer_json [simp]:
  "read_process_integer (Some (integer_json i)) = (if process_integer_ok i then Some i else None)"
  by (auto simp: read_process_integer_def integer_json_def process_integer_ok_def max_safe_integer_def)

lemma read_stream_fd_json [simp]:
  "read_stream_fd (Some (stream_fd_json fd)) = (if fd = 1 \<or> fd = 2 then Some fd else None)"
proof -
  have "nat_text 1 = ''1''" "nat_text 2 = ''2''" by (simp_all add: nat_text.simps char_of_def bit_Suc_0_iff)
  then show ?thesis
    using nat_text_inject [of fd 1] nat_text_inject [of fd 2] by (auto simp: read_stream_fd_def stream_fd_json_def)
qed

lemma read_chunk_text [simp]: "read_chunk (Some (JStr data)) = (if chunk_ok data then Some data else None)"
  by (simp add: read_chunk_def)

lemma read_execute_json [simp]: "read_external_execute (execute_json q) = Some q"
  by (cases "eq_stdin_fd q")
    (simp_all add: read_external_execute_def execute_json_def strict_object_def has_exact_fields_def external_execute_fields_def)

lemmas read_message_defs =
  message_type_def with_request_id_def strict_object_def has_exact_fields_def

lemma read_gateway_json:
  "read_gateway_to_broker (gateway_json m) = (if gateway_message_ok m then Some m else None)"
  by (cases m) (simp_all add: read_gateway_to_broker_def read_message_defs)

lemma read_broker_json:
  "read_broker_to_gateway (broker_json m) = (if broker_message_ok m then Some m else None)"
proof (cases m)
  case (BgKill rid s)
  then show ?thesis by (cases s) (simp_all add: read_broker_to_gateway_def read_message_defs)
qed (simp_all add: read_broker_to_gateway_def read_message_defs)

text \<open>
  C26: messages round-trip. Reading the JSON form of a message gives the message back, in
  exactly the states the protocol lists for its kind, when its integers are 32-bit process
  integers, its data is canonical base64 of at most 64 KiB for one of the two streams, and its
  text has at most 4 MiB; otherwise it is refused.
\<close>

theorem gateway_messages_roundtrip:
  "parse_gateway_to_broker (gateway_json m) st =
     (if gateway_message_ok m \<and> control_size_ok (gateway_json m) \<and> st \<in> set (states_for_gateway m) then Some m else None) \<and>
   parse_broker_to_gateway (broker_json n) st =
     (if broker_message_ok n \<and> control_size_ok (broker_json n) \<and> st \<in> set (states_for_broker n) then Some n else None) \<and>
   parse_external_execute (execute_json q) = (if control_size_ok (execute_json q) then Some q else None)"
  by (simp add: parse_gateway_to_broker_def parse_broker_to_gateway_def parse_external_execute_def
      read_gateway_json read_broker_json)

section \<open>What is accepted\<close>

lemma read_process_integer_ok: "read_process_integer v = Some i \<Longrightarrow> process_integer_ok i"
  by (auto simp: read_process_integer_def split: option.splits if_splits)

lemma read_stream_fd_ok: "read_stream_fd v = Some fd \<Longrightarrow> fd = Suc 0 \<or> fd = 2"
  by (auto simp: read_stream_fd_def split: if_splits)

lemma read_chunk_ok: "read_chunk v = Some data \<Longrightarrow> chunk_ok data"
  by (auto simp: read_chunk_def split: option.splits if_splits)

lemma accepted_gateway_message:
  "parse_gateway_to_broker v st = Some m \<Longrightarrow> gateway_message_ok m \<and> st \<in> set (states_for_gateway m)"
  by (auto simp: parse_gateway_to_broker_def read_gateway_to_broker_def with_request_id_def bind_eq_Some_conv
      dest!: read_stream_fd_ok intro: read_process_integer_ok read_chunk_ok split: option.splits if_splits)

end
