(* ===== verification/LineReader.thy ===== *)
theory LineReader
  imports GatewayProtocol
begin

text \<open>
  \<open>RawLineReader\<close> (\<open>src/hostexec/gateway_execution.ts\<close>): the bytes that arrived and were not yet
  read are a queue of chunks with an offset into the first one; a line is cut out of the queue
  without joining it. The reader refines one that keeps the bytes as one list: \<open>flat\<close> maps the
  first to the second, and every operation commutes with it.
\<close>

section \<open>The reader\<close>

record line_reader =
  lr_chunks :: "nat list list"
  lr_chunk_offset :: nat
  lr_queued_bytes :: nat
  lr_ended :: bool
  lr_failure :: "string option"
  lr_waiting :: bool

definition line_reader_new :: line_reader where
  "line_reader_new = \<lparr>lr_chunks = [], lr_chunk_offset = 0, lr_queued_bytes = 0, lr_ended = False,
     lr_failure = None, lr_waiting = False\<rparr>"

text \<open>What \<open>read\<close> is answered with; \<open>None\<close> in a line is \<open>null\<close>, the end.\<close>

datatype read_answer = ReadLine "nat list option" | ReadError string

definition newline :: nat where "newline = 10"

text \<open>\<open>chunk.indexOf(0x0a, start)\<close>\<close>

fun index_from :: "nat \<Rightarrow> nat list \<Rightarrow> nat option" where
  "index_from start [] = None"
| "index_from 0 (b # bs) = (if b = newline then Some 0 else map_option Suc (index_from 0 bs))"
| "index_from (Suc start) (b # bs) = map_option Suc (index_from start bs)"

fun find_newline :: "nat \<Rightarrow> nat list list \<Rightarrow> (nat \<times> nat) option" where
  "find_newline start [] = None"
| "find_newline start (c # cs) =
     (case index_from start c of
        Some i \<Rightarrow> Some (0, i)
      | None \<Rightarrow> map_option (\<lambda>(k, i). (Suc k, i)) (find_newline 0 cs))"

text \<open>The length of the line that ends at a position: the first loop of \<open>takeLine\<close>.\<close>

fun line_length :: "nat \<Rightarrow> nat list list \<Rightarrow> nat \<times> nat \<Rightarrow> nat" where
  "line_length start [] p = 0"
| "line_length start (c # cs) (0, i) = Suc i - start"
| "line_length start (c # cs) (Suc k, i) = (length c - start) + line_length 0 cs (k, i)"

text \<open>The segments of the line, joined: its second loop.\<close>

fun copy_bytes :: "nat \<Rightarrow> nat list list \<Rightarrow> nat \<Rightarrow> nat list" where
  "copy_bytes start [] remaining = []"
| "copy_bytes start (c # cs) remaining =
     (if remaining = 0 then []
      else (let n = min remaining (length c - start)
            in take n (drop start c) @ copy_bytes 0 cs (remaining - n)))"

text \<open>\<open>consume\<close>: the chunks and the offset after so many bytes.\<close>

fun consume :: "nat \<Rightarrow> nat list list \<Rightarrow> nat \<Rightarrow> nat list list \<times> nat" where
  "consume start [] remaining = ([], start)"
| "consume start (c # cs) remaining =
     (if remaining = 0 then (c # cs, start)
      else (let consumed = min remaining (length c - start)
            in if start + consumed = length c then consume 0 cs (remaining - consumed)
               else (c # cs, start + consumed)))"

definition too_long :: string where
  "too_long = ''control message exceeds 4194304 bytes''"

text \<open>\<open>fail\<close> without the answer it leads to.\<close>

definition set_failure :: "string \<Rightarrow> line_reader \<Rightarrow> line_reader" where
  "set_failure e r =
     (case lr_failure r of None \<Rightarrow> r\<lparr>lr_failure := Some e, lr_ended := True\<rparr> | Some old \<Rightarrow> r)"

text \<open>\<open>takeLine\<close>: \<open>Inr None\<close> is \<open>undefined\<close>, \<open>Inl\<close> the exception.\<close>

definition take_line :: "line_reader \<Rightarrow> (string + nat list option) \<times> line_reader" where
  "take_line r =
     (case find_newline (lr_chunk_offset r) (lr_chunks r) of
        None \<Rightarrow> (Inr None, r)
      | Some p \<Rightarrow>
          (let n = line_length (lr_chunk_offset r) (lr_chunks r) p
           in if n > max_control_bytes + 2
              then (let r1 = set_failure too_long r
                    in (Inl (case lr_failure r1 of None \<Rightarrow> too_long | Some e \<Rightarrow> e), r1))
              else (let line = copy_bytes (lr_chunk_offset r) (lr_chunks r) n;
                        (cs, start) = consume (lr_chunk_offset r) (lr_chunks r) n
                    in (Inr (Some line), r\<lparr>lr_chunks := cs, lr_chunk_offset := start,
                          lr_queued_bytes := lr_queued_bytes r - n\<rparr>))))"

text \<open>The bytes after the last newline, counted from the last chunk: the loop of \<open>assertPartialBounded\<close>.\<close>

definition tail_bytes :: "nat list \<Rightarrow> nat" where
  "tail_bytes c = length (takeWhile (\<lambda>b. b \<noteq> newline) (rev c))"

fun partial_loop :: "nat list list \<Rightarrow> nat" where
  "partial_loop [] = 0"
| "partial_loop (c # cs) = (if newline \<in> set c then tail_bytes c else length c + partial_loop cs)"

definition unread :: "nat \<Rightarrow> nat list list \<Rightarrow> nat list list" where
  "unread start cs = (case cs of [] \<Rightarrow> [] | c # rest \<Rightarrow> drop start c # rest)"

definition partial_bytes :: "nat \<Rightarrow> nat list list \<Rightarrow> nat" where
  "partial_bytes start cs = partial_loop (rev (unread start cs))"

definition take_remainder :: "line_reader \<Rightarrow> nat list option \<times> line_reader" where
  "take_remainder r =
     (if lr_queued_bytes r = 0 then (None, r)
      else (Some (concat (unread (lr_chunk_offset r) (lr_chunks r))),
            r\<lparr>lr_chunks := [], lr_chunk_offset := 0, lr_queued_bytes := 0\<rparr>))"

text \<open>
  What a read is answered with at once, if anything: a line, the failure, or the rest at the
  end. It is what \<open>read\<close> begins with and what \<open>resolveAvailable\<close> tries when something arrives.
\<close>

definition try_read :: "line_reader \<Rightarrow> read_answer option \<times> line_reader" where
  "try_read r =
     (case take_line r of
        (Inl e, r1) \<Rightarrow> (Some (ReadError e), r1)
      | (Inr (Some line), r1) \<Rightarrow> (Some (ReadLine (Some line)), r1)
      | (Inr None, r1) \<Rightarrow>
          (if partial_bytes (lr_chunk_offset r1) (lr_chunks r1) > max_control_bytes + 2
           then (let r2 = set_failure too_long r1
                 in (Some (ReadError (case lr_failure r2 of None \<Rightarrow> too_long | Some e \<Rightarrow> e)), r2))
           else (case lr_failure r1 of
                   Some e \<Rightarrow> (Some (ReadError e), r1)
                 | None \<Rightarrow>
                     (if lr_ended r1 then (let (rest, r2) = take_remainder r1 in (Some (ReadLine rest), r2))
                      else (None, r1)))))"

definition read_line :: "line_reader \<Rightarrow> read_answer option \<times> line_reader" where
  "read_line r = (case try_read r of (None, r1) \<Rightarrow> (None, r1\<lparr>lr_waiting := True\<rparr>) | answered \<Rightarrow> answered)"

definition resolve_available :: "line_reader \<Rightarrow> read_answer option \<times> line_reader" where
  "resolve_available r =
     (if \<not> lr_waiting r then (None, r)
      else (case try_read r of
              (None, r1) \<Rightarrow> (None, r1)
            | (Some a, r1) \<Rightarrow> (Some a, r1\<lparr>lr_waiting := False\<rparr>)))"

definition on_data :: "nat list \<Rightarrow> line_reader \<Rightarrow> read_answer option \<times> line_reader" where
  "on_data chunk r =
     resolve_available (r\<lparr>lr_chunks := lr_chunks r @ [chunk], lr_queued_bytes := lr_queued_bytes r + length chunk\<rparr>)"

definition on_end :: "line_reader \<Rightarrow> read_answer option \<times> line_reader" where
  "on_end r = resolve_available (r\<lparr>lr_ended := True\<rparr>)"

text \<open>\<open>fail\<close>, which \<open>onError\<close> and \<open>abort\<close> call: a second failure only rejects who waits.\<close>

definition fail_reader :: "string \<Rightarrow> line_reader \<Rightarrow> read_answer option \<times> line_reader" where
  "fail_reader e r =
     (case lr_failure r of
        Some old \<Rightarrow> (if lr_waiting r then Some (ReadError old) else None, r\<lparr>lr_waiting := False\<rparr>)
      | None \<Rightarrow> resolve_available (set_failure e r))"

section \<open>The reader of one list\<close>

record flat_reader =
  fr_content :: "nat list"
  fr_ended :: bool
  fr_failure :: "string option"
  fr_waiting :: bool

definition flat_failure :: "string \<Rightarrow> flat_reader \<Rightarrow> flat_reader" where
  "flat_failure e r = (case fr_failure r of None \<Rightarrow> r\<lparr>fr_failure := Some e, fr_ended := True\<rparr> | Some old \<Rightarrow> r)"

definition flat_try :: "flat_reader \<Rightarrow> read_answer option \<times> flat_reader" where
  "flat_try r =
     (let before = takeWhile (\<lambda>b. b \<noteq> newline) (fr_content r); failed = flat_failure too_long r;
          error = Some (ReadError (case fr_failure failed of None \<Rightarrow> too_long | Some e \<Rightarrow> e))
      in if newline \<in> set (fr_content r)
         then (if length before + 1 > max_control_bytes + 2 then (error, failed)
               else (Some (ReadLine (Some (before @ [newline]))),
                     r\<lparr>fr_content := drop (length before + 1) (fr_content r)\<rparr>))
         else if length (fr_content r) > max_control_bytes + 2 then (error, failed)
         else (case fr_failure r of
                 Some e \<Rightarrow> (Some (ReadError e), r)
               | None \<Rightarrow>
                   (if fr_ended r
                    then (if fr_content r = [] then (Some (ReadLine None), r)
                          else (Some (ReadLine (Some (fr_content r))), r\<lparr>fr_content := []\<rparr>))
                    else (None, r))))"

definition flat_read :: "flat_reader \<Rightarrow> read_answer option \<times> flat_reader" where
  "flat_read r = (case flat_try r of (None, r1) \<Rightarrow> (None, r1\<lparr>fr_waiting := True\<rparr>) | answered \<Rightarrow> answered)"

definition flat_available :: "flat_reader \<Rightarrow> read_answer option \<times> flat_reader" where
  "flat_available r =
     (if \<not> fr_waiting r then (None, r)
      else (case flat_try r of
              (None, r1) \<Rightarrow> (None, r1)
            | (Some a, r1) \<Rightarrow> (Some a, r1\<lparr>fr_waiting := False\<rparr>)))"

datatype reader_event = Arrived "nat list" | Ended | Broken string | Asked

fun reader_step :: "reader_event \<Rightarrow> line_reader \<Rightarrow> read_answer option \<times> line_reader" where
  "reader_step (Arrived chunk) r = on_data chunk r"
| "reader_step Ended r = on_end r"
| "reader_step (Broken e) r = fail_reader e r"
| "reader_step Asked r = read_line r"

fun flat_step :: "reader_event \<Rightarrow> flat_reader \<Rightarrow> read_answer option \<times> flat_reader" where
  "flat_step (Arrived chunk) r = flat_available (r\<lparr>fr_content := fr_content r @ chunk\<rparr>)"
| "flat_step Ended r = flat_available (r\<lparr>fr_ended := True\<rparr>)"
| "flat_step (Broken e) r =
     (case fr_failure r of
        Some old \<Rightarrow> (if fr_waiting r then Some (ReadError old) else None, r\<lparr>fr_waiting := False\<rparr>)
      | None \<Rightarrow> flat_available (flat_failure e r))"
| "flat_step Asked r = flat_read r"

fun run_events :: "(reader_event \<Rightarrow> 'r \<Rightarrow> read_answer option \<times> 'r) \<Rightarrow> reader_event list \<Rightarrow> 'r \<Rightarrow> read_answer option list" where
  "run_events act [] r = []"
| "run_events act (e # es) r = (case act e r of (a, r') \<Rightarrow> a # run_events act es r')"

definition flat_reader_new :: flat_reader where
  "flat_reader_new = \<lparr>fr_content = [], fr_ended = False, fr_failure = None, fr_waiting = False\<rparr>"

section \<open>Refinement\<close>

definition content :: "line_reader \<Rightarrow> nat list" where
  "content r = concat (unread (lr_chunk_offset r) (lr_chunks r))"

definition flat :: "line_reader \<Rightarrow> flat_reader" where
  "flat r = \<lparr>fr_content = content r, fr_ended = lr_ended r, fr_failure = lr_failure r, fr_waiting = lr_waiting r\<rparr>"

definition offset_ok :: "nat \<Rightarrow> nat list list \<Rightarrow> bool" where
  "offset_ok start cs \<longleftrightarrow> (case cs of [] \<Rightarrow> start = 0 | c # rest \<Rightarrow> start \<le> length c)"

definition reader_ok :: "line_reader \<Rightarrow> bool" where
  "reader_ok r \<longleftrightarrow> lr_queued_bytes r = length (content r) \<and> offset_ok (lr_chunk_offset r) (lr_chunks r)"

lemma offset_ok_simps [simp]: "offset_ok start [] \<longleftrightarrow> start = 0" "offset_ok start (c # cs) \<longleftrightarrow> start \<le> length c"
  by (simp_all add: offset_ok_def)

lemma offset_ok_zero [simp]: "offset_ok 0 cs"
  by (cases cs) simp_all

lemma index_from_eq:
  "index_from start c =
     (if newline \<in> set (drop start c) then Some (start + length (takeWhile (\<lambda>b. b \<noteq> newline) (drop start c))) else None)"
  by (induction start c rule: index_from.induct) auto

lemma unread_simps [simp]: "unread start [] = []" "unread start (c # cs) = drop start c # cs"
  by (simp_all add: unread_def)

lemma unread_zero [simp]: "unread 0 cs = cs"
  by (cases cs) simp_all

text \<open>The position of the first newline gives the line up to it.\<close>

lemma find_newline_line:
  "offset_ok start cs \<Longrightarrow>
   (case find_newline start cs of
      None \<Rightarrow> newline \<notin> set (concat (unread start cs))
    | Some p \<Rightarrow> newline \<in> set (concat (unread start cs)) \<and>
        line_length start cs p = Suc (length (takeWhile (\<lambda>b. b \<noteq> newline) (concat (unread start cs)))))"
proof (induction start cs rule: find_newline.induct)
  case (2 start c cs)
  show ?case
  proof (cases "newline \<in> set (drop start c)")
    case True
    then show ?thesis by (simp add: index_from_eq takeWhile_append1)
  next
    case False
    then have i: "index_from start c = None" by (simp add: index_from_eq)
    have "takeWhile (\<lambda>b. b \<noteq> newline) (drop start c @ concat cs) =
        drop start c @ takeWhile (\<lambda>b. b \<noteq> newline) (concat cs)"
      using False by (intro takeWhile_append2) auto
    then show ?thesis
      using 2 i False by (cases cs) (auto split: option.splits)
  qed
qed simp

lemma copy_bytes_eq:
  "offset_ok start cs \<Longrightarrow> copy_bytes start cs n = take n (concat (unread start cs))"
proof (induction start cs n rule: copy_bytes.induct)
  case (2 start c cs n)
  then show ?case by (cases cs) (auto simp: Let_def min_def)
qed simp

lemma consume_eq:
  "offset_ok start cs \<Longrightarrow> n \<le> length (concat (unread start cs)) \<Longrightarrow>
   (case consume start cs n of (cs', start') \<Rightarrow>
      concat (unread start' cs') = drop n (concat (unread start cs)) \<and> offset_ok start' cs')"
proof (induction start cs n rule: consume.induct)
  case (2 start c cs n)
  show ?case
  proof (cases "n = 0 \<or> n < length c - start")
    case True
    then show ?thesis using 2 by (auto simp: Let_def min_def add.commute)
  next
    case False
    then obtain m where n: "n = (length c - start) + m" "n \<noteq> 0" by (metis le_add_diff_inverse not_less)
    have min: "min n (length c - start) = length c - start" "start + (length c - start) = length c" "n - (length c - start) = m"
      using 2(2) by (auto simp: n)
    have "case consume 0 cs m of (cs', start') \<Rightarrow>
        concat (unread start' cs') = drop m (concat (unread 0 cs)) \<and> offset_ok start' cs'"
      using 2(1) [OF n(2) min(1) [symmetric]] 2(3) min n(1) by simp
    then show ?thesis using n(2) by (simp add: Let_def min) (simp add: n(1))
  qed
qed simp

text \<open>The loop from the last chunk counts the bytes after the last newline.\<close>

lemma partial_loop_eq: "partial_loop cs = length (takeWhile (\<lambda>b. b \<noteq> newline) (concat (map rev cs)))"
proof (induction cs)
  case (Cons c cs)
  show ?case
  proof (cases "newline \<in> set c")
    case True
    then show ?thesis by (simp add: tail_bytes_def takeWhile_append1)
  next
    case False
    then have "takeWhile (\<lambda>b. b \<noteq> newline) (rev c @ concat (map rev cs)) = rev c @ takeWhile (\<lambda>b. b \<noteq> newline) (concat (map rev cs))"
      by (intro takeWhile_append2) auto
    then show ?thesis using Cons False by simp
  qed
qed simp

lemma partial_bytes_eq: "partial_bytes start cs = length (takeWhile (\<lambda>b. b \<noteq> newline) (rev (concat (unread start cs))))"
  by (simp add: partial_bytes_def partial_loop_eq rev_concat rev_map)

lemma partial_bytes_none: "newline \<notin> set (concat (unread start cs)) \<Longrightarrow> partial_bytes start cs = length (concat (unread start cs))"
  unfolding partial_bytes_eq by (subst takeWhile_eq_all_conv [THEN iffD2]) auto

section \<open>Each operation commutes\<close>

lemma set_failure_flat: "flat (set_failure e r) = flat_failure e (flat r)" "reader_ok r \<Longrightarrow> reader_ok (set_failure e r)"
  by (auto simp: set_failure_def flat_failure_def flat_def content_def reader_ok_def split: option.splits)

lemma lr_failure_flat [simp]: "fr_failure (flat r) = lr_failure r" "fr_content (flat r) = content r" "fr_ended (flat r) = lr_ended r"
  "fr_waiting (flat r) = lr_waiting r"
  by (simp_all add: flat_def)

lemma line_at:
  "newline \<in> set xs \<Longrightarrow>
     take (Suc (length (takeWhile (\<lambda>b. b \<noteq> newline) xs))) xs = takeWhile (\<lambda>b. b \<noteq> newline) xs @ [newline] \<and>
     Suc (length (takeWhile (\<lambda>b. b \<noteq> newline) xs)) \<le> length xs"
  by (induction xs) auto

lemma take_line_flat:
  assumes "reader_ok r" and "newline \<in> set (content r)"
  shows "\<exists>r'. try_read r = (fst (flat_try (flat r)), r') \<and> flat r' = snd (flat_try (flat r)) \<and> reader_ok r'"
proof -
  let ?start = "lr_chunk_offset r" and ?cs = "lr_chunks r"
  let ?n = "Suc (length (takeWhile (\<lambda>b. b \<noteq> newline) (content r)))"
  have ok: "offset_ok ?start ?cs" "lr_queued_bytes r = length (content r)" using assms(1) by (simp_all add: reader_ok_def)
  obtain p where p: "find_newline ?start ?cs = Some p" "line_length ?start ?cs p = ?n"
    using find_newline_line [OF ok(1)] assms(2) by (auto simp: content_def split: option.splits)
  have len: "?n \<le> length (content r)"
    and line: "take ?n (content r) = takeWhile (\<lambda>b. b \<noteq> newline) (content r) @ [newline]"
    using line_at [OF assms(2)] by simp_all
  obtain cs' start' where c: "consume ?start ?cs ?n = (cs', start')" "concat (unread start' cs') = drop ?n (content r)"
      "offset_ok start' cs'"
    using consume_eq [OF ok(1), of ?n] len by (auto simp: content_def split: prod.splits)
  have copy: "copy_bytes ?start ?cs ?n = takeWhile (\<lambda>b. b \<noteq> newline) (content r) @ [newline]"
    using copy_bytes_eq [OF ok(1), of ?n] line by (simp add: content_def)
  show ?thesis
  proof (cases "?n > max_control_bytes + 2")
    case True
    then have "take_line r = (Inl (case lr_failure (set_failure too_long r) of None \<Rightarrow> too_long | Some e \<Rightarrow> e), set_failure too_long r)"
      by (simp add: take_line_def p Let_def)
    then show ?thesis
      using True assms set_failure_flat [where e = too_long and r = r] by (auto simp: try_read_def flat_try_def Let_def simp flip: set_failure_flat(1))
  next
    case False
    then have "take_line r = (Inr (Some (takeWhile (\<lambda>b. b \<noteq> newline) (content r) @ [newline])),
        r\<lparr>lr_chunks := cs', lr_chunk_offset := start', lr_queued_bytes := lr_queued_bytes r - ?n\<rparr>)"
      by (simp add: take_line_def p c(1) copy)
    then show ?thesis
      using False assms(2) c ok(2) by (simp add: try_read_def flat_try_def Let_def flat_def content_def reader_ok_def)
  qed
qed

lemma try_read_flat:
  assumes "reader_ok r"
  shows "\<exists>r'. try_read r = (fst (flat_try (flat r)), r') \<and> flat r' = snd (flat_try (flat r)) \<and> reader_ok r'"
proof (cases "newline \<in> set (content r)")
  case False
  then have none: "find_newline (lr_chunk_offset r) (lr_chunks r) = None"
    using find_newline_line [of "lr_chunk_offset r" "lr_chunks r"] assms
    by (auto simp: reader_ok_def content_def split: option.splits)
  have partial: "partial_bytes (lr_chunk_offset r) (lr_chunks r) = length (content r)"
    using partial_bytes_none False by (simp add: content_def)
  have rest: "take_remainder r = (if content r = [] then (None, r)
      else (Some (content r), r\<lparr>lr_chunks := [], lr_chunk_offset := 0, lr_queued_bytes := 0\<rparr>))"
    using assms by (auto simp: take_remainder_def reader_ok_def content_def)
  note defs = try_read_def take_line_def none partial flat_try_def Let_def False
  show ?thesis
  proof (cases "length (content r) > max_control_bytes + 2")
    case True
    then show ?thesis
      using assms set_failure_flat [where e = too_long and r = r] by (simp add: defs flip: set_failure_flat(1))
  next
    case small: False
    show ?thesis
    proof (cases "lr_failure r")
      case None
      have ok: "reader_ok (r\<lparr>lr_chunks := [], lr_chunk_offset := 0, lr_queued_bytes := 0\<rparr>)"
        by (simp add: reader_ok_def content_def)
      show ?thesis
        using small assms ok by (cases "content r = []"; cases "lr_ended r") (simp_all add: defs None rest, simp_all add: flat_def content_def)
    qed (use small assms in \<open>simp add: defs\<close>)
  qed
qed (rule take_line_flat [OF assms])

lemma waiting_flat: "flat (r\<lparr>lr_waiting := b\<rparr>) = (flat r)\<lparr>fr_waiting := b\<rparr>" "reader_ok (r\<lparr>lr_waiting := b\<rparr>) = reader_ok r"
  by (simp_all add: flat_def content_def reader_ok_def)

lemma read_line_flat:
  "reader_ok r \<Longrightarrow> \<exists>r'. read_line r = (fst (flat_read (flat r)), r') \<and> flat r' = snd (flat_read (flat r)) \<and> reader_ok r'"
  using try_read_flat [of r] waiting_flat
  by (cases "flat_try (flat r)"; cases "fst (flat_try (flat r))") (auto simp: read_line_def flat_read_def)

lemma resolve_available_flat:
  "reader_ok r \<Longrightarrow>
     \<exists>r'. resolve_available r = (fst (flat_available (flat r)), r') \<and> flat r' = snd (flat_available (flat r)) \<and> reader_ok r'"
  using try_read_flat [of r] waiting_flat
  by (cases "flat_try (flat r)"; cases "fst (flat_try (flat r))") (auto simp: resolve_available_def flat_available_def)

lemma arrived_flat:
  "reader_ok r \<Longrightarrow>
     reader_ok (r\<lparr>lr_chunks := lr_chunks r @ [chunk], lr_queued_bytes := lr_queued_bytes r + length chunk\<rparr>) \<and>
     flat (r\<lparr>lr_chunks := lr_chunks r @ [chunk], lr_queued_bytes := lr_queued_bytes r + length chunk\<rparr>) =
       (flat r)\<lparr>fr_content := content r @ chunk\<rparr>"
  by (cases "lr_chunks r") (simp_all add: reader_ok_def flat_def content_def)

lemma reader_step_flat:
  assumes "reader_ok r"
  shows "\<exists>r'. reader_step e r = (fst (flat_step e (flat r)), r') \<and> flat r' = snd (flat_step e (flat r)) \<and> reader_ok r'"
proof (cases e)
  case (Arrived chunk)
  then show ?thesis
    using resolve_available_flat [OF conjunct1 [OF arrived_flat [OF assms]]] conjunct2 [OF arrived_flat [OF assms]]
    by (simp add: on_data_def)
next
  case Ended
  have "reader_ok (r\<lparr>lr_ended := True\<rparr>)" "flat (r\<lparr>lr_ended := True\<rparr>) = (flat r)\<lparr>fr_ended := True\<rparr>"
    using assms by (simp_all add: reader_ok_def flat_def content_def)
  then show ?thesis using resolve_available_flat by (fastforce simp: Ended on_end_def)
next
  case (Broken m)
  show ?thesis
  proof (cases "lr_failure r")
    case None
    then show ?thesis
      using resolve_available_flat [of "set_failure m r"] set_failure_flat [where e = m and r = r] assms
      by (simp add: Broken fail_reader_def)
  qed (use assms waiting_flat in \<open>simp add: Broken fail_reader_def\<close>)
next
  case Asked
  then show ?thesis using read_line_flat [OF assms] by simp
qed

text \<open>
  C21: lines do not depend on how the bytes arrive. Whatever arrives, ends, breaks and is asked
  for, in any order, the reader answers every time as a reader does that keeps what arrived as
  one list of bytes, cuts it at the first newline, and refuses a line, or the beginning of one,
  of more than 4 MiB and two bytes.
\<close>

theorem line_reader_refines:
  "run_events reader_step es line_reader_new = run_events flat_step es flat_reader_new"
proof -
  have "run_events reader_step es r = run_events flat_step es (flat r)" if "reader_ok r" for r
    using that
  proof (induction es arbitrary: r)
    case (Cons e es)
    from reader_step_flat [OF Cons.prems, of e] obtain r' where
        "reader_step e r = (fst (flat_step e (flat r)), r')" "flat r' = snd (flat_step e (flat r))" "reader_ok r'"
      by blast
    then show ?case using Cons.IH [of r'] by (simp split: prod.splits)
  qed simp
  moreover have "reader_ok line_reader_new" "flat line_reader_new = flat_reader_new"
    by (simp_all add: reader_ok_def line_reader_new_def flat_def flat_reader_new_def content_def)
  ultimately show ?thesis by metis
qed

end
