(* ===== verification/GatewayExecution.thy ===== *)
theory GatewayExecution
  imports GatewayProtocol
begin

text \<open>
  The broker's half of the execution of one command (\<open>runGatewayExecution\<close> in
  \<open>src/hostexec/gateway_execution.ts\<close>): it sends \<open>start\<close>, reads what the gateway reports, passes
  raw output through a filter for each stream, and sends the result when the command ended and
  both filters drained. It is a state machine: the phase is the \<open>await\<close> the code stands at, and
  an event is what ends it. Writes are queued (\<open>MessageWriter\<close>) and validated when they are
  their turn; after one failed write every later one fails.

  The filter processes and the hooks for diagnostics are outside: when they succeed, what they
  print and when they fail are events.
\<close>

section \<open>State\<close>

datatype execution_phase =
    Starting
  | ReadingLine
  | Announcing
  | WritingOutput
  | Recording int
  | DrainingFilters int
  | Flushing int
  | Reporting int
  | Killing
  | Stopping
  | Completed
  | Aborted

record execution =
  gx_request_id :: string
  gx_filtered :: bool
  gx_phase :: execution_phase
  gx_state :: gateway_state
  gx_spawned :: bool
  gx_pipelines :: bool
  gx_start_sent :: bool
  gx_command_may_exist :: bool
  gx_unhealthy :: bool
  gx_queue :: "broker_to_gateway list"
  gx_write_failed :: bool
  gx_sent :: "broker_to_gateway list"

datatype execution_event =
    WriteDone bool
  | LineRead "json option"
  | ReadEnded
  | ReadFailed
  | HookDone bool
  | OutputAccepted bool
  | FilterPrinted nat string
  | FilterBroke
  | FiltersExited "int list"
  | Interrupted
  | Flushed
  | Stopped

text \<open>\<open>MessageWriter.send\<close>\<close>

definition enqueue :: "broker_to_gateway \<Rightarrow> execution \<Rightarrow> execution" where
  "enqueue m x = x\<lparr>gx_queue := gx_queue x @ [m]\<rparr>"

definition execution_new :: "string \<Rightarrow> start_message \<Rightarrow> bool \<Rightarrow> execution" where
  "execution_new rid start filtered =
     enqueue (BgStart rid start)
       \<lparr>gx_request_id = rid, gx_filtered = filtered, gx_phase = Starting, gx_state = AwaitingDecision,
        gx_spawned = False, gx_pipelines = False, gx_start_sent = False, gx_command_may_exist = False,
        gx_unhealthy = False, gx_queue = [], gx_write_failed = False, gx_sent = []\<rparr>"

text \<open>The handler of an exception: a command that may still run is killed.\<close>

definition abort_execution :: "execution \<Rightarrow> execution" where
  "abort_execution x =
     (if gx_start_sent x \<and> gx_command_may_exist x \<and> gx_state x = RunningState
      then enqueue (BgKill (gx_request_id x) SigTerm) (x\<lparr>gx_phase := Killing\<rparr>)
      else x\<lparr>gx_phase := Stopping\<rparr>)"

section \<open>Steps\<close>

text \<open>What is done with a message of the gateway, in the order of the code's checks.\<close>

definition gateway_message_id :: "gateway_to_broker \<Rightarrow> string option" where
  "gateway_message_id m =
     (case m of
        GwExecute q \<Rightarrow> None
      | GwSpawned rid pid \<Rightarrow> Some rid
      | GwRawChunk rid fd data \<Rightarrow> Some rid
      | GwProcessExit rid code \<Rightarrow> Some rid
      | GwCancelled rid reason \<Rightarrow> Some rid
      | GwTransportError rid message \<Rightarrow> Some rid)"

definition receive :: "gateway_to_broker \<Rightarrow> execution \<Rightarrow> execution" where
  "receive m x =
     (if gateway_message_id m \<noteq> Some (gx_request_id x) then abort_execution x
      else (case m of
              GwSpawned rid pid \<Rightarrow>
                (if gx_spawned x then abort_execution x
                 else x\<lparr>gx_spawned := True, gx_state := RunningState, gx_phase := Announcing\<rparr>)
            | GwRawChunk rid fd data \<Rightarrow>
                (if \<not> gx_spawned x then abort_execution x
                 else if gx_filtered x then x\<lparr>gx_phase := WritingOutput\<rparr>
                 else enqueue (BgMaskedChunk (gx_request_id x) fd data) (x\<lparr>gx_phase := WritingOutput\<rparr>))
            | GwProcessExit rid code \<Rightarrow>
                (if \<not> gx_spawned x then abort_execution x
                 else x\<lparr>gx_state := AwaitingResult, gx_phase := Recording code\<rparr>)
            | _ \<Rightarrow> abort_execution x))"

definition read_arrived :: "json option \<Rightarrow> execution \<Rightarrow> execution" where
  "read_arrived line x =
     (if gx_unhealthy x then abort_execution x
      else (case Option.bind line (\<lambda>v. parse_gateway_to_broker v (gx_state x)) of
              None \<Rightarrow> abort_execution x
            | Some m \<Rightarrow> receive m x))"

text \<open>
  The write at the head of the queue: it is validated in the state of this moment. Whoever
  awaits it goes on, or into the handler of the exception.
\<close>

definition write_succeeds :: "bool \<Rightarrow> broker_to_gateway \<Rightarrow> execution \<Rightarrow> bool" where
  "write_succeeds socket_ok m x \<longleftrightarrow> socket_ok \<and> \<not> gx_write_failed x \<and>
     parse_broker_to_gateway (broker_json m) (gx_state x) \<noteq> None"

definition written :: "broker_to_gateway \<Rightarrow> bool \<Rightarrow> execution \<Rightarrow> execution" where
  "written m ok x =
     (case m of
        BgStart rid s \<Rightarrow>
          (if ok then x\<lparr>gx_start_sent := True, gx_command_may_exist := True, gx_state := RunningState,
                        gx_phase := ReadingLine\<rparr>
           else abort_execution x)
      | BgMaskedChunk rid fd data \<Rightarrow>
          (if gx_filtered x then (if ok then x else x\<lparr>gx_unhealthy := True\<rparr>)
           else if gx_phase x = WritingOutput then (if ok then x\<lparr>gx_phase := ReadingLine\<rparr> else abort_execution x)
           else x)
      | BgResult rid code \<Rightarrow>
          (if ok then x\<lparr>gx_command_may_exist := False, gx_state := TerminalState, gx_phase := Completed\<rparr>
           else abort_execution x)
      | BgKill rid s \<Rightarrow> x\<lparr>gx_phase := Stopping\<rparr>
      | _ \<Rightarrow> x)"

definition write_head :: "bool \<Rightarrow> execution \<Rightarrow> execution option" where
  "write_head socket_ok x =
     (case gx_queue x of
        [] \<Rightarrow> None
      | m # rest \<Rightarrow>
          (let ok = write_succeeds socket_ok m x;
               x1 = x\<lparr>gx_queue := rest, gx_write_failed := \<not> ok,
                      gx_sent := (if ok then gx_sent x @ [m] else gx_sent x)\<rparr>
           in Some (written m ok x1)))"

text \<open>
  One event; \<open>None\<close> where the code does not wait for it. \<open>Interrupted\<close>: the gateway sent or ended
  while the end was being recorded or the filters drained, or the broker cancelled.
\<close>

fun execution_step :: "execution_event \<Rightarrow> execution \<Rightarrow> execution option" where
  "execution_step (WriteDone socket_ok) x = write_head socket_ok x"
| "execution_step (LineRead line) x = (if gx_phase x = ReadingLine then Some (read_arrived line x) else None)"
| "execution_step ReadEnded x = (if gx_phase x = ReadingLine then Some (abort_execution x) else None)"
| "execution_step ReadFailed x = (if gx_phase x = ReadingLine then Some (abort_execution x) else None)"
| "execution_step (HookDone ok) x =
     (case gx_phase x of
        Announcing \<Rightarrow>
          (if ok then Some (x\<lparr>gx_pipelines := True, gx_phase := ReadingLine\<rparr>) else Some (abort_execution x))
      | Recording code \<Rightarrow> Some (if ok then x\<lparr>gx_phase := DrainingFilters code\<rparr> else abort_execution x)
      | _ \<Rightarrow> None)"
| "execution_step (OutputAccepted ok) x =
     (if gx_phase x = WritingOutput \<and> gx_filtered x
      then Some (if ok then x\<lparr>gx_phase := ReadingLine\<rparr> else abort_execution x) else None)"
| "execution_step (FilterPrinted fd data) x =
     (if gx_filtered x \<and> gx_pipelines x \<and> gx_phase x \<notin> {Completed, Aborted}
      then Some (enqueue (BgMaskedChunk (gx_request_id x) fd data) x) else None)"
| "execution_step FilterBroke x = (if gx_filtered x \<and> gx_pipelines x then Some (x\<lparr>gx_unhealthy := True\<rparr>) else None)"
| "execution_step (FiltersExited exits) x =
     (case gx_phase x of
        DrainingFilters code \<Rightarrow>
          Some (if list_ex (\<lambda>exit_code. exit_code \<noteq> 0) exits then abort_execution x else x\<lparr>gx_phase := Flushing code\<rparr>)
      | _ \<Rightarrow> None)"
| "execution_step Interrupted x =
     (case gx_phase x of
        Recording code \<Rightarrow> Some (abort_execution x)
      | DrainingFilters code \<Rightarrow> Some (abort_execution x)
      | _ \<Rightarrow> None)"
| "execution_step Flushed x =
     (case gx_phase x of
        Flushing code \<Rightarrow>
          (if gx_queue x \<noteq> [] then None
           else if gx_write_failed x then Some (abort_execution x)
           else Some (enqueue (BgResult (gx_request_id x) code) (x\<lparr>gx_phase := Reporting code\<rparr>)))
      | _ \<Rightarrow> None)"
| "execution_step Stopped x = (if gx_phase x = Stopping then Some (x\<lparr>gx_phase := Aborted\<rparr>) else None)"

fun execution_run :: "execution_event list \<Rightarrow> execution \<Rightarrow> execution option" where
  "execution_run [] x = Some x"
| "execution_run (e # es) x = Option.bind (execution_step e x) (execution_run es)"

section \<open>What is sent\<close>

fun is_chunk :: "broker_to_gateway \<Rightarrow> bool" where
  "is_chunk (BgMaskedChunk rid fd data) = True"
| "is_chunk m = False"

text \<open>What is not output, of the messages sent or waiting.\<close>

definition controls :: "broker_to_gateway list \<Rightarrow> broker_to_gateway list" where
  "controls ms = filter (\<lambda>m. \<not> is_chunk m) ms"

lemma controls_simps [simp]:
  "controls [] = []" "controls (ms @ ns) = controls ms @ controls ns"
  "controls (m # ms) = (if is_chunk m then controls ms else m # controls ms)"
  by (simp_all add: controls_def)

text \<open>The message a phase waits to be written.\<close>

fun awaited :: "string \<Rightarrow> start_message \<Rightarrow> execution_phase \<Rightarrow> broker_to_gateway list" where
  "awaited rid s Starting = [BgStart rid s]"
| "awaited rid s (Reporting code) = [BgResult rid code]"
| "awaited rid s Killing = [BgKill rid SigTerm]"
| "awaited rid s phase = []"

definition reported :: "string \<Rightarrow> execution_event list \<Rightarrow> int \<Rightarrow> bool" where
  "reported rid es code \<longleftrightarrow>
     (\<exists>v. LineRead (Some v) \<in> set es \<and> read_gateway_to_broker v = Some (GwProcessExit rid code))"

text \<open>The exit code a phase carries was reported by the gateway.\<close>

fun phase_code :: "execution_phase \<Rightarrow> int option" where
  "phase_code (Recording code) = Some code"
| "phase_code (DrainingFilters code) = Some code"
| "phase_code (Flushing code) = Some code"
| "phase_code (Reporting code) = Some code"
| "phase_code phase = None"

definition sent_so_far :: "string \<Rightarrow> start_message \<Rightarrow> execution_event list \<Rightarrow> execution \<Rightarrow> bool" where
  "sent_so_far rid s es x \<longleftrightarrow>
     (case gx_phase x of
        Starting \<Rightarrow> gx_sent x = [] \<and> gx_state x = AwaitingDecision \<and> \<not> gx_start_sent x
      | Completed \<Rightarrow> (\<exists>code chunks. gx_sent x = BgStart rid s # chunks @ [BgResult rid code] \<and> list_all is_chunk chunks \<and>
          reported rid es code) \<and> gx_state x = TerminalState
      | Stopping \<Rightarrow> controls (gx_sent x) = [] \<or> controls (gx_sent x) = [BgStart rid s] \<or>
          controls (gx_sent x) = [BgStart rid s, BgKill rid SigTerm] \<and> gx_state x = RunningState
      | Aborted \<Rightarrow> controls (gx_sent x) = [] \<or> controls (gx_sent x) = [BgStart rid s] \<or>
          controls (gx_sent x) = [BgStart rid s, BgKill rid SigTerm] \<and> gx_state x = RunningState
      | phase \<Rightarrow> (\<exists>chunks. gx_sent x = BgStart rid s # chunks \<and> list_all is_chunk chunks) \<and>
          (phase_code phase = None \<longrightarrow> gx_state x = RunningState) \<and>
          (\<forall>code. phase_code phase = Some code \<longrightarrow> gx_state x = AwaitingResult \<and> reported rid es code))"

definition execution_inv :: "string \<Rightarrow> start_message \<Rightarrow> execution_event list \<Rightarrow> execution \<Rightarrow> bool" where
  "execution_inv rid s es x \<longleftrightarrow> gx_request_id x = rid \<and> controls (gx_queue x) = awaited rid s (gx_phase x) \<and>
     sent_so_far rid s es x"

lemma controls_chunks: "list_all is_chunk ms \<Longrightarrow> controls ms = []"
  by (induction ms) auto

lemma execution_inv_new: "execution_inv rid s [] (execution_new rid s filtered)"
  by (simp add: execution_inv_def execution_new_def enqueue_def sent_so_far_def)

lemma reported_snoc: "reported rid es code \<Longrightarrow> reported rid (es @ [e]) code"
  by (auto simp: reported_def)

text \<open>An exception in a phase that waits for no write.\<close>

lemma abort_inv:
  assumes "execution_inv rid s es x" and "awaited rid s (gx_phase x) = []" and "gx_phase x \<notin> {Completed, Aborted, Stopping}"
  shows "execution_inv rid s es' (abort_execution x)"
  using assms
  by (cases "gx_phase x") (auto simp: execution_inv_def abort_execution_def enqueue_def sent_so_far_def controls_chunks)

lemma sent_so_far_snoc: "sent_so_far rid s es x \<Longrightarrow> sent_so_far rid s (es @ [e]) x"
  by (auto simp: sent_so_far_def intro: reported_snoc split: execution_phase.splits)

text \<open>A chunk of output is written, or is not.\<close>

lemma chunk_inv:
  assumes "execution_inv rid s es x" and "gx_queue x = m # rest" and "is_chunk m"
    and "ok \<longrightarrow> gx_state x \<in> set (states_for_broker m)"
  shows "execution_inv rid s es (x\<lparr>gx_queue := rest, gx_write_failed := failed,
    gx_sent := (if ok then gx_sent x @ [m] else gx_sent x)\<rparr>)"
proof -
  obtain r fd data where m: "m = BgMaskedChunk r fd data" using assms(3) by (cases m) auto
  show ?thesis
    using assms
    by (cases "gx_phase x") (auto simp: m execution_inv_def sent_so_far_def)
qed

lemma inv_flags:
  "execution_inv rid s es (x\<lparr>gx_unhealthy := b\<rparr>) = execution_inv rid s es x"
  "execution_inv rid s es (x\<lparr>gx_pipelines := b\<rparr>) = execution_inv rid s es x"
  by (simp_all add: execution_inv_def sent_so_far_def split: execution_phase.splits)

lemma write_chunk_inv:
  assumes "execution_inv rid s es x" and "gx_queue x = m # rest" and "is_chunk m"
    and "write_head socket_ok x = Some x'"
  shows "execution_inv rid s es x'"
proof -
  obtain r fd data where m: "m = BgMaskedChunk r fd data" using assms(3) by (cases m) auto
  define ok where "ok = write_succeeds socket_ok m x"
  define x1 where "x1 = x\<lparr>gx_queue := rest, gx_write_failed := \<not> ok, gx_sent := (if ok then gx_sent x @ [m] else gx_sent x)\<rparr>"
  have legal: "ok \<longrightarrow> gx_state x \<in> set (states_for_broker m)"
    by (auto simp: ok_def write_succeeds_def parse_broker_to_gateway_def split: option.splits if_splits)
      (auto simp: read_broker_json split: if_splits)
  have inv: "execution_inv rid s es x1"
    unfolding x1_def by (rule chunk_inv [OF assms(1-3) legal])
  have x': "x' = written m ok x1" using assms(4) by (simp add: write_head_def assms(2) ok_def x1_def Let_def)
  show ?thesis
  proof (cases "gx_phase x1 = WritingOutput \<and> \<not> gx_filtered x1")
    case True
    then have "execution_inv rid s es (abort_execution x1)" by (intro abort_inv [OF inv]) simp_all
    moreover have "execution_inv rid s es (x1\<lparr>gx_phase := ReadingLine\<rparr>)"
      using inv True by (auto simp: execution_inv_def sent_so_far_def)
    ultimately show ?thesis using True by (simp add: x' m written_def)
  next
    case False
    then show ?thesis using inv by (auto simp: x' m written_def inv_flags)
  qed
qed

lemma write_control_inv:
  assumes "execution_inv rid s es x" and "gx_queue x = m # rest" and "\<not> is_chunk m"
    and "write_head socket_ok x = Some x'"
  shows "execution_inv rid s es x'"
proof -
  have q: "[m] = awaited rid s (gx_phase x)" "controls rest = []"
    using assms(1-3) by (cases "gx_phase x"; auto simp: execution_inv_def)+
  show ?thesis
    using assms q
    by (cases "gx_phase x")
      (auto simp: write_head_def written_def execution_inv_def sent_so_far_def abort_execution_def controls_chunks Let_def)
qed

text \<open>From one phase to the next while the command runs, and after it ended.\<close>

lemma running_inv:
  assumes "execution_inv rid s es x" and "gx_phase x \<in> {ReadingLine, Announcing, WritingOutput}"
  shows "p \<in> {ReadingLine, Announcing, WritingOutput} \<Longrightarrow> execution_inv rid s es (x\<lparr>gx_phase := p\<rparr>)"
    and "reported rid es code \<Longrightarrow> execution_inv rid s es (x\<lparr>gx_state := AwaitingResult, gx_phase := Recording code\<rparr>)"
    and "is_chunk m \<Longrightarrow> execution_inv rid s es (enqueue m x)"
    and "execution_inv rid s es (x\<lparr>gx_spawned := b\<rparr>)" and "gx_state x = RunningState"
  using assms by (auto simp: execution_inv_def sent_so_far_def enqueue_def)

lemma ended_inv:
  assumes "execution_inv rid s es x" and "phase_code (gx_phase x) = Some code" and "awaited rid s (gx_phase x) = []"
  shows "execution_inv rid s es (x\<lparr>gx_phase := DrainingFilters code\<rparr>)"
    and "execution_inv rid s es (x\<lparr>gx_phase := Flushing code\<rparr>)"
    and "execution_inv rid s es (enqueue (BgResult (gx_request_id x) code) (x\<lparr>gx_phase := Reporting code\<rparr>))"
  using assms by (cases "gx_phase x"; auto simp: execution_inv_def sent_so_far_def enqueue_def)+

lemma stopped_inv:
  "execution_inv rid s es x \<Longrightarrow> gx_phase x = Stopping \<Longrightarrow> execution_inv rid s es (x\<lparr>gx_phase := Aborted\<rparr>)"
  by (simp add: execution_inv_def sent_so_far_def)

lemma receive_inv:
  assumes "execution_inv rid s es x" and "gx_phase x = ReadingLine"
    and "\<And>code. m = GwProcessExit rid code \<Longrightarrow> reported rid es code"
  shows "execution_inv rid s es (receive m x)"
proof -
  have p: "gx_phase x \<in> {ReadingLine, Announcing, WritingOutput}" using assms(2) by simp
  have abort: "execution_inv rid s es (abort_execution x)" using assms by (intro abort_inv) auto
  have id: "gx_request_id x = rid" using assms(1) by (simp add: execution_inv_def)
  have state: "gx_state x = RunningState" by (rule running_inv(5) [OF assms(1) p])
  have writing: "execution_inv rid s es (x\<lparr>gx_phase := WritingOutput\<rparr>)" by (rule running_inv(1) [OF assms(1) p]) simp
  have spawned: "execution_inv rid s es (x\<lparr>gx_spawned := True, gx_state := RunningState, gx_phase := Announcing\<rparr>)"
    using running_inv(4) [OF running_inv(1) [OF assms(1) p, of Announcing], of True] state
    by (simp add: execution_inv_def sent_so_far_def)
  have chunk: "execution_inv rid s es (enqueue (BgMaskedChunk rid fd data) (x\<lparr>gx_phase := WritingOutput\<rparr>))" for fd data
    by (rule running_inv(3) [OF writing]) simp_all
  show ?thesis
  proof (cases "gateway_message_id m = Some rid")
    case True
    then show ?thesis
      using abort writing spawned chunk running_inv(2) [OF assms(1) p] assms(3)
      by (cases m) (simp_all add: receive_def gateway_message_id_def id)
  qed (simp add: receive_def id abort)
qed

lemma execution_step_inv:
  assumes "execution_inv rid s es x" and "execution_step e x = Some x'"
  shows "execution_inv rid s (es @ [e]) x'"
proof -
  have inv: "execution_inv rid s (es @ [e]) x"
    using assms(1) sent_so_far_snoc by (auto simp: execution_inv_def)
  have abort: "execution_inv rid s (es @ [e]) (abort_execution x)"
    if "awaited rid s (gx_phase x) = []" "gx_phase x \<notin> {Completed, Aborted, Stopping}"
    using abort_inv [OF inv that] .
  show ?thesis
  proof (cases e)
    case (WriteDone socket_ok)
    then obtain m rest where q: "gx_queue x = m # rest" "write_head socket_ok x = Some x'"
      using assms(2) by (cases "gx_queue x") (auto simp: write_head_def)
    then show ?thesis
      using write_chunk_inv [OF inv q(1) _ q(2)] write_control_inv [OF inv q(1) _ q(2)] by blast
  next
    case (LineRead line)
    then have phase: "gx_phase x = ReadingLine" and x': "x' = read_arrived line x" using assms(2) by (auto split: if_splits)
    have aborted: "execution_inv rid s (es @ [e]) (abort_execution x)" using phase abort by simp
    show ?thesis
    proof (cases "\<not> gx_unhealthy x \<and> Option.bind line (\<lambda>v. parse_gateway_to_broker v (gx_state x)) \<noteq> None")
      case True
      then obtain v m where v: "line = Some v" "parse_gateway_to_broker v (gx_state x) = Some m" by (cases line) auto
      have m: "read_gateway_to_broker v = Some m" "gx_state x \<in> set (states_for_gateway m)"
        using v(2) by (auto simp: parse_gateway_to_broker_def split: option.splits if_splits)
      have "execution_inv rid s (es @ [e]) (receive m x)"
        using m(1) by (intro receive_inv [OF inv phase]) (auto simp: reported_def LineRead v(1))
      then show ?thesis using True v by (simp add: x' read_arrived_def)
    qed (use aborted in \<open>auto simp: x' read_arrived_def split: option.splits\<close>)
  next
    case (HookDone ok)
    then show ?thesis
      using assms(2) abort running_inv(1) [of rid s "es @ [e]" "x\<lparr>gx_pipelines := True\<rparr>" ReadingLine] inv
        ended_inv(1) [OF inv] inv_flags(2) [where x = x and b = True and es = "es @ [e]" and rid = rid and s = s]
      by (cases "gx_phase x") (auto split: if_splits)
  next
    case (OutputAccepted ok)
    then show ?thesis using assms(2) abort running_inv(1) [OF inv, of ReadingLine] by (auto split: if_splits)
  next
    case (FilterPrinted fd data)
    have "execution_inv rid s (es @ [e]) (enqueue m x)" if "is_chunk m" for m
      using that inv by (cases "gx_phase x") (auto simp: execution_inv_def sent_so_far_def enqueue_def)
    then show ?thesis using assms(2) FilterPrinted by (auto split: if_splits)
  next
    case FilterBroke
    then show ?thesis using assms(2) inv by (auto simp: inv_flags split: if_splits)
  next
    case (FiltersExited exits)
    then show ?thesis using assms(2) abort ended_inv(2) [OF inv] by (cases "gx_phase x") (auto split: if_splits)
  next
    case Flushed
    then show ?thesis using assms(2) abort ended_inv(3) [OF inv] by (cases "gx_phase x") (auto split: if_splits)
  next
    case Interrupted
    then show ?thesis using assms(2) abort by (cases "gx_phase x") auto
  next
    case Stopped
    then show ?thesis using assms(2) stopped_inv [OF inv] by (auto split: if_splits)
  qed (use assms(2) abort in \<open>auto split: if_splits\<close>)
qed

lemma execution_run_inv:
  "execution_inv rid s es x \<Longrightarrow> execution_run es' x = Some x' \<Longrightarrow> execution_inv rid s (es @ es') x'"
proof (induction es' arbitrary: es x)
  case (Cons e es')
  then obtain y where "execution_step e x = Some y" "execution_run es' y = Some x'" by (auto simp: bind_eq_Some_conv)
  then show ?case using Cons.IH [OF execution_step_inv [OF Cons.prems(1)]] by fastforce
qed simp


section \<open>Only filtered output\<close>

definition outputs :: "execution \<Rightarrow> broker_to_gateway set" where
  "outputs x = {m \<in> set (gx_queue x) \<union> set (gx_sent x). is_chunk m}"

lemma outputs_abort [simp]: "outputs (abort_execution x) = outputs x" "gx_filtered (abort_execution x) = gx_filtered x"
  by (auto simp: abort_execution_def outputs_def enqueue_def)

lemma outputs_receive: "gx_filtered x \<Longrightarrow> outputs (receive m x) = outputs x \<and> gx_filtered (receive m x)"
  by (cases m) (auto simp: receive_def gateway_message_id_def, auto simp: outputs_def)

lemma outputs_written: "gx_filtered x \<Longrightarrow> outputs (written m ok x) = outputs x \<and> gx_filtered (written m ok x)"
  by (cases m) (auto simp: written_def, auto simp: outputs_def)

lemma outputs_write_head:
  assumes "gx_filtered x" and "write_head socket_ok x = Some x'"
  shows "outputs x' \<subseteq> outputs x \<and> gx_filtered x'"
proof (cases "gx_queue x")
  case (Cons m rest)
  let ?ok = "write_succeeds socket_ok m x"
  let ?x1 = "x\<lparr>gx_queue := rest, gx_write_failed := \<not> ?ok, gx_sent := (if ?ok then gx_sent x @ [m] else gx_sent x)\<rparr>"
  have "x' = written m ?ok ?x1" using assms(2) by (simp add: write_head_def Cons Let_def)
  moreover have "outputs ?x1 \<subseteq> outputs x" by (auto simp: outputs_def Cons)
  ultimately show ?thesis using outputs_written [of ?x1 m ?ok] assms(1) by auto
qed (use assms(2) in \<open>simp add: write_head_def\<close>)

lemma outputs_step:
  assumes "gx_filtered x" and "execution_step e x = Some x'"
  shows "gx_filtered x' \<and> outputs x' \<subseteq> outputs x \<union>
    (case e of FilterPrinted fd data \<Rightarrow> {BgMaskedChunk (gx_request_id x) fd data} | _ \<Rightarrow> {})"
proof (cases e)
  case (WriteDone ok)
  then show ?thesis using assms outputs_write_head by auto
next
  case (LineRead line)
  then show ?thesis
    using assms outputs_receive [OF assms(1)] by (auto simp: read_arrived_def split: if_splits option.splits)
next
  case (FilterPrinted fd data)
  then show ?thesis using assms by (auto simp: outputs_def enqueue_def split: if_splits)
next
  case Flushed
  then show ?thesis
    using assms by (auto split: if_splits execution_phase.splits) (auto simp: outputs_def enqueue_def abort_execution_def split: if_splits)
qed (use assms in \<open>auto split: if_splits execution_phase.splits, auto simp: outputs_def\<close>)

lemma outputs_run:
  "gx_filtered x \<Longrightarrow> execution_run es x = Some x' \<Longrightarrow> BgMaskedChunk r fd data \<in> outputs x' \<Longrightarrow>
     BgMaskedChunk r fd data \<in> outputs x \<or> FilterPrinted fd data \<in> set es"
proof (induction es arbitrary: x)
  case (Cons e es)
  then obtain y where y: "execution_step e x = Some y" "execution_run es y = Some x'" by (auto simp: bind_eq_Some_conv)
  show ?case
    using Cons.IH [OF _ y(2) Cons.prems(3)] outputs_step [OF Cons.prems(1) y(1)] by (cases e) auto
qed simp

text \<open>
  C23: no raw output leaves. When a filter is configured, every piece of output that is sent is
  one that the filter of its stream printed.
\<close>

theorem output_only_filtered:
  assumes "execution_run es (execution_new rid s True) = Some x" and "BgMaskedChunk r fd data \<in> set (gx_sent x)"
  shows "FilterPrinted fd data \<in> set es"
proof -
  have "BgMaskedChunk r fd data \<in> outputs x" using assms(2) by (simp add: outputs_def)
  with outputs_run [OF _ assms(1)] show ?thesis
    by (fastforce simp: outputs_def execution_new_def enqueue_def)
qed

section \<open>An example\<close>

definition demo_start :: start_message where
  "demo_start = \<lparr>sm_argv0 = ''git'', sm_args = [''log''], sm_cwd = ''/work'', sm_env = []\<rparr>"

definition demo_line :: "gateway_to_broker \<Rightarrow> execution_event" where
  "demo_line m = LineRead (Some (gateway_json m))"

text \<open>A command that prints once; the filter prints something else.\<close>

definition demo_execution :: "execution_event list" where
  "demo_execution =
     [WriteDone True, demo_line (GwSpawned ''r'' 7), HookDone True, demo_line (GwRawChunk ''r'' 1 ''c2VjcmV0''),
      OutputAccepted True, FilterPrinted 1 ''KioqKioq'', WriteDone True, demo_line (GwProcessExit ''r'' 3), HookDone True,
      FiltersExited [0, 0], Flushed, WriteDone True]"

lemma demo_chunks: "chunk_ok ''c2VjcmV0''" "chunk_ok ''KioqKioq''"
proof -
  have "is_canonical_base64 ''c2VjcmV0''" "is_canonical_base64 ''KioqKioq''" by code_simp+
  moreover have "length (base64_decode ''c2VjcmV0'') \<le> max_chunk_bytes" "length (base64_decode ''KioqKioq'') \<le> max_chunk_bytes"
    by (simp_all add: max_chunk_bytes_def)
  ultimately show "chunk_ok ''c2VjcmV0''" "chunk_ok ''KioqKioq''" by (simp_all add: chunk_ok_def)
qed

text \<open>A text takes at most two bytes for a character.\<close>

lemma utf8_length: "length (utf8_bytes s) \<le> 2 * length s"
  by (induction s) (auto simp: utf8_bytes_def Let_def)

lemma short_control: "length (json_stringify v) \<le> 1000 \<Longrightarrow> control_size_ok v"
  using utf8_length [of "json_stringify v"] by (simp add: control_size_ok_def max_control_bytes_def)

lemma demo_sizes:
  "control_size_ok (gateway_json (GwSpawned ''r'' 7))" "control_size_ok (gateway_json (GwRawChunk ''r'' 1 ''c2VjcmV0''))"
  "control_size_ok (gateway_json (GwProcessExit ''r'' 3))" "control_size_ok (broker_json (BgStart ''r'' demo_start))"
  "control_size_ok (broker_json (BgMaskedChunk ''r'' 1 ''KioqKioq''))" "control_size_ok (broker_json (BgResult ''r'' 3))"
  by (rule short_control, simp add: json_quote_def json_escape_def demo_start_def stream_fd_json_def integer_json_def
      int_text_def nat_text.simps)+

lemma demo_reads:
  "parse_gateway_to_broker (gateway_json m) st = (if gateway_message_ok m \<and> control_size_ok (gateway_json m) \<and>
     st \<in> set (states_for_gateway m) then Some m else None)"
  "parse_broker_to_gateway (broker_json n) st = (if broker_message_ok n \<and> control_size_ok (broker_json n) \<and>
     st \<in> set (states_for_broker n) then Some n else None)"
  by (simp_all add: parse_gateway_to_broker_def parse_broker_to_gateway_def read_gateway_json read_broker_json)

lemma demo_execution_run:
  "\<exists>x. execution_run demo_execution (execution_new ''r'' demo_start True) = Some x \<and> gx_phase x = Completed \<and>
     BgMaskedChunk ''r'' 1 ''KioqKioq'' \<in> set (gx_sent x)"
  by (simp add: demo_execution_def demo_line_def execution_new_def enqueue_def write_head_def write_succeeds_def written_def
      read_arrived_def receive_def gateway_message_id_def demo_reads demo_sizes demo_chunks process_integer_ok_def
      del: gateway_json.simps broker_json.simps One_nat_def)


theorem output_only_filtered_witness:
  "\<exists>x. execution_run demo_execution (execution_new ''r'' demo_start True) = Some x \<and>
     BgMaskedChunk ''r'' 1 ''KioqKioq'' \<in> set (gx_sent x) \<and> FilterPrinted 1 ''KioqKioq'' \<in> set demo_execution"
proof -
  obtain x where x: "execution_run demo_execution (execution_new ''r'' demo_start True) = Some x"
      "BgMaskedChunk ''r'' 1 ''KioqKioq'' \<in> set (gx_sent x)"
    using demo_execution_run by blast
  from output_only_filtered [OF x] x show ?thesis by blast
qed

end
