(* ===== verification/HostExecBroker.thy ===== *)
theory HostExecBroker
  imports GatewayExecution
begin

text \<open>
  The broker of commands that run on the host (\<open>src/hostexec/broker.ts\<close>): its state and one
  definition for each segment of a handler between two \<open>await\<close>s. A handler serves one
  connection of the gateway; a connection has a lifecycle, which a disconnection can cancel at
  any time. Requests with the same capability that wait for an approval form a group; a
  resolution answers the requests of a group one after another, and runs the command of each
  that is approved before it goes on to the next.

  Groups and lifecycles are objects that handlers share: cells of two heaps. A promise that
  somebody settles is a flag of the lifecycle (\<open>lc_settled\<close>). Every \<open>await wasCancelled()\<close> is a
  wait of its own, so that a cancellation may come between the test and what follows it.
\<close>

section \<open>State\<close>

datatype lifecycle_state = LsPreflight | LsAwaitingApproval | LsRunning | LsTerminal | LsCancelled

datatype monitor_event = MonitorLine "gateway_to_broker option" | MonitorEnd | MonitorError string

datatype cleanup_state = CleanupIdle | CleanupDue | CleanupRunning | CleanupDone

record lifecycle =
  lc_request_id :: string
  lc_state :: lifecycle_state
  lc_error :: "string option"
  lc_deferred :: "monitor_event option"
  lc_attached :: bool
  lc_monitored :: bool
  lc_cleanup :: cleanup_state
  lc_settled :: bool

record hostexec_pending =
  he_session_id :: string
  he_request_id :: string
  he_approval_key :: string
  he_rule_id :: string
  he_argv0 :: string
  he_args :: "string list"
  he_cwd :: string
  he_created_at :: string
  he_updated_at :: string
  he_default_scope :: prompt_scope
  he_capability :: capability
  he_integrity_changed :: bool

record hostexec_group =
  hg_approval_key :: string
  hg_created_at :: string
  hg_rule_id :: string
  hg_waiters :: "(string \<times> nat) list"
  hg_pending_entries :: "(string \<times> hostexec_pending) list"
  hg_requests :: "(string \<times> execute_request \<times> resolved_execution) list"
  hg_timer :: bool
  hg_notified :: bool
  hg_allowed_scopes :: "prompt_scope list"

record hostexec_config =
  hc_session_id :: string
  hc_workspace_root :: string
  hc_session_tmp_dir :: string
  hc_rules :: "hostexec_rule list"
  hc_prompt :: prompt_config
  hc_audit_dir :: bool
  hc_mask_filter :: bool
  hc_installed :: "string option"
  hc_targets :: "string list"
  hc_baseline :: "(string \<times> integrity_snapshot) list"
  hc_host :: host_static

record hostexec_audit =
  ha_request_id :: string
  ha_decision :: verdict
  ha_reason :: string
  ha_command :: string

datatype hostexec_effect =
    FxAudit hostexec_audit
  | FxAnswer broker_to_gateway
  | FxStart string start_message
  | FxNotify hostexec_pending

record hostexec_broker =
  hb_config :: hostexec_config
  hb_approved_keys :: "string set"
  hb_active :: "string set"
  hb_heap :: "hostexec_group list"
  hb_groups :: "(string \<times> nat) list"
  hb_request_keys :: "(string \<times> string) list"
  hb_lifecycles :: "lifecycle list"
  hb_files :: "(string \<times> hostexec_pending) list"
  hb_effects :: "hostexec_effect list"

definition allowed_hostexec_scopes :: "prompt_scope list" where
  "allowed_hostexec_scopes = [PsOnce, PsCapability]"

definition hostexec_new :: "hostexec_config \<Rightarrow> hostexec_broker" where
  "hostexec_new c =
     \<lparr>hb_config = c, hb_approved_keys = {}, hb_active = {}, hb_heap = [], hb_groups = [], hb_request_keys = [],
      hb_lifecycles = [], hb_files = [], hb_effects = []\<rparr>"

definition emit_fx :: "hostexec_effect \<Rightarrow> hostexec_broker \<Rightarrow> hostexec_broker" where
  "emit_fx e b = b\<lparr>hb_effects := hb_effects b @ [e]\<rparr>"

definition with_lifecycle :: "nat \<Rightarrow> (lifecycle \<Rightarrow> lifecycle) \<Rightarrow> hostexec_broker \<Rightarrow> hostexec_broker" where
  "with_lifecycle conn f b = b\<lparr>hb_lifecycles := (hb_lifecycles b)[conn := f (hb_lifecycles b ! conn)]\<rparr>"

definition with_group :: "nat \<Rightarrow> (hostexec_group \<Rightarrow> hostexec_group) \<Rightarrow> hostexec_broker \<Rightarrow> hostexec_broker" where
  "with_group ref f b = b\<lparr>hb_heap := (hb_heap b)[ref := f (hb_heap b ! ref)]\<rparr>"

section \<open>Lifecycles\<close>

definition is_cancelled :: "nat \<Rightarrow> hostexec_broker \<Rightarrow> bool" where
  "is_cancelled conn b \<longleftrightarrow> lc_error (hb_lifecycles b ! conn) \<noteq> None"

definition lifecycle_new :: "string \<Rightarrow> lifecycle" where
  "lifecycle_new rid = \<lparr>lc_request_id = rid, lc_state = LsPreflight, lc_error = None, lc_deferred = None,
     lc_attached = True, lc_monitored = True, lc_cleanup = CleanupIdle, lc_settled = False\<rparr>"

definition mark_running :: "lifecycle \<Rightarrow> lifecycle" where
  "mark_running l = (if lc_error l = None then l\<lparr>lc_state := LsRunning\<rparr> else l)"

definition mark_terminal :: "lifecycle \<Rightarrow> lifecycle" where
  "mark_terminal l = (if lc_error l = None then l\<lparr>lc_state := LsTerminal\<rparr> else l)"

text \<open>\<open>cancel\<close>; the cleanup starts in a task of its own.\<close>

definition cancel_lifecycle :: "string \<Rightarrow> lifecycle \<Rightarrow> lifecycle" where
  "cancel_lifecycle e l =
     (if lc_error l \<noteq> None \<or> lc_state l = LsTerminal then l
      else l\<lparr>lc_error := Some e, lc_state := LsCancelled, lc_attached := False,
             lc_cleanup := (if lc_cleanup l = CleanupIdle then CleanupDue else lc_cleanup l)\<rparr>)"

definition finish_lifecycle :: "lifecycle \<Rightarrow> lifecycle" where
  "finish_lifecycle l = l\<lparr>lc_attached := False\<rparr>"

text \<open>\<open>handleGatewayLifecycleEvent\<close>\<close>

definition message_request_id :: "gateway_to_broker \<Rightarrow> string" where
  "message_request_id m =
     (case m of
        GwExecute q \<Rightarrow> eq_request_id q
      | GwSpawned rid pid \<Rightarrow> rid
      | GwRawChunk rid fd data \<Rightarrow> rid
      | GwProcessExit rid code \<Rightarrow> rid
      | GwCancelled rid reason \<Rightarrow> rid
      | GwTransportError rid message \<Rightarrow> rid)"

definition monitor_reason :: "string \<Rightarrow> monitor_event \<Rightarrow> string" where
  "monitor_reason rid event =
     (case event of
        MonitorError e \<Rightarrow> e
      | MonitorEnd \<Rightarrow> ''gateway disconnected before approval''
      | MonitorLine None \<Rightarrow> ''invalid gateway message''
      | MonitorLine (Some m) \<Rightarrow>
          (if message_request_id m \<noteq> rid then ''gateway request ID mismatch''
           else (case m of
                   GwCancelled r reason \<Rightarrow> ''gateway cancelled request: '' @ reason
                 | GwTransportError r message \<Rightarrow> ''gateway transport error: '' @ message
                 | _ \<Rightarrow> ''gateway message is not accepted before approval'')))"

definition handle_monitor_event :: "monitor_event \<Rightarrow> lifecycle \<Rightarrow> lifecycle" where
  "handle_monitor_event event l =
     (if lc_state l = LsPreflight then (if lc_error l = None then l\<lparr>lc_deferred := Some event\<rparr> else l)
      else if lc_state l = LsRunning \<or> lc_state l = LsTerminal \<or> lc_error l \<noteq> None then l
      else cancel_lifecycle (monitor_reason (lc_request_id l) event) l)"

text \<open>\<open>markAwaitingApproval\<close> and the event it hands over.\<close>

definition mark_awaiting_approval :: "lifecycle \<Rightarrow> lifecycle" where
  "mark_awaiting_approval l =
     (let l1 = (if lc_error l = None \<and> lc_state l = LsPreflight then l\<lparr>lc_state := LsAwaitingApproval\<rparr> else l);
          l2 = l1\<lparr>lc_deferred := None\<rparr>
      in case lc_deferred l1 of None \<Rightarrow> l2 | Some event \<Rightarrow> handle_monitor_event event l2)"

text \<open>A waiter is resolved: its lifecycle is finished and its promise settled.\<close>

definition settle_waiter_of :: "nat \<Rightarrow> hostexec_broker \<Rightarrow> hostexec_broker" where
  "settle_waiter_of conn b = with_lifecycle conn (\<lambda>l. (finish_lifecycle l)\<lparr>lc_settled := True\<rparr>) b"

section \<open>Removing a request\<close>

definition find_group :: "hostexec_broker \<Rightarrow> string \<Rightarrow> nat option" where
  "find_group b rid =
     (case map_of (hb_request_keys b) rid of
        None \<Rightarrow> None
      | Some key \<Rightarrow> if key = [] then None else map_of (hb_groups b) key)"

definition forget_request :: "string \<Rightarrow> hostexec_group \<Rightarrow> hostexec_group" where
  "forget_request rid g =
     g\<lparr>hg_waiters := AList.delete rid (hg_waiters g), hg_requests := AList.delete rid (hg_requests g),
       hg_pending_entries := AList.delete rid (hg_pending_entries g)\<rparr>"

datatype removal =
    RemovingFile string "(nat \<times> nat option) option"
  | ClosingNotice "nat option"
  | Removed

text \<open>\<open>removePendingRequest\<close>, up to the removal of the file.\<close>

definition remove_pending_request :: "string \<Rightarrow> hostexec_broker \<Rightarrow> hostexec_broker \<times> removal" where
  "remove_pending_request rid b =
     (let group = find_group b rid;
          b1 = b\<lparr>hb_request_keys := AList.delete rid (hb_request_keys b)\<rparr>
      in case group of
           None \<Rightarrow> (b1, RemovingFile rid None)
         | Some ref \<Rightarrow>
             (with_group ref (forget_request rid) b1,
              RemovingFile rid (Some (ref, map_of (hg_waiters (hb_heap b ! ref)) rid))))"

definition release_waiter :: "nat option \<Rightarrow> hostexec_broker \<Rightarrow> hostexec_broker \<times> removal" where
  "release_waiter waiter b = ((case waiter of None \<Rightarrow> b | Some conn \<Rightarrow> settle_waiter_of conn b), Removed)"

definition end_group :: "hostexec_group \<Rightarrow> hostexec_group" where
  "end_group g = g\<lparr>hg_timer := False, hg_notified := False\<rparr>"

definition continue_removal :: "removal \<Rightarrow> hostexec_broker \<Rightarrow> (hostexec_broker \<times> removal) option" where
  "continue_removal r b =
     (case r of
        RemovingFile rid found \<Rightarrow>
          (let b1 = b\<lparr>hb_files := AList.delete rid (hb_files b)\<rparr>
           in case found of
                None \<Rightarrow> Some (b1, Removed)
              | Some (ref, waiter) \<Rightarrow>
                  (let g = hb_heap b1 ! ref
                   in if hg_requests g = []
                      then (let b2 = with_group ref end_group b1
                            in Some (if map_of (hb_groups b2) (hg_approval_key g) = Some ref
                                     then b2\<lparr>hb_groups := AList.delete (hg_approval_key g) (hb_groups b2)\<rparr> else b2,
                                     ClosingNotice waiter))
                      else Some (release_waiter waiter b1)))
      | ClosingNotice waiter \<Rightarrow> Some (release_waiter waiter b)
      | Removed \<Rightarrow> None)"

section \<open>The handler of a request\<close>

datatype handler_point =
    PtResolved "resolved_execution option"
  | PtDenying string string string
  | PtDenied string
  | PtKeyed resolved_execution
  | PtAllowing resolved_execution string
  | PtAllowed resolved_execution
  | PtAsking resolved_execution string bool
  | PtCreated
  | PtRegistered

datatype handler_state =
    HsResolving
  | HsPassing handler_point
  | HsCancelled bool
  | HsKeying resolved_execution
  | HsChecking resolved_execution string
  | HsLoggingDeny string hostexec_audit
  | HsLoggingAllow resolved_execution hostexec_audit
  | HsAnswering broker_to_gateway
  | HsRunning execution
  | HsWritingCard hostexec_pending nat
  | HsWritingJoined hostexec_pending
  | HsWithdrawing removal
  | HsWaiting
  | HsFailing broker_to_gateway
  | HsFinished

text \<open>\<open>if (await wasCancelled()) return\<close>; \<open>withdraw\<close> where the request is removed before the return.\<close>

definition guard :: "nat \<Rightarrow> bool \<Rightarrow> handler_point \<Rightarrow> hostexec_broker \<Rightarrow> hostexec_broker \<times> handler_state" where
  "guard conn withdraw p b = (b, if is_cancelled conn b then HsCancelled withdraw else HsPassing p)"

text \<open>The \<open>finally\<close> of \<open>handleGatewayConnection\<close>.\<close>

definition finish_handler :: "nat \<Rightarrow> execute_request \<Rightarrow> hostexec_broker \<Rightarrow> hostexec_broker \<times> handler_state" where
  "finish_handler conn m b =
     (with_lifecycle conn finish_lifecycle (b\<lparr>hb_active := hb_active b - {eq_request_id m}\<rparr>), HsFinished)"

definition return_terminal :: "nat \<Rightarrow> execute_request \<Rightarrow> hostexec_broker \<Rightarrow> hostexec_broker \<times> handler_state" where
  "return_terminal conn m b = finish_handler conn m (with_lifecycle conn mark_terminal b)"

text \<open>Its \<open>catch\<close>: the message of the exception is what it was thrown with.\<close>

definition fail_handler :: "nat \<Rightarrow> execute_request \<Rightarrow> string \<Rightarrow> hostexec_broker \<Rightarrow> hostexec_broker \<times> handler_state" where
  "fail_handler conn m e b =
     (if is_cancelled conn b then finish_handler conn m b else (b, HsFailing (BgError (eq_request_id m) e)))"

definition command_text :: "execute_request \<Rightarrow> resolved_execution \<Rightarrow> string" where
  "command_text m r = join_with '' '' (cp_argv0 (rx_capability r) # eq_args m)"

definition hostexec_audit_entry :: "string \<Rightarrow> verdict \<Rightarrow> string \<Rightarrow> string \<Rightarrow> hostexec_audit" where
  "hostexec_audit_entry rid decision reason command =
     \<lparr>ha_request_id = rid, ha_decision = decision, ha_reason = reason, ha_command = command\<rparr>"

definition record_hostexec_audit :: "hostexec_audit \<Rightarrow> hostexec_broker \<Rightarrow> hostexec_broker" where
  "record_hostexec_audit e b = (if hc_audit_dir (hb_config b) then emit_fx (FxAudit e) b else b)"

text \<open>\<open>runGatewayResolved\<close>: the execution of the command, or the answer that sends it back.\<close>

definition run_gateway_resolved ::
  "execute_request \<Rightarrow> resolved_execution \<Rightarrow> hostexec_broker \<Rightarrow> hostexec_broker \<times> (broker_to_gateway + execution)"
where
  "run_gateway_resolved m r b =
     (case launch (hc_installed (hb_config b)) m r of
        None \<Rightarrow> (b, Inl (BgFallback (eq_request_id m)))
      | Some start \<Rightarrow>
          (emit_fx (FxStart (eq_request_id m) start) b,
           Inr (execution_new (eq_request_id m) start (hc_mask_filter (hb_config b)))))"

definition to_hostexec_pending ::
  "execute_request \<Rightarrow> resolved_execution \<Rightarrow> string \<Rightarrow> string \<Rightarrow> string \<Rightarrow> bool \<Rightarrow> prompt_scope \<Rightarrow> hostexec_pending"
where
  "to_hostexec_pending m r key created_at now changed scope =
     \<lparr>he_session_id = eq_session_id m, he_request_id = eq_request_id m, he_approval_key = key,
      he_rule_id = hr_id (rx_rule r), he_argv0 = cp_argv0 (rx_capability r), he_args = eq_args m, he_cwd = rx_cwd r,
      he_created_at = created_at, he_updated_at = now, he_default_scope = scope,
      he_capability = rx_capability r, he_integrity_changed = changed\<rparr>"

text \<open>The group of a question that nobody asks yet: published with its waiter before the file is written.\<close>

definition create_hostexec_group ::
  "nat \<Rightarrow> execute_request \<Rightarrow> resolved_execution \<Rightarrow> string \<Rightarrow> bool \<Rightarrow> string \<Rightarrow> hostexec_broker \<Rightarrow>
     hostexec_broker \<times> handler_state"
where
  "create_hostexec_group conn m r key changed now b =
     (let rid = eq_request_id m;
          entry = to_hostexec_pending m r key now now changed (pc_default_scope (hc_prompt (hb_config b)));
          g = \<lparr>hg_approval_key = key, hg_created_at = now, hg_rule_id = hr_id (rx_rule r), hg_waiters = [(rid, conn)],
               hg_pending_entries = [(rid, entry)], hg_requests = [(rid, (m, r))], hg_timer = True, hg_notified = True,
               hg_allowed_scopes = allowed_hostexec_scopes\<rparr>;
          ref = length (hb_heap b)
      in (b\<lparr>hb_heap := hb_heap b @ [g], hb_groups := AList.update key ref (hb_groups b),
            hb_request_keys := AList.update rid key (hb_request_keys b)\<rparr>,
          HsWritingCard entry ref))"

definition join_hostexec_group ::
  "nat \<Rightarrow> execute_request \<Rightarrow> resolved_execution \<Rightarrow> string \<Rightarrow> bool \<Rightarrow> string \<Rightarrow> nat \<Rightarrow> hostexec_broker \<Rightarrow>
     hostexec_broker \<times> handler_state"
where
  "join_hostexec_group conn m r key changed now ref b =
     (let rid = eq_request_id m; g = hb_heap b ! ref
      in if map_of (hg_requests g) rid \<noteq> None then fail_handler conn m (''duplicate pending request ID: '' @ rid) b
         else (let entry = to_hostexec_pending m r key (hg_created_at g) now changed
                     (pc_default_scope (hc_prompt (hb_config b)))
               in (with_group ref (\<lambda>g. g\<lparr>hg_requests := AList.update rid (m, r) (hg_requests g),
                       hg_pending_entries := AList.update rid entry (hg_pending_entries g),
                       hg_waiters := AList.update rid conn (hg_waiters g)\<rparr>)
                     (b\<lparr>hb_request_keys := AList.update rid key (hb_request_keys b)\<rparr>),
                   HsWritingJoined entry)))"

text \<open>After the check of the file: refuse, run, or ask.\<close>

definition after_integrity ::
  "nat \<Rightarrow> execute_request \<Rightarrow> resolved_execution \<Rightarrow> string \<Rightarrow> integrity_outcome \<Rightarrow> hostexec_broker \<Rightarrow>
     hostexec_broker \<times> handler_state"
where
  "after_integrity conn m r key integrity b =
     (let enabled = pc_enable (hc_prompt (hb_config b)); command = command_text m r
      in if integrity = IvPrompt \<and> \<not> enabled
         then guard conn False (PtDenying ''integrity-mismatch''
                ''hostexec target changed since session start; approval required but prompt is disabled'' command) b
         else if integrity = IvPass \<and> (rx_approval r = HxAllow \<or> key \<in> hb_approved_keys b \<or> \<not> enabled)
         then (if rx_approval r = HxPrompt \<and> \<not> enabled
               then guard conn False (PtDenying ''prompt-disabled'' ''hostexec prompt is disabled'' command) b
               else guard conn False
                      (PtAllowing r (if rx_approval r = HxAllow then ''rule-allow'' else ''approved-cached'')) b)
         else guard conn False (PtAsking r key (integrity = IvPrompt)) (with_lifecycle conn mark_awaiting_approval b))"

text \<open>What follows a test that found no cancellation.\<close>

definition continue_at ::
  "nat \<Rightarrow> execute_request \<Rightarrow> string \<Rightarrow> handler_point \<Rightarrow> hostexec_broker \<Rightarrow> hostexec_broker \<times> handler_state"
where
  "continue_at conn m now p b =
     (case p of
        PtResolved None \<Rightarrow> (b, HsAnswering (BgFallback (eq_request_id m)))
      | PtResolved (Some r) \<Rightarrow>
          (if rx_approval r = HxDeny
           then guard conn False (PtDenying ''policy-deny'' ''permission denied by hostexec policy'' (command_text m r)) b
           else (b, HsKeying r))
      | PtDenying reason message command \<Rightarrow>
          (b, HsLoggingDeny message (hostexec_audit_entry (eq_request_id m) Deny reason command))
      | PtDenied message \<Rightarrow> (b, HsAnswering (BgError (eq_request_id m) message))
      | PtKeyed r \<Rightarrow> (b, HsChecking r (build_approval_key (hc_host (hb_config b)) (rx_capability r)))
      | PtAllowing r reason \<Rightarrow>
          (b, HsLoggingAllow r (hostexec_audit_entry (eq_request_id m) Allow reason (command_text m r)))
      | PtAllowed r \<Rightarrow>
          (case run_gateway_resolved m r (with_lifecycle conn mark_running b) of
             (b1, Inl answer) \<Rightarrow> (b1, HsAnswering answer)
           | (b1, Inr x) \<Rightarrow> (b1, HsRunning x))
      | PtAsking r key changed \<Rightarrow>
          (case map_of (hb_groups b) key of
             None \<Rightarrow> create_hostexec_group conn m r key changed now b
           | Some ref \<Rightarrow> join_hostexec_group conn m r key changed now ref b)
      | PtCreated \<Rightarrow> guard conn True PtRegistered b
      | PtRegistered \<Rightarrow> (b, HsWaiting))"

definition store_entry :: "hostexec_pending \<Rightarrow> hostexec_broker \<Rightarrow> hostexec_broker" where
  "store_entry e b = b\<lparr>hb_files := AList.update (he_request_id e) e (hb_files b)\<rparr>"

text \<open>
  How a handler goes on when what it awaits is over: successfully (\<open>ok\<close>) or with an exception.
  \<open>view\<close> is what the host answers at that moment, \<open>event\<close> what happens to a running command.
\<close>

definition resume_handler ::
  "nat \<Rightarrow> execute_request \<Rightarrow> host_view \<Rightarrow> string \<Rightarrow> bool \<Rightarrow> execution_event \<Rightarrow> handler_state \<Rightarrow> hostexec_broker \<Rightarrow>
     (hostexec_broker \<times> handler_state) option"
where
  "resume_handler conn m view now ok event st b =
     (let c = hb_config b
      in case st of
           HsResolving \<Rightarrow>
             Some (case resolve_execute_request (hc_host c) view (hc_rules c) (hc_workspace_root c)
                          (hc_session_tmp_dir c) (hc_installed c) m of
                     None \<Rightarrow> fail_handler conn m ''request cannot be resolved'' b
                   | Some r \<Rightarrow> guard conn False (PtResolved r) b)
         | HsPassing p \<Rightarrow> Some (continue_at conn m now p b)
         | HsCancelled withdraw \<Rightarrow>
             (if lc_cleanup (hb_lifecycles b ! conn) \<noteq> CleanupDone then None
              else if withdraw
              then Some (case remove_pending_request (eq_request_id m) b of (b1, r) \<Rightarrow> (b1, HsWithdrawing r))
              else Some (finish_handler conn m b))
         | HsKeying r \<Rightarrow> Some (guard conn False (PtKeyed r) b)
         | HsChecking r key \<Rightarrow>
             Some (case integrity_verdict (hc_host c) view (hc_targets c) (hc_baseline c) (hc_installed c) m r of
                     None \<Rightarrow> guard conn False (PtDenying ''integrity-check-error'' ''hostexec integrity check failed''
                               (command_text m r)) b
                   | Some integrity \<Rightarrow> after_integrity conn m r key integrity b)
         | HsLoggingDeny message entry \<Rightarrow>
             Some (if ok then guard conn False (PtDenied message) (record_hostexec_audit entry b)
                   else fail_handler conn m ''audit log unavailable'' b)
         | HsLoggingAllow r entry \<Rightarrow>
             Some (if ok then guard conn False (PtAllowed r) (record_hostexec_audit entry b)
                   else fail_handler conn m ''audit log unavailable'' b)
         | HsAnswering answer \<Rightarrow>
             Some (if ok then return_terminal conn m (emit_fx (FxAnswer answer) b)
                   else fail_handler conn m ''gateway write failed'' b)
         | HsRunning x \<Rightarrow>
             (if gx_phase x = Completed then Some (return_terminal conn m b)
              else if gx_phase x = Aborted then Some (fail_handler conn m ''execution failed'' b)
              else map_option (\<lambda>x'. (b, HsRunning x')) (execution_step event x))
         | HsWritingCard entry ref \<Rightarrow>
             Some (if ok then guard conn True PtCreated (emit_fx (FxNotify entry) (store_entry entry b))
                   else fail_handler conn m ''pending entry cannot be written'' b)
         | HsWritingJoined entry \<Rightarrow>
             Some (if ok then guard conn True PtRegistered (store_entry entry b)
                   else fail_handler conn m ''pending entry cannot be written'' b)
         | HsWithdrawing r \<Rightarrow>
             (if r = Removed then Some (finish_handler conn m b)
              else if \<not> ok then Some (fail_handler conn m ''pending entry cannot be removed'' b)
              else map_option (\<lambda>(b1, r1). (b1, HsWithdrawing r1)) (continue_removal r b))
         | HsWaiting \<Rightarrow> (if lc_settled (hb_lifecycles b ! conn) then Some (finish_handler conn m b) else None)
         | HsFailing answer \<Rightarrow> Some (finish_handler conn m (if ok then emit_fx (FxAnswer answer) b else b))
         | HsFinished \<Rightarrow> None)"

text \<open>\<open>handleGatewayConnection\<close> up to the first \<open>await\<close> of \<open>executeStreaming\<close>.\<close>

definition accept_request :: "execute_request \<Rightarrow> hostexec_broker \<Rightarrow> hostexec_broker \<times> handler_state" where
  "accept_request m b =
     (if eq_request_id m \<in> hb_active b
      then (emit_fx (FxAnswer (BgError (eq_request_id m) ''duplicate active request ID'')) b, HsFinished)
      else (b\<lparr>hb_active := insert (eq_request_id m) (hb_active b),
              hb_lifecycles := hb_lifecycles b @ [lifecycle_new (eq_request_id m)]\<rparr>, HsResolving))"

section \<open>Resolving a group\<close>

datatype hostexec_reply =
    HxReplyError string string
  | HxReplyPending "hostexec_pending list"
  | HxReplyAck string verdict

datatype resolve_mode = ModeApprove | ModeDeny string

text \<open>What a resolution carries from one request to the next; \<open>rs_rest\<close> are the ids still to visit.\<close>

record resolution_frame =
  rs_ref :: nat
  rs_key :: string
  rs_mode :: resolve_mode
  rs_selected :: "string option"
  rs_rest :: "string list"
  rs_reply :: "hostexec_reply option"

datatype resolution =
    RvClosingNotice resolution_frame
  | RvRemovingFile resolution_frame string execute_request resolved_execution "nat option"
  | RvGroupClosing resolution_frame execute_request resolved_execution "nat option"
  | RvLoggingDeny resolution_frame nat hostexec_audit broker_to_gateway
  | RvWritingDeny resolution_frame nat broker_to_gateway
  | RvLoggingAllow resolution_frame nat execute_request resolved_execution hostexec_audit
  | RvRunning resolution_frame nat string execution
  | RvReturning resolution_frame nat string broker_to_gateway
  | RvWritingError resolution_frame nat broker_to_gateway
  | RvDone "hostexec_reply option"
  | RvFailed

text \<open>The next request that the group still has.\<close>

fun resolve_next :: "resolution_frame \<Rightarrow> string list \<Rightarrow> hostexec_broker \<Rightarrow> hostexec_broker \<times> resolution" where
  "resolve_next fr [] b = (b, RvDone (rs_reply fr))"
| "resolve_next fr (rid # rest) b =
     (let g = hb_heap b ! rs_ref fr
      in case map_of (hg_requests g) rid of
           None \<Rightarrow> resolve_next fr rest b
         | Some (m, r) \<Rightarrow>
             (let waiter = map_of (hg_waiters g) rid;
                  b1 = (if rs_selected fr \<noteq> None then with_group (rs_ref fr) (forget_request rid) b else b)
              in (b1\<lparr>hb_request_keys := AList.delete rid (hb_request_keys b1)\<rparr>,
                  RvRemovingFile (fr\<lparr>rs_rest := rest\<rparr>) rid m r waiter)))"

definition resolve_rest :: "resolution_frame \<Rightarrow> hostexec_broker \<Rightarrow> hostexec_broker \<times> resolution" where
  "resolve_rest fr b = resolve_next fr (rs_rest fr) b"

text \<open>\<open>resolveGroup\<close>: a whole group is closed first, and no longer found.\<close>

definition resolve_hostexec_group ::
  "string \<Rightarrow> resolve_mode \<Rightarrow> string option \<Rightarrow> hostexec_reply option \<Rightarrow> hostexec_broker \<Rightarrow> hostexec_broker \<times> resolution"
where
  "resolve_hostexec_group key mode selected reply b =
     (case map_of (hb_groups b) key of
        None \<Rightarrow> (b, RvDone reply)
      | Some ref \<Rightarrow>
          (let fr = \<lparr>rs_ref = ref, rs_key = key, rs_mode = mode, rs_selected = selected, rs_rest = [], rs_reply = reply\<rparr>
           in case selected of
                None \<Rightarrow>
                  (with_group ref end_group (b\<lparr>hb_groups := AList.delete key (hb_groups b)\<rparr>), RvClosingNotice fr)
              | Some rid \<Rightarrow> resolve_next fr [rid] b))"

text \<open>The end of the visit of one waiter: the \<open>finally\<close> of the loop.\<close>

definition release_and_next :: "resolution_frame \<Rightarrow> nat \<Rightarrow> hostexec_broker \<Rightarrow> hostexec_broker \<times> resolution" where
  "release_and_next fr conn b = resolve_rest fr (settle_waiter_of conn b)"

definition terminal_and_next :: "resolution_frame \<Rightarrow> nat \<Rightarrow> hostexec_broker \<Rightarrow> hostexec_broker \<times> resolution" where
  "terminal_and_next fr conn b = release_and_next fr conn (with_lifecycle conn mark_terminal b)"

definition timeout_message :: string where
  "timeout_message = ''pending approval timed out''"

definition visit_waiter ::
  "resolution_frame \<Rightarrow> execute_request \<Rightarrow> resolved_execution \<Rightarrow> nat option \<Rightarrow> hostexec_broker \<Rightarrow> hostexec_broker \<times> resolution"
where
  "visit_waiter fr m r waiter b =
     (case waiter of
        None \<Rightarrow> resolve_rest fr b
      | Some conn \<Rightarrow>
          (if is_cancelled conn b then release_and_next fr conn b
           else (case rs_mode fr of
                   ModeDeny message \<Rightarrow>
                     (b, RvLoggingDeny fr conn
                           (hostexec_audit_entry (eq_request_id m) Deny
                             (if message = timeout_message then ''prompt-timeout'' else ''denied-by-user'') (command_text m r))
                           (BgError (eq_request_id m) message))
                 | ModeApprove \<Rightarrow>
                     (b, RvLoggingAllow fr conn m r
                           (hostexec_audit_entry (eq_request_id m) Allow ''approved-by-user'' (command_text m r))))))"

definition start_approved ::
  "resolution_frame \<Rightarrow> nat \<Rightarrow> execute_request \<Rightarrow> resolved_execution \<Rightarrow> hostexec_broker \<Rightarrow> hostexec_broker \<times> resolution"
where
  "start_approved fr conn m r b =
     (if is_cancelled conn b then release_and_next fr conn b
      else (case run_gateway_resolved m r (with_lifecycle conn mark_running b) of
              (b1, Inl answer) \<Rightarrow> (b1, RvReturning fr conn (eq_request_id m) answer)
            | (b1, Inr x) \<Rightarrow> (b1, RvRunning fr conn (eq_request_id m) x)))"

text \<open>A command that failed: the gateway is told, unless it is gone.\<close>

definition report_failure :: "resolution_frame \<Rightarrow> nat \<Rightarrow> string \<Rightarrow> string \<Rightarrow> hostexec_broker \<Rightarrow> hostexec_broker \<times> resolution" where
  "report_failure fr conn rid e b =
     (if is_cancelled conn b then terminal_and_next fr conn b else (b, RvWritingError fr conn (BgError rid e)))"

definition continue_resolution ::
  "bool \<Rightarrow> execution_event \<Rightarrow> resolution \<Rightarrow> hostexec_broker \<Rightarrow> (hostexec_broker \<times> resolution) option"
where
  "continue_resolution ok event rv b =
     (case rv of
        RvClosingNotice fr \<Rightarrow>
          Some (if ok then resolve_next fr (map fst (hg_requests (hb_heap b ! rs_ref fr))) b else (b, RvFailed))
      | RvRemovingFile fr rid m r waiter \<Rightarrow>
          Some (if \<not> ok then (b, RvFailed)
                else
                  (let b1 = b\<lparr>hb_files := AList.delete rid (hb_files b)\<rparr>
                   in if rs_selected fr \<noteq> None \<and> hg_requests (hb_heap b1 ! rs_ref fr) = []
                      then (with_group (rs_ref fr) end_group
                              (b1\<lparr>hb_groups := AList.delete (rs_key fr) (hb_groups b1)\<rparr>),
                            RvGroupClosing fr m r waiter)
                      else visit_waiter fr m r waiter b1))
      | RvGroupClosing fr m r waiter \<Rightarrow> Some (if ok then visit_waiter fr m r waiter b else (b, RvFailed))
      | RvLoggingDeny fr conn entry answer \<Rightarrow>
          Some (if ok then (record_hostexec_audit entry b, RvWritingDeny fr conn answer) else release_and_next fr conn b)
      | RvWritingDeny fr conn answer \<Rightarrow>
          Some (terminal_and_next fr conn (if ok then emit_fx (FxAnswer answer) b else b))
      | RvLoggingAllow fr conn m r entry \<Rightarrow>
          Some (if ok then start_approved fr conn m r (record_hostexec_audit entry b) else release_and_next fr conn b)
      | RvRunning fr conn rid x \<Rightarrow>
          (if gx_phase x = Completed then Some (terminal_and_next fr conn b)
           else if gx_phase x = Aborted then Some (report_failure fr conn rid ''execution failed'' b)
           else map_option (\<lambda>x'. (b, RvRunning fr conn rid x')) (execution_step event x))
      | RvReturning fr conn rid answer \<Rightarrow>
          Some (if ok then terminal_and_next fr conn (emit_fx (FxAnswer answer) b)
                else report_failure fr conn rid ''gateway write failed'' b)
      | RvWritingError fr conn answer \<Rightarrow>
          Some (terminal_and_next fr conn (if ok then emit_fx (FxAnswer answer) b else b))
      | RvDone reply \<Rightarrow> None
      | RvFailed \<Rightarrow> None)"

section \<open>The control channel\<close>

datatype control_message =
    ControlApprove string "string option"
  | ControlDeny string
  | ControlList
  | ControlExecute string

text \<open>\<open>parseHostExecControlMessage\<close>\<close>

definition parse_hostexec_control_message :: "json \<Rightarrow> control_message option" where
  "parse_hostexec_control_message v =
     (case json_object v of
        None \<Rightarrow> None
      | Some fs \<Rightarrow>
          (if map_of fs ''type'' = Some (JStr ''list_pending'') then Some ControlList
           else (case json_string (map_of fs ''requestId'') of
                   None \<Rightarrow> None
                 | Some rid \<Rightarrow>
                     (if map_of fs ''type'' = Some (JStr ''deny'') then Some (ControlDeny rid)
                      else if map_of fs ''type'' = Some (JStr ''execute'') then Some (ControlExecute rid)
                      else if map_of fs ''type'' \<noteq> Some (JStr ''approve'') then None
                      else (case map_of fs ''scope'' of
                              None \<Rightarrow> Some (ControlApprove rid None)
                            | Some (JStr scope) \<Rightarrow> Some (ControlApprove rid (Some scope))
                            | _ \<Rightarrow> None)))))"

definition scope_of_text :: "string \<Rightarrow> prompt_scope option" where
  "scope_of_text s = (if s = ''once'' then Some PsOnce else if s = ''capability'' then Some PsCapability else None)"

definition hostexec_not_found :: "string \<Rightarrow> hostexec_reply" where
  "hostexec_not_found rid = HxReplyError rid (''Pending request not found: '' @ rid)"

definition group_allows :: "hostexec_group \<Rightarrow> string \<Rightarrow> bool" where
  "group_allows g s \<longleftrightarrow> (case scope_of_text s of None \<Rightarrow> False | Some scope \<Rightarrow> scope \<in> set (hg_allowed_scopes g))"

definition approve_hostexec :: "string \<Rightarrow> string option \<Rightarrow> hostexec_broker \<Rightarrow> hostexec_broker \<times> resolution" where
  "approve_hostexec rid scope b =
     (case find_group b rid of
        None \<Rightarrow> (b, RvDone (Some (hostexec_not_found rid)))
      | Some ref \<Rightarrow>
          (let g = hb_heap b ! ref; ack = Some (HxReplyAck rid Allow)
           in if (case scope of None \<Rightarrow> False | Some s \<Rightarrow> \<not> group_allows g s)
              then (b, RvDone (Some (HxReplyError rid (''scope not allowed for this request: '' @
                     (case scope of None \<Rightarrow> [] | Some s \<Rightarrow> s)))))
              else (case (case Option.bind scope scope_of_text of
                            None \<Rightarrow> pc_default_scope (hc_prompt (hb_config b)) | Some s \<Rightarrow> s) of
                      PsCapability \<Rightarrow>
                        resolve_hostexec_group (hg_approval_key g) ModeApprove None ack
                          (b\<lparr>hb_approved_keys := insert (hg_approval_key g) (hb_approved_keys b)\<rparr>)
                    | PsOnce \<Rightarrow> resolve_hostexec_group (hg_approval_key g) ModeApprove (Some rid) ack b)))"

definition deny_hostexec :: "string \<Rightarrow> hostexec_broker \<Rightarrow> hostexec_broker \<times> resolution" where
  "deny_hostexec rid b =
     (case find_group b rid of
        None \<Rightarrow> (b, RvDone (Some (hostexec_not_found rid)))
      | Some ref \<Rightarrow>
          resolve_hostexec_group (hg_approval_key (hb_heap b ! ref)) (ModeDeny ''permission denied by user'') (Some rid)
            (Some (HxReplyAck rid Deny)) b)"

definition handle_control_message :: "control_message \<Rightarrow> hostexec_broker \<Rightarrow> hostexec_broker \<times> resolution" where
  "handle_control_message m b =
     (case m of
        ControlList \<Rightarrow> (b, RvDone (Some (HxReplyPending (map snd (hb_files b)))))
      | ControlApprove rid scope \<Rightarrow> approve_hostexec rid scope b
      | ControlDeny rid \<Rightarrow> deny_hostexec rid b
      | ControlExecute rid \<Rightarrow>
          (b, RvDone (Some (HxReplyError rid ''execute is not accepted on the control channel''))))"

text \<open>The timer of a group: it fires once.\<close>

definition prompt_timeout :: "nat \<Rightarrow> hostexec_broker \<Rightarrow> hostexec_broker \<times> resolution" where
  "prompt_timeout ref b =
     resolve_hostexec_group (hg_approval_key (hb_heap b ! ref)) (ModeDeny timeout_message) None None
       (with_group ref (\<lambda>g. g\<lparr>hg_timer := False\<rparr>) b)"

section \<open>Closing\<close>

text \<open>
  \<open>close\<close>, from the loop over the groups on: the groups the loop is done with, the waiters of the
  current one it has told, and the waiter whose answer is being written.
\<close>

datatype closing =
    ClosingWaiter "nat list" "string list" nat string nat
  | ClosingNotices
  | Closed

fun close_from :: "nat list \<Rightarrow> string list \<Rightarrow> nat list \<Rightarrow> hostexec_broker \<Rightarrow> hostexec_broker \<times> closing" where
  "close_from passed told [] b = (b, ClosingNotices)"
| "close_from passed told (ref # refs) b =
     (if ref \<in> set passed then close_from passed told refs b
      else (let b1 = with_group ref end_group b
            in case List.find (\<lambda>(rid, conn). rid \<notin> set told) (hg_waiters (hb_heap b1 ! ref)) of
                 None \<Rightarrow> close_from (ref # passed) [] refs b1
               | Some (rid, conn) \<Rightarrow> (b1, ClosingWaiter passed (rid # told) ref rid conn)))"

definition close_hostexec :: "hostexec_broker \<Rightarrow> hostexec_broker \<times> closing" where
  "close_hostexec b = close_from [] [] (map snd (hb_groups b)) b"

definition continue_closing :: "bool \<Rightarrow> closing \<Rightarrow> hostexec_broker \<Rightarrow> (hostexec_broker \<times> closing) option" where
  "continue_closing ok c b =
     (case c of
        ClosingWaiter passed told ref rid conn \<Rightarrow>
          (let b1 = settle_waiter_of conn
                 (if ok then emit_fx (FxAnswer (BgError rid ''hostexec broker closed'')) b else b)
           in Some (close_from passed told (ref # removeAll ref (map snd (hb_groups b1))) b1))
      | ClosingNotices \<Rightarrow>
          Some (b\<lparr>hb_groups := [], hb_request_keys := [], hb_active := {}, hb_files := []\<rparr>, Closed)
      | Closed \<Rightarrow> None)"

end
