(* ===== verification/HostExecRuns.thy ===== *)
theory HostExecRuns
  imports HostExecBroker
begin

text \<open>
  The runs of the broker of host commands: handlers, resolutions, cleanups and the closing as
  tasks whose segments interleave in any order, with disconnections, timers and what the host
  answers. The approvals the user pressed are kept as history. The invariant says what every
  task may still start; from it follows which commands were started at all.
\<close>

section \<open>Worlds and steps\<close>

datatype hostexec_task =
    TkHandler nat execute_request handler_state
  | TkResolution resolution
  | TkCleanup nat removal
  | TkClosing closing

record hostexec_press =
  xp_request_id :: string
  xp_scope :: prompt_scope
  xp_key :: string

record hostexec_world =
  xw_broker :: hostexec_broker
  xw_tasks :: "hostexec_task list"
  xw_presses :: "hostexec_press list"

definition initial_hostexec :: "hostexec_config \<Rightarrow> hostexec_world" where
  "initial_hostexec c = \<lparr>xw_broker = hostexec_new c, xw_tasks = [], xw_presses = []\<rparr>"

text \<open>The approval a message of the control channel makes, when it is accepted.\<close>

definition accepted_approval :: "control_message \<Rightarrow> hostexec_broker \<Rightarrow> hostexec_press list" where
  "accepted_approval msg b =
     (case msg of
        ControlApprove rid scope \<Rightarrow>
          (case find_group b rid of
             None \<Rightarrow> []
           | Some ref \<Rightarrow>
               (if (case scope of None \<Rightarrow> False | Some s \<Rightarrow> \<not> group_allows (hb_heap b ! ref) s) then []
                else [\<lparr>xp_request_id = rid,
                       xp_scope = (case Option.bind scope scope_of_text of
                           None \<Rightarrow> pc_default_scope (hc_prompt (hb_config b)) | Some s \<Rightarrow> s),
                       xp_key = hg_approval_key (hb_heap b ! ref)\<rparr>]))
      | _ \<Rightarrow> [])"

definition add_task :: "hostexec_world \<Rightarrow> hostexec_broker \<Rightarrow> hostexec_task \<Rightarrow> hostexec_press list \<Rightarrow> hostexec_world" where
  "add_task w b t ps = \<lparr>xw_broker = b, xw_tasks = xw_tasks w @ [t], xw_presses = xw_presses w @ ps\<rparr>"

definition set_task :: "hostexec_world \<Rightarrow> nat \<Rightarrow> hostexec_broker \<Rightarrow> hostexec_task \<Rightarrow> hostexec_world" where
  "set_task w tid b t = w\<lparr>xw_broker := b, xw_tasks := (xw_tasks w)[tid := t]\<rparr>"

definition cleanup_done :: "nat \<Rightarrow> removal \<Rightarrow> hostexec_broker \<Rightarrow> hostexec_broker" where
  "cleanup_done conn r b = (if r = Removed then with_lifecycle conn (\<lambda>l. l\<lparr>lc_cleanup := CleanupDone\<rparr>) b else b)"

text \<open>An event of a run, as data; its result is a function.\<close>

datatype hostexec_event =
    EvRequest execute_request
  | EvHandler nat host_view string bool execution_event
  | EvControl control_message
  | EvResolution nat bool execution_event
  | EvTimer nat
  | EvDisconnect nat string
  | EvMonitor nat monitor_event
  | EvCleanup nat
  | EvCleaning nat bool
  | EvClose
  | EvClosing nat bool

fun occurs :: "hostexec_event \<Rightarrow> hostexec_world \<Rightarrow> hostexec_world option" where
  "occurs (EvRequest m) w =
     (let b = xw_broker w in
      case accept_request m b of (b1, st) \<Rightarrow> Some (add_task w b1 (TkHandler (length (hb_lifecycles b)) m st) []))"
| "occurs (EvHandler tid view now ok event) w =
     (if tid < length (xw_tasks w)
      then (case xw_tasks w ! tid of
              TkHandler conn m st \<Rightarrow>
                map_option (\<lambda>(b, st'). set_task w tid b (TkHandler conn m st'))
                  (resume_handler conn m view now ok event st (xw_broker w))
            | _ \<Rightarrow> None)
      else None)"
| "occurs (EvControl msg) w =
     (case handle_control_message msg (xw_broker w) of
        (b, rv) \<Rightarrow> Some (add_task w b (TkResolution rv) (accepted_approval msg (xw_broker w))))"
| "occurs (EvResolution tid ok event) w =
     (if tid < length (xw_tasks w)
      then (case xw_tasks w ! tid of
              TkResolution rv \<Rightarrow>
                map_option (\<lambda>(b, rv'). set_task w tid b (TkResolution rv')) (continue_resolution ok event rv (xw_broker w))
            | _ \<Rightarrow> None)
      else None)"
| "occurs (EvTimer ref) w =
     (if ref < length (hb_heap (xw_broker w)) \<and> hg_timer (hb_heap (xw_broker w) ! ref)
      then (case prompt_timeout ref (xw_broker w) of (b, rv) \<Rightarrow> Some (add_task w b (TkResolution rv) []))
      else None)"
| "occurs (EvDisconnect conn e) w =
     (if conn < length (hb_lifecycles (xw_broker w)) \<and> lc_attached (hb_lifecycles (xw_broker w) ! conn)
      then Some (w\<lparr>xw_broker := with_lifecycle conn (cancel_lifecycle e) (xw_broker w)\<rparr>) else None)"
| "occurs (EvMonitor conn event) w =
     (if conn < length (hb_lifecycles (xw_broker w)) \<and> lc_monitored (hb_lifecycles (xw_broker w) ! conn)
      then Some (w\<lparr>xw_broker :=
        with_lifecycle conn (\<lambda>l. handle_monitor_event event (l\<lparr>lc_monitored := False\<rparr>)) (xw_broker w)\<rparr>) else None)"
| "occurs (EvCleanup conn) w =
     (let b = xw_broker w in
      if conn < length (hb_lifecycles b) \<and> lc_cleanup (hb_lifecycles b ! conn) = CleanupDue
      then (case remove_pending_request (lc_request_id (hb_lifecycles b ! conn))
              (with_lifecycle conn (\<lambda>l. l\<lparr>lc_cleanup := CleanupRunning\<rparr>) b) of
              (b1, r) \<Rightarrow> Some (add_task w b1 (TkCleanup conn r) []))
      else None)"
| "occurs (EvCleaning tid ok) w =
     (if tid < length (xw_tasks w)
      then (case xw_tasks w ! tid of
              TkCleanup conn r \<Rightarrow>
                (if r = Removed then None
                 else map_option (\<lambda>(b, r'). set_task w tid (cleanup_done conn r' b) (TkCleanup conn r'))
                        (if ok then continue_removal r (xw_broker w) else Some (xw_broker w, Removed)))
            | _ \<Rightarrow> None)
      else None)"
| "occurs EvClose w =
     (case close_hostexec (xw_broker w) of (b, c) \<Rightarrow> Some (add_task w b (TkClosing c) []))"
| "occurs (EvClosing tid ok) w =
     (if tid < length (xw_tasks w)
      then (case xw_tasks w ! tid of
              TkClosing c \<Rightarrow> map_option (\<lambda>(b, c'). set_task w tid b (TkClosing c')) (continue_closing ok c (xw_broker w))
            | _ \<Rightarrow> None)
      else None)"

inductive hostexec_step :: "hostexec_world \<Rightarrow> hostexec_world \<Rightarrow> bool" where
  event: "occurs e w = Some w' \<Longrightarrow> hostexec_step w w'"

abbreviation hostexec_steps :: "hostexec_world \<Rightarrow> hostexec_world \<Rightarrow> bool" where
  "hostexec_steps \<equiv> hostexec_step\<^sup>*\<^sup>*"

fun occur_all :: "hostexec_event list \<Rightarrow> hostexec_world \<Rightarrow> hostexec_world option" where
  "occur_all [] w = Some w"
| "occur_all (e # es) w = Option.bind (occurs e w) (occur_all es)"

lemma occur_all_steps: "occur_all es w = Some w' \<Longrightarrow> hostexec_steps w w'"
proof (induction es arbitrary: w)
  case (Cons e es)
  then show ?case
    by (auto simp: bind_eq_Some_conv intro: hostexec_step.intros converse_rtranclp_into_rtranclp)
qed simp

section \<open>What justifies a command\<close>

text \<open>The result of resolving a request, in some view of the host; likewise the check of the file.\<close>

definition resolved_for :: "hostexec_config \<Rightarrow> execute_request \<Rightarrow> resolved_execution \<Rightarrow> bool" where
  "resolved_for c m r \<longleftrightarrow>
     (\<exists>view. resolve_execute_request (hc_host c) view (hc_rules c) (hc_workspace_root c) (hc_session_tmp_dir c)
        (hc_installed c) m = Some (Some r))"

definition found_unchanged :: "hostexec_config \<Rightarrow> execute_request \<Rightarrow> resolved_execution \<Rightarrow> bool" where
  "found_unchanged c m r \<longleftrightarrow>
     (\<exists>view. integrity_verdict (hc_host c) view (hc_targets c) (hc_baseline c) (hc_installed c) m r = Some IvPass)"

definition key_of :: "hostexec_config \<Rightarrow> resolved_execution \<Rightarrow> string" where
  "key_of c r = build_approval_key (hc_host c) (rx_capability r)"

definition capability_pressed :: "hostexec_press list \<Rightarrow> string \<Rightarrow> bool" where
  "capability_pressed ps key \<longleftrightarrow> list_ex (\<lambda>p. xp_scope p = PsCapability \<and> xp_key p = key) ps"

definition request_pressed :: "hostexec_press list \<Rightarrow> string \<Rightarrow> string \<Rightarrow> bool" where
  "request_pressed ps rid key \<longleftrightarrow> list_ex (\<lambda>p. xp_scope p = PsOnce \<and> xp_request_id p = rid \<and> xp_key p = key) ps"

definition may_ask :: "hostexec_config \<Rightarrow> execute_request \<Rightarrow> resolved_execution \<Rightarrow> bool" where
  "may_ask c m r \<longleftrightarrow> resolved_for c m r \<and> rx_approval r \<noteq> HxDeny"

definition may_start :: "hostexec_config \<Rightarrow> hostexec_press list \<Rightarrow> execute_request \<Rightarrow> resolved_execution \<Rightarrow> bool" where
  "may_start c ps m r \<longleftrightarrow> may_ask c m r \<and>
     (rx_approval r = HxAllow \<and> found_unchanged c m r \<or>
      capability_pressed ps (key_of c r) \<or> request_pressed ps (eq_request_id m) (key_of c r))"

lemma capability_pressed_append [simp]: "capability_pressed ps key \<Longrightarrow> capability_pressed (ps @ qs) key"
  by (simp add: capability_pressed_def)

lemma request_pressed_append [simp]: "request_pressed ps rid key \<Longrightarrow> request_pressed (ps @ qs) rid key"
  by (simp add: request_pressed_def)

lemma may_start_append: "may_start c ps m r \<Longrightarrow> may_start c (ps @ qs) m r"
  by (auto simp: may_start_def)

section \<open>The invariant\<close>

definition effect_justified :: "hostexec_config \<Rightarrow> hostexec_press list \<Rightarrow> hostexec_effect \<Rightarrow> bool" where
  "effect_justified c ps e \<longleftrightarrow>
     (case e of
        FxStart rid s \<Rightarrow> (\<exists>m r. eq_request_id m = rid \<and> launch (hc_installed c) m r = Some s \<and> may_start c ps m r)
      | _ \<Rightarrow> True)"

definition group_sound :: "hostexec_config \<Rightarrow> hostexec_group \<Rightarrow> bool" where
  "group_sound c g \<longleftrightarrow>
     list_all (\<lambda>(rid, m, r). rid = eq_request_id m \<and> may_ask c m r \<and> key_of c r = hg_approval_key g) (hg_requests g)"

definition broker_sound :: "hostexec_config \<Rightarrow> hostexec_press list \<Rightarrow> hostexec_broker \<Rightarrow> bool" where
  "broker_sound c ps b \<longleftrightarrow> hb_config b = c \<and> list_all (effect_justified c ps) (hb_effects b) \<and>
     list_all (group_sound c) (hb_heap b) \<and> (\<forall>key\<in>hb_approved_keys b. capability_pressed ps key) \<and>
     list_all (\<lambda>(key, ref). ref < length (hb_heap b) \<and> hg_approval_key (hb_heap b ! ref) = key) (hb_groups b)"

fun point_sound :: "hostexec_config \<Rightarrow> hostexec_press list \<Rightarrow> execute_request \<Rightarrow> handler_point \<Rightarrow> bool" where
  "point_sound c ps m (PtResolved (Some r)) = resolved_for c m r"
| "point_sound c ps m (PtKeyed r) = may_ask c m r"
| "point_sound c ps m (PtAllowing r reason) = may_start c ps m r"
| "point_sound c ps m (PtAllowed r) = may_start c ps m r"
| "point_sound c ps m (PtAsking r key changed) = (may_ask c m r \<and> key = key_of c r)"
| "point_sound c ps m p = True"

fun handler_sound :: "hostexec_config \<Rightarrow> hostexec_press list \<Rightarrow> execute_request \<Rightarrow> handler_state \<Rightarrow> bool" where
  "handler_sound c ps m (HsPassing p) = point_sound c ps m p"
| "handler_sound c ps m (HsKeying r) = may_ask c m r"
| "handler_sound c ps m (HsChecking r key) = (may_ask c m r \<and> key = key_of c r)"
| "handler_sound c ps m (HsLoggingAllow r entry) = may_start c ps m r"
| "handler_sound c ps m st = True"

text \<open>A resolution that approves was pressed: for the group, or for the one request it visits.\<close>

definition frame_sound :: "hostexec_press list \<Rightarrow> resolution_frame \<Rightarrow> string list \<Rightarrow> bool" where
  "frame_sound ps fr rids \<longleftrightarrow>
     (rs_mode fr = ModeApprove \<longrightarrow>
        (case rs_selected fr of
           None \<Rightarrow> capability_pressed ps (rs_key fr)
         | Some rid \<Rightarrow> request_pressed ps rid (rs_key fr) \<and> set rids \<subseteq> {rid}))"

definition frame_placed :: "hostexec_broker \<Rightarrow> resolution_frame \<Rightarrow> bool" where
  "frame_placed b fr \<longleftrightarrow> rs_ref fr < length (hb_heap b) \<and> hg_approval_key (hb_heap b ! rs_ref fr) = rs_key fr"

definition visit_sound :: "hostexec_config \<Rightarrow> resolution_frame \<Rightarrow> execute_request \<Rightarrow> resolved_execution \<Rightarrow> bool" where
  "visit_sound c fr m r \<longleftrightarrow> may_ask c m r \<and> key_of c r = rs_key fr"

fun resolution_sound :: "hostexec_config \<Rightarrow> hostexec_press list \<Rightarrow> hostexec_broker \<Rightarrow> resolution \<Rightarrow> bool" where
  "resolution_sound c ps b (RvClosingNotice fr) = (frame_placed b fr \<and> frame_sound ps fr [] \<and> rs_selected fr = None)"
| "resolution_sound c ps b (RvRemovingFile fr rid m r waiter) =
     (frame_placed b fr \<and> frame_sound ps fr (eq_request_id m # rs_rest fr) \<and> visit_sound c fr m r)"
| "resolution_sound c ps b (RvGroupClosing fr m r waiter) =
     (frame_placed b fr \<and> frame_sound ps fr (eq_request_id m # rs_rest fr) \<and> visit_sound c fr m r)"
| "resolution_sound c ps b (RvLoggingDeny fr conn entry answer) = (frame_placed b fr \<and> frame_sound ps fr (rs_rest fr))"
| "resolution_sound c ps b (RvWritingDeny fr conn answer) = (frame_placed b fr \<and> frame_sound ps fr (rs_rest fr))"
| "resolution_sound c ps b (RvLoggingAllow fr conn m r entry) =
     (frame_placed b fr \<and> frame_sound ps fr (rs_rest fr) \<and> may_start c ps m r)"
| "resolution_sound c ps b (RvRunning fr conn rid x) = (frame_placed b fr \<and> frame_sound ps fr (rs_rest fr))"
| "resolution_sound c ps b (RvReturning fr conn rid answer) = (frame_placed b fr \<and> frame_sound ps fr (rs_rest fr))"
| "resolution_sound c ps b (RvWritingError fr conn answer) = (frame_placed b fr \<and> frame_sound ps fr (rs_rest fr))"
| "resolution_sound c ps b (RvDone reply) = True"
| "resolution_sound c ps b RvFailed = True"

definition task_sound :: "hostexec_config \<Rightarrow> hostexec_press list \<Rightarrow> hostexec_broker \<Rightarrow> hostexec_task \<Rightarrow> bool" where
  "task_sound c ps b t \<longleftrightarrow>
     (case t of
        TkHandler conn m st \<Rightarrow> handler_sound c ps m st
      | TkResolution rv \<Rightarrow> resolution_sound c ps b rv
      | _ \<Rightarrow> True)"

definition hostexec_sound :: "hostexec_config \<Rightarrow> hostexec_world \<Rightarrow> bool" where
  "hostexec_sound c w \<longleftrightarrow> broker_sound c (xw_presses w) (xw_broker w) \<and>
     list_all (task_sound c (xw_presses w) (xw_broker w)) (xw_tasks w)"

text \<open>Cells of the heap stay where they are and keep their key.\<close>

definition heap_extends :: "hostexec_broker \<Rightarrow> hostexec_broker \<Rightarrow> bool" where
  "heap_extends b b' \<longleftrightarrow> prefix (map hg_approval_key (hb_heap b)) (map hg_approval_key (hb_heap b'))"

lemma heap_extends_cell:
  assumes "heap_extends b b'" and "ref < length (hb_heap b)"
  shows "ref < length (hb_heap b') \<and> hg_approval_key (hb_heap b' ! ref) = hg_approval_key (hb_heap b ! ref)"
proof -
  obtain zs where z: "map hg_approval_key (hb_heap b') = map hg_approval_key (hb_heap b) @ zs"
    using assms(1) by (auto simp: heap_extends_def prefix_def)
  have len: "length (hb_heap b') = length (hb_heap b) + length zs" using arg_cong [OF z, of length] by simp
  have "map hg_approval_key (hb_heap b') ! ref = map hg_approval_key (hb_heap b) ! ref"
    unfolding z using assms(2) by (simp add: nth_append)
  then show ?thesis using assms(2) len by simp
qed

lemma frame_placed_extends: "heap_extends b b' \<Longrightarrow> frame_placed b fr \<Longrightarrow> frame_placed b' fr"
  using heap_extends_cell by (auto simp: frame_placed_def)

lemma heap_extends_refl [simp]: "heap_extends b b"
  by (simp add: heap_extends_def)

lemma heap_extends_trans: "heap_extends a b \<Longrightarrow> heap_extends b d \<Longrightarrow> heap_extends a d"
  unfolding heap_extends_def by (rule prefix_order.trans)

lemma frame_sound_append: "frame_sound ps fr rids \<Longrightarrow> frame_sound (ps @ qs) fr rids"
  by (auto simp: frame_sound_def split: option.splits)

lemma resolution_sound_extends:
  "resolution_sound c ps b rv \<Longrightarrow> heap_extends b b' \<Longrightarrow> resolution_sound c (ps @ qs) b' rv"
  by (cases rv) (auto simp: frame_placed_extends frame_sound_append may_start_append)

lemma point_sound_append: "point_sound c ps m p \<Longrightarrow> point_sound c (ps @ qs) m p"
  by (induction c ps m p rule: point_sound.induct) (auto simp: may_start_append)

lemma handler_sound_append: "handler_sound c ps m st \<Longrightarrow> handler_sound c (ps @ qs) m st"
  by (cases st) (auto simp: may_start_append point_sound_append)

lemma task_sound_extends: "task_sound c ps b t \<Longrightarrow> heap_extends b b' \<Longrightarrow> task_sound c (ps @ qs) b' t"
  by (cases t) (auto simp: task_sound_def handler_sound_append resolution_sound_extends)

lemma effect_justified_append: "effect_justified c ps e \<Longrightarrow> effect_justified c (ps @ qs) e"
  by (cases e) (auto simp: effect_justified_def intro: may_start_append)

section \<open>Small changes\<close>

text \<open>What the invariant does not look at.\<close>

lemma sound_fields [simp]:
  "broker_sound c ps (with_lifecycle conn f b) = broker_sound c ps b"
  "broker_sound c ps (b\<lparr>hb_request_keys := keys\<rparr>) = broker_sound c ps b"
  "broker_sound c ps (b\<lparr>hb_active := ids\<rparr>) = broker_sound c ps b"
  "broker_sound c ps (b\<lparr>hb_files := files\<rparr>) = broker_sound c ps b"
  "broker_sound c ps (b\<lparr>hb_active := ids, hb_lifecycles := ls\<rparr>) = broker_sound c ps b"
  "broker_sound c ps (settle_waiter_of conn b) = broker_sound c ps b"
  by (simp_all add: broker_sound_def with_lifecycle_def settle_waiter_of_def)

lemma extends_fields [simp]:
  "heap_extends a (with_lifecycle conn f b) = heap_extends a b"
  "heap_extends a (b\<lparr>hb_request_keys := keys\<rparr>) = heap_extends a b"
  "heap_extends a (b\<lparr>hb_active := ids\<rparr>) = heap_extends a b"
  "heap_extends a (b\<lparr>hb_files := files\<rparr>) = heap_extends a b"
  "heap_extends a (b\<lparr>hb_groups := groups\<rparr>) = heap_extends a b"
  "heap_extends a (b\<lparr>hb_active := ids, hb_lifecycles := ls\<rparr>) = heap_extends a b"
  "heap_extends a (settle_waiter_of conn b) = heap_extends a b"
  "heap_extends a (emit_fx e b) = heap_extends a b"
  "heap_extends a (record_hostexec_audit entry b) = heap_extends a b"
  by (simp_all add: heap_extends_def with_lifecycle_def settle_waiter_of_def emit_fx_def record_hostexec_audit_def)

lemma sound_emit [simp]:
  "broker_sound c ps (emit_fx e b) \<longleftrightarrow> broker_sound c ps b \<and> effect_justified c ps e"
  by (auto simp: broker_sound_def emit_fx_def)

lemma effects_justified [simp]:
  "effect_justified c ps (FxAudit entry)" "effect_justified c ps (FxAnswer answer)" "effect_justified c ps (FxNotify p)"
  by (simp_all add: effect_justified_def)

lemma sound_audit [simp]: "broker_sound c ps (record_hostexec_audit entry b) = broker_sound c ps b"
  by (simp add: record_hostexec_audit_def)

lemma sound_delete_group:
  "broker_sound c ps b \<Longrightarrow> broker_sound c ps (b\<lparr>hb_groups := AList.delete key (hb_groups b)\<rparr>)"
  by (auto simp: broker_sound_def list_all_iff AList.delete_eq)

lemma with_group_here:
  assumes "broker_sound c ps b" and "ref < length (hb_heap b)"
    and f: "group_sound c (f (hb_heap b ! ref))" and key: "\<And>g. hg_approval_key (f g) = hg_approval_key g"
  shows "broker_sound c ps (with_group ref f b) \<and> heap_extends b (with_group ref f b)"
proof -
  let ?h = "(hb_heap b)[ref := f (hb_heap b ! ref)]"
  have "list_all (group_sound c) (hb_heap b)" using assms(1) by (simp add: broker_sound_def)
  then have "list_all (group_sound c) ?h"
    using f set_update_subset_insert [of "hb_heap b" ref "f (hb_heap b ! ref)"] by (auto simp: list_all_iff)
  moreover have "map hg_approval_key ?h = map hg_approval_key (hb_heap b)"
    using key assms(2) by (simp add: map_update list_update_same_conv)
  moreover have "hg_approval_key (?h ! i) = hg_approval_key (hb_heap b ! i)" for i
    using key assms(2) by (cases "i = ref") simp_all
  ultimately show ?thesis
    using assms(1) by (simp add: broker_sound_def with_group_def heap_extends_def)
qed

lemma with_group_ok:
  assumes "broker_sound c ps b" and f: "\<And>g. group_sound c g \<Longrightarrow> group_sound c (f g)"
    and key: "\<And>g. hg_approval_key (f g) = hg_approval_key g"
  shows "broker_sound c ps (with_group ref f b) \<and> heap_extends b (with_group ref f b)"
proof (cases "ref < length (hb_heap b)")
  case True
  then have "group_sound c (f (hb_heap b ! ref))" using assms(1) f by (simp add: broker_sound_def list_all_length)
  then show ?thesis using with_group_here assms(1) True key by blast
next
  case False
  then show ?thesis using assms(1) by (simp add: with_group_def list_update_beyond not_less)
qed

lemma forget_ok: "group_sound c g \<Longrightarrow> group_sound c (forget_request rid g)" "hg_approval_key (forget_request rid g) = hg_approval_key g"
  by (auto simp: group_sound_def forget_request_def list_all_iff AList.delete_eq)

lemma end_ok: "group_sound c g \<Longrightarrow> group_sound c (end_group g)" "hg_approval_key (end_group g) = hg_approval_key g"
  by (simp_all add: group_sound_def end_group_def)

lemmas forget_group_ok = with_group_ok [where f = "forget_request rid" for rid, OF _ forget_ok]
lemmas end_group_ok = with_group_ok [where f = end_group, OF _ end_ok]

section \<open>Removals and the closing\<close>

lemma remove_pending_sound:
  assumes "broker_sound c ps b" and "remove_pending_request rid b = (b', r)"
  shows "broker_sound c ps b' \<and> heap_extends b b'"
proof (cases "find_group b rid")
  case None
  then show ?thesis using assms by (auto simp: remove_pending_request_def)
next
  case (Some ref)
  let ?b1 = "b\<lparr>hb_request_keys := AList.delete rid (hb_request_keys b)\<rparr>"
  have "broker_sound c ps ?b1" using assms(1) by simp
  from forget_group_ok [OF this, where rid = rid and ref = ref] show ?thesis
    using assms(2) Some by (auto simp: remove_pending_request_def Let_def heap_extends_def)
qed

lemma continue_removal_sound:
  assumes "broker_sound c ps b" and "continue_removal r b = Some (b', r')"
  shows "broker_sound c ps b' \<and> heap_extends b b'"
proof -
  have release: "broker_sound c ps (fst (release_waiter waiter d)) \<and> heap_extends b (fst (release_waiter waiter d))"
    if "broker_sound c ps d" "heap_extends b d" for waiter d
    using that by (auto simp: release_waiter_def split: option.splits)
  show ?thesis
  proof (cases r)
    case (RemovingFile rid found)
    let ?b1 = "b\<lparr>hb_files := AList.delete rid (hb_files b)\<rparr>"
    show ?thesis
    proof (cases found)
      case None
      then show ?thesis using assms by (auto simp: continue_removal_def RemovingFile Let_def)
    next
      case (Some p)
      obtain ref waiter where p: "p = (ref, waiter)" by (cases p)
      have b1: "broker_sound c ps ?b1" using assms(1) by simp
      have b2: "broker_sound c ps (with_group ref end_group ?b1)" "heap_extends b (with_group ref end_group ?b1)"
        using end_group_ok [OF b1, where ref = ref] by (auto simp: heap_extends_def)
      show ?thesis
      proof (cases "hg_requests (hb_heap ?b1 ! ref) = []")
        case True
        then show ?thesis
          using assms(2) b2 sound_delete_group [OF b2(1)]
          by (auto simp: continue_removal_def RemovingFile Some p Let_def split: if_splits)
      next
        case False
        then show ?thesis
          using assms(2) release [OF b1, of waiter] by (auto simp: continue_removal_def RemovingFile Some p Let_def)
      qed
    qed
    next
    case (ClosingNotice waiter)
    then show ?thesis using assms release [OF assms(1), of waiter] by (auto simp: continue_removal_def)
  qed (use assms in \<open>simp add: continue_removal_def\<close>)
qed

lemma close_from_sound:
  "broker_sound c ps b \<Longrightarrow> close_from passed told refs b = (b', cl) \<Longrightarrow> broker_sound c ps b' \<and> heap_extends b b'"
proof (induction passed told refs b rule: close_from.induct)
  case (2 passed told ref refs b)
  have b1: "broker_sound c ps (with_group ref end_group b)" "heap_extends b (with_group ref end_group b)"
    using end_group_ok [OF 2(3), where ref = ref] by simp_all
  show ?case
  proof (cases "ref \<in> set passed")
    case False
    show ?thesis
    proof (cases "List.find (\<lambda>(rid, conn). rid \<notin> set told) (hg_waiters (hb_heap (with_group ref end_group b) ! ref))")
      case None
      then have "close_from (ref # passed) [] refs (with_group ref end_group b) = (b', cl)"
        using 2(4) False by (simp add: Let_def)
      from 2(2) [OF False refl None b1(1) this] show ?thesis using b1(2) heap_extends_trans by blast
    next
      case (Some p)
      then show ?thesis using 2(4) False b1 by (cases p) (auto simp: Let_def)
    qed
  qed (use 2 in simp)
qed auto

lemma continue_closing_sound:
  assumes "broker_sound c ps b" and "continue_closing ok cl b = Some (b', cl')"
  shows "broker_sound c ps b' \<and> heap_extends b b'"
proof (cases cl)
  case (ClosingWaiter passed told ref rid conn)
  let ?b1 = "settle_waiter_of conn (if ok then emit_fx (FxAnswer (BgError rid ''hostexec broker closed'')) b else b)"
  have "broker_sound c ps ?b1" "heap_extends b ?b1" using assms(1) by simp_all
  moreover have "close_from passed told (ref # removeAll ref (map snd (hb_groups ?b1))) ?b1 = (b', cl')"
    using assms(2) by (simp add: continue_closing_def ClosingWaiter Let_def)
  ultimately show ?thesis using close_from_sound heap_extends_trans by blast
next
  case ClosingNotices
  then show ?thesis using assms by (auto simp: continue_closing_def broker_sound_def heap_extends_def)
qed (use assms in \<open>simp add: continue_closing_def\<close>)

section \<open>Resolutions\<close>

definition resolution_ok ::
  "hostexec_config \<Rightarrow> hostexec_press list \<Rightarrow> hostexec_broker \<Rightarrow> hostexec_broker \<times> resolution \<Rightarrow> bool"
where
  "resolution_ok c ps b res \<longleftrightarrow>
     broker_sound c ps (fst res) \<and> heap_extends b (fst res) \<and> resolution_sound c ps (fst res) (snd res)"

lemma resolution_ok_change:
  "resolution_ok c ps d res \<Longrightarrow> heap_extends b d \<Longrightarrow> resolution_ok c ps b res"
  using heap_extends_trans by (auto simp: resolution_ok_def)

lemma frame_sound_rest: "frame_sound ps fr (rid # rids) \<Longrightarrow> frame_sound ps fr rids"
  by (auto simp: frame_sound_def split: option.splits)

lemma frame_fields [simp]:
  "frame_placed b (fr\<lparr>rs_rest := rest\<rparr>) = frame_placed b fr"
  "visit_sound c (fr\<lparr>rs_rest := rest\<rparr>) m r = visit_sound c fr m r"
  by (simp_all add: frame_placed_def visit_sound_def)

lemma frame_sound_change [simp]: "frame_sound ps (fr\<lparr>rs_rest := rest\<rparr>) rids = frame_sound ps fr rids"
  by (cases "rs_selected fr") (simp_all add: frame_sound_def)

lemma placed_request:
  assumes "broker_sound c ps b" and "frame_placed b fr"
    and "map_of (hg_requests (hb_heap b ! rs_ref fr)) rid = Some (m, r)"
  shows "rid = eq_request_id m \<and> visit_sound c fr m r"
proof -
  have "group_sound c (hb_heap b ! rs_ref fr)"
    using assms(1,2) by (simp add: broker_sound_def frame_placed_def list_all_length)
  then show ?thesis
    using assms(2) map_of_SomeD [OF assms(3)]
    by (auto simp: group_sound_def list_all_iff visit_sound_def frame_placed_def)
qed

lemma resolve_next_ok:
  "broker_sound c ps b \<Longrightarrow> frame_placed b fr \<Longrightarrow> frame_sound ps fr rids \<Longrightarrow> resolution_ok c ps b (resolve_next fr rids b)"
proof (induction fr rids b rule: resolve_next.induct)
  case (2 fr rid rest b)
  show ?case
  proof (cases "map_of (hg_requests (hb_heap b ! rs_ref fr)) rid")
    case None
    then show ?thesis using 2 frame_sound_rest by (simp add: Let_def)
  next
    case (Some q)
    obtain m r where q: "q = (m, r)" by (cases q)
    define b1 where "b1 = (if rs_selected fr \<noteq> None then with_group (rs_ref fr) (forget_request rid) b else b)"
    have b1: "broker_sound c ps b1" "heap_extends b b1" using forget_group_ok [OF 2(2)] 2(2) by (simp_all add: b1_def)
    have "frame_placed b1 fr" using frame_placed_extends [OF b1(2) 2(3)] .
    then have "frame_placed (b1\<lparr>hb_request_keys := AList.delete rid (hb_request_keys b1)\<rparr>) fr"
      by (simp add: frame_placed_def)
    moreover have "resolve_next fr (rid # rest) b =
        (b1\<lparr>hb_request_keys := AList.delete rid (hb_request_keys b1)\<rparr>,
         RvRemovingFile (fr\<lparr>rs_rest := rest\<rparr>) rid m r (map_of (hg_waiters (hb_heap b ! rs_ref fr)) rid))"
      using Some q by (simp add: b1_def Let_def)
    ultimately show ?thesis
      using b1 2(4) placed_request [OF 2(2,3) Some [unfolded q]] by (simp add: resolution_ok_def)
  qed
qed (simp add: resolution_ok_def)

lemma resolve_rest_ok:
  "broker_sound c ps b \<Longrightarrow> frame_placed b fr \<Longrightarrow> frame_sound ps fr (rs_rest fr) \<Longrightarrow> resolution_ok c ps b (resolve_rest fr b)"
  unfolding resolve_rest_def by (rule resolve_next_ok)

lemma placed_fields [simp]:
  "frame_placed (with_lifecycle conn f b) fr = frame_placed b fr"
  "frame_placed (settle_waiter_of conn b) fr = frame_placed b fr"
  "frame_placed (emit_fx e b) fr = frame_placed b fr"
  "frame_placed (record_hostexec_audit entry b) fr = frame_placed b fr"
  "frame_placed (b\<lparr>hb_files := files\<rparr>) fr = frame_placed b fr"
  "frame_placed (b\<lparr>hb_groups := groups\<rparr>) fr = frame_placed b fr"
  by (simp_all add: frame_placed_def with_lifecycle_def settle_waiter_of_def emit_fx_def record_hostexec_audit_def)

lemma release_ok:
  assumes "broker_sound c ps b" and "frame_placed b fr" and "frame_sound ps fr (rs_rest fr)"
  shows "resolution_ok c ps b (release_and_next fr conn b)" and "resolution_ok c ps b (terminal_and_next fr conn b)"
    and "resolution_ok c ps b (report_failure fr conn rid e b)"
proof -
  show "resolution_ok c ps b (release_and_next fr conn b)"
    unfolding release_and_next_def using assms resolve_rest_ok [of c ps "settle_waiter_of conn b" fr]
    by (auto intro: resolution_ok_change)
  show terminal: "resolution_ok c ps b (terminal_and_next fr conn b)"
    unfolding terminal_and_next_def release_and_next_def
    using assms resolve_rest_ok [of c ps "settle_waiter_of conn (with_lifecycle conn mark_terminal b)" fr]
    by (auto intro: resolution_ok_change)
  show "resolution_ok c ps b (report_failure fr conn rid e b)"
    using terminal assms by (simp add: report_failure_def resolution_ok_def)
qed

lemma visit_waiter_ok:
  assumes "broker_sound c ps b" and "frame_placed b fr" and "frame_sound ps fr (eq_request_id m # rs_rest fr)"
    and "visit_sound c fr m r"
  shows "resolution_ok c ps b (visit_waiter fr m r waiter b)"
proof -
  have rest: "frame_sound ps fr (rs_rest fr)" using frame_sound_rest assms(3) .
  have "may_start c ps m r" if "rs_mode fr = ModeApprove"
    using assms(3,4) that by (auto simp: frame_sound_def visit_sound_def may_start_def split: option.splits)
  then show ?thesis
    using release_ok(1) [OF assms(1,2) rest] resolve_rest_ok [OF assms(1,2) rest] assms rest
    by (auto simp: visit_waiter_def resolution_ok_def split: option.splits resolve_mode.splits)
qed

lemma run_gateway_ok:
  assumes "broker_sound c ps b" and "may_start c ps m r" and "run_gateway_resolved m r b = (b', res)"
  shows "broker_sound c ps b' \<and> heap_extends b b'"
proof -
  have "effect_justified c ps (FxStart (eq_request_id m) s)" if "launch (hc_installed (hb_config b)) m r = Some s" for s
    using assms(1,2) that by (auto simp: effect_justified_def broker_sound_def)
  then show ?thesis using assms(1,3) by (auto simp: run_gateway_resolved_def split: option.splits)
qed

lemma start_approved_ok:
  assumes "broker_sound c ps b" and "frame_placed b fr" and "frame_sound ps fr (rs_rest fr)" and "may_start c ps m r"
  shows "resolution_ok c ps b (start_approved fr conn m r b)"
proof (cases "is_cancelled conn b")
  case True
  then show ?thesis using release_ok(1) [OF assms(1-3)] by (simp add: start_approved_def)
next
  case False
  obtain b1 res where run: "run_gateway_resolved m r (with_lifecycle conn mark_running b) = (b1, res)" by fastforce
  have "broker_sound c ps b1 \<and> heap_extends (with_lifecycle conn mark_running b) b1"
    using run_gateway_ok [OF _ assms(4) run] assms(1) by simp
  then have b1: "broker_sound c ps b1" "heap_extends b b1" by (auto simp: heap_extends_def with_lifecycle_def)
  then show ?thesis
    using False run frame_placed_extends [OF b1(2) assms(2)] assms(3)
    by (cases res) (simp_all add: start_approved_def resolution_ok_def)
qed

lemma continue_resolution_ok:
  assumes "broker_sound c ps b" and "resolution_sound c ps b rv" and "continue_resolution ok event rv b = Some res"
  shows "resolution_ok c ps b res"
proof (cases rv)
  case (RvClosingNotice fr)
  have "frame_sound ps fr (map fst (hg_requests (hb_heap b ! rs_ref fr)))"
    using assms(2) RvClosingNotice by (cases "rs_selected fr") (simp_all add: frame_sound_def)
  then show ?thesis
    using assms resolve_next_ok [OF assms(1)] by (auto simp: continue_resolution_def RvClosingNotice resolution_ok_def)
next
  case (RvRemovingFile fr rid m r waiter)
  let ?b1 = "b\<lparr>hb_files := AList.delete rid (hb_files b)\<rparr>"
  have b1: "broker_sound c ps ?b1" "frame_placed ?b1 fr" "frame_sound ps fr (eq_request_id m # rs_rest fr)" "visit_sound c fr m r"
    using assms(1,2) RvRemovingFile by simp_all
  let ?b2 = "?b1\<lparr>hb_groups := AList.delete (rs_key fr) (hb_groups ?b1)\<rparr>"
  have "broker_sound c ps ?b2" using b1(1) by (rule sound_delete_group)
  from end_group_ok [OF this, where ref = "rs_ref fr"]
  have b2: "broker_sound c ps (with_group (rs_ref fr) end_group ?b2)" "heap_extends b (with_group (rs_ref fr) end_group ?b2)"
    by (auto simp: heap_extends_def)
  have "frame_placed (with_group (rs_ref fr) end_group ?b2) fr"
    using frame_placed_extends [OF b2(2)] assms(2) RvRemovingFile by simp
  then have "resolution_ok c ps b (with_group (rs_ref fr) end_group ?b2, RvGroupClosing fr m r waiter)"
    using b1(3,4) b2 by (simp add: resolution_ok_def)
  moreover have "resolution_ok c ps b (visit_waiter fr m r waiter ?b1)"
    using visit_waiter_ok [OF b1] by (rule resolution_ok_change) simp
  moreover have "resolution_ok c ps b (b, RvFailed)" using assms(1) by (simp add: resolution_ok_def)
  ultimately show ?thesis
    using assms(3) by (auto simp: continue_resolution_def RvRemovingFile Let_def split: if_splits)
next
  case (RvGroupClosing fr m r waiter)
  then show ?thesis
    using assms visit_waiter_ok [OF assms(1), of fr m r waiter]
    by (auto simp: continue_resolution_def resolution_ok_def)
next
  case (RvLoggingDeny fr conn entry answer)
  then show ?thesis
    using assms release_ok(1) [OF assms(1), of fr conn] by (auto simp: continue_resolution_def resolution_ok_def)
next
  case (RvWritingDeny fr conn answer)
  have "resolution_ok c ps b (terminal_and_next fr conn (if ok then emit_fx (FxAnswer answer) b else b))"
    by (rule resolution_ok_change [OF release_ok(2)]) (use assms RvWritingDeny in \<open>auto split: if_splits\<close>)
  then show ?thesis using assms(3) by (auto simp: continue_resolution_def RvWritingDeny)
next
  case (RvLoggingAllow fr conn m r entry)
  have "resolution_ok c ps b (start_approved fr conn m r (record_hostexec_audit entry b))"
    by (rule resolution_ok_change [OF start_approved_ok]) (use assms RvLoggingAllow in auto)
  then show ?thesis
    using assms release_ok(1) [OF assms(1), of fr conn] by (auto simp: continue_resolution_def RvLoggingAllow)
next
  case (RvRunning fr conn rid x)
  then show ?thesis
    using assms release_ok(2,3) [OF assms(1), of fr]
    by (auto simp: continue_resolution_def resolution_ok_def split: if_splits)
next
  case (RvReturning fr conn rid answer)
  have "resolution_ok c ps b (terminal_and_next fr conn (emit_fx (FxAnswer answer) b))"
    by (rule resolution_ok_change [OF release_ok(2)]) (use assms RvReturning in auto)
  then show ?thesis
    using assms release_ok(3) [OF assms(1), of fr conn] by (auto simp: continue_resolution_def RvReturning)
next
  case (RvWritingError fr conn answer)
  have "resolution_ok c ps b (terminal_and_next fr conn (if ok then emit_fx (FxAnswer answer) b else b))"
    by (rule resolution_ok_change [OF release_ok(2)]) (use assms RvWritingError in \<open>auto split: if_splits\<close>)
  then show ?thesis using assms(3) by (auto simp: continue_resolution_def RvWritingError)
qed (use assms in \<open>simp_all add: continue_resolution_def\<close>)

lemma resolve_hostexec_group_ok:
  assumes "broker_sound c ps b"
    and pressed: "mode = ModeApprove \<Longrightarrow>
      case selected of None \<Rightarrow> capability_pressed ps key | Some rid \<Rightarrow> request_pressed ps rid key"
  shows "resolution_ok c ps b (resolve_hostexec_group key mode selected reply b)"
proof (cases "map_of (hb_groups b) key")
  case None
  then show ?thesis using assms(1) by (simp add: resolve_hostexec_group_def resolution_ok_def)
next
  case (Some ref)
  let ?fr = "\<lparr>rs_ref = ref, rs_key = key, rs_mode = mode, rs_selected = selected, rs_rest = [], rs_reply = reply\<rparr>"
  have placed: "frame_placed b ?fr"
    using assms(1) map_of_SomeD [OF Some] by (auto simp: broker_sound_def list_all_iff frame_placed_def)
  have sound: "frame_sound ps ?fr (case selected of None \<Rightarrow> [] | Some rid \<Rightarrow> [rid])"
    using pressed by (auto simp: frame_sound_def split: option.splits)
  show ?thesis
  proof (cases selected)
    case None
    have "broker_sound c ps (b\<lparr>hb_groups := AList.delete key (hb_groups b)\<rparr>)" using assms(1) by (rule sound_delete_group)
    from end_group_ok [OF this, where ref = ref]
    have "broker_sound c ps (with_group ref end_group (b\<lparr>hb_groups := AList.delete key (hb_groups b)\<rparr>))"
      "heap_extends b (with_group ref end_group (b\<lparr>hb_groups := AList.delete key (hb_groups b)\<rparr>))"
      by (auto simp: heap_extends_def)
    then show ?thesis
      using Some None sound frame_placed_extends placed by (auto simp: resolve_hostexec_group_def resolution_ok_def)
  next
    case (Some rid)
    have "resolve_hostexec_group key mode selected reply b = resolve_next ?fr [rid] b"
      using Some \<open>map_of (hb_groups b) key = Some ref\<close> by (simp add: resolve_hostexec_group_def del: resolve_next.simps)
    then show ?thesis using sound resolve_next_ok [OF assms(1) placed] Some by (simp del: resolve_next.simps)
  qed
qed

lemma broker_sound_append: "broker_sound c ps b \<Longrightarrow> broker_sound c (ps @ qs) b"
  by (auto simp: broker_sound_def list_all_iff effect_justified_append)

lemma found_group_key:
  assumes "broker_sound c ps b" and "find_group b rid = Some ref"
  shows "map_of (hb_groups b) (hg_approval_key (hb_heap b ! ref)) = Some ref"
proof -
  obtain key where key: "map_of (hb_groups b) key = Some ref"
    using assms(2) by (auto simp: find_group_def split: option.splits if_splits)
  then show ?thesis
    using assms(1) map_of_SomeD [OF key] by (auto simp: broker_sound_def list_all_iff)
qed

lemma approve_hostexec_ok:
  assumes "broker_sound c ps b"
  shows "resolution_ok c (ps @ accepted_approval (ControlApprove rid scope) b) b (approve_hostexec rid scope b)"
proof (cases "find_group b rid")
  case None
  then show ?thesis
    using assms by (simp add: approve_hostexec_def accepted_approval_def resolution_ok_def)
next
  case (Some ref)
  let ?g = "hb_heap b ! ref" and ?ack = "Some (HxReplyAck rid Allow)"
  let ?chosen = "case Option.bind scope scope_of_text of
      None \<Rightarrow> pc_default_scope (hc_prompt (hb_config b)) | Some s \<Rightarrow> s"
  let ?press = "\<lparr>xp_request_id = rid, xp_scope = ?chosen, xp_key = hg_approval_key ?g\<rparr>"
  let ?ps = "ps @ [?press]"
  have sound: "broker_sound c ?ps b" using assms by (rule broker_sound_append)
  show ?thesis
  proof (cases "case scope of None \<Rightarrow> False | Some s \<Rightarrow> \<not> group_allows ?g s")
    case True
    then show ?thesis
      using Some assms by (simp add: approve_hostexec_def accepted_approval_def resolution_ok_def split: option.splits)
  next
    case False
    then have press: "accepted_approval (ControlApprove rid scope) b = [?press]"
      using Some by (simp add: accepted_approval_def split: option.splits)
    show ?thesis
    proof (cases ?chosen)
      case PsOnce
      have "request_pressed ?ps rid (hg_approval_key ?g)" using PsOnce by (simp add: request_pressed_def)
      then have "resolution_ok c ?ps b (resolve_hostexec_group (hg_approval_key ?g) ModeApprove (Some rid) ?ack b)"
        using resolve_hostexec_group_ok [OF sound] by simp
      then show ?thesis
        using Some False press PsOnce by (simp add: approve_hostexec_def Let_def del: option.case_cong)
    next
      case PsCapability
      let ?b1 = "b\<lparr>hb_approved_keys := insert (hg_approval_key ?g) (hb_approved_keys b)\<rparr>"
      have pressed: "capability_pressed ?ps (hg_approval_key ?g)" using PsCapability by (simp add: capability_pressed_def)
      then have "broker_sound c ?ps ?b1" using sound by (auto simp: broker_sound_def)
      then have "resolution_ok c ?ps ?b1 (resolve_hostexec_group (hg_approval_key ?g) ModeApprove None ?ack ?b1)"
        using pressed resolve_hostexec_group_ok by simp
      then have "resolution_ok c ?ps b (resolve_hostexec_group (hg_approval_key ?g) ModeApprove None ?ack ?b1)"
        by (rule resolution_ok_change) (simp add: heap_extends_def)
      then show ?thesis
        using Some False press PsCapability by (simp add: approve_hostexec_def Let_def del: option.case_cong)
    qed
  qed
qed

lemma control_ok:
  assumes "broker_sound c ps b"
  shows "resolution_ok c (ps @ accepted_approval msg b) b (handle_control_message msg b)"
proof (cases msg)
  case (ControlApprove rid scope)
  then show ?thesis using approve_hostexec_ok [OF assms] by (simp add: handle_control_message_def)
next
  case (ControlDeny rid)
  have "resolution_ok c ps b (deny_hostexec rid b)"
  proof (cases "find_group b rid")
    case None
    then show ?thesis using assms by (simp add: deny_hostexec_def resolution_ok_def)
  next
    case (Some ref)
    then show ?thesis by (auto simp: deny_hostexec_def intro!: resolve_hostexec_group_ok [OF assms])
  qed
  then show ?thesis by (simp add: ControlDeny handle_control_message_def accepted_approval_def)
qed (use assms in \<open>simp_all add: handle_control_message_def accepted_approval_def resolution_ok_def\<close>)

lemma timeout_ok:
  assumes "broker_sound c ps b"
  shows "resolution_ok c ps b (prompt_timeout ref b)"
proof -
  let ?off = "\<lambda>g. g\<lparr>hg_timer := False\<rparr>"
  have "broker_sound c ps (with_group ref ?off b) \<and> heap_extends b (with_group ref ?off b)"
    by (rule with_group_ok [OF assms]) (simp_all add: group_sound_def)
  then show ?thesis
    unfolding prompt_timeout_def by (auto intro: resolution_ok_change [OF resolve_hostexec_group_ok])
qed

section \<open>Handlers\<close>

definition handler_ok ::
  "hostexec_config \<Rightarrow> hostexec_press list \<Rightarrow> execute_request \<Rightarrow> hostexec_broker \<Rightarrow> hostexec_broker \<times> handler_state \<Rightarrow> bool"
where
  "handler_ok c ps m b res \<longleftrightarrow>
     broker_sound c ps (fst res) \<and> heap_extends b (fst res) \<and> handler_sound c ps m (snd res)"

lemma handler_ok_change: "handler_ok c ps m d res \<Longrightarrow> heap_extends b d \<Longrightarrow> handler_ok c ps m b res"
  using heap_extends_trans by (auto simp: handler_ok_def)

lemma guard_ok [intro]:
  "broker_sound c ps b \<Longrightarrow> point_sound c ps m p \<Longrightarrow> handler_ok c ps m b (guard conn withdraw p b)"
  by (simp add: guard_def handler_ok_def)

lemma finish_ok:
  assumes "broker_sound c ps b"
  shows "handler_ok c ps m b (finish_handler conn m b)" and "handler_ok c ps m b (return_terminal conn m b)"
    and "handler_ok c ps m b (fail_handler conn m e b)"
  using assms by (simp_all add: finish_handler_def return_terminal_def fail_handler_def handler_ok_def)

lemma new_group_sound:
  assumes "broker_sound c ps b" and "group_sound c g" and "hg_approval_key g = key"
  shows "broker_sound c ps (b\<lparr>hb_heap := hb_heap b @ [g], hb_groups := AList.update key (length (hb_heap b)) (hb_groups b)\<rparr>)"
proof -
  have "ref < length (hb_heap b @ [g]) \<and> hg_approval_key ((hb_heap b @ [g]) ! ref) = k"
    if "(k, ref) \<in> set (AList.update key (length (hb_heap b)) (hb_groups b))" for k ref
    using that assms set_update_subset [of key "length (hb_heap b)" "hb_groups b"]
    by (auto simp: broker_sound_def list_all_iff nth_append)
  then show ?thesis using assms by (auto simp: broker_sound_def list_all_iff)
qed

lemma create_group_ok:
  assumes "broker_sound c ps b" and "may_ask c m r" and "key = key_of c r"
  shows "handler_ok c ps m b (create_hostexec_group conn m r key changed now b)"
  using assms
  by (auto simp: handler_ok_def create_hostexec_group_def Let_def heap_extends_def group_sound_def intro!: new_group_sound)

lemma join_group_ok:
  assumes "broker_sound c ps b" and "may_ask c m r" and "key = key_of c r" and "map_of (hb_groups b) key = Some ref"
  shows "handler_ok c ps m b (join_hostexec_group conn m r key changed now ref b)"
proof (cases "map_of (hg_requests (hb_heap b ! ref)) (eq_request_id m)")
  case None
  let ?entry = "to_hostexec_pending m r key (hg_created_at (hb_heap b ! ref)) now changed
    (pc_default_scope (hc_prompt (hb_config b)))"
  let ?f = "\<lambda>g. g\<lparr>hg_requests := AList.update (eq_request_id m) (m, r) (hg_requests g),
    hg_pending_entries := AList.update (eq_request_id m) ?entry (hg_pending_entries g),
    hg_waiters := AList.update (eq_request_id m) conn (hg_waiters g)\<rparr>"
  let ?b1 = "b\<lparr>hb_request_keys := AList.update (eq_request_id m) key (hb_request_keys b)\<rparr>"
  have placed: "ref < length (hb_heap b)" "hg_approval_key (hb_heap b ! ref) = key"
    using assms(1) map_of_SomeD [OF assms(4)] by (auto simp: broker_sound_def list_all_iff)
  have "group_sound c (?f g)" if "group_sound c g" "hg_approval_key g = key" for g
    using that assms(2,3) set_update_subset [of "eq_request_id m" "(m, r)" "hg_requests g"]
    by (fastforce simp: group_sound_def list_all_iff)
  then have "broker_sound c ps (with_group ref ?f ?b1) \<and> heap_extends ?b1 (with_group ref ?f ?b1)"
    by (intro with_group_here) (use assms(1) placed in \<open>auto simp: broker_sound_def list_all_length\<close>)
  then show ?thesis
    using None by (auto simp: handler_ok_def join_hostexec_group_def Let_def heap_extends_def)
next
  case (Some q)
  then show ?thesis using finish_ok(3) [OF assms(1)] by (simp add: join_hostexec_group_def Let_def)
qed

lemma after_integrity_ok:
  assumes "broker_sound c ps b" and "may_ask c m r" and "key = key_of c r"
    and "integrity = IvPass \<Longrightarrow> found_unchanged c m r"
  shows "handler_ok c ps m b (after_integrity conn m r key integrity b)"
proof -
  have "broker_sound c ps (with_lifecycle conn mark_awaiting_approval b)" using assms(1) by simp
  then have ask: "handler_ok c ps m b (guard conn False (PtAsking r key changed) (with_lifecycle conn mark_awaiting_approval b))"
    for changed by (rule handler_ok_change [OF guard_ok]) (simp_all add: assms)
  have deny: "handler_ok c ps m b (guard conn False (PtDenying reason message command) b)" for reason message command
    using assms(1) by (intro guard_ok) simp_all
  show ?thesis
  proof (cases "integrity = IvPass \<and> (rx_approval r = HxAllow \<or> key \<in> hb_approved_keys b \<or> \<not> pc_enable (hc_prompt (hb_config b)))
      \<and> \<not> (rx_approval r = HxPrompt \<and> \<not> pc_enable (hc_prompt (hb_config b)))")
    case True
    have "rx_approval r = HxAllow \<or> key \<in> hb_approved_keys b"
      using True assms(2) by (cases "rx_approval r") (auto simp: may_ask_def)
    then have "may_start c ps m r"
      using True assms by (auto simp: may_start_def broker_sound_def)
    then have "handler_ok c ps m b (guard conn False (PtAllowing r reason) b)" for reason
      using assms(1) by (intro guard_ok) simp_all
    then show ?thesis using True by (auto simp: after_integrity_def Let_def)
  next
    case False
    then show ?thesis using ask deny by (auto simp: after_integrity_def Let_def)
  qed
qed

lemma continue_at_ok:
  assumes "broker_sound c ps b" and "point_sound c ps m p"
  shows "handler_ok c ps m b (continue_at conn m now p b)"
proof (cases p)
  case (PtResolved rr)
  then show ?thesis
    using assms by (cases rr) (auto simp: continue_at_def handler_ok_def guard_def may_ask_def)
next
  case (PtAllowed r)
  obtain b1 res where run: "run_gateway_resolved m r (with_lifecycle conn mark_running b) = (b1, res)" by fastforce
  have "broker_sound c ps b1 \<and> heap_extends (with_lifecycle conn mark_running b) b1"
    using run_gateway_ok [OF _ _ run] assms PtAllowed by simp
  then have "broker_sound c ps b1" "heap_extends b b1" by (auto simp: heap_extends_def with_lifecycle_def)
  then show ?thesis using run by (cases res) (simp_all add: continue_at_def PtAllowed handler_ok_def)
next
  case (PtAsking r key changed)
  then show ?thesis
    using assms create_group_ok join_group_ok by (auto simp: continue_at_def split: option.splits)
next
  case (PtKeyed r)
  then show ?thesis using assms by (auto simp: continue_at_def handler_ok_def key_of_def broker_sound_def)
qed (use assms in \<open>auto simp: continue_at_def handler_ok_def guard_def\<close>)

lemma resume_handler_ok:
  assumes "broker_sound c ps b" and "handler_sound c ps m st" and "resume_handler conn m view now ok event st b = Some res"
  shows "handler_ok c ps m b res"
proof -
  have c: "hb_config b = c" using assms(1) by (simp add: broker_sound_def)
  note finish = finish_ok [OF assms(1)]
  have emitted: "handler_ok c ps m b (return_terminal conn m (emit_fx (FxAnswer answer) b))"
    "handler_ok c ps m b (finish_handler conn m (emit_fx (FxAnswer answer) b))" for answer
    using assms(1) finish_ok [of c ps "emit_fx (FxAnswer answer) b" m conn] by (auto intro: handler_ok_change)
  have audited: "handler_ok c ps m b (guard conn w p (record_hostexec_audit entry b))" if "point_sound c ps m p" for w p entry
    using assms(1) that by (auto intro: handler_ok_change [OF guard_ok])
  have stored: "handler_ok c ps m b (guard conn w p (store_entry entry b))"
    "handler_ok c ps m b (guard conn w p (emit_fx (FxNotify entry) (store_entry entry b)))" if "point_sound c ps m p" for w p entry
    using assms(1) that by (auto simp: store_entry_def intro: handler_ok_change [OF guard_ok])
  show ?thesis
  proof (cases st)
    case HsResolving
    have "point_sound c ps m (PtResolved rr)" if "resolve_execute_request (hc_host c) view (hc_rules c)
        (hc_workspace_root c) (hc_session_tmp_dir c) (hc_installed c) m = Some rr" for rr
      using that by (cases rr) (auto simp: resolved_for_def)
    then show ?thesis
      using assms finish by (auto simp: resume_handler_def HsResolving c Let_def split: option.splits)
  next
    case (HsPassing p)
    then show ?thesis using assms continue_at_ok by (auto simp: resume_handler_def Let_def)
  next
    case (HsChecking r key)
    have "handler_ok c ps m b (after_integrity conn m r key integrity b)" if "integrity_verdict (hc_host c) view
        (hc_targets c) (hc_baseline c) (hc_installed c) m r = Some integrity" for integrity
      by (rule after_integrity_ok [OF assms(1)]) (use assms(2) that in \<open>auto simp: HsChecking found_unchanged_def\<close>)
    then show ?thesis
      using assms by (auto simp: resume_handler_def HsChecking c Let_def split: option.splits)
  next
    case (HsCancelled withdraw)
    then show ?thesis
      using assms finish remove_pending_sound [OF assms(1)]
      by (auto simp: resume_handler_def Let_def handler_ok_def split: if_splits prod.splits)
  next
    case (HsWithdrawing r)
    then show ?thesis
      using assms finish continue_removal_sound [OF assms(1)]
      by (auto simp: resume_handler_def Let_def handler_ok_def split: if_splits)
  next
    case (HsRunning x)
    then show ?thesis
      using assms finish by (auto simp: resume_handler_def Let_def handler_ok_def split: if_splits)
  qed (use assms finish emitted audited stored in \<open>auto simp: resume_handler_def Let_def split: if_splits\<close>)
qed

section \<open>Every run is sound\<close>

lemma tasks_extend:
  assumes "list_all (task_sound c ps b) ts" and "heap_extends b b'"
  shows "list_all (task_sound c (ps @ qs) b') ts"
  using assms task_sound_extends by (auto simp: list_all_iff)

lemma add_task_sound:
  assumes "hostexec_sound c w" and "broker_sound c (xw_presses w @ qs) b" and "heap_extends (xw_broker w) b"
    and "task_sound c (xw_presses w @ qs) b t"
  shows "hostexec_sound c (add_task w b t qs)"
  using assms tasks_extend [of c "xw_presses w" "xw_broker w" "xw_tasks w" b qs] by (simp add: hostexec_sound_def add_task_def)

lemma set_task_sound:
  assumes "hostexec_sound c w" and "broker_sound c (xw_presses w) b" and "heap_extends (xw_broker w) b"
    and "task_sound c (xw_presses w) b t"
  shows "hostexec_sound c (set_task w tid b t)"
proof -
  have "list_all (task_sound c (xw_presses w) b) (xw_tasks w)"
    using assms(1,3) tasks_extend [of c "xw_presses w" "xw_broker w" "xw_tasks w" b "[]"] by (simp add: hostexec_sound_def)
  then show ?thesis
    using assms set_update_subset_insert [of "xw_tasks w" tid t]
    by (auto simp: hostexec_sound_def set_task_def list_all_iff)
qed

lemma change_broker_sound:
  assumes "hostexec_sound c w" and "broker_sound c (xw_presses w) b" and "heap_extends (xw_broker w) b"
  shows "hostexec_sound c (w\<lparr>xw_broker := b\<rparr>)"
  using assms tasks_extend [of c "xw_presses w" "xw_broker w" "xw_tasks w" b "[]"] by (simp add: hostexec_sound_def)

lemma sound_task_at:
  "hostexec_sound c w \<Longrightarrow> tid < length (xw_tasks w) \<Longrightarrow> task_sound c (xw_presses w) (xw_broker w) (xw_tasks w ! tid)"
  by (simp add: hostexec_sound_def list_all_length)

lemma occurs_sound:
  assumes "hostexec_sound c w" and "occurs e w = Some w'"
  shows "hostexec_sound c w'"
proof -
  let ?b = "xw_broker w" and ?ps = "xw_presses w"
  have b: "broker_sound c ?ps ?b" using assms(1) by (simp add: hostexec_sound_def)
  show ?thesis
  proof (cases e)
    case (EvRequest m)
    obtain b1 st where acc: "accept_request m ?b = (b1, st)" by fastforce
    then have "broker_sound c ?ps b1" "heap_extends ?b b1" "handler_sound c ?ps m st"
      using b by (auto simp: accept_request_def split: if_splits)
    then show ?thesis
      using assms acc by (auto simp: EvRequest Let_def task_sound_def intro!: add_task_sound)
  next
    case (EvHandler tid view now ok event)
    obtain conn m st res where t: "tid < length (xw_tasks w)" "xw_tasks w ! tid = TkHandler conn m st"
      and r: "resume_handler conn m view now ok event st ?b = Some res"
      and w': "w' = set_task w tid (fst res) (TkHandler conn m (snd res))"
      using assms(2) by (auto simp: EvHandler split: if_splits hostexec_task.splits)
    have "handler_sound c ?ps m st" using sound_task_at [OF assms(1) t(1)] t(2) by (simp add: task_sound_def)
    from resume_handler_ok [OF b this r] show ?thesis
      unfolding w' by (intro set_task_sound assms(1)) (simp_all add: handler_ok_def task_sound_def)
  next
    case (EvControl msg)
    then show ?thesis
      using assms control_ok [OF b, of msg]
      by (auto simp: resolution_ok_def task_sound_def split: prod.splits intro!: add_task_sound)
  next
    case (EvResolution tid ok event)
    obtain rv res where t: "tid < length (xw_tasks w)" "xw_tasks w ! tid = TkResolution rv"
      and r: "continue_resolution ok event rv ?b = Some res"
      and w': "w' = set_task w tid (fst res) (TkResolution (snd res))"
      using assms(2) by (auto simp: EvResolution split: if_splits hostexec_task.splits)
    have "resolution_sound c ?ps ?b rv" using sound_task_at [OF assms(1) t(1)] t(2) by (simp add: task_sound_def)
    from continue_resolution_ok [OF b this r] show ?thesis
      unfolding w' by (intro set_task_sound assms(1)) (simp_all add: resolution_ok_def task_sound_def)
  next
    case (EvTimer ref)
    then show ?thesis
      using assms timeout_ok [OF b, of ref]
      by (auto simp: resolution_ok_def task_sound_def split: prod.splits if_splits intro!: add_task_sound)
  next
    case (EvCleanup conn)
    let ?b1 = "with_lifecycle conn (\<lambda>l. l\<lparr>lc_cleanup := CleanupRunning\<rparr>) ?b"
    obtain b2 r where rm: "remove_pending_request (lc_request_id (hb_lifecycles ?b ! conn)) ?b1 = (b2, r)" by fastforce
    have "broker_sound c ?ps b2 \<and> heap_extends ?b1 b2" using remove_pending_sound [OF _ rm] b by simp
    then have "broker_sound c ?ps b2" "heap_extends ?b b2" by (auto simp: heap_extends_def with_lifecycle_def)
    then show ?thesis
      using assms rm by (auto simp: EvCleanup Let_def task_sound_def split: if_splits intro!: add_task_sound)
  next
    case (EvCleaning tid ok)
    obtain conn r res where t: "xw_tasks w ! tid = TkCleanup conn r"
      and r: "(if ok then continue_removal r ?b else Some (?b, Removed)) = Some res"
      and w': "w' = set_task w tid (cleanup_done conn (snd res) (fst res)) (TkCleanup conn (snd res))"
      using assms(2) by (auto simp: EvCleaning split: if_splits hostexec_task.splits)
    have "broker_sound c ?ps (fst res) \<and> heap_extends ?b (fst res)"
      using continue_removal_sound [OF b, of r "fst res" "snd res"] r b by (auto split: if_splits)
    then show ?thesis
      unfolding w' by (intro set_task_sound assms(1)) (auto simp: cleanup_done_def task_sound_def)
  next
    case EvClose
    then show ?thesis
      using assms close_from_sound [OF b]
      by (auto simp: close_hostexec_def task_sound_def split: prod.splits intro!: add_task_sound)
  next
    case (EvClosing tid ok)
    obtain cl res where t: "xw_tasks w ! tid = TkClosing cl" and r: "continue_closing ok cl ?b = Some res"
      and w': "w' = set_task w tid (fst res) (TkClosing (snd res))"
      using assms(2) by (auto simp: EvClosing split: if_splits hostexec_task.splits)
    have "broker_sound c ?ps (fst res) \<and> heap_extends ?b (fst res)"
      using continue_closing_sound [OF b, of ok cl "fst res" "snd res"] r by simp
    then show ?thesis
      unfolding w' by (intro set_task_sound assms(1)) (auto simp: task_sound_def)
  qed (use assms b in \<open>auto intro!: change_broker_sound split: if_splits\<close>)
qed

lemma reachable_sound:
  assumes "hostexec_steps (initial_hostexec c) w"
  shows "hostexec_sound c w"
  using assms
proof (induction rule: rtranclp_induct)
  case base
  show ?case by (simp add: hostexec_sound_def initial_hostexec_def broker_sound_def hostexec_new_def)
next
  case (step y z)
  then show ?case using occurs_sound by (auto elim: hostexec_step.cases)
qed


section \<open>An example\<close>

text \<open>A prompt rule; the user approves the request once.\<close>

definition demo_hostexec :: hostexec_config where
  "demo_hostexec = \<lparr>hc_session_id = ''s'', hc_workspace_root = ''/work'', hc_session_tmp_dir = ''/tmp/s'',
     hc_rules = [demo_git_rule\<lparr>hr_approval := HxPrompt\<rparr>],
     hc_prompt = \<lparr>pc_enable = True, pc_timeout_seconds = 60, pc_default_scope = PsCapability\<rparr>,
     hc_audit_dir = True, hc_mask_filter = False, hc_installed = None, hc_targets = [], hc_baseline = [],
     hc_host = demo_host\<lparr>hs_digest := \<lambda>s. ''k''\<rparr>\<rparr>"

definition demo_resume :: "nat \<Rightarrow> hostexec_event" where
  "demo_resume tid = EvHandler tid demo_view ''now'' True (WriteDone True)"

definition demo_resolve :: "nat \<Rightarrow> hostexec_event" where
  "demo_resolve tid = EvResolution tid True (WriteDone True)"

definition demo_approved_once :: "hostexec_event list" where
  "demo_approved_once =
     EvRequest demo_execute # replicate 9 (demo_resume 0) @
     EvControl (ControlApprove ''r1'' (Some ''once'')) # replicate 3 (demo_resolve 1)"

definition demo_start_message :: start_message where
  "demo_start_message = \<lparr>sm_argv0 = ''/work/tools/git'', sm_args = [''log''], sm_cwd = ''/work/src/a'',
     sm_env = [(''HOME'', ''/home/u''), (''LANG'', ''C''), (''TOKEN'', ''s3''), (''GIT_TERMINAL_PROMPT'', ''0''),
       (''PWD'', ''/work/src/a'')]\<rparr>"

abbreviation demo_constant_host :: host_static where
  "demo_constant_host \<equiv> demo_host\<lparr>hs_digest := \<lambda>s. ''k''\<rparr>"

abbreviation demo_prompt_rule :: hostexec_rule where
  "demo_prompt_rule \<equiv> demo_git_rule\<lparr>hr_approval := HxPrompt\<rparr>"

lemma demo_prompt_resolves:
  "resolve_execute_request demo_constant_host demo_view [demo_prompt_rule] ''/work'' ''/tmp/s'' None demo_execute =
     Some (Some (demo_resolved\<lparr>rx_rule := demo_prompt_rule, rx_approval := HxPrompt\<rparr>))"
  by code_simp

lemma demo_request_fields:
  "eq_request_id demo_execute = ''r1''" "eq_session_id demo_execute = ''s''" "eq_args demo_execute = [''log'']"
  "eq_argv0 demo_execute = ''/work/tools/git''" "hr_id demo_git_rule = ''git''" "rx_cwd demo_resolved = ''/work/src/a''"
  "cp_argv0 (rx_capability demo_resolved) = ''/work/tools/git''"
  "rx_env_vars demo_resolved = [(''HOME'', ''/home/u''), (''LANG'', ''C''), (''TOKEN'', ''s3''), (''GIT_TERMINAL_PROMPT'', ''0'')]"
  by (simp_all add: demo_execute_def demo_git_rule_def demo_resolved_def)

lemma demo_key: "build_approval_key demo_constant_host c = ''k''"
  by (simp add: build_approval_key_def)

lemmas hostexec_run_simps = accept_request_def hostexec_new_def lifecycle_new_def add_task_def set_task_def resume_handler_def guard_def
  is_cancelled_def continue_at_def after_integrity_def integrity_verdict_def is_installed_script_request_def
  create_hostexec_group_def to_hostexec_pending_def allowed_hostexec_scopes_def with_lifecycle_def mark_awaiting_approval_def
  store_entry_def emit_fx_def handle_control_message_def approve_hostexec_def accepted_approval_def find_group_def
  group_allows_def scope_of_text_def resolve_hostexec_group_def with_group_def forget_request_def end_group_def
  continue_resolution_def visit_waiter_def start_approved_def run_gateway_resolved_def hostexec_audit_entry_def
  record_hostexec_audit_def command_text_def mark_running_def launch_def

lemma replicate_numeral: "replicate (numeral n) x = x # replicate (pred_numeral n) x"
  by (simp add: numeral_eq_Suc)

lemma demo_approved_once_starts:
  "map_option (\<lambda>w. (hb_effects (xw_broker w), xw_presses w)) (occur_all demo_approved_once (initial_hostexec demo_hostexec)) = Some
     ([FxNotify \<lparr>he_session_id = ''s'', he_request_id = ''r1'', he_approval_key = ''k'', he_rule_id = ''git'',
         he_argv0 = ''/work/tools/git'', he_args = [''log''], he_cwd = ''/work/src/a'', he_created_at = ''now'',
         he_updated_at = ''now'', he_default_scope = PsCapability, he_capability = rx_capability demo_resolved,
         he_integrity_changed = False\<rparr>,
       FxAudit \<lparr>ha_request_id = ''r1'', ha_decision = Allow, ha_reason = ''approved-by-user'',
         ha_command = ''/work/tools/git log''\<rparr>,
       FxStart ''r1'' demo_start_message],
      [\<lparr>xp_request_id = ''r1'', xp_scope = PsOnce, xp_key = ''k''\<rparr>])"
  by (simp add: demo_approved_once_def demo_hostexec_def initial_hostexec_def demo_resume_def demo_resolve_def
      replicate_numeral Let_def hostexec_run_simps demo_prompt_resolves demo_key demo_request_fields
      execution_new_def demo_start_message_def)

end
