(* ===== verification/HostExecOrphan.thy ===== *)
theory HostExecOrphan
  imports HostExecRuns
begin

text \<open>
  A request that nobody can answer. When the last two requests of a group are denied (or approved
  once) at the same time, each of the two resolutions finds the group empty after it has removed
  its file, and each deletes whatever group the key has. A request that asks the same question in
  between opens a new group, and the second resolution takes that group out of the map. Here an
  invariant says that a waiter is held by such a group only, every step keeps it, and a run
  reaches it.
\<close>

section \<open>What could still settle a waiter\<close>

definition away :: "nat \<Rightarrow> nat \<Rightarrow> nat \<Rightarrow> bool" where
  "away n ref i \<longleftrightarrow> i < n \<and> i \<noteq> ref"

fun removal_away :: "nat \<Rightarrow> removal \<Rightarrow> bool" where
  "removal_away conn (RemovingFile rid (Some (ref, waiter))) = (waiter \<noteq> Some conn)"
| "removal_away conn (ClosingNotice waiter) = (waiter \<noteq> Some conn)"
| "removal_away conn r = True"

fun resolution_away :: "nat \<Rightarrow> nat \<Rightarrow> nat \<Rightarrow> resolution \<Rightarrow> bool" where
  "resolution_away n conn ref (RvClosingNotice fr) = away n ref (rs_ref fr)"
| "resolution_away n conn ref (RvRemovingFile fr rid m r waiter) = (away n ref (rs_ref fr) \<and> waiter \<noteq> Some conn)"
| "resolution_away n conn ref (RvGroupClosing fr m r waiter) = (away n ref (rs_ref fr) \<and> waiter \<noteq> Some conn)"
| "resolution_away n conn ref (RvLoggingDeny fr c entry answer) = (away n ref (rs_ref fr) \<and> c \<noteq> conn)"
| "resolution_away n conn ref (RvWritingDeny fr c answer) = (away n ref (rs_ref fr) \<and> c \<noteq> conn)"
| "resolution_away n conn ref (RvLoggingAllow fr c m r entry) = (away n ref (rs_ref fr) \<and> c \<noteq> conn)"
| "resolution_away n conn ref (RvRunning fr c rid x) = (away n ref (rs_ref fr) \<and> c \<noteq> conn)"
| "resolution_away n conn ref (RvReturning fr c rid answer) = (away n ref (rs_ref fr) \<and> c \<noteq> conn)"
| "resolution_away n conn ref (RvWritingError fr c answer) = (away n ref (rs_ref fr) \<and> c \<noteq> conn)"
| "resolution_away n conn ref (RvDone reply) = True"
| "resolution_away n conn ref RvFailed = True"

fun closing_away :: "nat \<Rightarrow> nat \<Rightarrow> nat \<Rightarrow> closing \<Rightarrow> bool" where
  "closing_away n conn ref (ClosingWaiter passed told i rid c) = (away n ref i \<and> c \<noteq> conn)"
| "closing_away n conn ref cl = True"

fun task_away :: "nat \<Rightarrow> nat \<Rightarrow> nat \<Rightarrow> hostexec_task \<Rightarrow> bool" where
  "task_away n conn ref (TkHandler c m (HsWithdrawing r)) = (c \<noteq> conn \<and> removal_away conn r)"
| "task_away n conn ref (TkHandler c m st) = (c \<noteq> conn)"
| "task_away n conn ref (TkResolution rv) = resolution_away n conn ref rv"
| "task_away n conn ref (TkCleanup c r) = removal_away conn r"
| "task_away n conn ref (TkClosing cl) = closing_away n conn ref cl"

definition holds_waiter :: "nat \<Rightarrow> hostexec_group \<Rightarrow> bool" where
  "holds_waiter conn g \<longleftrightarrow> list_ex (\<lambda>(rid, c). c = conn) (hg_waiters g)"

definition waiter_lost :: "nat \<Rightarrow> nat \<Rightarrow> hostexec_broker \<Rightarrow> bool" where
  "waiter_lost conn ref b \<longleftrightarrow>
     conn < length (hb_lifecycles b) \<and> \<not> lc_settled (hb_lifecycles b ! conn) \<and> ref < length (hb_heap b) \<and>
     list_all (\<lambda>(key, i). away (length (hb_heap b)) ref i) (hb_groups b) \<and>
     (\<forall>i<length (hb_heap b). i \<noteq> ref \<longrightarrow> \<not> holds_waiter conn (hb_heap b ! i))"

definition orphaned :: "nat \<Rightarrow> nat \<Rightarrow> nat \<Rightarrow> execute_request \<Rightarrow> hostexec_world \<Rightarrow> bool" where
  "orphaned tid conn ref m w \<longleftrightarrow> waiter_lost conn ref (xw_broker w) \<and> tid < length (xw_tasks w) \<and>
     xw_tasks w ! tid = TkHandler conn m HsWaiting \<and>
     (\<forall>i<length (xw_tasks w). i \<noteq> tid \<longrightarrow> task_away (length (hb_heap (xw_broker w))) conn ref (xw_tasks w ! i))"

lemma away_mono: "away n ref i \<Longrightarrow> n \<le> n' \<Longrightarrow> away n' ref i"
  by (simp add: away_def)

lemma task_away_mono:
  assumes "task_away n conn ref t" and "n \<le> n'"
  shows "task_away n' conn ref t"
proof (cases t)
  case (TkHandler c m st)
  then show ?thesis using assms by (cases st) auto
next
  case (TkResolution rv)
  then show ?thesis using assms away_mono by (cases rv) auto
next
  case (TkClosing cl)
  then show ?thesis using assms away_mono by (cases cl) auto
qed (use assms in simp)

section \<open>Steps of the broker\<close>

text \<open>A change that neither settles the waiter nor puts it where somebody finds it.\<close>

definition keeps_lost :: "nat \<Rightarrow> nat \<Rightarrow> hostexec_broker \<Rightarrow> hostexec_broker \<Rightarrow> bool" where
  "keeps_lost conn ref b b' \<longleftrightarrow> waiter_lost conn ref b' \<and> length (hb_heap b) \<le> length (hb_heap b')"

lemma keeps_lost_refl: "waiter_lost conn ref b \<Longrightarrow> keeps_lost conn ref b b"
  by (simp add: keeps_lost_def)

lemma keeps_lost_trans: "keeps_lost conn ref a b \<Longrightarrow> keeps_lost conn ref b d \<Longrightarrow> keeps_lost conn ref a d"
  by (simp add: keeps_lost_def)

lemma lost_fields [simp]:
  "waiter_lost conn ref (b\<lparr>hb_request_keys := keys\<rparr>) = waiter_lost conn ref b"
  "waiter_lost conn ref (b\<lparr>hb_active := ids\<rparr>) = waiter_lost conn ref b"
  "waiter_lost conn ref (b\<lparr>hb_files := files\<rparr>) = waiter_lost conn ref b"
  "waiter_lost conn ref (b\<lparr>hb_approved_keys := ks\<rparr>) = waiter_lost conn ref b"
  "waiter_lost conn ref (emit_fx e b) = waiter_lost conn ref b"
  "waiter_lost conn ref (record_hostexec_audit entry b) = waiter_lost conn ref b"
  "waiter_lost conn ref (store_entry p b) = waiter_lost conn ref b"
  by (simp_all add: waiter_lost_def emit_fx_def record_hostexec_audit_def store_entry_def)

lemma heap_fields [simp]:
  "hb_heap (emit_fx e b) = hb_heap b" "hb_heap (record_hostexec_audit entry b) = hb_heap b"
  "hb_heap (store_entry p b) = hb_heap b" "hb_heap (with_lifecycle c f b) = hb_heap b"
  "hb_heap (settle_waiter_of c b) = hb_heap b" "length (hb_heap (with_group i h b)) = length (hb_heap b)"
  by (simp_all add: emit_fx_def record_hostexec_audit_def store_entry_def with_lifecycle_def settle_waiter_of_def with_group_def)

lemma lost_with_lifecycle:
  assumes "waiter_lost conn ref b" and "c \<noteq> conn \<or> (\<forall>l. lc_settled (f l) = lc_settled l)"
  shows "waiter_lost conn ref (with_lifecycle c f b)"
  using assms by (cases "c = conn") (auto simp: waiter_lost_def with_lifecycle_def)

lemma settled_unchanged [simp]:
  "lc_settled (mark_running l) = lc_settled l" "lc_settled (mark_terminal l) = lc_settled l"
  "lc_settled (cancel_lifecycle e l) = lc_settled l" "lc_settled (finish_lifecycle l) = lc_settled l"
  "lc_settled (handle_monitor_event ev l) = lc_settled l" "lc_settled (mark_awaiting_approval l) = lc_settled l"
  by (auto simp: mark_running_def mark_terminal_def cancel_lifecycle_def finish_lifecycle_def handle_monitor_event_def
      mark_awaiting_approval_def Let_def split: option.splits)

lemma lost_settle: "waiter_lost conn ref b \<Longrightarrow> c \<noteq> conn \<Longrightarrow> waiter_lost conn ref (settle_waiter_of c b)"
  by (simp add: settle_waiter_of_def lost_with_lifecycle)

lemma lost_with_group:
  assumes "waiter_lost conn ref b"
    and "\<And>g. holds_waiter conn (f g) \<Longrightarrow> holds_waiter conn g"
  shows "waiter_lost conn ref (with_group i f b)"
  using assms by (cases "i < length (hb_heap b)") (auto simp: waiter_lost_def with_group_def nth_list_update)

lemma lost_forget: "waiter_lost conn ref b \<Longrightarrow> waiter_lost conn ref (with_group i (forget_request rid) b)"
  by (rule lost_with_group) (auto simp: holds_waiter_def list_ex_iff forget_request_def AList.delete_eq)

lemma lost_end: "waiter_lost conn ref b \<Longrightarrow> waiter_lost conn ref (with_group i end_group b)"
  by (rule lost_with_group) (simp_all add: holds_waiter_def end_group_def)

lemma lost_delete_group: "waiter_lost conn ref b \<Longrightarrow> waiter_lost conn ref (b\<lparr>hb_groups := AList.delete key (hb_groups b)\<rparr>)"
  by (auto simp: waiter_lost_def list_all_iff AList.delete_eq)

lemmas lost_intros = lost_with_lifecycle lost_settle lost_forget lost_end lost_delete_group

lemma found_away:
  "waiter_lost conn ref b \<Longrightarrow> map_of (hb_groups b) key = Some i \<Longrightarrow> away (length (hb_heap b)) ref i"
  by (auto simp: waiter_lost_def list_all_iff dest: map_of_SomeD)

lemma find_group_away: "waiter_lost conn ref b \<Longrightarrow> find_group b rid = Some i \<Longrightarrow> away (length (hb_heap b)) ref i"
  by (auto simp: find_group_def split: option.splits if_splits dest: found_away)

lemma waiter_away:
  "waiter_lost conn ref b \<Longrightarrow> away (length (hb_heap b)) ref i \<Longrightarrow> map_of (hg_waiters (hb_heap b ! i)) rid \<noteq> Some conn"
  by (auto simp: waiter_lost_def away_def holds_waiter_def list_ex_iff dest: map_of_SomeD)

lemma lost_remove_pending:
  assumes "waiter_lost conn ref b" and "remove_pending_request rid b = (b', r)"
  shows "keeps_lost conn ref b b' \<and> removal_away conn r"
proof (cases "find_group b rid")
  case None
  then show ?thesis using assms by (auto simp: remove_pending_request_def keeps_lost_def)
next
  case (Some i)
  then show ?thesis
    using assms waiter_away [OF assms(1) find_group_away [OF assms(1) Some]]
    by (auto simp: remove_pending_request_def Let_def keeps_lost_def intro!: lost_forget)
qed

lemma lost_release:
  "waiter_lost conn ref b \<Longrightarrow> waiter \<noteq> Some conn \<Longrightarrow> release_waiter waiter b = (b', r) \<Longrightarrow>
   keeps_lost conn ref b b' \<and> removal_away conn r"
  by (auto simp: release_waiter_def keeps_lost_def lost_settle split: option.splits)

lemma lost_continue_removal:
  assumes "waiter_lost conn ref b" and "removal_away conn r" and "continue_removal r b = Some (b', r')"
  shows "keeps_lost conn ref b b' \<and> removal_away conn r'"
proof (cases r)
  case (RemovingFile rid found)
  show ?thesis
  proof (cases found)
    case None
    then show ?thesis using assms by (auto simp: continue_removal_def RemovingFile keeps_lost_def Let_def)
  next
    case (Some p)
    obtain i waiter where p: "p = (i, waiter)" by (cases p)
    let ?b1 = "b\<lparr>hb_files := AList.delete rid (hb_files b)\<rparr>"
    have b1: "waiter_lost conn ref ?b1" "waiter \<noteq> Some conn" using assms(1,2) by (simp_all add: RemovingFile Some p)
    show ?thesis
    proof (cases "hg_requests (hb_heap ?b1 ! i) = []")
      case True
      then show ?thesis
        using assms(3) b1 lost_end [OF b1(1), of i] lost_delete_group [OF lost_end [OF b1(1), of i]]
        by (auto simp: continue_removal_def RemovingFile Some p Let_def keeps_lost_def split: if_splits)
    next
      case False
      then have "release_waiter waiter ?b1 = (b', r')"
        using assms(3) by (simp add: continue_removal_def RemovingFile Some p Let_def)
      from lost_release [OF b1 this] show ?thesis by (simp add: keeps_lost_def)
    qed
  qed
next
  case (ClosingNotice waiter)
  then show ?thesis using assms lost_release [OF assms(1), of waiter b' r'] by (simp add: continue_removal_def)
qed (use assms in \<open>simp add: continue_removal_def\<close>)

lemma lost_close_from:
  "waiter_lost conn ref b \<Longrightarrow> list_all (away (length (hb_heap b)) ref) refs \<Longrightarrow> close_from passed told refs b = (b', cl) \<Longrightarrow>
   keeps_lost conn ref b b' \<and> closing_away (length (hb_heap b')) conn ref cl"
proof (induction passed told refs b rule: close_from.induct)
  case (2 passed told i refs b)
  let ?b1 = "with_group i end_group b"
  have b1: "waiter_lost conn ref ?b1" using 2(3) by (rule lost_end)
  have i: "away (length (hb_heap b)) ref i" and refs: "list_all (away (length (hb_heap b)) ref) refs" using 2(4) by simp_all
  show ?case
  proof (cases "i \<in> set passed")
    case True
    then show ?thesis using 2 by simp
  next
    case False
    show ?thesis
    proof (cases "List.find (\<lambda>(rid, c). rid \<notin> set told) (hg_waiters (hb_heap ?b1 ! i))")
      case None
      then have "close_from (i # passed) [] refs ?b1 = (b', cl)" using 2(5) False by (simp add: Let_def)
      from 2(2) [OF False refl None b1 _ this] refs show ?thesis by (simp add: keeps_lost_def)
    next
      case (Some p)
      obtain rid c where p: "p = (rid, c)" by (cases p)
      have "(rid, c) \<in> set (hg_waiters (hb_heap ?b1 ! i))" using find_SomeD [OF Some] p by simp
      moreover have "\<not> holds_waiter conn (hb_heap ?b1 ! i)" using b1 i by (simp add: waiter_lost_def away_def)
      ultimately have "c \<noteq> conn" by (auto simp: holds_waiter_def list_ex_iff)
      then show ?thesis using 2(5) False Some p b1 i by (auto simp: Let_def keeps_lost_def)
    qed
  qed
qed (auto simp: keeps_lost_def)

lemma groups_away: "waiter_lost conn ref b \<Longrightarrow> list_all (away (length (hb_heap b)) ref) (map snd (hb_groups b))"
  by (auto simp: waiter_lost_def list_all_iff)

lemma lost_continue_closing:
  assumes "waiter_lost conn ref b" and "closing_away (length (hb_heap b)) conn ref cl"
    and "continue_closing ok cl b = Some (b', cl')"
  shows "keeps_lost conn ref b b' \<and> closing_away (length (hb_heap b')) conn ref cl'"
proof (cases cl)
  case (ClosingWaiter passed told i rid c)
  let ?b1 = "settle_waiter_of c (if ok then emit_fx (FxAnswer (BgError rid ''hostexec broker closed'')) b else b)"
  have b1: "waiter_lost conn ref ?b1" using assms(1,2) by (auto simp: ClosingWaiter intro!: lost_settle)
  have "close_from passed told (i # removeAll i (map snd (hb_groups ?b1))) ?b1 = (b', cl')"
    using assms(3) by (simp add: continue_closing_def ClosingWaiter Let_def)
  moreover have "list_all (away (length (hb_heap ?b1)) ref) (i # removeAll i (map snd (hb_groups ?b1)))"
    using groups_away [OF b1] assms(2) by (auto simp: ClosingWaiter list_all_iff)
  ultimately have "keeps_lost conn ref ?b1 b' \<and> closing_away (length (hb_heap b')) conn ref cl'"
    using lost_close_from [OF b1] by blast
  then show ?thesis by (auto simp: keeps_lost_def split: if_splits)
next
  case ClosingNotices
  then show ?thesis using assms by (auto simp: continue_closing_def keeps_lost_def waiter_lost_def)
qed (use assms in \<open>simp add: continue_closing_def\<close>)

section \<open>Resolutions and handlers\<close>

definition resolution_lost :: "nat \<Rightarrow> nat \<Rightarrow> hostexec_broker \<Rightarrow> hostexec_broker \<times> resolution \<Rightarrow> bool" where
  "resolution_lost conn ref b res \<longleftrightarrow>
     keeps_lost conn ref b (fst res) \<and> resolution_away (length (hb_heap (fst res))) conn ref (snd res)"

lemma resolution_lost_change:
  "resolution_lost conn ref d res \<Longrightarrow> length (hb_heap b) \<le> length (hb_heap d) \<Longrightarrow> resolution_lost conn ref b res"
  by (auto simp: resolution_lost_def keeps_lost_def)

lemma lost_resolve_next:
  "waiter_lost conn ref b \<Longrightarrow> away (length (hb_heap b)) ref (rs_ref fr) \<Longrightarrow> resolution_lost conn ref b (resolve_next fr rids b)"
proof (induction fr rids b rule: resolve_next.induct)
  case (2 fr rid rest b)
  show ?case
  proof (cases "map_of (hg_requests (hb_heap b ! rs_ref fr)) rid")
    case (Some q)
    then show ?thesis
      using 2(2,3) waiter_away [OF 2(2,3), of rid] lost_forget [OF 2(2)]
      by (cases q) (auto simp: Let_def resolution_lost_def keeps_lost_def)
  qed (use 2 in \<open>simp add: Let_def\<close>)
qed (simp add: resolution_lost_def keeps_lost_def)

lemma lost_resolve_rest:
  "waiter_lost conn ref b \<Longrightarrow> away (length (hb_heap b)) ref (rs_ref fr) \<Longrightarrow> resolution_lost conn ref b (resolve_rest fr b)"
  unfolding resolve_rest_def by (rule lost_resolve_next)

lemma lost_release_and_next:
  assumes "waiter_lost conn ref b" and "away (length (hb_heap b)) ref (rs_ref fr)" and "c \<noteq> conn"
  shows "resolution_lost conn ref b (release_and_next fr c b)" and "resolution_lost conn ref b (terminal_and_next fr c b)"
    and "resolution_lost conn ref b (report_failure fr c rid e b)"
proof -
  show "resolution_lost conn ref b (release_and_next fr c b)"
    unfolding release_and_next_def
    by (rule resolution_lost_change [OF lost_resolve_rest]) (use assms in \<open>auto intro: lost_settle\<close>)
  show terminal: "resolution_lost conn ref b (terminal_and_next fr c b)"
    unfolding terminal_and_next_def release_and_next_def
    by (rule resolution_lost_change [OF lost_resolve_rest]) (use assms in \<open>auto intro!: lost_settle lost_with_lifecycle\<close>)
  show "resolution_lost conn ref b (report_failure fr c rid e b)"
    using terminal assms by (simp add: report_failure_def resolution_lost_def keeps_lost_def)
qed

lemma lost_visit_waiter:
  assumes "waiter_lost conn ref b" and "away (length (hb_heap b)) ref (rs_ref fr)" and "waiter \<noteq> Some conn"
  shows "resolution_lost conn ref b (visit_waiter fr m r waiter b)"
  using assms lost_resolve_rest [OF assms(1,2)] lost_release_and_next(1) [OF assms(1,2)]
  by (auto simp: visit_waiter_def resolution_lost_def keeps_lost_def split: option.splits resolve_mode.splits)

lemma lost_run_gateway:
  "waiter_lost conn ref b \<Longrightarrow> run_gateway_resolved m r b = (b', res) \<Longrightarrow> keeps_lost conn ref b b'"
  by (auto simp: run_gateway_resolved_def keeps_lost_def split: option.splits)

lemma lost_start_approved:
  assumes "waiter_lost conn ref b" and "away (length (hb_heap b)) ref (rs_ref fr)" and "c \<noteq> conn"
  shows "resolution_lost conn ref b (start_approved fr c m r b)"
proof (cases "is_cancelled c b")
  case True
  then show ?thesis using lost_release_and_next(1) [OF assms] by (simp add: start_approved_def)
next
  case False
  obtain b1 res where run: "run_gateway_resolved m r (with_lifecycle c mark_running b) = (b1, res)" by fastforce
  have "waiter_lost conn ref (with_lifecycle c mark_running b)" by (rule lost_with_lifecycle) (use assms in auto)
  from lost_run_gateway [OF this run] have b1: "keeps_lost conn ref b b1" by (simp add: keeps_lost_def)
  then have "away (length (hb_heap b1)) ref (rs_ref fr)" using assms(2) away_mono by (auto simp: keeps_lost_def)
  then show ?thesis using False run b1 assms(3) by (cases res) (auto simp: start_approved_def resolution_lost_def)
qed

lemma lost_continue_resolution:
  assumes "waiter_lost conn ref b" and "resolution_away (length (hb_heap b)) conn ref rv"
    and "continue_resolution ok event rv b = Some res"
  shows "resolution_lost conn ref b res"
proof -
  have failed: "resolution_lost conn ref b (b, RvFailed)" using assms(1) by (simp add: resolution_lost_def keeps_lost_def)
  show ?thesis
  proof (cases rv)
    case (RvClosingNotice fr)
    then show ?thesis using assms failed lost_resolve_next [OF assms(1)] by (auto simp: continue_resolution_def)
  next
    case (RvRemovingFile fr rid m r waiter)
    let ?b1 = "b\<lparr>hb_files := AList.delete rid (hb_files b)\<rparr>"
    let ?b2 = "with_group (rs_ref fr) end_group (?b1\<lparr>hb_groups := AList.delete (rs_key fr) (hb_groups ?b1)\<rparr>)"
    have b1: "waiter_lost conn ref ?b1" using assms(1) by simp
    have "waiter_lost conn ref ?b2" using lost_end [OF lost_delete_group [OF b1]] .
    then have "resolution_lost conn ref b (?b2, RvGroupClosing fr m r waiter)"
      using assms(2) by (auto simp: RvRemovingFile resolution_lost_def keeps_lost_def)
    moreover have "resolution_lost conn ref b (visit_waiter fr m r waiter ?b1)"
      by (rule resolution_lost_change [OF lost_visit_waiter [OF b1]]) (use assms(2) RvRemovingFile in auto)
    ultimately show ?thesis
      using assms(3) failed by (auto simp: continue_resolution_def RvRemovingFile Let_def split: if_splits)
  next
    case (RvGroupClosing fr m r waiter)
    then show ?thesis using assms failed lost_visit_waiter [OF assms(1)] by (auto simp: continue_resolution_def)
  next
    case (RvLoggingDeny fr c entry answer)
    then show ?thesis
      using assms lost_release_and_next(1) [OF assms(1)]
      by (auto simp: continue_resolution_def resolution_lost_def keeps_lost_def)
  next
    case (RvWritingDeny fr c answer)
    have "resolution_lost conn ref b (terminal_and_next fr c (if ok then emit_fx (FxAnswer answer) b else b))"
      by (rule resolution_lost_change [OF lost_release_and_next(2)]) (use assms RvWritingDeny in \<open>auto split: if_splits\<close>)
    then show ?thesis using assms(3) by (auto simp: continue_resolution_def RvWritingDeny)
  next
    case (RvLoggingAllow fr c m r entry)
    have "resolution_lost conn ref b (start_approved fr c m r (record_hostexec_audit entry b))"
      by (rule resolution_lost_change [OF lost_start_approved]) (use assms RvLoggingAllow in auto)
    then show ?thesis
      using assms lost_release_and_next(1) [OF assms(1)] by (auto simp: continue_resolution_def RvLoggingAllow)
  next
    case (RvRunning fr c rid x)
    then show ?thesis
      using assms lost_release_and_next(2,3) [OF assms(1)]
      by (auto simp: continue_resolution_def resolution_lost_def keeps_lost_def split: if_splits)
  next
    case (RvReturning fr c rid answer)
    have "resolution_lost conn ref b (terminal_and_next fr c (emit_fx (FxAnswer answer) b))"
      by (rule resolution_lost_change [OF lost_release_and_next(2)]) (use assms RvReturning in auto)
    then show ?thesis
      using assms lost_release_and_next(3) [OF assms(1)] by (auto simp: continue_resolution_def RvReturning)
  next
    case (RvWritingError fr c answer)
    have "resolution_lost conn ref b (terminal_and_next fr c (if ok then emit_fx (FxAnswer answer) b else b))"
      by (rule resolution_lost_change [OF lost_release_and_next(2)]) (use assms RvWritingError in \<open>auto split: if_splits\<close>)
    then show ?thesis using assms(3) by (auto simp: continue_resolution_def RvWritingError)
  qed (use assms in \<open>simp_all add: continue_resolution_def\<close>)
qed

lemma lost_resolve_group:
  assumes "waiter_lost conn ref b"
  shows "resolution_lost conn ref b (resolve_hostexec_group key mode selected reply b)"
proof (cases "map_of (hb_groups b) key")
  case None
  then show ?thesis using assms by (simp add: resolve_hostexec_group_def resolution_lost_def keeps_lost_def)
next
  case (Some i)
  have i: "away (length (hb_heap b)) ref i" using found_away [OF assms Some] .
  show ?thesis
  proof (cases selected)
    case None
    have "waiter_lost conn ref (with_group i end_group (b\<lparr>hb_groups := AList.delete key (hb_groups b)\<rparr>))"
      using lost_end [OF lost_delete_group [OF assms]] .
    then show ?thesis
      using None Some i by (simp add: resolve_hostexec_group_def resolution_lost_def keeps_lost_def)
  next
    case (Some rid)
    then show ?thesis
      using lost_resolve_next [OF assms] i \<open>map_of (hb_groups b) key = _\<close>
      by (simp add: resolve_hostexec_group_def del: resolve_next.simps)
  qed
qed

lemma lost_control:
  assumes "waiter_lost conn ref b"
  shows "resolution_lost conn ref b (handle_control_message msg b)"
proof -
  have unchanged: "resolution_lost conn ref b (b, RvDone reply)" for reply
    using assms by (simp add: resolution_lost_def keeps_lost_def)
  have approved: "resolution_lost conn ref b (resolve_hostexec_group key mode None reply (b\<lparr>hb_approved_keys := ks\<rparr>))"
    for key mode reply ks
    by (rule resolution_lost_change [OF lost_resolve_group]) (use assms in auto)
  show ?thesis
    using unchanged approved lost_resolve_group [OF assms]
    by (cases msg) (simp_all add: handle_control_message_def approve_hostexec_def deny_hostexec_def Let_def
        split: option.splits prompt_scope.splits)
qed

lemma lost_timeout:
  assumes "waiter_lost conn ref b"
  shows "resolution_lost conn ref b (prompt_timeout i b)"
  unfolding prompt_timeout_def
  by (rule resolution_lost_change [OF lost_resolve_group]) (use assms in \<open>auto simp: holds_waiter_def intro: lost_with_group\<close>)

definition handler_lost :: "nat \<Rightarrow> nat \<Rightarrow> nat \<Rightarrow> execute_request \<Rightarrow> hostexec_broker \<Rightarrow> hostexec_broker \<times> handler_state \<Rightarrow> bool" where
  "handler_lost conn ref c m b res \<longleftrightarrow>
     keeps_lost conn ref b (fst res) \<and> task_away (length (hb_heap (fst res))) conn ref (TkHandler c m (snd res))"

lemma handler_lost_change:
  "handler_lost conn ref c m d res \<Longrightarrow> length (hb_heap b) \<le> length (hb_heap d) \<Longrightarrow> handler_lost conn ref c m b res"
  by (auto simp: handler_lost_def keeps_lost_def)

lemma lost_guard: "waiter_lost conn ref b \<Longrightarrow> c \<noteq> conn \<Longrightarrow> handler_lost conn ref c m b (guard c w p b)"
  by (simp add: guard_def handler_lost_def keeps_lost_def)

lemma lost_finish:
  assumes "waiter_lost conn ref b" and "c \<noteq> conn"
  shows "handler_lost conn ref c m b (finish_handler c m b)" and "handler_lost conn ref c m b (return_terminal c m b)"
    and "handler_lost conn ref c m b (fail_handler c m e b)"
  using assms
  by (auto simp: finish_handler_def return_terminal_def fail_handler_def handler_lost_def keeps_lost_def intro!: lost_with_lifecycle)

lemma lost_create_group:
  assumes "waiter_lost conn ref b" and "c \<noteq> conn"
  shows "handler_lost conn ref c m b (create_hostexec_group c m r key changed now b)"
proof -
  have "away (length (hb_heap b @ [g])) ref i" if "(k, i) \<in> set (AList.update key (length (hb_heap b)) (hb_groups b))" for k i g
    using assms(1) subsetD [OF set_update_subset that]
    by (auto simp: waiter_lost_def list_all_iff away_def)
  then show ?thesis
    using assms
    by (auto simp: handler_lost_def keeps_lost_def create_hostexec_group_def Let_def waiter_lost_def list_all_iff nth_append
        less_Suc_eq holds_waiter_def)
qed

lemma lost_join_group:
  assumes "waiter_lost conn ref b" and "c \<noteq> conn"
  shows "handler_lost conn ref c m b (join_hostexec_group c m r key changed now i b)"
proof (cases "map_of (hg_requests (hb_heap b ! i)) (eq_request_id m)")
  case None
  let ?b1 = "b\<lparr>hb_request_keys := AList.update (eq_request_id m) key (hb_request_keys b)\<rparr>"
  have waiters: "list_ex (\<lambda>(rid, d). d = conn) ws" if "list_ex (\<lambda>(rid, d). d = conn) (AList.update (eq_request_id m) c ws)" for ws
    using that assms(2) set_update_subset [of "eq_request_id m" c ws] by (auto simp: list_ex_iff)
  have "waiter_lost conn ref (with_group i (\<lambda>g. g\<lparr>hg_requests := rs g, hg_pending_entries := es g,
      hg_waiters := AList.update (eq_request_id m) c (hg_waiters g)\<rparr>) ?b1)" for rs es
    by (rule lost_with_group) (use assms(1) waiters in \<open>auto simp: holds_waiter_def\<close>)
  then show ?thesis using None assms(2) by (simp add: handler_lost_def keeps_lost_def join_hostexec_group_def Let_def)
next
  case (Some q)
  then show ?thesis using lost_finish(3) [OF assms] by (simp add: join_hostexec_group_def Let_def)
qed

lemma lost_after_integrity:
  assumes "waiter_lost conn ref b" and "c \<noteq> conn"
  shows "handler_lost conn ref c m b (after_integrity c m r key integrity b)"
proof -
  have "handler_lost conn ref c m b (guard c False p (with_lifecycle c mark_awaiting_approval b))" for p
    by (rule handler_lost_change [OF lost_guard]) (use assms in \<open>auto intro!: lost_with_lifecycle\<close>)
  then show ?thesis using lost_guard [OF assms] by (simp add: after_integrity_def Let_def)
qed

lemma lost_continue_at:
  assumes "waiter_lost conn ref b" and "c \<noteq> conn"
  shows "handler_lost conn ref c m b (continue_at c m now p b)"
proof -
  have same: "handler_lost conn ref c m b (b, st)" if "\<And>r. st \<noteq> HsWithdrawing r" for st
    using assms that by (cases st) (auto simp: handler_lost_def keeps_lost_def)
  show ?thesis
  proof (cases p)
    case (PtResolved rr)
    then show ?thesis using same lost_guard [OF assms] by (cases rr) (simp_all add: continue_at_def)
  next
    case (PtAllowed r)
    obtain b1 res where run: "run_gateway_resolved m r (with_lifecycle c mark_running b) = (b1, res)" by fastforce
    have "waiter_lost conn ref (with_lifecycle c mark_running b)" by (rule lost_with_lifecycle) (use assms in auto)
    from lost_run_gateway [OF this run] show ?thesis
      using run assms by (cases res) (simp_all add: continue_at_def PtAllowed handler_lost_def keeps_lost_def)
  next
    case (PtAsking r key changed)
    then show ?thesis
      using lost_create_group [OF assms] lost_join_group [OF assms] by (simp add: continue_at_def split: option.splits)
  qed (use same lost_guard [OF assms] in \<open>simp_all add: continue_at_def\<close>)
qed

lemma lost_resume_handler:
  assumes "waiter_lost conn ref b" and "task_away (length (hb_heap b)) conn ref (TkHandler c m st)"
    and "resume_handler c m view now ok event st b = Some res"
  shows "handler_lost conn ref c m b res"
proof -
  have c: "c \<noteq> conn" using assms(2) by (cases st) simp_all
  note finish = lost_finish [OF assms(1) c] and guard = lost_guard [OF assms(1) c]
  have emitted: "handler_lost conn ref c m b (return_terminal c m (emit_fx (FxAnswer answer) b))"
    "handler_lost conn ref c m b (finish_handler c m (emit_fx (FxAnswer answer) b))" for answer
    by (rule handler_lost_change [OF lost_finish(2)], use assms(1) c in auto)
      (rule handler_lost_change [OF lost_finish(1)], use assms(1) c in auto)
  have changed: "handler_lost conn ref c m b (guard c w p (record_hostexec_audit entry b))"
    "handler_lost conn ref c m b (guard c w p (store_entry e b))"
    "handler_lost conn ref c m b (guard c w p (emit_fx (FxNotify e) (store_entry e b)))" for w p entry e
    by (rule handler_lost_change [OF lost_guard], use assms(1) c in auto)+
  show ?thesis
  proof (cases st)
    case HsResolving
    then show ?thesis using assms finish guard by (auto simp: resume_handler_def Let_def split: option.splits)
  next
    case (HsPassing p)
    then show ?thesis using assms lost_continue_at [OF assms(1) c] by (auto simp: resume_handler_def Let_def)
  next
    case (HsChecking r key)
    then show ?thesis
      using assms guard lost_after_integrity [OF assms(1) c] by (auto simp: resume_handler_def Let_def split: option.splits)
  next
    case (HsCancelled withdraw)
    then show ?thesis
      using assms finish c lost_remove_pending [OF assms(1)]
      by (auto simp: resume_handler_def Let_def handler_lost_def split: if_splits prod.splits)
  next
    case (HsWithdrawing r)
    then show ?thesis
      using assms finish c lost_continue_removal [OF assms(1)]
      by (auto simp: resume_handler_def Let_def handler_lost_def split: if_splits)
  next
    case (HsRunning x)
    then show ?thesis
      using assms finish c by (auto simp: resume_handler_def Let_def handler_lost_def keeps_lost_def split: if_splits)
  qed (use assms finish guard emitted changed in \<open>auto simp: resume_handler_def Let_def split: if_splits\<close>)
qed

section \<open>Every continuation\<close>

lemma orphaned_add:
  assumes "orphaned tid conn ref m w" and "keeps_lost conn ref (xw_broker w) b"
    and "task_away (length (hb_heap b)) conn ref t"
  shows "orphaned tid conn ref m (add_task w b t ps)"
  using assms task_away_mono
  by (auto simp: orphaned_def add_task_def keeps_lost_def nth_append less_Suc_eq)

lemma orphaned_set:
  assumes "orphaned tid conn ref m w" and "keeps_lost conn ref (xw_broker w) b"
    and "task_away (length (hb_heap b)) conn ref t" and "i \<noteq> tid"
  shows "orphaned tid conn ref m (set_task w i b t)"
proof -
  have "task_away (length (hb_heap b)) conn ref ((xw_tasks w)[i := t] ! j)" if "j < length (xw_tasks w)" "j \<noteq> tid" for j
    using assms that task_away_mono by (cases "j = i") (auto simp: orphaned_def keeps_lost_def)
  then show ?thesis
    using assms by (auto simp: orphaned_def set_task_def keeps_lost_def nth_list_update)
qed

lemma orphaned_change:
  assumes "orphaned tid conn ref m w" and "waiter_lost conn ref b" and "length (hb_heap b) = length (hb_heap (xw_broker w))"
  shows "orphaned tid conn ref m (w\<lparr>xw_broker := b\<rparr>)"
  using assms by (simp add: orphaned_def)

lemma orphaned_occurs:
  assumes "orphaned tid conn ref m w" and "occurs e w = Some w'"
  shows "orphaned tid conn ref m w'"
proof -
  let ?b = "xw_broker w"
  have b: "waiter_lost conn ref ?b" and t: "xw_tasks w ! tid = TkHandler conn m HsWaiting"
    and others: "\<And>i. i < length (xw_tasks w) \<Longrightarrow> i \<noteq> tid \<Longrightarrow> task_away (length (hb_heap ?b)) conn ref (xw_tasks w ! i)"
    using assms(1) by (auto simp: orphaned_def)
  show ?thesis
  proof (cases e)
    case (EvRequest m')
    obtain b1 st where acc: "accept_request m' ?b = (b1, st)" by fastforce
    then have "keeps_lost conn ref ?b b1" "st = HsFinished \<or> st = HsResolving"
      using b by (auto simp: accept_request_def keeps_lost_def waiter_lost_def emit_fx_def nth_append split: if_splits)
    moreover have "length (hb_lifecycles ?b) \<noteq> conn" using b by (simp add: waiter_lost_def)
    ultimately show ?thesis
      using assms acc by (auto simp: EvRequest Let_def intro!: orphaned_add)
  next
    case (EvHandler i view now ok event)
    obtain c m' st res where i: "i < length (xw_tasks w)" "xw_tasks w ! i = TkHandler c m' st"
      and r: "resume_handler c m' view now ok event st ?b = Some res"
      and w': "w' = set_task w i (fst res) (TkHandler c m' (snd res))"
      using assms(2) by (auto simp: EvHandler split: if_splits hostexec_task.splits)
    have "i \<noteq> tid" using r i t b by (auto simp: resume_handler_def Let_def waiter_lost_def)
    then show ?thesis
      using lost_resume_handler [OF b _ r] others [OF i(1)] i(2)
      unfolding w' by (intro orphaned_set assms(1)) (simp_all add: handler_lost_def)
  next
    case (EvControl msg)
    then show ?thesis
      using assms lost_control [OF b, of msg]
      by (auto simp: resolution_lost_def split: prod.splits intro!: orphaned_add)
  next
    case (EvResolution i ok event)
    obtain rv res where i: "i < length (xw_tasks w)" "xw_tasks w ! i = TkResolution rv"
      and r: "continue_resolution ok event rv ?b = Some res"
      and w': "w' = set_task w i (fst res) (TkResolution (snd res))"
      using assms(2) by (auto simp: EvResolution split: if_splits hostexec_task.splits)
    have "i \<noteq> tid" using i t by auto
    then show ?thesis
      using lost_continue_resolution [OF b _ r] others [OF i(1)] i(2)
      unfolding w' by (intro orphaned_set assms(1)) (simp_all add: resolution_lost_def)
  next
    case (EvTimer g)
    then show ?thesis
      using assms lost_timeout [OF b, of g]
      by (auto simp: resolution_lost_def split: prod.splits if_splits intro!: orphaned_add)
  next
    case (EvCleanup c)
    let ?b1 = "with_lifecycle c (\<lambda>l. l\<lparr>lc_cleanup := CleanupRunning\<rparr>) ?b"
    have b1: "waiter_lost conn ref ?b1" by (rule lost_with_lifecycle) (use b in auto)
    obtain b2 r where rm: "remove_pending_request (lc_request_id (hb_lifecycles ?b ! c)) ?b1 = (b2, r)" by fastforce
    from lost_remove_pending [OF b1 rm] show ?thesis
      using assms rm by (auto simp: EvCleanup Let_def keeps_lost_def split: if_splits intro!: orphaned_add)
  next
    case (EvCleaning i ok)
    obtain c r res where i: "i < length (xw_tasks w)" "xw_tasks w ! i = TkCleanup c r"
      and r: "(if ok then continue_removal r ?b else Some (?b, Removed)) = Some res"
      and w': "w' = set_task w i (cleanup_done c (snd res) (fst res)) (TkCleanup c (snd res))"
      using assms(2) by (auto simp: EvCleaning split: if_splits hostexec_task.splits)
    have "i \<noteq> tid" using i t by auto
    moreover have "removal_away conn r" using others [OF i(1)] i(2) \<open>i \<noteq> tid\<close> by simp
    then have "keeps_lost conn ref ?b (fst res) \<and> removal_away conn (snd res)"
      using lost_continue_removal [OF b, of r "fst res" "snd res"] r b by (auto simp: keeps_lost_def split: if_splits)
    ultimately show ?thesis
      unfolding w'
      by (intro orphaned_set assms(1)) (auto simp: cleanup_done_def keeps_lost_def intro!: lost_with_lifecycle)
  next
    case EvClose
    then show ?thesis
      using assms lost_close_from [OF b groups_away [OF b]]
      by (auto simp: close_hostexec_def split: prod.splits intro!: orphaned_add)
  next
    case (EvClosing i ok)
    obtain cl res where i: "i < length (xw_tasks w)" "xw_tasks w ! i = TkClosing cl"
      and r: "continue_closing ok cl ?b = Some res" and w': "w' = set_task w i (fst res) (TkClosing (snd res))"
      using assms(2) by (auto simp: EvClosing split: if_splits hostexec_task.splits)
    have "i \<noteq> tid" using i t by auto
    then show ?thesis
      using lost_continue_closing [OF b, of cl ok "fst res" "snd res"] others [OF i(1)] i(2) r
      unfolding w' by (intro orphaned_set assms(1)) simp_all
  next
    case (EvDisconnect c e)
    have "waiter_lost conn ref (with_lifecycle c (cancel_lifecycle e) ?b)" by (rule lost_with_lifecycle) (use b in auto)
    then show ?thesis using assms EvDisconnect by (auto split: if_splits intro!: orphaned_change)
  next
    case (EvMonitor c ev)
    have "waiter_lost conn ref (with_lifecycle c (\<lambda>l. handle_monitor_event ev (l\<lparr>lc_monitored := False\<rparr>)) ?b)"
      by (rule lost_with_lifecycle) (use b in auto)
    then show ?thesis using assms EvMonitor by (auto split: if_splits intro!: orphaned_change)
  qed
qed

lemma orphaned_steps: "hostexec_steps w w' \<Longrightarrow> orphaned tid conn ref m w \<Longrightarrow> orphaned tid conn ref m w'"
  by (induction rule: rtranclp_induct) (auto elim: hostexec_step.cases intro: orphaned_occurs)

section \<open>The run\<close>

text \<open>
  Two requests with the same capability wait; both are denied, and before the files of either are
  removed no resolution has looked at the group again. The first resolution ends the group, a
  third request opens a new one, the second resolution removes that one.
\<close>

abbreviation demo_same_command :: "string \<Rightarrow> execute_request" where
  "demo_same_command rid \<equiv> demo_execute\<lparr>eq_request_id := rid\<rparr>"

definition demo_orphan_events :: "hostexec_event list" where
  "demo_orphan_events =
     EvRequest (demo_same_command ''r1'') # replicate 9 (demo_resume 0) @
     EvRequest (demo_same_command ''r2'') # replicate 8 (demo_resume 1) @
     [EvControl (ControlDeny ''r1''), EvControl (ControlDeny ''r2''), demo_resolve 2] @
     EvRequest (demo_same_command ''r3'') # replicate 9 (demo_resume 4) @ [demo_resolve 3]"

lemma resolve_ignores_id:
  "resolve_execute_request host view rules ws tmp installed (m\<lparr>eq_request_id := rid\<rparr>) =
   resolve_execute_request host view rules ws tmp installed m"
proof -
  have fields: "eq_argv0 (m\<lparr>eq_request_id := rid\<rparr>) = eq_argv0 m" "eq_args (m\<lparr>eq_request_id := rid\<rparr>) = eq_args m"
    "eq_cwd (m\<lparr>eq_request_id := rid\<rparr>) = eq_cwd m" by simp_all
  show ?thesis unfolding resolve_execute_request_def fields ..
qed

lemma demo_same_command_resolves:
  "resolve_execute_request demo_constant_host demo_view [demo_prompt_rule] ''/work'' ''/tmp/s'' None (demo_same_command rid) =
     Some (Some (demo_resolved\<lparr>rx_rule := demo_prompt_rule, rx_approval := HxPrompt\<rparr>))"
  using demo_prompt_resolves by (simp only: resolve_ignores_id)

lemma demo_orphan_run:
  "case occur_all demo_orphan_events (initial_hostexec demo_hostexec) of None \<Rightarrow> False | Some w \<Rightarrow>
     orphaned 4 2 1 (demo_same_command ''r3'') w \<and> lc_error (hb_lifecycles (xw_broker w) ! 2) = None \<and>
     map fst (hb_files (xw_broker w)) = [''r3'']"
  by (simp add: demo_orphan_events_def demo_hostexec_def initial_hostexec_def demo_resume_def demo_resolve_def
      replicate_numeral Let_def hostexec_run_simps demo_same_command_resolves demo_key demo_request_fields
      join_hostexec_group_def deny_hostexec_def orphaned_def waiter_lost_def away_def holds_waiter_def All_less_Suc)

text \<open> C10: A request can be left that nothing answers any more. After the run \<open>demo_orphan_events\<close>, in which the user
  denied two other requests with the same capability and no connection was lost, the card of the third request
  still lies in the directory of pending requests and its handler waits; and in every continuation, whatever the
  user presses, whatever timer fires, whoever disconnects and even if the broker closes, the handler is still
  waiting in the same place.\<close>

theorem request_orphaned:
  "\<exists>w. occur_all demo_orphan_events (initial_hostexec demo_hostexec) = Some w \<and>
     map fst (hb_files (xw_broker w)) = [''r3''] \<and> lc_error (hb_lifecycles (xw_broker w) ! 2) = None \<and>
     (\<lambda>w'. xw_tasks w' ! 4) ` {w'. hostexec_steps w w'} = {TkHandler 2 (demo_same_command ''r3'') HsWaiting}"
proof -
  let ?waiting = "TkHandler 2 (demo_same_command ''r3'') HsWaiting"
  obtain w where run: "occur_all demo_orphan_events (initial_hostexec demo_hostexec) = Some w"
    using demo_orphan_run by (cases "occur_all demo_orphan_events (initial_hostexec demo_hostexec)") simp_all
  have w: "orphaned 4 2 1 (demo_same_command ''r3'') w" "lc_error (hb_lifecycles (xw_broker w) ! 2) = None"
      "map fst (hb_files (xw_broker w)) = [''r3'']"
    using demo_orphan_run unfolding run by simp_all
  have waiting: "xw_tasks w' ! 4 = ?waiting" if "hostexec_steps w w'" for w'
    using orphaned_steps [OF that w(1)] by (simp add: orphaned_def)
  have "(\<lambda>w'. xw_tasks w' ! 4) ` {w'. hostexec_steps w w'} = (\<lambda>w'. ?waiting) ` {w'. hostexec_steps w w'}"
    by (rule image_cong [OF refl]) (erule CollectE, rule waiting)
  also have "\<dots> = {?waiting}"
    by (rule image_constant, rule CollectI, rule rtranclp.rtrancl_refl)
  finally show ?thesis using run w(2,3) by (intro exI [of _ w] conjI)
qed

end
