(* ===== verification/PortForward.thy ===== *)
theory PortForward
  imports Protocol "HOL-Library.List_Lexorder"
begin

text \<open>
  Forwarded ports: the shared model (\<open>src/network/port_forward_model.ts\<close>,
  \<open>port_bind_protocol.ts\<close>), the normalization of the configured forwards
  (\<open>src/config/port_forwards.ts\<close>), the requests of the control socket
  (\<open>parseControlRequest\<close> in \<open>port_bind_broker.ts\<close>) and the arguments of the command line
  (\<open>src/cli/port_bind_args.ts\<close>).

  A local forward listens on the host and leads into the container, a remote one listens in the
  container and leads to the host. Seen as a graph on ports, no chain of forwards may come back
  to where it began; \<open>creates_forward_cycle\<close> is the walk that decides it. A port is an integer;
  a thrown error is \<open>None\<close>, a message of the configuration a constructor with what it names.
\<close>

section \<open>The model\<close>

datatype forward_direction = LocalForward | RemoteForward

datatype forward_owner = OwnedByConfig | OwnedDynamically | OwnedInternally

datatype forward_state = ForwardPending | ForwardActive | ForwardUnavailable | ForwardFailed

record forward_spec =
  fs_direction :: forward_direction
  fs_container_port :: int
  fs_host_port :: int

record initial_forward = forward_spec +
  if_owners :: "forward_owner list"

record managed_forward =
  mf_spec :: forward_spec
  mf_owners :: "forward_owner list"
  mf_created_at :: string
  mf_state :: forward_state
  mf_error :: "string option"

definition remove_user_owners :: "managed_forward \<Rightarrow> managed_forward option" where
  "remove_user_owners entry =
     (let owners = filter (\<lambda>owner. owner = OwnedInternally) (mf_owners entry)
      in if owners = [] then None else Some (entry\<lparr>mf_owners := owners\<rparr>))"

definition direction_text :: "forward_direction \<Rightarrow> string" where
  "direction_text d = (case d of LocalForward \<Rightarrow> ''local'' | RemoteForward \<Rightarrow> ''remote'')"

definition forward_key :: "forward_direction \<Rightarrow> int \<Rightarrow> string" where
  "forward_key direction container_port = direction_text direction @ '':'' @ int_text container_port"

definition spec_key :: "'a forward_spec_scheme \<Rightarrow> string" where
  "spec_key s = forward_key (fs_direction s) (fs_container_port s)"

lemma direction_text_inject [simp]: "direction_text d = direction_text e \<longleftrightarrow> d = e"
  by (auto simp: direction_text_def split: forward_direction.splits)

lemma forward_key_inject [simp]: "forward_key d p = forward_key e q \<longleftrightarrow> d = e \<and> p = q"
  by (cases d; cases e) (auto simp: forward_key_def direction_text_def)

lemma spec_key_inject [simp]:
  "spec_key s = spec_key t \<longleftrightarrow> fs_direction s = fs_direction t \<and> fs_container_port s = fs_container_port t"
  by (simp add: spec_key_def)

section \<open>What the registry shows\<close>

record port_binding =
  bd_container_port :: int
  bd_host_port :: int
  bd_created_at :: string

record port_session =
  se_bindings :: "port_binding list"
  se_forwards :: "port_binding list option"
  se_port_forwards :: "managed_forward list option"

definition project_port_forwards :: "managed_forward list \<Rightarrow> port_binding list \<times> port_binding list" where
  "project_port_forwards entries =
     (let project = (\<lambda>e. \<lparr>bd_container_port = fs_container_port (mf_spec e), bd_host_port = fs_host_port (mf_spec e),
                           bd_created_at = mf_created_at e\<rparr>)
      in (map project (filter (\<lambda>e. fs_direction (mf_spec e) = LocalForward) entries),
          map project (filter (\<lambda>e. fs_direction (mf_spec e) = RemoteForward) entries)))"

text \<open>Sessions written by an older version have no \<open>portForwards\<close>.\<close>

definition old_forward :: "forward_direction \<Rightarrow> port_binding \<Rightarrow> managed_forward" where
  "old_forward direction b =
     \<lparr>mf_spec = \<lparr>fs_direction = direction, fs_container_port = bd_container_port b, fs_host_port = bd_host_port b\<rparr>,
      mf_owners = [OwnedDynamically], mf_created_at = bd_created_at b, mf_state = ForwardActive, mf_error = None\<rparr>"

definition session_port_forwards :: "port_session \<Rightarrow> managed_forward list" where
  "session_port_forwards entry =
     (case se_port_forwards entry of
        Some forwards \<Rightarrow> forwards
      | None \<Rightarrow> map (old_forward LocalForward) (se_bindings entry) @
          map (old_forward RemoteForward) (case se_forwards entry of None \<Rightarrow> [] | Some fs \<Rightarrow> fs))"

lemma project_append [simp]:
  "project_port_forwards (xs @ ys) =
     (fst (project_port_forwards xs) @ fst (project_port_forwards ys), snd (project_port_forwards xs) @ snd (project_port_forwards ys))"
  by (simp add: project_port_forwards_def Let_def)

lemma project_old [simp]:
  "project_port_forwards (map (old_forward LocalForward) bs) = (bs, [])"
  "project_port_forwards (map (old_forward RemoteForward) bs) = ([], bs)"
  by (auto simp: project_port_forwards_def Let_def old_forward_def filter_map comp_def intro!: map_idI)

text \<open>An old session shows the same ports as before.\<close>

lemma old_session_projects:
  "se_port_forwards entry = None \<Longrightarrow>
   project_port_forwards (session_port_forwards entry) =
     (se_bindings entry, case se_forwards entry of None \<Rightarrow> [] | Some fs \<Rightarrow> fs)"
  by (simp add: session_port_forwards_def)

section \<open>Cycles\<close>

text \<open>Host and container are separate nodes, even for equal port numbers.\<close>

datatype forward_end = HostEnd int | ContainerEnd int

definition endpoints :: "'a forward_spec_scheme \<Rightarrow> forward_end \<times> forward_end" where
  "endpoints entry =
     (case fs_direction entry of
        LocalForward \<Rightarrow> (HostEnd (fs_host_port entry), ContainerEnd (fs_container_port entry))
      | RemoteForward \<Rightarrow> (ContainerEnd (fs_container_port entry), HostEnd (fs_host_port entry)))"

text \<open>The loop: \<open>visited\<close> grows until the walk ends, comes to \<open>source\<close> or to a node it has seen.\<close>

function follow_forwards ::
  "(forward_end \<times> forward_end) list \<Rightarrow> forward_end \<Rightarrow> forward_end list \<Rightarrow> forward_end option \<Rightarrow> bool"
where
  "follow_forwards edges source visited None = False"
| "follow_forwards edges source visited (Some node) =
     (if node \<in> set visited then False
      else if node = source then True
      else follow_forwards edges source (node # visited) (map_of edges node))"
  by pat_completeness auto

termination
proof (relation "measures [\<lambda>(edges, source, visited, node). card (fst ` set edges - set visited),
    \<lambda>(edges, source, visited, node). if node = None then 0 else 1]")
  fix edges :: "(forward_end \<times> forward_end) list" and source node :: forward_end and visited
  assume "node \<notin> set visited"
  show "((edges, source, node # visited, map_of edges node), edges, source, visited, Some node)
      \<in> measures [\<lambda>(edges, source, visited, node). card (fst ` set edges - set visited),
           \<lambda>(edges, source, visited, node). if node = None then 0 else 1]"
  proof (cases "map_of edges node")
    case None
    then have "fst ` set edges - insert node (set visited) = fst ` set edges - set visited"
      by (auto simp: map_of_eq_None_iff)
    then show ?thesis using None by simp
  next
    case (Some next_node)
    then have "node \<in> fst ` set edges" by (force dest: map_of_SomeD)
    then have "card (fst ` set edges - insert node (set visited)) < card (fst ` set edges - set visited)"
      using \<open>node \<notin> set visited\<close> by (intro psubset_card_mono) auto
    then show ?thesis by simp
  qed
qed simp

definition creates_forward_cycle :: "'a forward_spec_scheme list \<Rightarrow> 'b forward_spec_scheme \<Rightarrow> bool" where
  "creates_forward_cycle entries added =
     (let edges = amap_merge [] (map endpoints entries); (source, target) = endpoints added
      in follow_forwards edges source [] (Some target))"

text \<open>The graph that the forwards make.\<close>

definition forward_graph :: "'a forward_spec_scheme list \<Rightarrow> (forward_end \<times> forward_end) set" where
  "forward_graph entries = set (map endpoints entries)"

text \<open>The walk finds \<open>source\<close> exactly when it is reachable; every way out of a visited node is the next node.\<close>

lemma follow_forwards_iff:
  "single_valued (set edges) \<Longrightarrow> source \<notin> set visited \<Longrightarrow>
   (\<forall>a b. a \<in> set visited \<longrightarrow> (a, b) \<in> set edges \<longrightarrow> b \<in> set visited \<or> Some b = node) \<Longrightarrow>
   follow_forwards edges source visited node \<longleftrightarrow> (\<exists>n. node = Some n \<and> (n, source) \<in> (set edges)\<^sup>*)"
proof (induction edges source visited node rule: follow_forwards.induct)
  case (2 edges source visited node)
  show ?case
  proof (cases "node \<in> set visited")
    case True
    have "(node, source) \<notin> (set edges)\<^sup>*"
    proof
      assume "(node, source) \<in> (set edges)\<^sup>*"
      then have "source \<in> set visited"
      proof (induction rule: rtrancl_induct)
        case (step y z)
        then show ?case using 2(4) True by auto
      qed (rule True)
      then show False using 2(3) by simp
    qed
    then show ?thesis using True by simp
  next
    case False
    show ?thesis
    proof (cases "node = source")
      case True
      then show ?thesis using False by simp
    next
      case neq: False
      have succ: "(node, b) \<in> set edges \<longleftrightarrow> map_of edges node = Some b" for b
      proof
        assume "(node, b) \<in> set edges"
        then obtain c where c: "map_of edges node = Some c" by (metis map_of_eq_None_iff fst_conv image_eqI not_None_eq)
        then show "map_of edges node = Some b"
          using \<open>(node, b) \<in> set edges\<close> 2(2) map_of_SomeD by (metis single_valuedD)
      qed (rule map_of_SomeD)
      have "follow_forwards edges source (node # visited) (map_of edges node) \<longleftrightarrow>
          (\<exists>n. map_of edges node = Some n \<and> (n, source) \<in> (set edges)\<^sup>*)"
        using 2(2-4) neq succ by (intro 2(1) [OF False neq]) auto
      also have "\<dots> \<longleftrightarrow> (node, source) \<in> (set edges)\<^sup>*"
        using neq succ by (metis converse_rtranclE converse_rtrancl_into_rtrancl)
      finally show ?thesis using False neq by simp
    qed
  qed
qed simp

lemma merge_distinct: "distinct (map fst xs) \<Longrightarrow> amap_merge [] xs = xs"
proof (induction xs rule: rev_induct)
  case (snoc x xs)
  then have "AList.update (fst x) (snd x) xs = xs @ [x]" using amap_merge_snoc [of "fst x" xs "snd x"] by auto
  then show ?case using snoc by (cases x) (simp add: amap_merge_def)
qed (simp add: amap_merge_def)

lemma creates_forward_cycle_iff:
  assumes "distinct (map (fst \<circ> endpoints) entries)"
  shows "creates_forward_cycle entries added \<longleftrightarrow>
    (snd (endpoints added), fst (endpoints added)) \<in> (forward_graph entries)\<^sup>*"
proof -
  let ?edges = "map endpoints entries"
  have d: "distinct (map fst ?edges)" using assms by (simp add: comp_def)
  then have "single_valued (set ?edges)" by (metis single_valued_def eq_key_imp_eq_value)
  from follow_forwards_iff [OF this, of "fst (endpoints added)" "[]" "Some (snd (endpoints added))"]
  show ?thesis
    by (simp add: creates_forward_cycle_def merge_distinct [OF d] forward_graph_def split_beta)
qed

lemma graph_stays_acyclic:
  assumes "distinct (map (fst \<circ> endpoints) entries)" and "acyclic (forward_graph entries)"
    and "\<not> creates_forward_cycle entries added"
  shows "acyclic (insert (endpoints added) (forward_graph entries))"
  using assms creates_forward_cycle_iff [OF assms(1), of added]
  by (cases "endpoints added") (simp add: acyclic_insert)

section \<open>The configured forwards\<close>

definition valid_port :: "int \<Rightarrow> bool" where
  "valid_port port \<longleftrightarrow> 1 \<le> port \<and> port \<le> 65535"

datatype forward_label = LocalLabel nat | RemoteLabel nat | LegacyLabel nat

datatype port_field = HostPortField | ContainerPortField

datatype forward_error =
    PortOutOfRange forward_label port_field int
  | PortReserved forward_label int
  | ForwardConflict forward_label string int int
  | HostPortUsed forward_label int int

record forward_tables =
  ft_entries :: "forward_spec list"
  ft_errors :: "forward_error list"
  ft_by_key :: "(string \<times> forward_spec) list"
  ft_local_listeners :: "(int \<times> forward_spec) list"

definition port_errors :: "forward_label \<Rightarrow> forward_spec \<Rightarrow> forward_error list" where
  "port_errors label spec =
     concat (map (\<lambda>(field, port). if valid_port port then [] else [PortOutOfRange label field port])
       [(HostPortField, fs_host_port spec), (ContainerPortField, fs_container_port spec)])"

text \<open>\<open>add\<close>\<close>

definition add_configured :: "int list \<Rightarrow> forward_spec \<times> forward_label \<Rightarrow> forward_tables \<Rightarrow> forward_tables" where
  "add_configured reserved item t =
     (case item of (spec, label) \<Rightarrow>
        (let errors = ft_errors t @ port_errors label spec @
               (if fs_direction spec = RemoteForward \<and> fs_container_port spec \<in> set reserved
                then [PortReserved label (fs_container_port spec)] else []);
             key = spec_key spec; t1 = t\<lparr>ft_errors := errors\<rparr>
         in case map_of (ft_by_key t) key of
              Some existing \<Rightarrow>
                (if fs_host_port existing \<noteq> fs_host_port spec
                 then t1\<lparr>ft_errors := errors @ [ForwardConflict label key (fs_host_port spec) (fs_host_port existing)]\<rparr>
                 else t1)
            | None \<Rightarrow>
                (let admitted = (\<lambda>t. t\<lparr>ft_by_key := AList.update key spec (ft_by_key t), ft_entries := ft_entries t @ [spec]\<rparr>)
                 in if fs_direction spec = LocalForward
                    then (case map_of (ft_local_listeners t) (fs_host_port spec) of
                            Some listener \<Rightarrow>
                              (if fs_container_port listener \<noteq> fs_container_port spec
                               then t1\<lparr>ft_errors := errors @
                                      [HostPortUsed label (fs_host_port spec) (fs_container_port listener)]\<rparr>
                               else admitted (t1\<lparr>ft_local_listeners :=
                                      AList.update (fs_host_port spec) spec (ft_local_listeners t)\<rparr>))
                          | None \<Rightarrow>
                              admitted (t1\<lparr>ft_local_listeners :=
                                AList.update (fs_host_port spec) spec (ft_local_listeners t)\<rparr>))
                    else admitted t1)))"

record forward_config =
  fc_local :: "(int \<times> int) list"
  fc_remote :: "(int \<times> int) list"
  fc_legacy_ports :: "int list"

text \<open>A pair is the host port and the container port; indices are the ones of the labels.\<close>

definition configured_forwards :: "forward_config \<Rightarrow> (forward_spec \<times> forward_label) list" where
  "configured_forwards input =
     map (\<lambda>(i, host_port, container_port).
         (\<lparr>fs_direction = LocalForward, fs_container_port = container_port, fs_host_port = host_port\<rparr>, LocalLabel i))
       (enumerate 0 (fc_local input)) @
     map (\<lambda>(i, host_port, container_port).
         (\<lparr>fs_direction = RemoteForward, fs_container_port = container_port, fs_host_port = host_port\<rparr>, RemoteLabel i))
       (enumerate 0 (fc_remote input)) @
     map (\<lambda>(i, port).
         (\<lparr>fs_direction = RemoteForward, fs_container_port = port, fs_host_port = port\<rparr>, LegacyLabel i))
       (enumerate 0 (fc_legacy_ports input))"

text \<open>The warning names the legacy ports; there is none without them.\<close>

definition normalize_port_forwards ::
  "forward_config \<Rightarrow> int list \<Rightarrow> forward_spec list \<times> forward_error list \<times> int list option"
where
  "normalize_port_forwards input reserved =
     (let t = fold (add_configured reserved) (configured_forwards input)
            \<lparr>ft_entries = [], ft_errors = [], ft_by_key = [], ft_local_listeners = []\<rparr>
      in (ft_entries t, ft_errors t, if fc_legacy_ports input = [] then None else Some (fc_legacy_ports input)))"

text \<open>What the broker can open together.\<close>

definition forwards_compatible :: "forward_spec list \<Rightarrow> bool" where
  "forwards_compatible entries \<longleftrightarrow>
     distinct (map spec_key entries) \<and>
     distinct (map fs_host_port (filter (\<lambda>e. fs_direction e = LocalForward) entries))"

definition tables_ok :: "forward_tables \<Rightarrow> bool" where
  "tables_ok t \<longleftrightarrow> forwards_compatible (ft_entries t) \<and> ft_by_key t = map (\<lambda>e. (spec_key e, e)) (ft_entries t) \<and>
     ft_local_listeners t = map (\<lambda>e. (fs_host_port e, e)) (filter (\<lambda>e. fs_direction e = LocalForward) (ft_entries t))"

lemma map_of_keyed: "map_of (map (\<lambda>e. (f e, e)) es) k = Some e \<Longrightarrow> e \<in> set es \<and> f e = k"
  by (auto dest!: map_of_SomeD)

lemma map_of_keyed_None: "map_of (map (\<lambda>e. (f e, e)) es) k = None \<longleftrightarrow> k \<notin> f ` set es"
  by (simp add: map_of_eq_None_iff image_image)

lemma update_keyed: "k \<notin> f ` set es \<Longrightarrow> AList.update k v (map (\<lambda>e. (f e, e)) es) = map (\<lambda>e. (f e, e)) es @ [(k, v)]"
  by (intro amap_merge_snoc) auto

lemma add_configured_ok:
  assumes "tables_ok t"
  shows "tables_ok (add_configured reserved (spec, label) t) \<and> prefix (ft_errors t) (ft_errors (add_configured reserved (spec, label) t)) \<and>
    (ft_errors (add_configured reserved (spec, label) t) = [] \<longrightarrow>
       valid_port (fs_host_port spec) \<and> valid_port (fs_container_port spec) \<and>
       \<not> (fs_direction spec = RemoteForward \<and> fs_container_port spec \<in> set reserved) \<and>
       spec \<in> set (ft_entries (add_configured reserved (spec, label) t))) \<and>
    set (ft_entries (add_configured reserved (spec, label) t)) \<subseteq> insert spec (set (ft_entries t)) \<and>
    set (ft_entries t) \<subseteq> set (ft_entries (add_configured reserved (spec, label) t))"
proof -
  let ?es = "ft_entries t" and ?local = "filter (\<lambda>e. fs_direction e = LocalForward) (ft_entries t)"
  have keys: "ft_by_key t = map (\<lambda>e. (spec_key e, e)) ?es" and listeners: "ft_local_listeners t = map (\<lambda>e. (fs_host_port e, e)) ?local"
    and compatible: "forwards_compatible ?es"
    using assms by (simp_all add: tables_ok_def)
  show ?thesis
  proof (cases "map_of (ft_by_key t) (spec_key spec)")
    case (Some existing)
    then have "existing \<in> set ?es" "spec_key existing = spec_key spec" unfolding keys using map_of_keyed by fastforce+
    then have "fs_host_port existing = fs_host_port spec \<Longrightarrow> existing = spec" by (intro forward_spec.equality) auto
    then show ?thesis
      using Some assms \<open>existing \<in> set ?es\<close> by (auto simp: add_configured_def Let_def tables_ok_def port_errors_def)
  next
    case None
    then have fresh: "spec_key spec \<notin> spec_key ` set ?es" unfolding keys map_of_keyed_None .
    show ?thesis
    proof (cases "fs_direction spec = LocalForward")
      case True
      show ?thesis
      proof (cases "map_of (ft_local_listeners t) (fs_host_port spec)")
        case (Some listener)
        then have "listener \<in> set ?local" "fs_host_port listener = fs_host_port spec"
          unfolding listeners using map_of_keyed by fastforce+
        then have "spec_key listener \<noteq> spec_key spec" using fresh by (metis filter_is_subset image_eqI subsetD)
        then have "fs_container_port listener \<noteq> fs_container_port spec"
          using True \<open>listener \<in> set ?local\<close> by simp
        then show ?thesis using None Some True assms by (auto simp: add_configured_def Let_def tables_ok_def)
      next
        case none: None
        then have "fs_host_port spec \<notin> fs_host_port ` set ?local" unfolding listeners map_of_keyed_None .
        then show ?thesis
          using None none True fresh compatible keys listeners
          by (auto simp: add_configured_def Let_def tables_ok_def update_keyed forwards_compatible_def port_errors_def)
      qed
    next
      case False
      then show ?thesis
        using None fresh compatible keys listeners
        by (auto simp: add_configured_def Let_def tables_ok_def update_keyed forwards_compatible_def port_errors_def)
    qed
  qed
qed

lemma fold_configured_ok:
  assumes "tables_ok t"
  shows "tables_ok (fold (add_configured reserved) items t) \<and>
    prefix (ft_errors t) (ft_errors (fold (add_configured reserved) items t)) \<and>
    (ft_errors (fold (add_configured reserved) items t) = [] \<longrightarrow>
       fst ` set items \<subseteq> set (ft_entries (fold (add_configured reserved) items t)) \<and>
       list_all (\<lambda>(spec, label). valid_port (fs_host_port spec) \<and> valid_port (fs_container_port spec) \<and>
         \<not> (fs_direction spec = RemoteForward \<and> fs_container_port spec \<in> set reserved)) items) \<and>
    set (ft_entries (fold (add_configured reserved) items t)) \<subseteq> set (ft_entries t) \<union> fst ` set items \<and>
    set (ft_entries t) \<subseteq> set (ft_entries (fold (add_configured reserved) items t))"
  using assms
proof (induction items arbitrary: t)
  case (Cons item items)
  obtain spec label where item: "item = (spec, label)" by (cases item)
  let ?t = "add_configured reserved item t"
  have one: "tables_ok ?t" "prefix (ft_errors t) (ft_errors ?t)"
      "ft_errors ?t = [] \<Longrightarrow> valid_port (fs_host_port spec) \<and> valid_port (fs_container_port spec) \<and>
         \<not> (fs_direction spec = RemoteForward \<and> fs_container_port spec \<in> set reserved) \<and> spec \<in> set (ft_entries ?t)"
      "set (ft_entries ?t) \<subseteq> insert spec (set (ft_entries t))" "set (ft_entries t) \<subseteq> set (ft_entries ?t)"
    using add_configured_ok [OF Cons.prems] by (auto simp: item)
  note rest = Cons.IH [OF one(1)]
  have none: "ft_errors (fold (add_configured reserved) items ?t) = [] \<Longrightarrow> ft_errors ?t = []"
    using rest by (simp add: prefix_def)
  show ?case
    using one rest none by (auto simp: item intro: prefix_order.trans)
qed simp

lemma configured_forwards_ok:
  assumes "normalize_port_forwards input reserved = (entries, [], warning)"
  shows "set entries = fst ` set (configured_forwards input) \<and> distinct (map spec_key entries) \<and>
    distinct (map fs_host_port (filter (\<lambda>e. fs_direction e = LocalForward) entries)) \<and>
    list_all (\<lambda>e. valid_port (fs_host_port e) \<and> valid_port (fs_container_port e)) entries \<and>
    list_all (\<lambda>e. fs_direction e = RemoteForward \<longrightarrow> fs_container_port e \<notin> set reserved) entries"
proof -
  let ?start = "\<lparr>ft_entries = [], ft_errors = [], ft_by_key = [], ft_local_listeners = []\<rparr> :: forward_tables"
  let ?t = "fold (add_configured reserved) (configured_forwards input) ?start"
  have start: "tables_ok ?start" by (simp add: tables_ok_def forwards_compatible_def)
  have t: "entries = ft_entries ?t" "ft_errors ?t = []" using assms by (auto simp: normalize_port_forwards_def Let_def)
  from fold_configured_ok [OF start, of reserved "configured_forwards input"] t(2)
  have ok: "tables_ok ?t" and all: "list_all (\<lambda>(spec, label). valid_port (fs_host_port spec) \<and> valid_port (fs_container_port spec) \<and>
         \<not> (fs_direction spec = RemoteForward \<and> fs_container_port spec \<in> set reserved)) (configured_forwards input)"
    and same: "set entries = fst ` set (configured_forwards input)"
    by (auto simp: t(1))
  have "list_all (\<lambda>e. valid_port (fs_host_port e) \<and> valid_port (fs_container_port e) \<and>
      \<not> (fs_direction e = RemoteForward \<and> fs_container_port e \<in> set reserved)) entries"
    using all same by (fastforce simp: list_all_iff)
  then show ?thesis
    using ok same by (auto simp: tables_ok_def forwards_compatible_def t(1) list_all_iff)
qed

text \<open> A configuration without errors makes forwards that fit together: every configured pair is among them and
  nothing else is, all ports lie between 1 and 65535, no remote forward listens on a port of nas itself, no
  two forwards have the same direction and container port, and no two local forwards the same host port.\<close>

theorem configured_forwards_fit:
  assumes "normalize_port_forwards input reserved = (entries, [], warning)"
  shows "set entries = fst ` set (configured_forwards input) \<and> distinct (map spec_key entries) \<and>
    distinct (map fs_host_port (filter (\<lambda>e. fs_direction e = LocalForward) entries)) \<and>
    list_all (\<lambda>e. valid_port (fs_host_port e) \<and> valid_port (fs_container_port e)) entries \<and>
    list_all (\<lambda>e. fs_direction e = RemoteForward \<longrightarrow> fs_container_port e \<notin> set reserved) entries"
  by (rule configured_forwards_ok [OF assms])

definition demo_forwards :: forward_config where
  "demo_forwards = \<lparr>fc_local = [(8080, 3000), (8080, 3000)], fc_remote = [(5432, 5432)], fc_legacy_ports = [9000]\<rparr>"

lemma demo_normalized:
  "normalize_port_forwards demo_forwards [18080] =
     ([\<lparr>fs_direction = LocalForward, fs_container_port = 3000, fs_host_port = 8080\<rparr>,
       \<lparr>fs_direction = RemoteForward, fs_container_port = 5432, fs_host_port = 5432\<rparr>,
       \<lparr>fs_direction = RemoteForward, fs_container_port = 9000, fs_host_port = 9000\<rparr>], [], Some [9000])"
  by (simp add: normalize_port_forwards_def demo_forwards_def configured_forwards_def add_configured_def port_errors_def
      valid_port_def Let_def spec_key_def)

theorem configured_forwards_fit_witness:
  "snd (snd (normalize_port_forwards demo_forwards [18080])) = Some [9000] \<and>
   length (fst (normalize_port_forwards demo_forwards [18080])) = 3"
  using configured_forwards_fit [OF demo_normalized] by (simp add: demo_normalized)

section \<open>Requests of the control socket\<close>

datatype add_forward_request = AddLocal int "int option" | AddRemote int int

datatype forward_selector = SelectHostPort int | SelectLocal int | SelectRemote int

datatype port_request =
    BindRequest int "int option"
  | UnbindContainer int
  | UnbindHost int
  | CandidatesRequest
  | ForwardRequest int int
  | UnforwardRequest int
  | AddForwardRequest add_forward_request
  | RemoveForwardRequest forward_selector

definition has_keys :: "(string \<times> json) list \<Rightarrow> string list \<Rightarrow> bool" where
  "has_keys fs expected \<longleftrightarrow> sort (map fst fs) = expected"

text \<open>\<open>validPort\<close> on a field.\<close>

definition read_port :: "json option \<Rightarrow> int option" where
  "read_port v = (case safe_integer v of None \<Rightarrow> None | Some i \<Rightarrow> if valid_port i then Some i else None)"

text \<open>A port, or \<open>null\<close> as \<open>Some None\<close>.\<close>

definition read_port_or_null :: "json option \<Rightarrow> int option option" where
  "read_port_or_null v = (if v = Some JNull then Some None else map_option Some (read_port v))"

definition read_bind :: "(string \<times> json) list \<Rightarrow> port_request option" where
  "read_bind fs =
     (if \<not> has_keys fs [''containerPort'', ''hostPort'', ''type''] then None
      else Option.bind (read_port (map_of fs ''containerPort'')) (\<lambda>container_port.
        map_option (BindRequest container_port)
          (if map_of fs ''hostPort'' = Some (JNum ''0'') then Some (Some 0)
           else read_port_or_null (map_of fs ''hostPort''))))"

definition read_unbind :: "(string \<times> json) list \<Rightarrow> port_request option" where
  "read_unbind fs =
     (if has_keys fs [''containerPort'', ''type''] then map_option UnbindContainer (read_port (map_of fs ''containerPort''))
      else if has_keys fs [''hostPort'', ''type''] then map_option UnbindHost (read_port (map_of fs ''hostPort''))
      else None)"

definition read_forward :: "(string \<times> json) list \<Rightarrow> port_request option" where
  "read_forward fs =
     (if \<not> has_keys fs [''containerPort'', ''hostPort'', ''type''] then None
      else Option.bind (read_port (map_of fs ''containerPort'')) (\<lambda>container_port.
        map_option (ForwardRequest container_port) (read_port (map_of fs ''hostPort''))))"

definition read_add_forward :: "(string \<times> json) list \<Rightarrow> port_request option" where
  "read_add_forward fs =
     (if \<not> has_keys fs [''containerPort'', ''direction'', ''hostPort'', ''type''] then None
      else if map_of fs ''direction'' = Some (JStr ''local'')
      then Option.bind (read_port (map_of fs ''containerPort'')) (\<lambda>container_port.
        map_option (\<lambda>host_port. AddForwardRequest (AddLocal container_port host_port))
          (read_port_or_null (map_of fs ''hostPort'')))
      else if map_of fs ''direction'' = Some (JStr ''remote'')
      then Option.bind (read_port (map_of fs ''containerPort'')) (\<lambda>container_port.
        map_option (\<lambda>host_port. AddForwardRequest (AddRemote container_port host_port)) (read_port (map_of fs ''hostPort'')))
      else None)"

definition read_remove_forward :: "(string \<times> json) list \<Rightarrow> port_request option" where
  "read_remove_forward fs =
     (if map_of fs ''direction'' = Some (JStr ''local'')
      then (if has_keys fs [''direction'', ''hostPort'', ''type'']
            then map_option (\<lambda>p. RemoveForwardRequest (SelectHostPort p)) (read_port (map_of fs ''hostPort''))
            else if has_keys fs [''containerPort'', ''direction'', ''type'']
            then map_option (\<lambda>p. RemoveForwardRequest (SelectLocal p)) (read_port (map_of fs ''containerPort''))
            else None)
      else if map_of fs ''direction'' = Some (JStr ''remote'') \<and> has_keys fs [''containerPort'', ''direction'', ''type'']
      then map_option (\<lambda>p. RemoveForwardRequest (SelectRemote p)) (read_port (map_of fs ''containerPort''))
      else None)"

text \<open>\<open>parseControlRequest\<close>, on the parsed line.\<close>

definition parse_port_request :: "json \<Rightarrow> port_request option" where
  "parse_port_request v =
     (case json_object v of
        None \<Rightarrow> None
      | Some fs \<Rightarrow>
          (case json_string (map_of fs ''type'') of
             None \<Rightarrow> None
           | Some kind \<Rightarrow>
               (if kind = ''bind'' then read_bind fs
                else if kind = ''unbind'' then read_unbind fs
                else if kind = ''candidates'' then (if has_keys fs [''type''] then Some CandidatesRequest else None)
                else if kind = ''forward'' then read_forward fs
                else if kind = ''unforward''
                then (if has_keys fs [''containerPort'', ''type'']
                      then map_option UnforwardRequest (read_port (map_of fs ''containerPort'')) else None)
                else if kind = ''add-forward'' then read_add_forward fs
                else if kind = ''remove-forward'' then read_remove_forward fs
                else None)))"

text \<open>What a client sends for a request.\<close>

definition port_json :: "int \<Rightarrow> json" where
  "port_json port = JNum (int_text port)"

definition optional_port_json :: "int option \<Rightarrow> json" where
  "optional_port_json port = (case port of None \<Rightarrow> JNull | Some p \<Rightarrow> port_json p)"

fun port_request_json :: "port_request \<Rightarrow> json" where
  "port_request_json (BindRequest container_port host_port) =
     JObj [(''type'', JStr ''bind''), (''containerPort'', port_json container_port), (''hostPort'', optional_port_json host_port)]"
| "port_request_json (UnbindContainer p) = JObj [(''type'', JStr ''unbind''), (''containerPort'', port_json p)]"
| "port_request_json (UnbindHost p) = JObj [(''type'', JStr ''unbind''), (''hostPort'', port_json p)]"
| "port_request_json CandidatesRequest = JObj [(''type'', JStr ''candidates'')]"
| "port_request_json (ForwardRequest container_port host_port) =
     JObj [(''type'', JStr ''forward''), (''containerPort'', port_json container_port), (''hostPort'', port_json host_port)]"
| "port_request_json (UnforwardRequest p) = JObj [(''type'', JStr ''unforward''), (''containerPort'', port_json p)]"
| "port_request_json (AddForwardRequest (AddLocal container_port host_port)) =
     JObj [(''type'', JStr ''add-forward''), (''direction'', JStr ''local''), (''containerPort'', port_json container_port),
       (''hostPort'', optional_port_json host_port)]"
| "port_request_json (AddForwardRequest (AddRemote container_port host_port)) =
     JObj [(''type'', JStr ''add-forward''), (''direction'', JStr ''remote''), (''containerPort'', port_json container_port),
       (''hostPort'', port_json host_port)]"
| "port_request_json (RemoveForwardRequest (SelectHostPort p)) =
     JObj [(''type'', JStr ''remove-forward''), (''direction'', JStr ''local''), (''hostPort'', port_json p)]"
| "port_request_json (RemoveForwardRequest (SelectLocal p)) =
     JObj [(''type'', JStr ''remove-forward''), (''direction'', JStr ''local''), (''containerPort'', port_json p)]"
| "port_request_json (RemoveForwardRequest (SelectRemote p)) =
     JObj [(''type'', JStr ''remove-forward''), (''direction'', JStr ''remote''), (''containerPort'', port_json p)]"

fun request_ports_ok :: "port_request \<Rightarrow> bool" where
  "request_ports_ok (BindRequest container_port host_port) =
     (valid_port container_port \<and> pred_option (\<lambda>p. p = 0 \<or> valid_port p) host_port)"
| "request_ports_ok (UnbindContainer p) = valid_port p"
| "request_ports_ok (UnbindHost p) = valid_port p"
| "request_ports_ok CandidatesRequest = True"
| "request_ports_ok (ForwardRequest container_port host_port) = (valid_port container_port \<and> valid_port host_port)"
| "request_ports_ok (UnforwardRequest p) = valid_port p"
| "request_ports_ok (AddForwardRequest (AddLocal container_port host_port)) =
     (valid_port container_port \<and> pred_option valid_port host_port)"
| "request_ports_ok (AddForwardRequest (AddRemote container_port host_port)) = (valid_port container_port \<and> valid_port host_port)"
| "request_ports_ok (RemoveForwardRequest (SelectHostPort p)) = valid_port p"
| "request_ports_ok (RemoveForwardRequest (SelectLocal p)) = valid_port p"
| "request_ports_ok (RemoveForwardRequest (SelectRemote p)) = valid_port p"

lemma read_port_json [simp]: "read_port (Some (port_json p)) = (if valid_port p then Some p else None)"
  by (auto simp: read_port_def port_json_def valid_port_def max_safe_integer_def)

lemma read_port_or_null_json [simp]:
  "read_port_or_null (Some (optional_port_json p)) = (if pred_option valid_port p then Some p else None)"
  by (cases p) (auto simp: read_port_or_null_def optional_port_json_def port_json_def valid_port_def read_port_def max_safe_integer_def)

lemma port_json_zero [simp]: "port_json p = JNum ''0'' \<longleftrightarrow> p = 0"
proof -
  have zero: "int_text 0 = ''0''" by code_simp
  have "int_text p = ''0'' \<longleftrightarrow> int_text p = int_text 0" by (simp add: zero)
  then show ?thesis by (simp add: port_json_def)
qed

lemma optional_zero [simp]: "optional_port_json p = JNum ''0'' \<longleftrightarrow> p = Some 0"
  by (cases p) (simp_all add: optional_port_json_def)

lemma not_valid_zero [simp]: "\<not> valid_port 0"
  by (simp add: valid_port_def)

lemma host_choice [simp]: "pred_option (\<lambda>p. p = 0 \<or> valid_port p) q \<longleftrightarrow> q = Some 0 \<or> pred_option valid_port q"
  by (cases q) auto

lemma sorted_keys:
  "sort [''type''] = [''type'']"
  "sort [''type'', ''containerPort'', ''hostPort''] = [''containerPort'', ''hostPort'', ''type'']"
  "sort [''type'', ''containerPort''] = [''containerPort'', ''type'']" "sort [''type'', ''hostPort''] = [''hostPort'', ''type'']"
  "sort [''type'', ''direction'', ''containerPort'', ''hostPort''] = [''containerPort'', ''direction'', ''hostPort'', ''type'']"
  "sort [''type'', ''direction'', ''containerPort''] = [''containerPort'', ''direction'', ''type'']"
  "sort [''type'', ''direction'', ''hostPort''] = [''direction'', ''hostPort'', ''type'']"
  by code_simp+

lemma has_keys_orders:
  "has_keys [(''type'', a), (''containerPort'', b), (''hostPort'', c)] names \<longleftrightarrow> [''containerPort'', ''hostPort'', ''type''] = names"
  "has_keys [(''type'', a), (''containerPort'', b)] names \<longleftrightarrow> [''containerPort'', ''type''] = names"
  "has_keys [(''type'', a), (''hostPort'', b)] names \<longleftrightarrow> [''hostPort'', ''type''] = names"
  "has_keys [(''type'', a)] names \<longleftrightarrow> [''type''] = names"
  "has_keys [(''type'', a), (''direction'', b), (''containerPort'', c), (''hostPort'', d)] names \<longleftrightarrow>
     [''containerPort'', ''direction'', ''hostPort'', ''type''] = names"
  "has_keys [(''type'', a), (''direction'', b), (''containerPort'', c)] names \<longleftrightarrow> [''containerPort'', ''direction'', ''type''] = names"
  "has_keys [(''type'', a), (''direction'', b), (''hostPort'', c)] names \<longleftrightarrow> [''direction'', ''hostPort'', ''type''] = names"
  by (simp_all add: has_keys_def sorted_keys del: sort_key_simps insort_key.simps)

lemma parse_port_request_json: "parse_port_request (port_request_json r) = (if request_ports_ok r then Some r else None)"
  by (cases r rule: port_request_json.cases)
    (auto simp: parse_port_request_def read_bind_def read_unbind_def read_forward_def read_add_forward_def
      read_remove_forward_def has_keys_orders split: if_splits)

lemma read_port_valid: "read_port v = Some p \<Longrightarrow> valid_port p"
  by (auto simp: read_port_def split: option.splits if_splits)

lemma read_port_or_null_valid: "read_port_or_null v = Some p \<Longrightarrow> pred_option valid_port p"
  by (auto simp: read_port_or_null_def dest: read_port_valid split: if_splits)

lemma parse_port_request_ok:
  assumes "parse_port_request v = Some r"
  shows "request_ports_ok r"
  using assms
  by (auto simp: parse_port_request_def read_bind_def read_unbind_def read_forward_def read_add_forward_def
      read_remove_forward_def bind_eq_Some_conv split: option.splits if_splits
      dest!: read_port_valid read_port_or_null_valid)

text \<open> C16: The control socket accepts what its clients send, unchanged, and nothing with another port: the parser reads
  a written request back exactly when its ports lie between 1 and 65535 (0 or \<open>null\<close> only where the host may
  choose), refuses it otherwise, and over all JSON values it yields exactly those requests.\<close>

theorem port_requests_exact:
  "parse_port_request (port_request_json r) = (if request_ports_ok r then Some r else None) \<and>
   range parse_port_request = insert None (Some ` {r. request_ports_ok r})"
proof
  show "range parse_port_request = insert None (Some ` {r. request_ports_ok r})"
  proof
    show "range parse_port_request \<subseteq> insert None (Some ` {r. request_ports_ok r})"
    proof
      fix x assume "x \<in> range parse_port_request"
      then show "x \<in> insert None (Some ` {r. request_ports_ok r})" using parse_port_request_ok by (cases x) auto
    qed
    have "parse_port_request JNull = None" by (simp add: parse_port_request_def)
    then have "None \<in> range parse_port_request" by (metis rangeI)
    moreover have "Some r \<in> range parse_port_request" if "request_ports_ok r" for r
      using parse_port_request_json [of r] that by (metis rangeI)
    ultimately show "insert None (Some ` {r. request_ports_ok r}) \<subseteq> range parse_port_request" by auto
  qed
qed (rule parse_port_request_json)

section \<open>Arguments of the command line\<close>

text \<open>Options of the whole command are skipped; \<open>None\<close> is the usage error.\<close>

definition quiet_flags :: "string list" where
  "quiet_flags = [''--format=json'', ''-q'', ''--quiet'', ''-v'', ''--verbose'']"

definition valued_flags :: "string list" where
  "valued_flags = [''--runtime-dir'', ''--format'']"

fun positional_args :: "string list \<Rightarrow> string list option" where
  "positional_args [] = Some []"
| "positional_args (arg # args) =
     (if arg \<in> set valued_flags then (case args of [] \<Rightarrow> None | v # rest \<Rightarrow> positional_args rest)
      else if arg \<in> set quiet_flags then positional_args args
      else if prefix ''-'' arg then None
      else map_option (\<lambda>ps. arg # ps) (positional_args args))"

definition parse_port :: "string \<Rightarrow> int option" where
  "parse_port v =
     (if v = [] \<or> \<not> list_all is_digit v then None
      else if valid_port (int (parse_nat v)) then Some (int (parse_nat v)) else None)"

definition parse_session_key :: "string \<Rightarrow> (string \<times> int) option" where
  "parse_session_key v =
     (if CHR '':'' \<notin> set v \<or> before_last CHR '':'' v = [] then None
      else map_option (Pair (before_last CHR '':'' v)) (parse_port (after_last CHR '':'' v)))"

text \<open>\<open>bind\<close> and \<open>forward\<close>: the host port may be left out.\<close>

definition parse_bind_args :: "string list \<Rightarrow> (string \<times> int \<times> int option) option" where
  "parse_bind_args args =
     (case positional_args args of
        Some [key] \<Rightarrow> map_option (\<lambda>(sid, cp). (sid, cp, None)) (parse_session_key key)
      | Some [key, port] \<Rightarrow>
          Option.bind (parse_session_key key) (\<lambda>(sid, cp). map_option (\<lambda>hp. (sid, cp, Some hp)) (parse_port port))
      | _ \<Rightarrow> None)"

definition parse_forward_args :: "string list \<Rightarrow> (string \<times> int \<times> int) option" where
  "parse_forward_args args =
     (case positional_args args of
        Some [key] \<Rightarrow> map_option (\<lambda>(sid, cp). (sid, cp, cp)) (parse_session_key key)
      | Some [key, port] \<Rightarrow>
          Option.bind (parse_session_key key) (\<lambda>(sid, cp). map_option (\<lambda>hp. (sid, cp, hp)) (parse_port port))
      | _ \<Rightarrow> None)"

text \<open>A session alone asks for its candidates: \<open>Some None\<close> is any other shape.\<close>

definition parse_session_only :: "string list \<Rightarrow> string option option" where
  "parse_session_only args =
     map_option (\<lambda>positional.
         case positional of
           [v] \<Rightarrow> (if CHR '':'' \<in> set v \<or> (v \<noteq> [] \<and> list_all is_digit v) then None else Some v)
         | _ \<Rightarrow> None)
       (positional_args args)"

datatype unbind_key = SessionKey string int | HostPortKey int

definition parse_unbind_args :: "string list \<Rightarrow> unbind_key option option" where
  "parse_unbind_args args =
     (case positional_args args of
        Some [] \<Rightarrow> Some None
      | Some [v] \<Rightarrow>
          (if CHR '':'' \<in> set v then map_option (\<lambda>(sid, cp). Some (SessionKey sid cp)) (parse_session_key v)
           else map_option (\<lambda>hp. Some (HostPortKey hp)) (parse_port v))
      | _ \<Rightarrow> None)"

definition parse_unforward_args :: "string list \<Rightarrow> (string \<times> int) option option" where
  "parse_unforward_args args =
     (case positional_args args of
        Some [] \<Rightarrow> Some None
      | Some [v] \<Rightarrow> (if CHR '':'' \<in> set v then map_option Some (parse_session_key v) else None)
      | _ \<Rightarrow> None)"

text \<open>The syntax of \<open>ssh\<close>: one flag, its value, one session.\<close>

definition ssh_forward_flags :: "(string \<times> forward_direction) list" where
  "ssh_forward_flags = [(''-L'', LocalForward), (''--local-forward'', LocalForward), (''-R'', RemoteForward),
     (''--remote-forward'', RemoteForward)]"

definition resembles_malformed_flag :: "string \<Rightarrow> bool" where
  "resembles_malformed_flag arg \<longleftrightarrow>
     ((prefix ''-L'' arg \<or> prefix ''-R'' arg) \<and> length arg > 2 \<and> arg ! 2 \<notin> {CHR 0x0A, CHR 0x0D}) \<or>
     prefix ''--local-forward='' arg \<or> prefix ''--remote-forward='' arg"

fun scan_ssh_args ::
  "string list \<Rightarrow> string list \<Rightarrow> (forward_direction \<times> string) option \<Rightarrow> (string list \<times> (forward_direction \<times> string) option) option"
where
  "scan_ssh_args [] positional flag = Some (positional, flag)"
| "scan_ssh_args (arg # args) positional flag =
     (if arg \<in> set valued_flags then (case args of [] \<Rightarrow> None | v # rest \<Rightarrow> scan_ssh_args rest positional flag)
      else if arg \<in> set quiet_flags then scan_ssh_args args positional flag
      else (case map_of ssh_forward_flags arg of
              Some direction \<Rightarrow>
                (if flag \<noteq> None then None
                 else (case args of [] \<Rightarrow> None | v # rest \<Rightarrow> scan_ssh_args rest positional (Some (direction, v))))
            | None \<Rightarrow> if prefix ''-'' arg then None else scan_ssh_args args (positional @ [arg]) flag))"

datatype ssh_forward = SshBind string add_forward_request | SshUnbind string forward_selector

definition parse_ssh_value :: "bool \<Rightarrow> string \<Rightarrow> forward_direction \<Rightarrow> string \<Rightarrow> ssh_forward option" where
  "parse_ssh_value binding session direction v =
     (if \<not> binding
      then map_option (\<lambda>p. SshUnbind session (case direction of LocalForward \<Rightarrow> SelectHostPort p | RemoteForward \<Rightarrow> SelectRemote p))
             (parse_port v)
      else (case split_on CHR '':'' v of
              [listen, target] \<Rightarrow>
                (if listen = [] \<or> target = [] then None
                 else Option.bind (parse_port listen) (\<lambda>lp. map_option (\<lambda>tp. SshBind session
                   (case direction of LocalForward \<Rightarrow> AddLocal tp (Some lp) | RemoteForward \<Rightarrow> AddRemote lp tp)) (parse_port target)))
            | _ \<Rightarrow> None))"

definition parse_ssh_forward_args :: "string list \<Rightarrow> bool \<Rightarrow> ssh_forward option option" where
  "parse_ssh_forward_args args binding =
     (if \<not> list_ex (\<lambda>arg. map_of ssh_forward_flags arg \<noteq> None) args
      then (if list_ex resembles_malformed_flag args then None else Some None)
      else (case scan_ssh_args args [] None of
              Some ([session], Some (direction, v)) \<Rightarrow>
                (if v = [] \<or> session = [] \<or> CHR '':'' \<in> set session then None
                 else map_option Some (parse_ssh_value binding session direction v))
            | _ \<Rightarrow> None))"

text \<open>What the user writes is what the broker gets.\<close>

lemma digits_nonempty: "nat_text n \<noteq> []"
  by (subst nat_text.simps) simp

lemma digits_all: "list_all is_digit (nat_text n)"
  using nat_text_digits by (simp add: list_all_iff)

lemma parse_port_text [simp]: "parse_port (nat_text n) = (if valid_port (int n) then Some (int n) else None)"
  by (simp add: parse_port_def digits_nonempty digits_all)

lemma port_text_no_colon: "CHR '':'' \<notin> set (nat_text n)"
proof
  assume "CHR '':'' \<in> set (nat_text n)"
  then have "is_digit CHR '':''" by (rule nat_text_digits)
  then show False by (simp add: is_digit_def less_eq_char_def)
qed

lemma parse_session_key_text:
  assumes "sid \<noteq> []"
  shows "parse_session_key (sid @ '':'' @ nat_text n) = map_option (Pair sid) (parse_port (nat_text n))"
proof -
  let ?v = "sid @ '':'' @ nat_text n"
  have "CHR '':'' \<notin> set (rev (nat_text n))" using port_text_no_colon by simp
  then have "takeWhile (\<lambda>x. x \<noteq> CHR '':'') (rev ?v) = rev (nat_text n)" and
      "dropWhile (\<lambda>x. x \<noteq> CHR '':'') (rev ?v) = CHR '':'' # rev sid"
    by (induction "rev (nat_text n)") (auto simp: takeWhile_append dropWhile_append)
  then show ?thesis using assms by (simp add: parse_session_key_def before_last_def after_last_def)
qed

end
