(* ===== verification/PortBroker.thy ===== *)
theory PortBroker
  imports PortForward
begin

text \<open>
  The broker of forwarded ports (\<open>src/network/port_bind_broker.ts\<close>). It serialises every change
  on one queue (\<open>mutationTail\<close>): a change runs to its end before the next begins, so a change is
  one step here. Between two steps clients and the relay add changes to the queue; what they read
  when they do so (whether the broker is closing, how the initial forwards stand, the generation
  of a forward) is read in that state.

  What a step awaits is the record \<open>port_env\<close>: what listening on a host port gives, what the
  relay answers, whether the registry can be written. A forward that is added has a generation (a
  fresh number for the code's \<open>Symbol\<close>), by which a late report of the relay is recognised. The
  sockets behind a listener are left out.
\<close>

section \<open>State\<close>

datatype listen_result = Listening int | AddressTaken | ListenFailed

datatype relay_result = RelayDone | RelayNotReady | RelayRefused

datatype probe_result = ProbeOk | ProbeNoAnswer | ProbeNotRunning | ProbeUnreachable

datatype port_error =
    HostPortTaken
  | BindingConflict
  | NoSuchBinding
  | InvalidRequest
  | ContainerPortTaken
  | RelayUnavailable
  | PortInternal

datatype initial_state = InitialIdle | InitialPending | InitialReady | InitialFailed

record port_env =
  pe_listen :: "int \<Rightarrow> listen_result"
  pe_forward :: relay_result
  pe_unforward :: bool
  pe_close :: bool
  pe_persist :: bool
  pe_retry :: bool
  pe_probe :: probe_result
  pe_now :: string
  pe_connected :: bool

datatype add_result = AddResult managed_forward probe_result

datatype remove_result = RemoveResult bool bool bool

datatype port_answer = AnswerAdd add_result | AnswerRemove remove_result | AnswerDone

datatype port_mutation =
    MutAdd forward_spec forward_owner
  | MutAddLocal int "int option"
  | MutRemove forward_direction int
  | MutRemoveSelected forward_selector
  | MutState string nat forward_state "string option"
  | MutComplete
  | MutPrepare "initial_forward list"

datatype port_effect = RelayUnforward int | InitialNotice "port_error option"

record port_broker =
  pb_reserved :: "int list"
  pb_managed :: "(string \<times> managed_forward) list"
  pb_open :: "(int \<times> int) list"
  pb_generations :: "(string \<times> nat) list"
  pb_fresh :: nat
  pb_initial :: initial_state
  pb_closing :: bool
  pb_registry :: "managed_forward list"
  pb_queue :: "port_mutation list"
  pb_effects :: "port_effect list"

definition port_broker_new :: "int list \<Rightarrow> port_broker" where
  "port_broker_new reserved =
     \<lparr>pb_reserved = reserved, pb_managed = [], pb_open = [], pb_generations = [], pb_fresh = 0, pb_initial = InitialIdle,
      pb_closing = False, pb_registry = [], pb_queue = [], pb_effects = []\<rparr>"

definition managed_specs :: "port_broker \<Rightarrow> forward_spec list" where
  "managed_specs b = map (mf_spec \<circ> snd) (pb_managed b)"

definition port_effect_of :: "port_effect list \<Rightarrow> port_broker \<Rightarrow> port_broker" where
  "port_effect_of es b = b\<lparr>pb_effects := pb_effects b @ es\<rparr>"

section \<open>The registry\<close>

definition persist :: "bool \<Rightarrow> port_broker \<Rightarrow> port_broker" where
  "persist ok b = (if ok then b\<lparr>pb_registry := map snd (pb_managed b)\<rparr> else b)"

text \<open>A revocation writes once more, but reports the failure; it is never taken back.\<close>

definition persist_revocation :: "port_env \<Rightarrow> port_broker \<Rightarrow> port_broker \<times> bool" where
  "persist_revocation env b =
     (if pe_persist env then (persist True b, True) else (persist (pe_retry env) b, False))"

section \<open>The initial forwards\<close>

text \<open>
  \<open>written\<close> is what the write of the registry gives here. The notice is \<open>onInitialComplete\<close>, with
  the reason when there is one; the same news goes to the relay.
\<close>

definition fail_initial :: "bool \<Rightarrow> port_error \<Rightarrow> port_broker \<Rightarrow> port_broker" where
  "fail_initial written e b =
     (if pb_initial b \<noteq> InitialPending then b
      else port_effect_of
             (map (\<lambda>s. RelayUnforward (fs_container_port s))
                (filter (\<lambda>s. fs_direction s = RemoteForward) (managed_specs b)) @ [InitialNotice (Some e)])
             (persist written (b\<lparr>pb_initial := InitialFailed, pb_managed := [], pb_generations := [], pb_open := []\<rparr>)))"

definition complete_initial :: "port_env \<Rightarrow> port_broker \<Rightarrow> port_broker" where
  "complete_initial env b =
     (if pb_initial b \<noteq> InitialPending \<or> \<not> pe_connected env then b
      else if list_ex (\<lambda>(key, entry). mf_state entry \<noteq> ForwardActive) (pb_managed b) then b
      else port_effect_of [InitialNotice None] (b\<lparr>pb_initial := InitialReady\<rparr>))"

text \<open>What \<open>onForwardState\<close> queues.\<close>

definition apply_forward_state ::
  "port_env \<Rightarrow> string \<Rightarrow> nat \<Rightarrow> forward_state \<Rightarrow> string option \<Rightarrow> port_broker \<Rightarrow> port_broker"
where
  "apply_forward_state env key generation state e b =
     (case map_of (pb_managed b) key of
        None \<Rightarrow> b
      | Some entry \<Rightarrow>
          (if map_of (pb_generations b) key \<noteq> Some generation then b
           else (let b1 = b\<lparr>pb_managed := AList.update key (entry\<lparr>mf_state := state, mf_error := e\<rparr>) (pb_managed b)\<rparr>
                 in if pb_initial b1 = InitialPending
                    then (if state = ForwardFailed \<or> state = ForwardUnavailable then fail_initial (pe_persist env) PortInternal b1
                          else if pe_persist env then complete_initial env (persist True b1)
                          else fail_initial (pe_retry env) PortInternal b1)
                    else fst (persist_revocation env b1))))"

section \<open>Adding\<close>

definition valid_spec :: "'a forward_spec_scheme \<Rightarrow> bool" where
  "valid_spec s \<longleftrightarrow> valid_port (fs_container_port s) \<and> valid_port (fs_host_port s)"

definition local_host_port_used :: "port_broker \<Rightarrow> int \<Rightarrow> bool" where
  "local_host_port_used b host_port \<longleftrightarrow>
     list_ex (\<lambda>s. fs_direction s = LocalForward \<and> fs_host_port s = host_port) (managed_specs b)"

definition host_probe :: "forward_spec \<Rightarrow> probe_result \<Rightarrow> probe_result" where
  "host_probe spec r = (if fs_direction spec = LocalForward \<or> r = ProbeOk then r else ProbeNoAnswer)"

text \<open>The part of \<open>add\<close> for a key the broker has.\<close>

definition add_owner ::
  "port_env \<Rightarrow> forward_spec \<Rightarrow> forward_owner \<Rightarrow> managed_forward \<Rightarrow> port_broker \<Rightarrow> port_broker \<times> (port_error + add_result)"
where
  "add_owner env spec owner existing b =
     (if fs_host_port (mf_spec existing) \<noteq> fs_host_port spec then (b, Inl BindingConflict)
      else if owner \<in> set (mf_owners existing) then (b, Inr (AddResult existing (host_probe spec (pe_probe env))))
      else (let updated = existing\<lparr>mf_owners := mf_owners existing @ [owner]\<rparr>;
                b1 = b\<lparr>pb_managed := AList.update (spec_key spec) updated (pb_managed b)\<rparr>
            in if pe_persist env then (persist True b1, Inr (AddResult updated (host_probe spec (pe_probe env))))
               else (b1\<lparr>pb_managed := AList.update (spec_key spec) existing (pb_managed b1)\<rparr>, Inl PortInternal)))"

text \<open>Why a new forward is refused before anything changes.\<close>

definition refuse_add :: "forward_spec \<Rightarrow> port_broker \<Rightarrow> port_error option" where
  "refuse_add spec b =
     (if fs_direction spec = RemoteForward \<and> fs_container_port spec \<in> set (pb_reserved b) then Some ContainerPortTaken
      else if fs_direction spec = LocalForward \<and> local_host_port_used b (fs_host_port spec) then Some BindingConflict
      else if creates_forward_cycle (managed_specs b) spec then Some BindingConflict
      else None)"

text \<open>The \<open>catch\<close> of a forward that was inserted.\<close>

definition roll_back_add :: "forward_spec \<Rightarrow> port_broker \<Rightarrow> port_broker" where
  "roll_back_add spec b =
     (let b1 = b\<lparr>pb_managed := AList.delete (spec_key spec) (pb_managed b),
                 pb_generations := AList.delete (spec_key spec) (pb_generations b)\<rparr>
      in case fs_direction spec of
           LocalForward \<Rightarrow> b1\<lparr>pb_open := AList.delete (fs_container_port spec) (pb_open b1)\<rparr>
         | RemoteForward \<Rightarrow> port_effect_of [RelayUnforward (fs_container_port spec)] b1)"

text \<open>\<open>prepared\<close>: the listener is there already.\<close>

definition establish :: "port_env \<Rightarrow> forward_spec \<Rightarrow> bool \<Rightarrow> port_broker \<Rightarrow> port_broker \<times> port_error option" where
  "establish env spec prepared b =
     (case fs_direction spec of
        LocalForward \<Rightarrow>
          (let opened = b\<lparr>pb_open := AList.update (fs_container_port spec) (fs_host_port spec) (pb_open b)\<rparr>
           in if prepared then (opened, None)
              else (case pe_listen env (fs_host_port spec) of
                      Listening p \<Rightarrow> (opened, None)
                    | AddressTaken \<Rightarrow> (b, Some HostPortTaken)
                    | ListenFailed \<Rightarrow> (b, Some PortInternal)))
      | RemoteForward \<Rightarrow>
          (b, case pe_forward env of
                RelayDone \<Rightarrow> None | RelayNotReady \<Rightarrow> Some RelayUnavailable | RelayRefused \<Rightarrow> Some ContainerPortTaken))"

definition add_forward ::
  "port_env \<Rightarrow> forward_spec \<Rightarrow> forward_owner \<Rightarrow> bool \<Rightarrow> port_broker \<Rightarrow> port_broker \<times> (port_error + add_result)"
where
  "add_forward env spec owner prepared b =
     (if \<not> valid_spec spec then (b, Inl InvalidRequest)
      else (case map_of (pb_managed b) (spec_key spec) of
              Some existing \<Rightarrow> add_owner env spec owner existing b
            | None \<Rightarrow>
                (case refuse_add spec b of
                   Some e \<Rightarrow> (b, Inl e)
                 | None \<Rightarrow>
                     (let entry = \<lparr>mf_spec = spec, mf_owners = [owner], mf_created_at = pe_now env,
                                   mf_state = ForwardPending, mf_error = None\<rparr>;
                          b1 = b\<lparr>pb_managed := AList.update (spec_key spec) entry (pb_managed b),
                                 pb_generations := AList.update (spec_key spec) (pb_fresh b) (pb_generations b),
                                 pb_fresh := Suc (pb_fresh b)\<rparr>
                      in case establish env spec prepared b1 of
                           (b2, Some e) \<Rightarrow> (roll_back_add spec b2, Inl e)
                         | (b2, None) \<Rightarrow>
                             (let active = entry\<lparr>mf_state := ForwardActive\<rparr>;
                                  b3 = b2\<lparr>pb_managed := AList.update (spec_key spec) active (pb_managed b2)\<rparr>
                              in if pe_persist env
                                 then (persist True b3, Inr (AddResult active (host_probe spec (pe_probe env))))
                                 else (roll_back_add spec b3, Inl PortInternal))))))"

text \<open>\<open>hostPortCandidates\<close>\<close>

definition max_candidates :: nat where "max_candidates = 65"

definition host_port_candidates :: "int \<Rightarrow> int option \<Rightarrow> int list" where
  "host_port_candidates container_port requested =
     (case requested of
        Some p \<Rightarrow> [p]
      | None \<Rightarrow> container_port # take (max_candidates - 1) [max (container_port + 1) 1024..65535])"

text \<open>The loop over the candidates: the port that is listened on at last.\<close>

fun acquire_port :: "port_env \<Rightarrow> int list \<Rightarrow> port_error + int" where
  "acquire_port env [] = Inl HostPortTaken"
| "acquire_port env (p # ps) =
     (case pe_listen env p of
        Listening q \<Rightarrow> Inr q
      | AddressTaken \<Rightarrow> acquire_port env ps
      | ListenFailed \<Rightarrow> Inl PortInternal)"

definition add_local :: "port_env \<Rightarrow> int \<Rightarrow> int option \<Rightarrow> port_broker \<Rightarrow> port_broker \<times> (port_error + add_result)" where
  "add_local env container_port requested b =
     (let existing = map_of (pb_managed b) (forward_key LocalForward container_port);
          chosen = (case requested of None \<Rightarrow> 0 | Some p \<Rightarrow> p)
      in if existing \<noteq> None \<or> chosen \<noteq> 0
         then add_forward env
                \<lparr>fs_direction = LocalForward, fs_container_port = container_port,
                 fs_host_port = (if chosen \<noteq> 0 then chosen
                                 else case existing of None \<Rightarrow> container_port | Some e \<Rightarrow> fs_host_port (mf_spec e))\<rparr>
                OwnedDynamically False b
         else if \<not> valid_port container_port then (b, Inl InvalidRequest)
         else (case acquire_port env (host_port_candidates container_port requested) of
                 Inl e \<Rightarrow> (b, Inl e)
               | Inr host_port \<Rightarrow>
                   add_forward env
                     \<lparr>fs_direction = LocalForward, fs_container_port = container_port, fs_host_port = host_port\<rparr>
                     OwnedDynamically True b))"

section \<open>Removing\<close>

definition remove_forward ::
  "port_env \<Rightarrow> forward_direction \<Rightarrow> int \<Rightarrow> port_broker \<Rightarrow> port_broker \<times> (port_error + remove_result)"
where
  "remove_forward env direction container_port b =
     (let key = forward_key direction container_port
      in case map_of (pb_managed b) key of
           None \<Rightarrow> (b, Inl NoSuchBinding)
         | Some entry \<Rightarrow>
             (case remove_user_owners entry of
                Some retained \<Rightarrow>
                  (if length (mf_owners retained) = length (mf_owners entry)
                   then (b, Inr (RemoveResult False True False))
                   else (case persist_revocation env (b\<lparr>pb_managed := AList.update key retained (pb_managed b)\<rparr>) of
                           (b1, ok) \<Rightarrow> (b1, if ok then Inr (RemoveResult True True False) else Inl PortInternal)))
              | None \<Rightarrow>
                  (let b1 = b\<lparr>pb_managed := AList.delete key (pb_managed b), pb_generations := AList.delete key (pb_generations b)\<rparr>
                   in case direction of
                        LocalForward \<Rightarrow>
                          (let was_open = map_of (pb_open b1) container_port \<noteq> None;
                               b2 = b1\<lparr>pb_open := AList.delete container_port (pb_open b1)\<rparr>
                           in if was_open \<and> \<not> pe_close env then (b2, Inl PortInternal)
                              else (case persist_revocation env b2 of
                                      (b3, ok) \<Rightarrow> (b3, if ok then Inr (RemoveResult True False was_open) else Inl PortInternal)))
                      | RemoteForward \<Rightarrow>
                          (case persist_revocation env (port_effect_of [RelayUnforward container_port] b1) of
                             (b2, ok) \<Rightarrow>
                               (b2, if ok then Inr (RemoveResult True False (pe_unforward env)) else Inl PortInternal)))))"

definition selected_forward :: "forward_selector \<Rightarrow> port_broker \<Rightarrow> (forward_direction \<times> int) option" where
  "selected_forward selector b =
     map_option (\<lambda>s. (fs_direction s, fs_container_port s))
       (case selector of
          SelectHostPort p \<Rightarrow> List.find (\<lambda>s. fs_direction s = LocalForward \<and> fs_host_port s = p) (managed_specs b)
        | SelectLocal p \<Rightarrow> map_option mf_spec (map_of (pb_managed b) (forward_key LocalForward p))
        | SelectRemote p \<Rightarrow> map_option mf_spec (map_of (pb_managed b) (forward_key RemoteForward p)))"

definition remove_selected :: "port_env \<Rightarrow> forward_selector \<Rightarrow> port_broker \<Rightarrow> port_broker \<times> (port_error + remove_result)" where
  "remove_selected env selector b =
     (case selected_forward selector b of
        None \<Rightarrow> (b, Inl NoSuchBinding)
      | Some (direction, container_port) \<Rightarrow> remove_forward env direction container_port b)"

section \<open>Preparing\<close>

definition refuse_initial :: "initial_forward \<Rightarrow> port_broker \<Rightarrow> port_error option" where
  "refuse_initial s b =
     (if \<not> valid_spec s then Some InvalidRequest
      else if if_owners s = [] \<or> list_ex (\<lambda>owner. owner \<noteq> OwnedByConfig \<and> owner \<noteq> OwnedInternally) (if_owners s) \<or>
        map_of (pb_managed b) (spec_key s) \<noteq> None \<or> creates_forward_cycle (managed_specs b) s \<or>
        (fs_direction s = RemoteForward \<and> fs_container_port s \<in> set (pb_reserved b)) \<or>
        (fs_direction s = LocalForward \<and> local_host_port_used b (fs_host_port s))
      then Some PortInternal else None)"

definition initial_entry :: "string \<Rightarrow> initial_forward \<Rightarrow> managed_forward" where
  "initial_entry created s =
     \<lparr>mf_spec = forward_spec.truncate s, mf_owners = if_owners s, mf_created_at = created,
      mf_state = (if fs_direction s = LocalForward then ForwardActive else ForwardPending), mf_error = None\<rparr>"

definition register_initial :: "string \<Rightarrow> initial_forward \<Rightarrow> port_broker \<Rightarrow> port_broker" where
  "register_initial created s b =
     b\<lparr>pb_managed := AList.update (spec_key s) (initial_entry created s) (pb_managed b),
       pb_generations := AList.update (spec_key s) (pb_fresh b) (pb_generations b), pb_fresh := Suc (pb_fresh b)\<rparr>"

fun prepare_entries :: "port_env \<Rightarrow> initial_forward list \<Rightarrow> port_broker \<Rightarrow> port_broker \<times> port_error option" where
  "prepare_entries env [] b = (b, None)"
| "prepare_entries env (s # ss) b =
     (case refuse_initial s b of
        Some e \<Rightarrow> (b, Some e)
      | None \<Rightarrow>
          (if fs_direction s = RemoteForward then prepare_entries env ss (register_initial (pe_now env) s b)
           else (case pe_listen env (fs_host_port s) of
                   Listening p \<Rightarrow>
                     prepare_entries env ss (register_initial (pe_now env) s
                       (b\<lparr>pb_open := AList.update (fs_container_port s) (fs_host_port s) (pb_open b)\<rparr>))
                 | _ \<Rightarrow> (b, Some PortInternal))))"

definition run_prepare :: "port_env \<Rightarrow> initial_forward list \<Rightarrow> port_broker \<Rightarrow> port_broker \<times> (port_error + port_answer)" where
  "run_prepare env ss b =
     (case prepare_entries env ss b of
        (b1, Some e) \<Rightarrow> (fail_initial (pe_persist env) e b1, Inl e)
      | (b1, None) \<Rightarrow>
          (if pe_persist env
           then ((if ss = [] then (persist True b1)\<lparr>pb_initial := InitialReady\<rparr> else persist True b1), Inr AnswerDone)
           else (fail_initial (pe_retry env) PortInternal b1, Inl PortInternal)))"

section \<open>The queue\<close>

definition run_mutation :: "port_env \<Rightarrow> port_mutation \<Rightarrow> port_broker \<Rightarrow> port_broker \<times> (port_error + port_answer)" where
  "run_mutation env mu b =
     (case mu of
        MutAdd spec owner \<Rightarrow> apsnd (map_sum id AnswerAdd) (add_forward env spec owner False b)
      | MutAddLocal container_port host_port \<Rightarrow> apsnd (map_sum id AnswerAdd) (add_local env container_port host_port b)
      | MutRemove direction container_port \<Rightarrow> apsnd (map_sum id AnswerRemove) (remove_forward env direction container_port b)
      | MutRemoveSelected selector \<Rightarrow> apsnd (map_sum id AnswerRemove) (remove_selected env selector b)
      | MutState key generation state e \<Rightarrow> (apply_forward_state env key generation state e b, Inr AnswerDone)
      | MutComplete \<Rightarrow> (complete_initial env b, Inr AnswerDone)
      | MutPrepare ss \<Rightarrow> run_prepare env ss b)"

text \<open>\<open>mutate\<close> and \<open>mutateUser\<close>: \<open>None\<close> is the rejection.\<close>

definition enqueue_mutation :: "port_mutation \<Rightarrow> port_broker \<Rightarrow> port_broker option" where
  "enqueue_mutation mu b = (if pb_closing b then None else Some (b\<lparr>pb_queue := pb_queue b @ [mu]\<rparr>))"

definition enqueue_user :: "port_mutation \<Rightarrow> port_broker \<Rightarrow> port_broker option" where
  "enqueue_user mu b = (if pb_initial b = InitialPending \<or> pb_initial b = InitialFailed then None else enqueue_mutation mu b)"

definition prepare_initial :: "initial_forward list \<Rightarrow> port_broker \<Rightarrow> port_broker option" where
  "prepare_initial ss b =
     (if pb_initial b \<noteq> InitialIdle \<or> pb_managed b \<noteq> [] then None
      else (let b1 = b\<lparr>pb_initial := InitialPending\<rparr>
            in case enqueue_mutation (MutPrepare ss) b1 of None \<Rightarrow> Some b1 | Some b2 \<Rightarrow> Some b2))"

definition on_relay_connected :: "port_broker \<Rightarrow> port_broker option" where
  "on_relay_connected b = (if pb_initial b \<noteq> InitialPending then None else enqueue_mutation MutComplete b)"

definition on_forward_state :: "int \<Rightarrow> forward_state \<Rightarrow> string option \<Rightarrow> port_broker \<Rightarrow> port_broker option" where
  "on_forward_state container_port state e b =
     (let key = forward_key RemoteForward container_port
      in case map_of (pb_generations b) key of
           None \<Rightarrow> None
         | Some generation \<Rightarrow> if pb_closing b then None else enqueue_mutation (MutState key generation state e) b)"

definition mutation_of_request :: "port_request \<Rightarrow> port_mutation option" where
  "mutation_of_request r =
     (case r of
        BindRequest container_port host_port \<Rightarrow> Some (MutAddLocal container_port host_port)
      | UnbindContainer p \<Rightarrow> Some (MutRemoveSelected (SelectLocal p))
      | UnbindHost p \<Rightarrow> Some (MutRemoveSelected (SelectHostPort p))
      | CandidatesRequest \<Rightarrow> None
      | ForwardRequest container_port host_port \<Rightarrow>
          Some (MutAdd \<lparr>fs_direction = RemoteForward, fs_container_port = container_port, fs_host_port = host_port\<rparr> OwnedDynamically)
      | UnforwardRequest p \<Rightarrow> Some (MutRemove RemoteForward p)
      | AddForwardRequest (AddLocal container_port host_port) \<Rightarrow> Some (MutAddLocal container_port host_port)
      | AddForwardRequest (AddRemote container_port host_port) \<Rightarrow>
          Some (MutAdd \<lparr>fs_direction = RemoteForward, fs_container_port = container_port, fs_host_port = host_port\<rparr> OwnedDynamically)
      | RemoveForwardRequest selector \<Rightarrow> Some (MutRemoveSelected selector))"

text \<open>What \<open>handleControl\<close> answers to a request that was carried out.\<close>

datatype port_response =
    BoundTo int probe_result
  | ForwardedTo int int probe_result
  | ForwardAdded managed_forward probe_result
  | ForwardRemoved bool bool bool
  | PortOk
  | PortFailed port_error

fun port_response_of :: "port_request \<Rightarrow> port_error + port_answer \<Rightarrow> port_response" where
  "port_response_of request (Inl e) = PortFailed e"
| "port_response_of request (Inr AnswerDone) = PortOk"
| "port_response_of request (Inr (AnswerAdd (AddResult e probed))) =
     (case request of
        BindRequest container_port host_port \<Rightarrow> BoundTo (fs_host_port (mf_spec e)) probed
      | ForwardRequest container_port host_port \<Rightarrow>
          ForwardedTo (fs_container_port (mf_spec e)) (fs_host_port (mf_spec e)) (if probed = ProbeOk then ProbeOk else ProbeNoAnswer)
      | _ \<Rightarrow> ForwardAdded e probed)"
| "port_response_of request (Inr (AnswerRemove (RemoveResult removed retained closed))) =
     (case request of RemoveForwardRequest selector \<Rightarrow> ForwardRemoved removed retained closed | _ \<Rightarrow> PortOk)"

datatype listener_scope = ScopeAny | ScopeLoopback | ScopeLoopback6 | ScopeRemote

definition is_reachable_scope :: "listener_scope \<Rightarrow> bool" where
  "is_reachable_scope scope \<longleftrightarrow> scope = ScopeAny \<or> scope = ScopeLoopback"

text \<open>\<open>candidates\<close>, of what the relay has seen.\<close>

definition port_candidates :: "(int \<times> listener_scope) list \<Rightarrow> port_broker \<Rightarrow> (int \<times> listener_scope \<times> bool) list" where
  "port_candidates listeners b =
     map (\<lambda>(port, scope). (port, scope, is_reachable_scope scope))
       (filter (\<lambda>(port, scope). map_of (pb_open b) port = None \<and> port \<notin> set (pb_reserved b) \<and>
            \<not> list_ex (\<lambda>(key, entry). fs_direction (mf_spec entry) = RemoteForward \<and>
                 fs_container_port (mf_spec entry) = port \<and>
                 (mf_state entry = ForwardActive \<or> mf_state entry = ForwardPending \<or> OwnedInternally \<in> set (mf_owners entry)))
               (pb_managed b)) listeners)"

text \<open>\<open>close\<close>: no new change from now on; when the queue is empty everything is given up.\<close>

definition begin_close :: "port_broker \<Rightarrow> port_broker" where
  "begin_close b = b\<lparr>pb_closing := True\<rparr>"

definition finish_close :: "port_env \<Rightarrow> port_broker \<Rightarrow> port_broker" where
  "finish_close env b =
     (if pb_open b \<noteq> [] \<and> \<not> pe_close env then b else b\<lparr>pb_open := [], pb_managed := [], pb_generations := []\<rparr>)"

datatype port_event =
    PortUser port_mutation
  | PortPrepare "initial_forward list"
  | PortRelayConnected
  | PortForwardState int forward_state "string option"
  | PortRun port_env
  | PortClose
  | PortClosed port_env

fun port_occurs :: "port_event \<Rightarrow> port_broker \<Rightarrow> port_broker option" where
  "port_occurs (PortUser mu) b =
     (case mu of
        MutState key generation state e \<Rightarrow> None | MutComplete \<Rightarrow> None | MutPrepare ss \<Rightarrow> None
      | _ \<Rightarrow> enqueue_user mu b)"
| "port_occurs (PortPrepare ss) b = prepare_initial ss b"
| "port_occurs PortRelayConnected b = on_relay_connected b"
| "port_occurs (PortForwardState container_port state e) b = on_forward_state container_port state e b"
| "port_occurs (PortRun env) b =
     (case pb_queue b of [] \<Rightarrow> None | mu # mus \<Rightarrow> Some (fst (run_mutation env mu (b\<lparr>pb_queue := mus\<rparr>))))"
| "port_occurs PortClose b = Some (begin_close b)"
| "port_occurs (PortClosed env) b = (if pb_closing b \<and> pb_queue b = [] then Some (finish_close env b) else None)"

inductive port_step :: "port_broker \<Rightarrow> port_broker \<Rightarrow> bool" where
  event: "port_occurs e b = Some b' \<Longrightarrow> port_step b b'"

inductive_cases port_stepE [elim!]: "port_step b b'"

abbreviation port_steps :: "port_broker \<Rightarrow> port_broker \<Rightarrow> bool" where
  "port_steps \<equiv> port_step\<^sup>*\<^sup>*"

section \<open>What holds in every state\<close>

text \<open>The forwards that can stand together.\<close>

definition specs_ok :: "int list \<Rightarrow> forward_spec list \<Rightarrow> bool" where
  "specs_ok reserved specs \<longleftrightarrow> forwards_compatible specs \<and> acyclic (forward_graph specs) \<and> (\<forall>s\<in>set specs. valid_spec s) \<and>
     (\<forall>s\<in>set specs. fs_direction s = RemoteForward \<longrightarrow> fs_container_port s \<notin> set reserved)"

lemma specs_ok_Nil [simp]: "specs_ok reserved []"
  by (simp add: specs_ok_def forwards_compatible_def forward_graph_def acyclic_def)

lemma specs_ok_filter: "specs_ok reserved specs \<Longrightarrow> specs_ok reserved (filter P specs)"
proof -
  assume ok: "specs_ok reserved specs"
  then have c: "forwards_compatible specs" and a: "acyclic (forward_graph specs)" by (simp_all add: specs_ok_def)
  have "filter (\<lambda>e. fs_direction e = LocalForward) (filter P specs) = filter P (filter (\<lambda>e. fs_direction e = LocalForward) specs)"
    by (simp add: conj_commute)
  then have "forwards_compatible (filter P specs)"
    using c by (simp add: forwards_compatible_def distinct_map_filter del: filter_filter)
  moreover have "acyclic (forward_graph (filter P specs))"
    using a by (rule acyclic_subset) (auto simp: forward_graph_def)
  ultimately show ?thesis using ok by (simp add: specs_ok_def)
qed

lemma compatible_sources:
  assumes "forwards_compatible specs"
  shows "distinct (map (fst \<circ> endpoints) specs)"
  using assms
proof (induction specs)
  case (Cons s specs)
  then have "forwards_compatible specs" by (auto simp: forwards_compatible_def split: if_splits)
  moreover have "fst (endpoints s) \<notin> (fst \<circ> endpoints) ` set specs"
  proof
    assume "fst (endpoints s) \<in> (fst \<circ> endpoints) ` set specs"
    then obtain t where "t \<in> set specs" "fst (endpoints s) = fst (endpoints t)" by auto
    then show False
      using Cons.prems
      by (force simp: forwards_compatible_def endpoints_def image_iff split: forward_direction.splits if_splits)
  qed
  ultimately show ?case using Cons.IH by simp
qed simp

lemma truncate_fields [simp]:
  "fs_direction (forward_spec.truncate s) = fs_direction s" "fs_container_port (forward_spec.truncate s) = fs_container_port s"
  "fs_host_port (forward_spec.truncate s) = fs_host_port s"
  by (simp_all add: forward_spec.defs)

lemma endpoints_truncate [simp]: "endpoints (forward_spec.truncate s) = endpoints s"
  by (cases "fs_direction s") (simp_all add: endpoints_def)

lemma truncate_key [simp]: "spec_key (forward_spec.truncate s) = spec_key s" "valid_spec (forward_spec.truncate s) = valid_spec s"
  by (simp_all add: spec_key_def valid_spec_def)

text \<open>The tests of an addition are enough.\<close>

lemma specs_ok_snoc:
  assumes ok: "specs_ok reserved specs" and new: "spec_key s \<notin> spec_key ` set specs" and valid: "valid_spec s"
    and free: "\<not> (fs_direction s = RemoteForward \<and> fs_container_port s \<in> set reserved)"
    and host: "\<not> (fs_direction s = LocalForward \<and> list_ex (\<lambda>t. fs_direction t = LocalForward \<and> fs_host_port t = fs_host_port s) specs)"
    and cycle: "\<not> creates_forward_cycle specs s"
  shows "specs_ok reserved (specs @ [s])"
proof -
  have c: "forwards_compatible specs" using ok by (simp add: specs_ok_def)
  then have "forwards_compatible (specs @ [s])"
    using new host by (auto simp: forwards_compatible_def list_ex_iff)
  moreover have "acyclic (forward_graph (specs @ [s]))"
    using graph_stays_acyclic [OF compatible_sources [OF c] _ cycle] ok by (simp add: specs_ok_def forward_graph_def)
  ultimately show ?thesis using ok valid free by (auto simp: specs_ok_def)
qed

definition keyed :: "managed_forward \<Rightarrow> string \<times> managed_forward" where
  "keyed e = (spec_key (mf_spec e), e)"

text \<open>The keys are the ones of the entries, every listener belongs to a local forward, and each of these has one.\<close>

definition broker_ok :: "port_broker \<Rightarrow> bool" where
  "broker_ok b \<longleftrightarrow> pb_managed b = map keyed (map snd (pb_managed b)) \<and> specs_ok (pb_reserved b) (managed_specs b) \<and>
     (\<forall>e\<in>snd ` set (pb_managed b). mf_owners e \<noteq> []) \<and>
     map fst (pb_generations b) = map fst (pb_managed b) \<and>
     pb_open b = map (\<lambda>s. (fs_container_port s, fs_host_port s)) (filter (\<lambda>s. fs_direction s = LocalForward) (managed_specs b))"

lemma broker_okI:
  assumes "pb_managed b = map keyed es" "specs_ok (pb_reserved b) (map mf_spec es)" "\<forall>e\<in>set es. mf_owners e \<noteq> []"
    and "map fst (pb_generations b) = map (spec_key \<circ> mf_spec) es"
    and "pb_open b = map (\<lambda>s. (fs_container_port s, fs_host_port s)) (filter (\<lambda>s. fs_direction s = LocalForward) (map mf_spec es))"
  shows "broker_ok b"
proof -
  have "map snd (pb_managed b) = es" by (simp add: assms(1) keyed_def comp_def)
  moreover from this have "managed_specs b = map mf_spec es" by (metis managed_specs_def map_map)
  ultimately show ?thesis using assms by (simp add: broker_ok_def comp_def keyed_def image_image)
qed

lemma broker_okE:
  assumes "broker_ok b"
  obtains es where "pb_managed b = map keyed es" "managed_specs b = map mf_spec es" "specs_ok (pb_reserved b) (map mf_spec es)"
    "\<forall>e\<in>set es. mf_owners e \<noteq> []" "map fst (pb_generations b) = map (spec_key \<circ> mf_spec) es"
    "pb_open b = map (\<lambda>s. (fs_container_port s, fs_host_port s)) (filter (\<lambda>s. fs_direction s = LocalForward) (map mf_spec es))"
    "distinct (map (spec_key \<circ> mf_spec) es)"
proof -
  let ?es = "map snd (pb_managed b)"
  have m: "pb_managed b = map keyed ?es" and s: "managed_specs b = map mf_spec ?es"
    using assms by (simp_all add: broker_ok_def managed_specs_def)
  have "map fst (pb_managed b) = map (spec_key \<circ> mf_spec) ?es" by (subst m) (simp add: keyed_def comp_def)
  moreover have "specs_ok (pb_reserved b) (map mf_spec ?es)" using assms s by (simp add: broker_ok_def)
  moreover from this have "distinct (map (spec_key \<circ> mf_spec) ?es)" by (simp add: specs_ok_def forwards_compatible_def comp_def)
  ultimately show ?thesis using that [OF m s] assms s by (simp add: broker_ok_def)
qed

lemma broker_ok_new [simp]: "broker_ok (port_broker_new reserved)"
  by (rule broker_okI [of _ "[]"]) (simp_all add: port_broker_new_def)

lemma broker_ok_cong:
  "pb_reserved b' = pb_reserved b \<Longrightarrow> pb_managed b' = pb_managed b \<Longrightarrow> pb_generations b' = pb_generations b \<Longrightarrow>
   pb_open b' = pb_open b \<Longrightarrow> broker_ok b' = broker_ok b"
  by (simp add: broker_ok_def managed_specs_def)

lemma map_of_managed: "map_of (map keyed es) k = Some e \<Longrightarrow> e \<in> set es \<and> spec_key (mf_spec e) = k"
  by (auto simp: keyed_def dest!: map_of_SomeD)

lemma map_of_managed_None: "map_of (map keyed es) k = None \<longleftrightarrow> k \<notin> (spec_key \<circ> mf_spec) ` set es"
  by (auto simp: map_of_eq_None_iff keyed_def image_iff)

text \<open>A change of an entry that leaves its forward alone.\<close>

lemma update_managed:
  assumes "distinct (map (spec_key \<circ> mf_spec) es)" and "e \<in> set es" and "mf_spec e' = mf_spec e"
  shows "AList.update (spec_key (mf_spec e)) e' (map keyed es) = map keyed (map (\<lambda>x. if x = e then e' else x) es)"
  using assms by (induction es) (auto simp: keyed_def image_iff)

lemma broker_ok_update:
  assumes ok: "broker_ok b" and entry: "map_of (pb_managed b) k = Some e" and e': "mf_spec e' = mf_spec e" "mf_owners e' \<noteq> []"
  shows "broker_ok (b\<lparr>pb_managed := AList.update k e' (pb_managed b)\<rparr>) \<and>
    managed_specs (b\<lparr>pb_managed := AList.update k e' (pb_managed b)\<rparr>) = managed_specs b"
proof -
  obtain es where es: "pb_managed b = map keyed es" "managed_specs b = map mf_spec es" "specs_ok (pb_reserved b) (map mf_spec es)"
    "\<forall>e\<in>set es. mf_owners e \<noteq> []" "map fst (pb_generations b) = map (spec_key \<circ> mf_spec) es"
    "pb_open b = map (\<lambda>s. (fs_container_port s, fs_host_port s)) (filter (\<lambda>s. fs_direction s = LocalForward) (map mf_spec es))"
    "distinct (map (spec_key \<circ> mf_spec) es)"
    using ok by (rule broker_okE)
  let ?f = "\<lambda>x. if x = e then e' else x"
  have e: "e \<in> set es" "spec_key (mf_spec e) = k" using map_of_managed entry es(1) by metis+
  have u: "AList.update k e' (pb_managed b) = map keyed (map ?f es)"
    using update_managed [OF es(7) e(1) e'(1)] by (simp add: es(1) e(2))
  have same: "mf_spec \<circ> ?f = mf_spec" using e'(1) by auto
  have "broker_ok (b\<lparr>pb_managed := AList.update k e' (pb_managed b)\<rparr>)"
    using es(3-6) u e'(2) by (intro broker_okI [of _ "map ?f es"]) (auto simp: same comp_assoc)
  moreover have "managed_specs (b\<lparr>pb_managed := AList.update k e' (pb_managed b)\<rparr>) = managed_specs b"
    by (simp add: managed_specs_def u [unfolded es(1)] es(1)) (auto simp: keyed_def e'(1))
  ultimately show ?thesis ..
qed

text \<open>A forward that is taken away with all that belongs to it.\<close>

definition drop_forward :: "string \<Rightarrow> forward_direction \<Rightarrow> int \<Rightarrow> port_broker \<Rightarrow> port_broker" where
  "drop_forward key direction container_port b =
     b\<lparr>pb_managed := AList.delete key (pb_managed b), pb_generations := AList.delete key (pb_generations b),
       pb_open := (if direction = LocalForward then AList.delete container_port (pb_open b) else pb_open b)\<rparr>"

lemma delete_eq_filter: "AList.delete k m = filter (\<lambda>x. fst x \<noteq> k) m"
  by (auto simp: AList.delete_eq split_beta intro!: filter_cong)

lemma broker_ok_drop:
  assumes ok: "broker_ok b"
  shows "broker_ok (drop_forward (forward_key direction p) direction p b)"
proof -
  obtain es where es: "pb_managed b = map keyed es" "managed_specs b = map mf_spec es" "specs_ok (pb_reserved b) (map mf_spec es)"
    "\<forall>e\<in>set es. mf_owners e \<noteq> []" "map fst (pb_generations b) = map (spec_key \<circ> mf_spec) es"
    "pb_open b = map (\<lambda>s. (fs_container_port s, fs_host_port s)) (filter (\<lambda>s. fs_direction s = LocalForward) (map mf_spec es))"
    "distinct (map (spec_key \<circ> mf_spec) es)"
    using ok by (rule broker_okE)
  let ?P = "\<lambda>e. spec_key (mf_spec e) \<noteq> forward_key direction p"
  have kept: "?P e \<longleftrightarrow> \<not> (fs_direction (mf_spec e) = direction \<and> fs_container_port (mf_spec e) = p)" for e
    by (simp add: spec_key_def)
  show ?thesis
  proof (rule broker_okI [of _ "filter ?P es"])
    show "pb_managed (drop_forward (forward_key direction p) direction p b) = map keyed (filter ?P es)"
      by (simp add: drop_forward_def delete_eq_filter es(1) filter_map comp_def keyed_def)
    have "map mf_spec (filter ?P es) = filter (\<lambda>s. spec_key s \<noteq> forward_key direction p) (map mf_spec es)"
      by (simp add: filter_map comp_def)
    then show "specs_ok (pb_reserved (drop_forward (forward_key direction p) direction p b)) (map mf_spec (filter ?P es))"
      using specs_ok_filter [OF es(3)] by (simp add: drop_forward_def)
    show "\<forall>e\<in>set (filter ?P es). mf_owners e \<noteq> []" using es(4) by simp
    have "map fst (filter (\<lambda>x. fst x \<noteq> k) (pb_generations b)) = filter (\<lambda>x. x \<noteq> k) (map (spec_key \<circ> mf_spec) es)" for k
      unfolding es(5) [symmetric] by (simp add: filter_map comp_def)
    then show "map fst (pb_generations (drop_forward (forward_key direction p) direction p b)) =
        map (spec_key \<circ> mf_spec) (filter ?P es)"
      by (simp add: drop_forward_def delete_eq_filter filter_map comp_def)
    show "pb_open (drop_forward (forward_key direction p) direction p b) =
        map (\<lambda>s. (fs_container_port s, fs_host_port s)) (filter (\<lambda>s. fs_direction s = LocalForward) (map mf_spec (filter ?P es)))"
      unfolding kept
      by (cases direction) (auto simp: drop_forward_def delete_eq_filter es(6) filter_map comp_def intro!: arg_cong [where f = "map _"] filter_cong)
  qed
qed

text \<open>A forward that is put in, with its listener.\<close>

lemma fresh_key:
  assumes "broker_ok b" and "map_of (pb_managed b) k = None"
  shows "k \<notin> fst ` set (pb_managed b)" "k \<notin> fst ` set (pb_generations b)"
proof -
  show k: "k \<notin> fst ` set (pb_managed b)" using assms(2) by (simp add: map_of_eq_None_iff)
  have "set (map fst (pb_generations b)) = set (map fst (pb_managed b))" using assms(1) by (simp add: broker_ok_def)
  then show "k \<notin> fst ` set (pb_generations b)" using k by simp
qed

lemma fresh_listener:
  assumes ok: "broker_ok b" and fresh: "map_of (pb_managed b) (forward_key LocalForward p) = None"
  shows "p \<notin> fst ` set (pb_open b)"
proof
  obtain es where es: "pb_managed b = map keyed es"
    "pb_open b = map (\<lambda>s. (fs_container_port s, fs_host_port s)) (filter (\<lambda>s. fs_direction s = LocalForward) (map mf_spec es))"
    using ok by (rule broker_okE)
  assume "p \<in> fst ` set (pb_open b)"
  then obtain e where "e \<in> set es" "fs_direction (mf_spec e) = LocalForward" "fs_container_port (mf_spec e) = p"
    by (auto simp: es(2))
  then have "forward_key LocalForward p \<in> (spec_key \<circ> mf_spec) ` set es" by (force simp: spec_key_def image_iff)
  then show False using fresh by (simp add: es(1) map_of_managed_None)
qed

lemma broker_ok_put:
  assumes ok: "broker_ok b" and fresh: "map_of (pb_managed b) (spec_key (mf_spec e)) = None"
    and specs: "specs_ok (pb_reserved b) (managed_specs b @ [mf_spec e])" and owners: "mf_owners e \<noteq> []"
    and b': "pb_reserved b' = pb_reserved b" "pb_managed b' = pb_managed b @ [(spec_key (mf_spec e), e)]"
      "pb_generations b' = pb_generations b @ [(spec_key (mf_spec e), n)]"
      "pb_open b' = (if fs_direction (mf_spec e) = LocalForward
         then pb_open b @ [(fs_container_port (mf_spec e), fs_host_port (mf_spec e))] else pb_open b)"
  shows "broker_ok b'"
proof -
  obtain es where es: "pb_managed b = map keyed es" "managed_specs b = map mf_spec es" "specs_ok (pb_reserved b) (map mf_spec es)"
    "\<forall>e\<in>set es. mf_owners e \<noteq> []" "map fst (pb_generations b) = map (spec_key \<circ> mf_spec) es"
    "pb_open b = map (\<lambda>s. (fs_container_port s, fs_host_port s)) (filter (\<lambda>s. fs_direction s = LocalForward) (map mf_spec es))"
    using ok by (rule broker_okE)
  show ?thesis
    using es specs owners by (intro broker_okI [of _ "es @ [e]"]) (auto simp: b' keyed_def)
qed

lemma refuse_add_None:
  assumes ok: "broker_ok b" and fresh: "map_of (pb_managed b) (spec_key spec) = None" and valid: "valid_spec spec"
    and admitted: "refuse_add spec b = None"
  shows "specs_ok (pb_reserved b) (managed_specs b @ [spec])"
proof (rule specs_ok_snoc)
  show "spec_key spec \<notin> spec_key ` set (managed_specs b)"
  proof -
    obtain es where es: "pb_managed b = map keyed es" "managed_specs b = map mf_spec es" using ok by (rule broker_okE)
    then show ?thesis using fresh by (simp add: map_of_managed_None image_image)
  qed
qed (use ok valid admitted in \<open>auto simp: broker_ok_def refuse_add_def local_host_port_used_def split: if_splits\<close>)

section \<open>Adding, in every environment\<close>

text \<open>Only the generation counter and the effects may differ.\<close>

definition nothing_forwarded :: "port_broker \<Rightarrow> port_broker \<Rightarrow> bool" where
  "nothing_forwarded b b' \<longleftrightarrow> (\<exists>fresh effects. b' = b\<lparr>pb_fresh := fresh, pb_effects := pb_effects b @ effects\<rparr>)"

lemma nothing_forwarded_refl [simp]: "nothing_forwarded b b"
  unfolding nothing_forwarded_def by (rule exI [of _ "pb_fresh b"], rule exI [of _ "[]"]) simp

lemma nothing_forwardedD:
  "nothing_forwarded b b' \<Longrightarrow> pb_managed b' = pb_managed b \<and> pb_open b' = pb_open b \<and> pb_generations b' = pb_generations b \<and>
     pb_registry b' = pb_registry b \<and> pb_reserved b' = pb_reserved b \<and> pb_initial b' = pb_initial b"
  by (auto simp: nothing_forwarded_def)

lemma delete_snoc: "k \<notin> fst ` set m \<Longrightarrow> AList.delete k (m @ [(k, v)]) = m"
  by (auto simp: delete_eq_filter filter_id_conv)

lemma delete_fresh: "k \<notin> fst ` set m \<Longrightarrow> AList.delete k m = m"
  by (auto simp: delete_eq_filter filter_id_conv)

lemma update_snoc: "k \<notin> fst ` set m \<Longrightarrow> AList.update k v (m @ [(k, w)]) = m @ [(k, v)]"
  by (induction m) auto

definition with_forward :: "managed_forward \<Rightarrow> (int \<times> int) list \<Rightarrow> port_broker \<Rightarrow> port_broker" where
  "with_forward e listeners b =
     b\<lparr>pb_managed := pb_managed b @ [(spec_key (mf_spec e), e)],
       pb_generations := pb_generations b @ [(spec_key (mf_spec e), pb_fresh b)], pb_fresh := Suc (pb_fresh b), pb_open := listeners\<rparr>"

definition listeners_with :: "forward_spec \<Rightarrow> port_broker \<Rightarrow> (int \<times> int) list" where
  "listeners_with spec b =
     (if fs_direction spec = LocalForward then pb_open b @ [(fs_container_port spec, fs_host_port spec)] else pb_open b)"

lemma roll_back_with:
  assumes ok: "broker_ok b" and fresh: "map_of (pb_managed b) (spec_key spec) = None" and e: "mf_spec e = spec"
    and listeners: "listeners = pb_open b \<or> listeners = listeners_with spec b"
  shows "nothing_forwarded b (roll_back_add spec (with_forward e listeners b))"
proof -
  note k = fresh_key [OF ok fresh]
  show ?thesis
  proof (cases "fs_direction spec")
    case LocalForward
    then have "fs_container_port spec \<notin> fst ` set (pb_open b)"
      using fresh by (intro fresh_listener [OF ok]) (simp add: spec_key_def)
    then have "AList.delete (fs_container_port spec) listeners = pb_open b"
      using listeners LocalForward by (auto simp: listeners_with_def delete_snoc delete_fresh)
    then have "roll_back_add spec (with_forward e listeners b) = b\<lparr>pb_fresh := Suc (pb_fresh b), pb_effects := pb_effects b @ []\<rparr>"
      using LocalForward k e by (simp add: roll_back_add_def with_forward_def delete_snoc Let_def)
    then show ?thesis unfolding nothing_forwarded_def by blast
  next
    case RemoteForward
    then have "listeners = pb_open b" using listeners by (auto simp: listeners_with_def)
    then have "roll_back_add spec (with_forward e listeners b) =
        b\<lparr>pb_fresh := Suc (pb_fresh b), pb_effects := pb_effects b @ [RelayUnforward (fs_container_port spec)]\<rparr>"
      using RemoteForward k e by (simp add: roll_back_add_def with_forward_def delete_snoc Let_def port_effect_of_def)
    then show ?thesis unfolding nothing_forwarded_def by blast
  qed
qed

lemma establish_with:
  assumes ok: "broker_ok b" and fresh: "map_of (pb_managed b) (spec_key spec) = None" and e: "mf_spec e = spec"
  shows "(\<exists>err. establish env spec prepared (with_forward e (pb_open b) b) = (with_forward e (pb_open b) b, Some err)) \<or>
    establish env spec prepared (with_forward e (pb_open b) b) = (with_forward e (listeners_with spec b) b, None)"
proof (cases "fs_direction spec")
  case LocalForward
  then have p: "fs_container_port spec \<notin> fst ` set (pb_open b)"
    using fresh by (intro fresh_listener [OF ok]) (simp add: spec_key_def)
  show ?thesis
    using LocalForward
    by (auto simp: establish_def with_forward_def listeners_with_def Let_def amap_merge_snoc [OF p] split: listen_result.split)
next
  case RemoteForward
  then show ?thesis by (simp add: establish_def listeners_with_def split: relay_result.split)
qed

lemma add_forward_new:
  assumes ok: "broker_ok b" and fresh: "map_of (pb_managed b) (spec_key spec) = None" and valid: "valid_spec spec"
    and admitted: "refuse_add spec b = None" and run: "add_forward env spec owner prepared b = (b', r)"
  defines "e \<equiv> \<lparr>mf_spec = spec, mf_owners = [owner], mf_created_at = pe_now env, mf_state = ForwardActive, mf_error = None\<rparr>"
  shows "(\<exists>err. r = Inl err \<and> nothing_forwarded b b') \<or>
    r = Inr (AddResult e (host_probe spec (pe_probe env))) \<and> pe_persist env \<and>
    b' = persist True (with_forward e (listeners_with spec b) b)"
proof -
  note k = fresh_key [OF ok fresh]
  let ?pending = "e\<lparr>mf_state := ForwardPending\<rparr>"
  have spec: "mf_spec e = spec" "mf_spec ?pending = spec" by (simp_all add: e_def)
  have inserted: "with_forward ?pending (pb_open b) b = b\<lparr>pb_managed := AList.update (spec_key spec) ?pending (pb_managed b),
      pb_generations := AList.update (spec_key spec) (pb_fresh b) (pb_generations b), pb_fresh := Suc (pb_fresh b)\<rparr>"
    by (simp add: with_forward_def spec amap_merge_snoc k)
  have active: "(with_forward ?pending l b)\<lparr>pb_managed := AList.update (spec_key spec) e (pb_managed (with_forward ?pending l b))\<rparr> =
      with_forward e l b" for l
    using k by (simp add: with_forward_def spec update_snoc)
  have unfolded: "add_forward env spec owner prepared b =
      (case establish env spec prepared (with_forward ?pending (pb_open b) b) of
         (b2, Some err) \<Rightarrow> (roll_back_add spec b2, Inl err)
       | (b2, None) \<Rightarrow>
           (let b3 = b2\<lparr>pb_managed := AList.update (spec_key spec) e (pb_managed b2)\<rparr>
            in if pe_persist env then (persist True b3, Inr (AddResult e (host_probe spec (pe_probe env))))
               else (roll_back_add spec b3, Inl PortInternal)))"
    using fresh valid admitted unfolding inserted by (simp add: add_forward_def Let_def e_def split: prod.split option.split)
  from establish_with [OF ok fresh spec(2), of env prepared] show ?thesis
  proof
    assume "\<exists>err. establish env spec prepared (with_forward ?pending (pb_open b) b) = (with_forward ?pending (pb_open b) b, Some err)"
    then show ?thesis using run roll_back_with [OF ok fresh spec(2), of "pb_open b"] unfolded by auto
  next
    assume "establish env spec prepared (with_forward ?pending (pb_open b) b) = (with_forward ?pending (listeners_with spec b) b, None)"
    then show ?thesis
      using run roll_back_with [OF ok fresh spec(1), of "listeners_with spec b"] unfolded active
      by (auto simp: Let_def split: if_splits)
  qed
qed

lemma broker_ok_same:
  "broker_ok b \<Longrightarrow> nothing_forwarded b b' \<Longrightarrow> broker_ok b'"
  using broker_ok_cong [of b' b] nothing_forwardedD [of b b'] by simp

lemma broker_ok_with:
  assumes ok: "broker_ok b" and fresh: "map_of (pb_managed b) (spec_key (mf_spec e)) = None" and owners: "mf_owners e \<noteq> []"
    and specs: "specs_ok (pb_reserved b) (managed_specs b @ [mf_spec e])"
  shows "broker_ok (with_forward e (listeners_with (mf_spec e) b) b)"
  by (rule broker_ok_put [OF ok fresh specs owners]) (simp_all add: with_forward_def listeners_with_def)

lemma persist_fields [simp]:
  "pb_managed (persist ok b) = pb_managed b" "pb_open (persist ok b) = pb_open b" "pb_generations (persist ok b) = pb_generations b"
  "pb_reserved (persist ok b) = pb_reserved b" "pb_initial (persist ok b) = pb_initial b" "pb_effects (persist ok b) = pb_effects b"
  "managed_specs (persist ok b) = managed_specs b"
  "pb_registry (persist ok b) = (if ok then map snd (pb_managed b) else pb_registry b)"
  by (simp_all add: persist_def managed_specs_def)

lemma broker_ok_persist [simp]: "broker_ok (persist ok b) = broker_ok b"
  by (rule broker_ok_cong) simp_all

text \<open>What an addition comes to: an error and nothing forwarded, or the forward with its owner, and the registry written.\<close>

definition added :: "forward_spec \<Rightarrow> forward_owner \<Rightarrow> port_broker \<Rightarrow> managed_forward \<Rightarrow> port_broker \<Rightarrow> bool" where
  "added spec owner b e b' \<longleftrightarrow> broker_ok b' \<and> mf_spec e = spec \<and> owner \<in> set (mf_owners e) \<and>
     map_of (pb_managed b') (spec_key spec) = Some e \<and>
     managed_specs b' = (if spec \<in> set (managed_specs b) then managed_specs b else managed_specs b @ [spec]) \<and>
     (b' = b \<or> pb_registry b' = map snd (pb_managed b'))"

lemma map_of_keyed_entry: "broker_ok b \<Longrightarrow> map_of (pb_managed b) k = Some e \<Longrightarrow> spec_key (mf_spec e) = k"
  by (auto elim!: broker_okE dest: map_of_managed)

lemma key_managed_specs: "broker_ok b \<Longrightarrow> spec \<in> set (managed_specs b) \<Longrightarrow> map_of (pb_managed b) (spec_key spec) \<noteq> None"
  by (erule broker_okE) (use map_of_managed_None in fastforce)

lemma update_back: "map_of m k = Some e \<Longrightarrow> AList.update k e (AList.update k e' m) = m"
  by (induction m) (auto split: if_splits)

lemma add_forward_outcome:
  assumes ok: "broker_ok b" and run: "add_forward env spec owner prepared b = (b', r)"
  shows "(\<exists>err. r = Inl err \<and> nothing_forwarded b b') \<or> (\<exists>e. r = Inr (AddResult e (host_probe spec (pe_probe env))) \<and> added spec owner b e b')"
proof (cases "valid_spec spec")
  case True
  show ?thesis
  proof (cases "map_of (pb_managed b) (spec_key spec)")
    case (Some existing)
    have key: "spec_key (mf_spec existing) = spec_key spec" by (rule map_of_keyed_entry [OF ok Some])
    have member: "mf_spec existing \<in> set (managed_specs b)" using map_of_SomeD [OF Some] by (force simp: managed_specs_def)
    have "add_owner env spec owner existing b = (b', r)" using run Some True by (simp add: add_forward_def)
    then show ?thesis
    proof (cases "fs_host_port (mf_spec existing) = fs_host_port spec")
      case same: True
      then have spec: "mf_spec existing = spec" using key by (intro forward_spec.equality) auto
      show ?thesis
      proof (cases "owner \<in> set (mf_owners existing)")
        case True
        then show ?thesis
          using \<open>add_owner env spec owner existing b = (b', r)\<close> same spec member ok Some by (auto simp: add_owner_def added_def)
      next
        case False
        let ?updated = "existing\<lparr>mf_owners := mf_owners existing @ [owner]\<rparr>"
        let ?b1 = "b\<lparr>pb_managed := AList.update (spec_key spec) ?updated (pb_managed b)\<rparr>"
        have b1: "broker_ok ?b1 \<and> managed_specs ?b1 = managed_specs b" by (rule broker_ok_update [OF ok Some]) simp_all
        have "AList.update (spec_key spec) existing (AList.update (spec_key spec) ?updated (pb_managed b)) = pb_managed b"
          by (rule update_back [OF Some])
        then have "b\<lparr>pb_managed := AList.update (spec_key spec) existing (AList.update (spec_key spec) ?updated (pb_managed b))\<rparr> = b"
          by simp
        then show ?thesis
          using \<open>add_owner env spec owner existing b = (b', r)\<close> same False spec member b1
          by (auto simp: add_owner_def added_def Let_def split: if_splits)
      qed
    qed (auto simp: add_owner_def)
  next
    case None
    show ?thesis
    proof (cases "refuse_add spec b")
      case refuse: None
      let ?e = "\<lparr>mf_spec = spec, mf_owners = [owner], mf_created_at = pe_now env, mf_state = ForwardActive, mf_error = None\<rparr>"
      have specs: "specs_ok (pb_reserved b) (managed_specs b @ [spec])" by (rule refuse_add_None [OF ok None True refuse])
      have "broker_ok (with_forward ?e (listeners_with spec b) b)"
        using broker_ok_with [OF ok, of ?e] None specs by simp
      moreover have "spec \<notin> set (managed_specs b)" using key_managed_specs [OF ok] None by metis
      moreover have "map_of (pb_managed b @ [(spec_key spec, ?e)]) (spec_key spec) = Some ?e" using None by (simp add: map_add_def)
      ultimately have "added spec owner b ?e (persist True (with_forward ?e (listeners_with spec b) b))"
        by (simp add: added_def) (simp add: with_forward_def managed_specs_def)
      then show ?thesis using add_forward_new [OF ok None True refuse run] by auto
    qed (use run True None in \<open>auto simp: add_forward_def\<close>)
  qed
qed (use run in \<open>auto simp: add_forward_def\<close>)

lemma add_local_outcome:
  assumes ok: "broker_ok b" and run: "add_local env p requested b = (b', r)"
  shows "(\<exists>err. r = Inl err \<and> nothing_forwarded b b') \<or>
    (\<exists>e q. r = Inr (AddResult e (host_probe (mf_spec e) (pe_probe env))) \<and>
       mf_spec e = \<lparr>fs_direction = LocalForward, fs_container_port = p, fs_host_port = q\<rparr> \<and> added (mf_spec e) OwnedDynamically b e b')"
proof -
  have one: ?thesis
    if "add_forward env \<lparr>fs_direction = LocalForward, fs_container_port = p, fs_host_port = q\<rparr> OwnedDynamically prepared b = (b', r)"
    for q prepared
    using add_forward_outcome [OF ok that] by (auto simp: added_def)
  show ?thesis
    using run one by (auto simp: add_local_def Let_def split: if_splits option.splits sum.splits)
qed

section \<open>Removing, in every environment\<close>

lemma persist_revocation_fields:
  assumes "persist_revocation env b = (b', ok)"
  shows "b' = persist (pe_persist env \<or> pe_retry env) b" and "ok = pe_persist env"
  using assms by (auto simp: persist_revocation_def split: if_splits)

lemma remove_forward_outcome:
  assumes ok: "broker_ok b" and entry: "map_of (pb_managed b) (forward_key direction p) = Some entry"
    and run: "remove_forward env direction p b = (b', r)"
  defines "retained \<equiv> entry\<lparr>mf_owners := filter (\<lambda>owner. owner = OwnedInternally) (mf_owners entry)\<rparr>"
  shows "broker_ok b' \<and>
    (if OwnedInternally \<in> set (mf_owners entry)
     then managed_specs b' = managed_specs b \<and> map_of (pb_managed b') = (map_of (pb_managed b))(forward_key direction p \<mapsto> retained)
     else pb_managed b' = AList.delete (forward_key direction p) (pb_managed b) \<and>
       pb_generations b' = AList.delete (forward_key direction p) (pb_generations b) \<and>
       (direction = RemoteForward \<longrightarrow> pb_effects b' = pb_effects b @ [RelayUnforward p]))"
proof (cases "OwnedInternally \<in> set (mf_owners entry)")
  case True
  then have retained: "remove_user_owners entry = Some retained" and owners: "mf_owners retained \<noteq> []"
    by (auto simp: remove_user_owners_def retained_def filter_empty_conv)
  show ?thesis
  proof (cases "length (mf_owners retained) = length (mf_owners entry)")
    case same: True
    then have "filter (\<lambda>owner. owner = OwnedInternally) (mf_owners entry) = mf_owners entry"
      by (simp add: retained_def filter_id_conv length_filter_less less_le)
        (metis (mono_tags, lifting) length_filter_less less_irrefl)
    then have "retained = entry" by (simp add: retained_def)
    then have "map_of (pb_managed b) = (map_of (pb_managed b))(forward_key direction p \<mapsto> retained)" using entry by auto
    moreover have "b' = b" using run entry retained same by (simp add: remove_forward_def Let_def)
    ultimately show ?thesis using ok True by simp
  next
    case False
    let ?b1 = "b\<lparr>pb_managed := AList.update (forward_key direction p) retained (pb_managed b)\<rparr>"
    have b1: "broker_ok ?b1 \<and> managed_specs ?b1 = managed_specs b"
      using owners by (intro broker_ok_update [OF ok entry]) (simp_all add: retained_def)
    obtain written where "b' = persist written ?b1"
      using run entry retained False
      by (auto simp: remove_forward_def Let_def split: prod.splits dest: persist_revocation_fields(1))
    then show ?thesis using b1 True by simp
  qed
next
  case False
  then have none: "remove_user_owners entry = None" by (auto simp: remove_user_owners_def filter_empty_conv Let_def)
  let ?b1 = "drop_forward (forward_key direction p) direction p b"
  have b1: "broker_ok ?b1" by (rule broker_ok_drop [OF ok])
  obtain written where b': "b' = (if direction = LocalForward then persist written ?b1
      else persist written (port_effect_of [RelayUnforward p] ?b1))"
  proof (cases direction)
    case LocalForward
    have unwritten: "?b1 = persist False ?b1" by (simp add: persist_def)
    show ?thesis
      using run entry none LocalForward unwritten
      by (auto simp: remove_forward_def Let_def drop_forward_def split: prod.splits if_splits
          dest!: persist_revocation_fields(1) intro: that)
  next
    case RemoteForward
    then show ?thesis
      using run entry none
      by (auto simp: remove_forward_def Let_def drop_forward_def port_effect_of_def split: prod.splits
          dest!: persist_revocation_fields(1) intro: that)
  qed
  have "broker_ok (port_effect_of [RelayUnforward p] ?b1)"
    using b1 broker_ok_cong [of "port_effect_of [RelayUnforward p] ?b1" ?b1] by (simp add: port_effect_of_def)
  then show ?thesis
    using False b1 by (cases direction) (auto simp: b' drop_forward_def port_effect_of_def)
qed

section \<open>Every state that can be reached\<close>

lemma broker_ok_empty:
  "pb_managed b = [] \<Longrightarrow> pb_generations b = [] \<Longrightarrow> pb_open b = [] \<Longrightarrow> broker_ok b"
  by (rule broker_okI [of _ "[]"]) simp_all

lemma broker_ok_fail_initial: "broker_ok b \<Longrightarrow> broker_ok (fail_initial written e b)"
  by (auto simp: fail_initial_def port_effect_of_def intro!: broker_ok_empty)

lemma complete_initial_fields [simp]:
  "pb_managed (complete_initial env b) = pb_managed b" "pb_open (complete_initial env b) = pb_open b"
  "pb_generations (complete_initial env b) = pb_generations b" "pb_reserved (complete_initial env b) = pb_reserved b"
  "pb_registry (complete_initial env b) = pb_registry b"
  by (simp_all add: complete_initial_def port_effect_of_def)

lemma broker_ok_complete [simp]: "broker_ok (complete_initial env b) = broker_ok b"
  by (rule broker_ok_cong) simp_all

lemma broker_ok_state:
  assumes "broker_ok b"
  shows "broker_ok (apply_forward_state env key generation state e b)"
proof (cases "map_of (pb_managed b) key")
  case (Some entry)
  let ?b1 = "b\<lparr>pb_managed := AList.update key (entry\<lparr>mf_state := state, mf_error := e\<rparr>) (pb_managed b)\<rparr>"
  have "mf_owners entry \<noteq> []" using assms Some map_of_SomeD by (fastforce simp: broker_ok_def)
  then have b1: "broker_ok ?b1" using broker_ok_update [OF assms Some, of "entry\<lparr>mf_state := state, mf_error := e\<rparr>"] by simp
  then show ?thesis
    using assms Some by (auto simp: apply_forward_state_def Let_def persist_revocation_def broker_ok_fail_initial)
qed (use assms in \<open>simp add: apply_forward_state_def\<close>)

lemma refuse_initial_None:
  assumes ok: "broker_ok b" and none: "refuse_initial s b = None"
  shows "map_of (pb_managed b) (spec_key s) = None" "if_owners s \<noteq> []"
    "specs_ok (pb_reserved b) (managed_specs b @ [forward_spec.truncate s])"
proof -
  show fresh: "map_of (pb_managed b) (spec_key s) = None" and "if_owners s \<noteq> []"
    using none by (auto simp: refuse_initial_def split: if_splits)
  have "creates_forward_cycle specs (forward_spec.truncate s) = creates_forward_cycle specs s" for specs :: "forward_spec list"
    by (simp add: creates_forward_cycle_def)
  then have "refuse_add (forward_spec.truncate s) b = None" "valid_spec s"
    using none by (auto simp: refuse_initial_def refuse_add_def split: if_splits)
  then show "specs_ok (pb_reserved b) (managed_specs b @ [forward_spec.truncate s])"
    using fresh by (intro refuse_add_None [OF ok]) simp_all
qed

lemma prepare_one:
  assumes ok: "broker_ok b" and none: "refuse_initial s b = None"
  defines "b1 \<equiv> b\<lparr>pb_open := (if fs_direction s = LocalForward
      then AList.update (fs_container_port s) (fs_host_port s) (pb_open b) else pb_open b)\<rparr>"
  shows "broker_ok (register_initial created s b1) \<and>
    managed_specs (register_initial created s b1) = managed_specs b @ [forward_spec.truncate s]"
proof -
  let ?e = "initial_entry created s"
  note admitted = refuse_initial_None [OF ok none]
  have spec: "mf_spec ?e = forward_spec.truncate s" by (simp add: initial_entry_def)
  note k = fresh_key [OF ok admitted(1)]
  have "fs_direction s = LocalForward \<Longrightarrow> fs_container_port s \<notin> fst ` set (pb_open b)"
    using admitted(1) by (intro fresh_listener [OF ok]) (simp add: spec_key_def)
  then have same: "register_initial created s b1 = with_forward ?e (listeners_with (mf_spec ?e) b) b"
    by (simp add: register_initial_def b1_def with_forward_def spec amap_merge_snoc k listeners_with_def)
  moreover have "broker_ok (with_forward ?e (listeners_with (mf_spec ?e) b) b)"
    using admitted by (intro broker_ok_with [OF ok]) (simp_all add: spec, simp add: initial_entry_def)
  moreover have "managed_specs (with_forward ?e (listeners_with (mf_spec ?e) b) b) = managed_specs b @ [forward_spec.truncate s]"
    by (simp add: managed_specs_def with_forward_def spec)
  ultimately show ?thesis by simp
qed

lemma broker_ok_prepare: "broker_ok b \<Longrightarrow> broker_ok (fst (prepare_entries env ss b))"
proof (induction env ss b rule: prepare_entries.induct)
  case (2 env s ss b)
  show ?case
  proof (cases "refuse_initial s b")
    case None
    note one = prepare_one [OF 2(3) None, of "pe_now env"]
    show ?thesis
    proof (cases "fs_direction s")
      case RemoteForward
      then show ?thesis using None one 2(1) [OF None] by (simp add: cong: if_cong)
    next
      case LocalForward
      then show ?thesis using None one 2(2) [OF None] 2(3) by (simp split: listen_result.split)
    qed
  qed (simp add: 2(3))
qed simp

lemma broker_ok_run: "broker_ok b \<Longrightarrow> broker_ok (fst (run_mutation env mu b))"
proof -
  assume ok: "broker_ok b"
  have adding: "broker_ok (fst (add_forward env spec owner prepared b))" for spec owner prepared
    using add_forward_outcome [OF ok, of env spec owner prepared] broker_ok_same [OF ok]
    by (cases "add_forward env spec owner prepared b") (auto simp: added_def)
  have adding_local: "broker_ok (fst (add_local env p requested b))" for p requested
    using add_local_outcome [OF ok, of env p requested] broker_ok_same [OF ok]
    by (cases "add_local env p requested b") (auto simp: added_def)
  have removing: "broker_ok (fst (remove_forward env direction p b))" for direction p
  proof (cases "map_of (pb_managed b) (forward_key direction p)")
    case (Some entry)
    then show ?thesis using remove_forward_outcome [OF ok Some] by (cases "remove_forward env direction p b") simp
  qed (simp add: remove_forward_def ok)
  have selecting: "broker_ok (fst (remove_selected env selector b))" for selector
    using removing by (auto simp: remove_selected_def ok split: option.split)
  have preparing: "broker_ok (fst (run_prepare env ss b))" for ss
  proof -
    obtain b1 r where b1: "prepare_entries env ss b = (b1, r)" by (cases "prepare_entries env ss b")
    then have "broker_ok b1" using broker_ok_prepare [OF ok, of env ss] by simp
    moreover have "broker_ok ((persist True b1)\<lparr>pb_initial := InitialReady\<rparr>) = broker_ok b1" by (rule broker_ok_cong) simp_all
    ultimately show ?thesis using b1 by (simp add: run_prepare_def broker_ok_fail_initial split: option.split)
  qed
  show ?thesis
    using adding adding_local removing selecting preparing broker_ok_state [OF ok] ok
    by (cases mu) (simp_all add: run_mutation_def apsnd_def)
qed

lemma enqueue_fields:
  "enqueue_mutation mu b = Some b' \<Longrightarrow> b' = b\<lparr>pb_queue := pb_queue b @ [mu]\<rparr>"
  "enqueue_user mu b = Some b' \<Longrightarrow> b' = b\<lparr>pb_queue := pb_queue b @ [mu]\<rparr>"
  by (auto simp: enqueue_mutation_def enqueue_user_def split: if_splits)

lemma broker_ok_occurs:
  assumes ok: "broker_ok b" and e: "port_occurs e b = Some b'"
  shows "broker_ok b'"
proof -
  have enqueued: "broker_ok (b\<lparr>pb_queue := q\<rparr>)" "broker_ok (b\<lparr>pb_initial := i, pb_queue := q\<rparr>)"
      "broker_ok (b\<lparr>pb_initial := i\<rparr>)" "broker_ok (b\<lparr>pb_closing := c\<rparr>)" for q i c
    by (subst broker_ok_cong [of _ b]; simp add: ok)+
  show ?thesis
  proof (cases e)
    case (PortRun env)
    then show ?thesis using e broker_ok_run [OF enqueued(1)] by (auto split: list.splits)
  next
    case (PortClosed env)
    then show ?thesis using e ok by (auto simp: finish_close_def intro: broker_ok_empty split: if_splits)
  qed (use e enqueued in \<open>auto simp: prepare_initial_def on_relay_connected_def on_forward_state_def begin_close_def Let_def
      dest!: enqueue_fields split: port_mutation.splits if_splits option.splits\<close>)
qed

text \<open>The reserved ports never change.\<close>

lemma reserved_fields [simp]:
  "pb_reserved (fail_initial written e b) = pb_reserved b"
  "pb_reserved (apply_forward_state env key generation state err b) = pb_reserved b"
  "pb_reserved (fst (persist_revocation env b)) = pb_reserved b"
  "pb_reserved (roll_back_add spec b) = pb_reserved b"
  "pb_reserved (fst (establish env spec prepared b)) = pb_reserved b"
  "pb_reserved (fst (add_owner env spec owner existing b)) = pb_reserved b"
  "pb_reserved (register_initial created s b) = pb_reserved b"
  by (auto simp: fail_initial_def apply_forward_state_def persist_revocation_def roll_back_add_def establish_def port_effect_of_def
      add_owner_def register_initial_def Let_def split: option.split forward_direction.split listen_result.split)

lemma reserved_add [simp]: "pb_reserved (fst (add_forward env spec owner prepared b)) = pb_reserved b"
proof -
  have "pb_reserved b2 = pb_reserved b1" if "establish env spec prepared b1 = (b2, e)" for b1 b2 e
    using that by (metis fst_conv reserved_fields(5))
  then show ?thesis
    by (auto simp: add_forward_def Let_def split: option.split prod.split)
qed

lemma reserved_remove [simp]: "pb_reserved (fst (remove_forward env direction p b)) = pb_reserved b"
  by (auto simp: remove_forward_def Let_def persist_revocation_def port_effect_of_def split: option.split forward_direction.split)

lemma reserved_prepare: "pb_reserved (fst (prepare_entries env ss b)) = pb_reserved b"
  by (induction env ss b rule: prepare_entries.induct) (auto split: option.split listen_result.split)

lemma reserved_run: "pb_reserved (fst (run_mutation env mu b)) = pb_reserved b"
proof -
  have "pb_reserved (fst (run_prepare env ss b)) = pb_reserved b" for ss
    using reserved_prepare [of env ss b] by (auto simp: run_prepare_def split: prod.split option.split)
  then show ?thesis
    by (cases mu) (auto simp: run_mutation_def apsnd_def add_local_def Let_def remove_selected_def split: option.split sum.split)
qed

lemma reserved_occurs:
  assumes "port_occurs e b = Some b'"
  shows "pb_reserved b' = pb_reserved b"
proof (cases e)
  case (PortRun env)
  then show ?thesis using assms by (auto simp: reserved_run split: list.splits)
qed (use assms in \<open>auto simp: prepare_initial_def on_relay_connected_def on_forward_state_def begin_close_def finish_close_def
    Let_def dest!: enqueue_fields split: port_mutation.splits if_splits option.splits\<close>)

lemma ports_reachable_ok: "port_steps (port_broker_new reserved) b \<Longrightarrow> broker_ok b \<and> pb_reserved b = reserved"
proof (induction rule: rtranclp_induct)
  case base
  show ?case by (simp add: port_broker_new_def [THEN arg_cong [where f = pb_reserved]])
next
  case (step b b')
  then show ?case using broker_ok_occurs reserved_occurs by auto
qed

section \<open>Runs\<close>

fun run_ports :: "port_event list \<Rightarrow> port_broker \<Rightarrow> port_broker option" where
  "run_ports [] b = Some b"
| "run_ports (e # es) b = Option.bind (port_occurs e b) (run_ports es)"

lemma run_ports_steps: "run_ports es b = Some b' \<Longrightarrow> port_steps b b'"
  by (induction es arbitrary: b)
    (auto simp: bind_eq_Some_conv intro: converse_rtranclp_into_rtranclp port_step.event)

definition calm_env :: port_env where
  "calm_env = \<lparr>pe_listen = Listening, pe_forward = RelayDone, pe_unforward = True, pe_close = True, pe_persist = True,
     pe_retry = True, pe_probe = ProbeOk, pe_now = ''t'', pe_connected = True\<rparr>"

text \<open>A user forwards host port 8080 to 3000 in the container, and then 3000 in the container back to it.\<close>

definition demo_local :: forward_spec where
  "demo_local = \<lparr>fs_direction = LocalForward, fs_container_port = 3000, fs_host_port = 8080\<rparr>"

definition demo_remote :: forward_spec where
  "demo_remote = \<lparr>fs_direction = RemoteForward, fs_container_port = 3000, fs_host_port = 8080\<rparr>"

definition demo_port_events :: "port_event list" where
  "demo_port_events =
     [PortUser (MutAdd demo_local OwnedDynamically), PortUser (MutAdd demo_remote OwnedDynamically), PortRun calm_env, PortRun calm_env]"

definition demo_managed :: managed_forward where
  "demo_managed = \<lparr>mf_spec = demo_local, mf_owners = [OwnedDynamically], mf_created_at = ''t'', mf_state = ForwardActive, mf_error = None\<rparr>"

definition demo_ports :: "int list \<Rightarrow> port_broker" where
  "demo_ports reserved = (port_broker_new reserved)
     \<lparr>pb_managed := [(spec_key demo_local, demo_managed)], pb_open := [(3000, 8080)], pb_generations := [(spec_key demo_local, 0)],
      pb_fresh := 1, pb_registry := [demo_managed]\<rparr>"

lemma demo_add: "add_forward calm_env demo_local OwnedDynamically False (b\<lparr>pb_queue := q\<rparr>) =
    ((demo_ports [53])\<lparr>pb_queue := q\<rparr>, Inr (AddResult demo_managed ProbeOk))" if "b = port_broker_new [53]"
  by (simp add: that add_forward_def demo_local_def valid_spec_def valid_port_def port_broker_new_def refuse_add_def managed_specs_def
      local_host_port_used_def creates_forward_cycle_def endpoints_def amap_merge_def establish_def calm_env_def persist_def
      demo_ports_def demo_managed_def host_probe_def Let_def)

lemma demo_refused: "add_forward calm_env demo_remote OwnedDynamically False (demo_ports [53]) = (demo_ports [53], Inl BindingConflict)"
  by (simp add: add_forward_def demo_remote_def demo_local_def valid_spec_def valid_port_def port_broker_new_def refuse_add_def
      managed_specs_def local_host_port_used_def creates_forward_cycle_def endpoints_def amap_merge_def demo_ports_def demo_managed_def Let_def)

lemma demo_ports_run: "run_ports demo_port_events (port_broker_new [53]) = Some (demo_ports [53])"
proof -
  have add: "add_forward calm_env demo_local OwnedDynamically False ((port_broker_new [53])\<lparr>pb_queue := q\<rparr>) =
      ((demo_ports [53])\<lparr>pb_queue := q\<rparr>, Inr (AddResult demo_managed ProbeOk))" for q
    by (rule demo_add) simp
  have queue: "(demo_ports [53])\<lparr>pb_queue := []\<rparr> = demo_ports [53]" by (simp add: demo_ports_def port_broker_new_def)
  have user: "enqueue_user mu ((port_broker_new [53])\<lparr>pb_queue := q\<rparr>) = Some ((port_broker_new [53])\<lparr>pb_queue := q @ [mu]\<rparr>)" for mu q
    by (simp add: enqueue_user_def enqueue_mutation_def port_broker_new_def)
  have start: "port_broker_new [53] = (port_broker_new [53])\<lparr>pb_queue := []\<rparr>" by (simp add: port_broker_new_def)
  show ?thesis
    by (subst start) (simp add: demo_port_events_def user add run_mutation_def demo_refused queue)
qed

lemma demo_ports_reachable: "port_steps (port_broker_new [53]) (demo_ports [53])"
  by (rule run_ports_steps [OF demo_ports_run])

section \<open>Properties\<close>

lemma broker_ok_consistent:
  assumes "broker_ok b"
  shows "acyclic (forward_graph (managed_specs b)) \<and> distinct (map spec_key (managed_specs b)) \<and>
    distinct (map fs_host_port (filter (\<lambda>s. fs_direction s = LocalForward) (managed_specs b))) \<and>
    list_all valid_spec (managed_specs b) \<and>
    list_all (\<lambda>s. fs_direction s = RemoteForward \<longrightarrow> fs_container_port s \<notin> set (pb_reserved b)) (managed_specs b) \<and>
    pb_open b = map (\<lambda>s. (fs_container_port s, fs_host_port s)) (filter (\<lambda>s. fs_direction s = LocalForward) (managed_specs b)) \<and>
    list_all (\<lambda>(key, e). key = spec_key (mf_spec e) \<and> mf_owners e \<noteq> []) (pb_managed b)"
  using assms
proof (rule broker_okE)
  fix es
  assume "pb_managed b = map keyed es" "managed_specs b = map mf_spec es" "specs_ok (pb_reserved b) (map mf_spec es)"
    "\<forall>e\<in>set es. mf_owners e \<noteq> []"
    "pb_open b = map (\<lambda>s. (fs_container_port s, fs_host_port s)) (filter (\<lambda>s. fs_direction s = LocalForward) (map mf_spec es))"
  then show ?thesis by (auto simp: specs_ok_def forwards_compatible_def list_all_iff keyed_def)
qed

text \<open> C11: In every state the broker of forwarded ports can reach, whatever listening, the relay and the registry answer: no chain of
  forwards leads back to where it began, no two forwards have the same direction and container port, no two local
  forwards the same host port, all ports lie between 1 and 65535, no remote forward listens on a port of nas itself, the
  listeners on the host are exactly the ones of the local forwards, and every forward has an owner.\<close>

theorem forwards_stay_consistent:
  assumes "port_steps (port_broker_new reserved) b"
  shows "acyclic (forward_graph (managed_specs b)) \<and> distinct (map spec_key (managed_specs b)) \<and>
    distinct (map fs_host_port (filter (\<lambda>s. fs_direction s = LocalForward) (managed_specs b))) \<and>
    list_all valid_spec (managed_specs b) \<and>
    list_all (\<lambda>s. fs_direction s = RemoteForward \<longrightarrow> fs_container_port s \<notin> set reserved) (managed_specs b) \<and>
    pb_open b = map (\<lambda>s. (fs_container_port s, fs_host_port s)) (filter (\<lambda>s. fs_direction s = LocalForward) (managed_specs b)) \<and>
    list_all (\<lambda>(key, e). key = spec_key (mf_spec e) \<and> mf_owners e \<noteq> []) (pb_managed b)"
  using ports_reachable_ok [OF assms] broker_ok_consistent [of b] by simp

theorem forwards_stay_consistent_witness:
  "managed_specs (demo_ports [53]) = [demo_local] \<and> acyclic (forward_graph (managed_specs (demo_ports [53])))"
  using forwards_stay_consistent [OF demo_ports_reachable] by (simp add: demo_ports_def managed_specs_def demo_managed_def)

lemma user_addition_outcome:
  assumes ok: "broker_ok b" and mu: "mu = MutAdd spec owner \<or> mu = MutAddLocal p requested"
    and run: "run_mutation env mu b = (b', r)"
  shows "(\<exists>err. r = Inl err \<and> nothing_forwarded b b') \<or>
    (\<exists>e owner. r = Inr (AnswerAdd (AddResult e (host_probe (mf_spec e) (pe_probe env)))) \<and> added (mf_spec e) owner b e b' \<and>
       (mu = MutAdd (mf_spec e) owner \<or>
        mu = MutAddLocal (fs_container_port (mf_spec e)) requested \<and> owner = OwnedDynamically \<and> fs_direction (mf_spec e) = LocalForward))"
  using mu
proof
  assume mu: "mu = MutAdd spec owner"
  obtain r0 where "add_forward env spec owner False b = (b', r0)" "r = map_sum id AnswerAdd r0"
    using run mu by (cases "add_forward env spec owner False b") (auto simp: run_mutation_def apsnd_def)
  then show ?thesis using add_forward_outcome [OF ok, of env spec owner False b' r0] mu by (auto simp: added_def)
next
  assume mu: "mu = MutAddLocal p requested"
  obtain r0 where "add_local env p requested b = (b', r0)" "r = map_sum id AnswerAdd r0"
    using run mu by (cases "add_local env p requested b") (auto simp: run_mutation_def apsnd_def)
  then show ?thesis using add_local_outcome [OF ok, of env p requested b' r0] mu by fastforce
qed

text \<open> C14: An addition that is answered with an error leaves nothing behind, at whatever point it failed (the checks, the
  listener, the relay, the registry): the forwards, the listeners on the host, the generations and the registry are the
  ones from before.\<close>

theorem failed_addition_undone:
  assumes "port_steps (port_broker_new reserved) b" and "run_mutation env mu b = (b', Inl err)"
    and "mu = MutAdd spec owner \<or> mu = MutAddLocal p requested"
  shows "pb_managed b' = pb_managed b \<and> pb_open b' = pb_open b \<and> pb_generations b' = pb_generations b \<and>
    pb_registry b' = pb_registry b"
proof -
  have "broker_ok b" using ports_reachable_ok [OF assms(1)] by simp
  from user_addition_outcome [OF this assms(3,2)] have "nothing_forwarded b b'" by auto
  then show ?thesis by (simp add: nothing_forwardedD)
qed

theorem failed_addition_undone_witness:
  "run_mutation calm_env (MutAdd demo_remote OwnedDynamically) (demo_ports [53]) = (demo_ports [53], Inl BindingConflict) \<and>
   pb_managed (fst (run_mutation calm_env (MutAdd demo_remote OwnedDynamically) (demo_ports [53]))) = pb_managed (demo_ports [53])"
proof -
  have run: "run_mutation calm_env (MutAdd demo_remote OwnedDynamically) (demo_ports [53]) = (demo_ports [53], Inl BindingConflict)"
    by (simp add: run_mutation_def demo_refused)
  show ?thesis
    using failed_addition_undone [OF demo_ports_reachable run, of demo_remote OwnedDynamically 0 None] run by simp
qed

text \<open> C12: When a forward is revoked and nas does not need it itself, the permission is gone whatever closing the listener, the
  relay and the registry answer, and even when the user gets an error: the forward, its generation (so that no late report
  of the relay applies) and its listener on the host are gone, and for a remote forward the relay is told; a forward that
  nas needs stays with nas as its only owner.\<close>

theorem revocation_final:
  assumes reach: "port_steps (port_broker_new reserved) b"
    and entry: "map_of (pb_managed b) (forward_key direction p) = Some entry"
    and run: "run_mutation env (MutRemove direction p) b = (b', r)"
  shows "if OwnedInternally \<in> set (mf_owners entry)
     then managed_specs b' = managed_specs b \<and>
       map_option (set \<circ> mf_owners) (map_of (pb_managed b') (forward_key direction p)) = Some {OwnedInternally}
     else map_of (pb_managed b') (forward_key direction p) = None \<and> map_of (pb_generations b') (forward_key direction p) = None \<and>
       managed_specs b' = filter (\<lambda>s. spec_key s \<noteq> forward_key direction p) (managed_specs b) \<and>
       (direction = LocalForward \<longrightarrow> map_of (pb_open b') p = None) \<and>
       (direction = RemoteForward \<longrightarrow> pb_effects b' = pb_effects b @ [RelayUnforward p])"
proof -
  have ok: "broker_ok b" using ports_reachable_ok [OF reach] by simp
  obtain r0 where "remove_forward env direction p b = (b', r0)"
    using run by (cases "remove_forward env direction p b") (auto simp: run_mutation_def apsnd_def)
  note out = remove_forward_outcome [OF ok entry this]
  show ?thesis
  proof (cases "OwnedInternally \<in> set (mf_owners entry)")
    case False
    have gone: "pb_managed b' = AList.delete (forward_key direction p) (pb_managed b)" and ok': "broker_ok b'"
      using out False by simp_all
    obtain es where es: "pb_managed b = map keyed es" "managed_specs b = map mf_spec es" using ok by (rule broker_okE)
    have "managed_specs b' = filter (\<lambda>s. spec_key s \<noteq> forward_key direction p) (managed_specs b)"
      by (simp add: managed_specs_def gone es(1) delete_eq_filter filter_map comp_def keyed_def)
    moreover have "map_of (pb_managed b') (forward_key direction p) = None" by (simp add: gone delete_conv')
    moreover from this have "direction = LocalForward \<Longrightarrow> map_of (pb_open b') p = None"
      using fresh_listener [OF ok'] by (simp add: map_of_eq_None_iff)
    ultimately show ?thesis using out False by (simp add: delete_conv')
  qed (use out in auto)
qed

definition stubborn_env :: port_env where
  "stubborn_env = calm_env\<lparr>pe_close := False, pe_persist := False, pe_retry := False\<rparr>"

lemma demo_local_key: "spec_key demo_local = forward_key LocalForward 3000"
  by (simp add: spec_key_def demo_local_def)

lemma demo_revoked:
  "run_mutation stubborn_env (MutRemove LocalForward 3000) (demo_ports [53]) =
     ((demo_ports [53])\<lparr>pb_managed := [], pb_open := [], pb_generations := []\<rparr>, Inl PortInternal)"
  by (simp add: run_mutation_def remove_forward_def demo_ports_def demo_local_key demo_managed_def remove_user_owners_def Let_def
      stubborn_env_def calm_env_def)

theorem revocation_final_witness:
  "run_mutation stubborn_env (MutRemove LocalForward 3000) (demo_ports [53]) =
     ((demo_ports [53])\<lparr>pb_managed := [], pb_open := [], pb_generations := []\<rparr>, Inl PortInternal) \<and>
   map_of (pb_open (fst (run_mutation stubborn_env (MutRemove LocalForward 3000) (demo_ports [53])))) 3000 = None"
proof -
  have entry: "map_of (pb_managed (demo_ports [53])) (forward_key LocalForward 3000) = Some demo_managed"
    by (simp add: demo_ports_def demo_local_key)
  show ?thesis
    using revocation_final [OF demo_ports_reachable entry demo_revoked] by (simp add: demo_managed_def demo_revoked)
qed

subsection \<open>The registry\<close>

definition registry_current :: "port_broker \<Rightarrow> bool" where
  "registry_current b \<longleftrightarrow> pb_registry b = map snd (pb_managed b)"

lemma registry_persist: "registry_current (persist True b)"
  by (simp add: registry_current_def)

lemma registry_fail: "pb_initial b = InitialPending \<Longrightarrow> registry_current (fail_initial True e b)"
  by (simp add: registry_current_def fail_initial_def port_effect_of_def)

lemma registry_complete [simp]: "registry_current (complete_initial env b) = registry_current b"
  by (simp add: registry_current_def)

lemma registry_state:
  "registry_current b \<Longrightarrow> pe_persist env \<Longrightarrow> registry_current (apply_forward_state env key generation state e b)"
  by (auto simp: apply_forward_state_def Let_def registry_fail registry_persist persist_revocation_def split: option.split)

lemma registry_remove:
  "registry_current b \<Longrightarrow> pe_persist env \<Longrightarrow> pe_close env \<Longrightarrow> registry_current (fst (remove_forward env direction p b))"
  by (auto simp: remove_forward_def Let_def registry_persist persist_revocation_def split: option.split forward_direction.split)

lemma initial_prepare: "pb_initial (fst (prepare_entries env ss b)) = pb_initial b"
  by (induction env ss b rule: prepare_entries.induct) (auto simp: register_initial_def split: option.split listen_result.split)

lemma registry_prepare:
  assumes "pb_initial b = InitialPending" and "pe_persist env"
  shows "registry_current (fst (run_prepare env ss b))"
proof -
  obtain b1 r where b1: "prepare_entries env ss b = (b1, r)" by (cases "prepare_entries env ss b")
  then have "pb_initial b1 = InitialPending" using initial_prepare [of env ss b] assms by simp
  then show ?thesis
    using b1 assms(2) registry_persist [of b1]
    by (simp add: run_prepare_def registry_fail split: option.split) (simp add: registry_current_def)
qed

text \<open> C15: The registry that other commands read shows the forwards as they are: a change keeps it current when the write and the
  closing of a listener succeed, and an addition keeps it current whatever fails.\<close>

theorem registry_stays_current:
  assumes reach: "port_steps (port_broker_new reserved) b" and current: "pb_registry b = map snd (pb_managed b)"
    and run: "run_mutation env mu b = (b', r)"
    and env: "pe_persist env \<and> pe_close env \<or> (\<exists>spec owner p requested. mu = MutAdd spec owner \<or> mu = MutAddLocal p requested)"
    and initial: "\<And>ss. mu = MutPrepare ss \<Longrightarrow> pb_initial b = InitialPending"
  shows "pb_registry b' = map snd (pb_managed b')"
proof -
  have b: "registry_current b" and b': "b' = fst (run_mutation env mu b)" using current run by (simp_all add: registry_current_def)
  have ok: "broker_ok b" using ports_reachable_ok [OF reach] by simp
  have adding: "pb_registry b' = map snd (pb_managed b')" if "mu = MutAdd spec owner \<or> mu = MutAddLocal p requested" for spec owner p requested
    using user_addition_outcome [OF ok that run] current by (auto simp: added_def dest: nothing_forwardedD)
  show ?thesis
  proof (cases "\<exists>spec owner p requested. mu = MutAdd spec owner \<or> mu = MutAddLocal p requested")
    case False
    then have good: "pe_persist env" "pe_close env" using env by blast+
    have "registry_current b'"
      using False b good initial registry_state [OF b good(1)] registry_remove [OF b good] registry_prepare [OF _ good(1)]
      by (cases mu) (auto simp: b' run_mutation_def apsnd_def remove_selected_def split: option.split)
    then show ?thesis by (simp add: registry_current_def)
  qed (use adding in blast)
qed

theorem registry_stays_current_witness:
  "run_mutation stubborn_env (MutAdd demo_remote OwnedDynamically) (demo_ports [53]) = (demo_ports [53], Inl BindingConflict) \<and>
   pb_registry (demo_ports [53]) = map snd (pb_managed (demo_ports [53]))"
proof -
  have run: "run_mutation stubborn_env (MutAdd demo_remote OwnedDynamically) (demo_ports [53]) = (demo_ports [53], Inl BindingConflict)"
    by (simp add: run_mutation_def add_forward_def demo_remote_def demo_local_def valid_spec_def valid_port_def port_broker_new_def
        refuse_add_def managed_specs_def local_host_port_used_def creates_forward_cycle_def endpoints_def amap_merge_def demo_ports_def
        demo_managed_def Let_def)
  have current: "pb_registry (demo_ports [53]) = map snd (pb_managed (demo_ports [53]))" by (simp add: demo_ports_def)
  show ?thesis using registry_stays_current [OF demo_ports_reachable current run] run by blast
qed

section \<open>The automatic host port\<close>

text \<open>The candidates are few, distinct, and begin with the port itself.\<close>

lemma host_port_candidates_ok:
  assumes "valid_port p"
  shows "hd (host_port_candidates p None) = p \<and> length (host_port_candidates p None) \<le> max_candidates \<and>
    distinct (host_port_candidates p None) \<and> list_all valid_port (host_port_candidates p None)"
proof -
  have "distinct (take n [max (p + 1) 1024..65535])" for n by simp
  moreover have "set (take n [max (p + 1) 1024..65535]) \<subseteq> {max (p + 1) 1024..65535}" for n
    using set_take_subset by fastforce
  ultimately show ?thesis
    using assms by (fastforce simp: host_port_candidates_def max_candidates_def valid_port_def list_all_iff)
qed

end
