(* ===== verification/PortSession.thy ===== *)
theory PortSession
  imports PortBroker
begin

text \<open>
  The way of the forwards from the configuration into the broker: the ports that the namespace of
  a session has taken (\<open>reservedPorts\<close> in \<open>src/config/validate.ts\<close>, \<open>reservedNamespacePorts\<close> in
  \<open>src/stages/dind/stage.ts\<close>), the plan of the stage (\<open>src/stages/port_bind/stage.ts\<close>,
  \<open>initial_forwards.ts\<close>), and the theorem on the composition: a validated configuration is
  prepared exactly when its forwards make no cycle.
\<close>

definition local_proxy_port :: int where "local_proxy_port = 18080"

definition dind_internal_port :: int where "dind_internal_port = 2375"

text \<open>What the configuration is checked against.\<close>

definition validated_reserved_ports :: "bool \<Rightarrow> int list" where
  "validated_reserved_ports docker = local_proxy_port # (if docker then [dind_internal_port] else [])"

text \<open>\<open>new Set\<close> keeps the first of equal ports.\<close>

definition reserved_namespace_ports :: "int list \<Rightarrow> bool \<Rightarrow> int list" where
  "reserved_namespace_ports remote_ports dind_enabled =
     fold (\<lambda>p ps. if p \<in> set ps then ps else ps @ [p])
       ((if dind_enabled then [dind_internal_port] else []) @ [local_proxy_port] @ remote_ports) []"

text \<open>\<open>add\<close> of \<open>buildInitialForwards\<close>; \<open>None\<close> is the thrown error.\<close>

definition add_initial ::
  "forward_spec \<Rightarrow> forward_owner \<Rightarrow> (string \<times> initial_forward) list \<Rightarrow> (string \<times> initial_forward) list option"
where
  "add_initial spec owner entries =
     (case map_of entries (spec_key spec) of
        Some existing \<Rightarrow>
          (if fs_host_port existing \<noteq> fs_host_port spec then None
           else if owner \<in> set (if_owners existing) then Some entries
           else Some (AList.update (spec_key spec) (existing\<lparr>if_owners := if_owners existing @ [owner]\<rparr>) entries))
      | None \<Rightarrow> Some (AList.update (spec_key spec) (forward_spec.extend spec \<lparr>if_owners = [owner]\<rparr>) entries))"

fun add_all_initial :: "forward_spec list \<Rightarrow> (string \<times> initial_forward) list \<Rightarrow> (string \<times> initial_forward) list option" where
  "add_all_initial [] entries = Some entries"
| "add_all_initial (spec # specs) entries = Option.bind (add_initial spec OwnedByConfig entries) (add_all_initial specs)"

definition build_initial_forwards :: "forward_spec list \<Rightarrow> int option \<Rightarrow> initial_forward list option" where
  "build_initial_forwards configured receiver_port =
     map_option (map snd)
       (Option.bind (add_all_initial configured [])
         (case receiver_port of
            None \<Rightarrow> Some
          | Some p \<Rightarrow>
              add_initial \<lparr>fs_direction = RemoteForward, fs_container_port = p, fs_host_port = p\<rparr> OwnedInternally))"

text \<open>Validation writes the forwards back into the profile; the plan reads them from there.\<close>

definition profile_pairs :: "forward_spec list \<Rightarrow> (int \<times> int) list \<times> (int \<times> int) list" where
  "profile_pairs entries =
     (map (\<lambda>e. (fs_host_port e, fs_container_port e)) (filter (\<lambda>e. fs_direction e = LocalForward) entries),
      map (\<lambda>e. (fs_host_port e, fs_container_port e)) (filter (\<lambda>e. fs_direction e = RemoteForward) entries))"

definition planned_forwards :: "(int \<times> int) list \<times> (int \<times> int) list \<Rightarrow> int option \<Rightarrow> initial_forward list option" where
  "planned_forwards profile receiver_port =
     build_initial_forwards
       (map (\<lambda>(host_port, container_port).
            \<lparr>fs_direction = LocalForward, fs_container_port = container_port, fs_host_port = host_port\<rparr>) (fst profile) @
        map (\<lambda>(host_port, container_port).
            \<lparr>fs_direction = RemoteForward, fs_container_port = container_port, fs_host_port = host_port\<rparr>) (snd profile))
       receiver_port"

section \<open>What the plan holds\<close>

lemma reserved_same: "set (reserved_namespace_ports [] docker) = set (validated_reserved_ports docker)"
  by (auto simp: reserved_namespace_ports_def validated_reserved_ports_def local_proxy_port_def dind_internal_port_def)

definition configured_initial :: "forward_spec \<Rightarrow> initial_forward" where
  "configured_initial spec = forward_spec.extend spec \<lparr>if_owners = [OwnedByConfig]\<rparr>"

lemma configured_initial_fields [simp]:
  "fs_direction (configured_initial s) = fs_direction s" "fs_container_port (configured_initial s) = fs_container_port s"
  "fs_host_port (configured_initial s) = fs_host_port s" "if_owners (configured_initial s) = [OwnedByConfig]"
  "forward_spec.truncate (configured_initial s) = s" "spec_key (configured_initial s) = spec_key s"
  by (simp_all add: configured_initial_def forward_spec.defs spec_key_def)

lemma add_all_distinct:
  "distinct (map fst entries @ map spec_key specs) \<Longrightarrow>
   add_all_initial specs entries = Some (entries @ map (\<lambda>s. (spec_key s, configured_initial s)) specs)"
proof (induction specs arbitrary: entries)
  case (Cons s specs)
  then have fresh: "spec_key s \<notin> fst ` set entries" by auto
  then have "map_of entries (spec_key s) = None" by (simp add: map_of_eq_None_iff)
  then show ?case
    using Cons.prems Cons.IH [of "entries @ [(spec_key s, configured_initial s)]"] fresh
    by (simp add: add_initial_def amap_merge_snoc configured_initial_def [symmetric])
qed simp

definition split_directions :: "forward_spec list \<Rightarrow> forward_spec list" where
  "split_directions entries =
     filter (\<lambda>e. fs_direction e = LocalForward) entries @ filter (\<lambda>e. fs_direction e = RemoteForward) entries"

lemma planned_split:
  "planned_forwards (profile_pairs entries) receiver_port = build_initial_forwards (split_directions entries) receiver_port"
proof -
  have "map (\<lambda>e. \<lparr>fs_direction = d, fs_container_port = fs_container_port e, fs_host_port = fs_host_port e\<rparr>)
      (filter (\<lambda>e. fs_direction e = d) entries) = filter (\<lambda>e. fs_direction e = d) entries" for d
    by (intro map_idI forward_spec.equality) auto
  then show ?thesis by (simp add: planned_forwards_def profile_pairs_def split_directions_def comp_def)
qed

lemma split_compatible:
  "forwards_compatible (split_directions entries) = forwards_compatible entries" "set (split_directions entries) = set entries"
proof -
  have direction: "d \<noteq> RemoteForward \<longleftrightarrow> d = LocalForward" "d \<noteq> LocalForward \<longleftrightarrow> d = RemoteForward" for d by (cases d, simp_all)+
  show "set (split_directions entries) = set entries" by (auto simp: split_directions_def direction(1) [symmetric])
  have "distinct (map spec_key (split_directions entries)) \<longleftrightarrow> distinct (map spec_key entries)"
    by (induction entries) (auto simp: split_directions_def image_iff, (metis direction)+)
  moreover have "filter (\<lambda>e. fs_direction e = LocalForward) (split_directions entries) = filter (\<lambda>e. fs_direction e = LocalForward) entries"
    by (simp add: split_directions_def conj_commute cong: filter_cong)
  ultimately show "forwards_compatible (split_directions entries) = forwards_compatible entries" by (simp add: forwards_compatible_def)
qed

definition receiver_forward :: "int \<Rightarrow> forward_spec" where
  "receiver_forward p = \<lparr>fs_direction = RemoteForward, fs_container_port = p, fs_host_port = p\<rparr>"

definition with_receiver :: "forward_spec list \<Rightarrow> int option \<Rightarrow> forward_spec list" where
  "with_receiver specs receiver_port =
     (case receiver_port of
        None \<Rightarrow> specs
      | Some p \<Rightarrow> if receiver_forward p \<in> set specs then specs else specs @ [receiver_forward p])"

definition initial_owners_ok :: "initial_forward list \<Rightarrow> bool" where
  "initial_owners_ok initial \<longleftrightarrow> (\<forall>s\<in>set initial. if_owners s \<noteq> [] \<and> set (if_owners s) \<subseteq> {OwnedByConfig, OwnedInternally})"

lemma build_initial_ok:
  assumes distinct: "distinct (map spec_key specs)" and build: "build_initial_forwards specs receiver_port = Some initial"
  shows "map forward_spec.truncate initial = with_receiver specs receiver_port \<and> initial_owners_ok initial \<and>
    (\<forall>p. receiver_port = Some p \<longrightarrow> receiver_forward p \<notin> set specs \<longrightarrow> spec_key (receiver_forward p) \<notin> spec_key ` set specs)"
proof -
  let ?entries = "map (\<lambda>s. (spec_key s, configured_initial s)) specs"
  have all: "add_all_initial specs [] = Some ?entries" using add_all_distinct [of "[]" specs] distinct by simp
  have mine: "map forward_spec.truncate (map snd ?entries) = specs" "initial_owners_ok (map snd ?entries)"
    by (auto simp: initial_owners_ok_def comp_def)
  show ?thesis
  proof (cases receiver_port)
    case None
    then show ?thesis using build all mine by (simp add: build_initial_forwards_def with_receiver_def)
  next
    case (Some p)
    let ?r = "receiver_forward p" and ?i = "forward_spec.extend (receiver_forward p) \<lparr>if_owners = [OwnedInternally]\<rparr>"
    have add: "map_option (map snd) (add_initial ?r OwnedInternally ?entries) = Some initial"
      using build all Some by (simp add: build_initial_forwards_def receiver_forward_def)
    show ?thesis
    proof (cases "map_of ?entries (spec_key ?r)")
      case None
      then have fresh: "spec_key ?r \<notin> spec_key ` set specs" by (simp add: map_of_eq_None_iff image_image)
      then have "AList.update (spec_key ?r) ?i ?entries = ?entries @ [(spec_key ?r, ?i)]"
        by (intro amap_merge_snoc) (simp add: image_image)
      then have "initial = map snd ?entries @ [?i]" using add None by (simp add: add_initial_def)
      moreover have "forward_spec.truncate ?i = ?r" "if_owners ?i = [OwnedInternally]" by (simp_all add: forward_spec.defs)
      moreover have "?r \<notin> set specs" using fresh by blast
      ultimately show ?thesis using mine fresh Some by (simp add: with_receiver_def initial_owners_ok_def)
    next
      case (Some existing)
      then obtain s where s: "s \<in> set specs" "existing = configured_initial s" "spec_key s = spec_key ?r"
        by (auto dest!: map_of_SomeD)
      have "fs_host_port existing = fs_host_port ?r" using add Some by (simp add: add_initial_def split: if_splits)
      then have "s = ?r" using s by (intro forward_spec.equality) auto
      let ?updated = "existing\<lparr>if_owners := [OwnedByConfig, OwnedInternally]\<rparr>"
      have "AList.update (spec_key ?r) ?updated ?entries = map (\<lambda>s. (spec_key s, if s = ?r then ?updated else configured_initial s)) specs"
        using distinct s(1) unfolding \<open>s = ?r\<close> by (induction specs) (auto simp: image_iff)
      then have "initial = map (\<lambda>s. if s = ?r then ?updated else configured_initial s) specs"
        using add Some s \<open>s = ?r\<close> by (simp add: add_initial_def comp_def)
      moreover have "forward_spec.truncate ?updated = ?r" using s \<open>s = ?r\<close> by (simp add: forward_spec.defs configured_initial_def)
      ultimately show ?thesis
        using \<open>receiver_port = Some p\<close> s(1) \<open>s = ?r\<close>
        by (auto simp: with_receiver_def initial_owners_ok_def comp_def intro!: map_idI)
    qed
  qed
qed

section \<open>Preparation\<close>

lemma cycle_refused:
  assumes ok: "specs_ok reserved specs" and all: "specs_ok reserved (specs @ s # rest)"
  shows "\<not> creates_forward_cycle specs s"
proof
  assume "creates_forward_cycle specs s"
  moreover have "forwards_compatible specs" using ok by (simp add: specs_ok_def)
  ultimately have "(snd (endpoints s), fst (endpoints s)) \<in> (forward_graph specs)\<^sup>*"
    using creates_forward_cycle_iff compatible_sources by blast
  moreover have "acyclic (insert (endpoints s) (forward_graph specs))"
    by (rule acyclic_subset [of "forward_graph (specs @ s # rest)"]) (use all in \<open>auto simp: specs_ok_def forward_graph_def\<close>)
  ultimately show False by (cases "endpoints s") (simp add: acyclic_insert)
qed

lemma refuse_initial_iff:
  assumes ok: "broker_ok b" and owners: "if_owners s \<noteq> []" "set (if_owners s) \<subseteq> {OwnedByConfig, OwnedInternally}"
    and all: "specs_ok (pb_reserved b) (managed_specs b @ forward_spec.truncate s # rest)"
  shows "refuse_initial s b = None"
proof -
  have mine: "specs_ok (pb_reserved b) (managed_specs b)" using ok by (simp add: broker_ok_def)
  have cycle: "\<not> creates_forward_cycle (managed_specs b) s"
    using cycle_refused [OF mine all] by (simp add: creates_forward_cycle_def)
  have "spec_key s \<notin> spec_key ` set (managed_specs b)"
  proof -
    have "distinct (map spec_key (managed_specs b @ forward_spec.truncate s # rest))"
      using all by (simp add: specs_ok_def forwards_compatible_def)
    then show ?thesis by simp
  qed
  moreover obtain es where "pb_managed b = map keyed es" "managed_specs b = map mf_spec es" using ok by (rule broker_okE)
  ultimately have "map_of (pb_managed b) (spec_key s) = None" by (simp add: map_of_managed_None image_image)
  moreover have "\<not> (fs_direction s = LocalForward \<and> local_host_port_used b (fs_host_port s))"
  proof
    assume used: "fs_direction s = LocalForward \<and> local_host_port_used b (fs_host_port s)"
    have "distinct (map fs_host_port (filter (\<lambda>e. fs_direction e = LocalForward) (managed_specs b @ forward_spec.truncate s # rest)))"
      using all by (simp add: specs_ok_def forwards_compatible_def)
    then show False using used by (force simp: local_host_port_used_def list_ex_iff image_iff)
  qed
  moreover have "valid_spec s" "\<not> (fs_direction s = RemoteForward \<and> fs_container_port s \<in> set (pb_reserved b))"
    using all by (auto simp: specs_ok_def)
  ultimately show ?thesis using owners cycle by (auto simp: refuse_initial_def list_ex_iff)
qed

lemma prepare_entries_iff:
  assumes "broker_ok b" and "initial_owners_ok ss"
    and "\<forall>s\<in>set ss. fs_direction s = LocalForward \<longrightarrow> (\<exists>p. pe_listen env (fs_host_port s) = Listening p)"
  shows "(snd (prepare_entries env ss b) = None \<longleftrightarrow> specs_ok (pb_reserved b) (managed_specs b @ map forward_spec.truncate ss)) \<and>
    (snd (prepare_entries env ss b) = None \<longrightarrow>
       pb_managed (fst (prepare_entries env ss b)) = pb_managed b @ map (\<lambda>s. (spec_key s, initial_entry (pe_now env) s)) ss)"
  using assms
proof (induction ss arbitrary: b)
  case Nil
  then show ?case by (simp add: broker_ok_def)
next
  case (Cons s ss)
  have owners: "if_owners s \<noteq> []" "set (if_owners s) \<subseteq> {OwnedByConfig, OwnedInternally}" "initial_owners_ok ss"
    using Cons.prems(2) by (simp_all add: initial_owners_ok_def)
  show ?case
  proof (cases "refuse_initial s b")
    case (Some e)
    then show ?thesis using refuse_initial_iff [OF Cons.prems(1) owners(1,2)] by auto
  next
    case None
    let ?b0 = "b\<lparr>pb_open := (if fs_direction s = LocalForward
      then AList.update (fs_container_port s) (fs_host_port s) (pb_open b) else pb_open b)\<rparr>"
    let ?b1 = "register_initial (pe_now env) s ?b0"
    have b1: "broker_ok ?b1" "managed_specs ?b1 = managed_specs b @ [forward_spec.truncate s]"
      using prepare_one [OF Cons.prems(1) None] by simp_all
    have "spec_key s \<notin> fst ` set (pb_managed b)"
      using refuse_initial_None(1) [OF Cons.prems(1) None] by (simp add: map_of_eq_None_iff)
    then have managed: "pb_managed ?b1 = pb_managed b @ [(spec_key s, initial_entry (pe_now env) s)]"
      by (simp add: register_initial_def amap_merge_snoc)
    have step: "prepare_entries env (s # ss) b = prepare_entries env ss ?b1"
      using None Cons.prems(3) by (cases "fs_direction s") auto
    show ?thesis
      using Cons.IH [OF b1(1) owners(3)] Cons.prems(3) unfolding step by (simp add: b1(2) managed)
  qed
qed

lemma with_receiver_ok:
  assumes specs: "forwards_compatible specs" "\<forall>s\<in>set specs. valid_spec s"
      "\<forall>s\<in>set specs. fs_direction s = RemoteForward \<longrightarrow> fs_container_port s \<notin> set reserved"
    and fresh: "\<forall>p. receiver_port = Some p \<longrightarrow> receiver_forward p \<notin> set specs \<longrightarrow> spec_key (receiver_forward p) \<notin> spec_key ` set specs"
    and receiver: "\<forall>p. receiver_port = Some p \<longrightarrow> valid_port p \<and> p \<notin> set reserved"
  shows "specs_ok reserved (with_receiver specs receiver_port) \<longleftrightarrow> acyclic (forward_graph (with_receiver specs receiver_port))"
proof (cases receiver_port)
  case None
  then show ?thesis using specs by (simp add: with_receiver_def specs_ok_def)
next
  case (Some p)
  have "forwards_compatible (specs @ [receiver_forward p])" if "receiver_forward p \<notin> set specs"
    using specs(1) fresh Some that by (simp add: forwards_compatible_def) (simp add: receiver_forward_def)
  then show ?thesis
    using Some specs receiver
    by (auto simp: with_receiver_def specs_ok_def) (simp_all add: receiver_forward_def valid_spec_def)
qed


definition demo_initial :: "initial_forward list" where
  "demo_initial =
     [forward_spec.extend demo_local \<lparr>if_owners = [OwnedByConfig]\<rparr>,
      forward_spec.extend (receiver_forward 5432) \<lparr>if_owners = [OwnedByConfig]\<rparr>,
      forward_spec.extend (receiver_forward 9000) \<lparr>if_owners = [OwnedByConfig, OwnedInternally]\<rparr>]"

lemma demo_planned:
  "planned_forwards (profile_pairs [demo_local, receiver_forward 5432, receiver_forward 9000]) (Some 9000) = Some demo_initial"
  by (simp add: planned_forwards_def profile_pairs_def build_initial_forwards_def add_initial_def demo_local_def receiver_forward_def
      demo_initial_def forward_spec.defs spec_key_def)


end
