(* ===== verification/Spec2Isabelle.thy ===== *)
theory Spec2Isabelle
  imports Documents IpPolicy BrokerLiveness LineReader HostExecOrphan PortSession
begin

text \<open>
  A verification development for the three brokers of nix-agent-sandbox (TypeScript, under
  \<open>src/\<close>): the one of the network policy, the one of commands that run on the host and the one of
  forwarded ports. An agent runs in a container whose requests leave through a proxy; for each request
  the proxy asks a session broker on the host, and the broker decides by a document that was
  resolved from the configuration when the session began. Some decisions ask the user.
  A command the agent starts can be intercepted and sent, through a gateway, to a second broker;
  rules say whether it runs on the host, runs after an approval, or is refused. Ports of the
  container and of the host are forwarded to one another by a third broker, at the start of a
  session and when the user asks for it.

  \<^bold>\<open>The parts and how they interact.\<close>

  \<^item> The configuration (\<open>network/authz/config.ts\<close>, \<open>types.ts\<close>) names scopes (sets of targets) and
    in them rules (conditions on method, path and body). \<open>AuthzTypes\<close>, \<open>AuthzConfig\<close>.
  \<^item> Conditions are compiled and compared (\<open>pattern.ts\<close>, \<open>relation.ts\<close>, \<open>specificity.ts\<close>,
    \<open>witness.ts\<close>, \<open>graphql_selection.ts\<close>) and evaluated (\<open>semantics.ts\<close>). \<open>Pattern\<close>,
    \<open>MatchRelation\<close>, \<open>Targets\<close>, \<open>Specificity\<close>, \<open>Witness\<close>, \<open>Selection\<close>, \<open>Semantics\<close>.
  \<^item> A configuration is checked (\<open>validate.ts\<close>; \<open>RuleChecks\<close>, \<open>ConfigChecks\<close>) and, when it is
    accepted (\<open>Accepted\<close>), resolved into a document (\<open>resolve.ts\<close>, \<open>dind.ts\<close>; \<open>Resolve\<close>). The
    decision on a document is \<open>decide\<close>; \<open>Decisions\<close> and \<open>Documents\<close> hold its properties.
  \<^item> Messages are validated (\<open>network/protocol.ts\<close>; \<open>Protocol\<close>), and some targets are closed to
    every rule (\<open>ip_policy.ts\<close>; \<open>IpPolicy\<close>).
  \<^item> An allowed request gets headers and secrets to hide (\<open>secrets.ts\<close>, \<open>agent_credential.ts\<close>;
    \<open>Secrets\<close>, \<open>Credentials\<close>); what a person reads is masked (\<open>mask_patterns.ts\<close>; \<open>MaskPatterns\<close>).
  \<^item> The session broker (\<open>network/broker.ts\<close>) decides, groups the requests that ask the same
    question, waits for a press of the user or a timer, remembers answers and recent denials
    (\<open>lib/ttl_lru_cache.ts\<close>; \<open>TtlCache\<close>). \<open>Broker\<close> has its state, keys and records; \<open>BrokerSteps\<close>
    one definition per handler and per segment of a handler between two \<open>await\<close>s; \<open>BrokerRuns\<close>
    the step relation that interleaves them, and the invariant; \<open>BrokerInvariant\<close> its
    preservation; \<open>BrokerEvents\<close> executable runs; \<open>BrokerSafety\<close> what holds of every run;
    \<open>BrokerLiveness\<close> who is answered.

  \<^item> A command is matched against the rules (\<open>hostexec/match.ts\<close>; \<open>HostExecMatch\<close>, over the paths
    of \<open>NodePath\<close>) and becomes a directory, an environment, a capability and a check of the file
    it runs (\<open>hostexec/broker.ts\<close>, \<open>integrity.ts\<close>; \<open>HostExecRequest\<close>).
  \<^item> The gateway speaks lines of JSON (\<open>gateway_protocol.ts\<close>; \<open>GatewayProtocol\<close>), cut out of the
    socket by a reader (\<open>LineReader\<close>); one command is driven by \<open>runGatewayExecution\<close>
    (\<open>gateway_execution.ts\<close>; \<open>GatewayExecution\<close>).
  \<^item> The broker of host commands (\<open>hostexec/broker.ts\<close>) holds connections, groups of requests with
    the same capability, and the approvals. \<open>HostExecBroker\<close> has its state and its handlers,
    \<open>HostExecRuns\<close> the runs and what justifies a started command, \<open>HostExecOrphan\<close> a run after which
    a request waits for ever.

  \<^item> Forwarded ports: the model they share, the normalization of the configured ones and the requests
    (\<open>network/port_forward_model.ts\<close>, \<open>port_bind_protocol.ts\<close>, \<open>config/port_forwards.ts\<close>,
    \<open>cli/port_bind_args.ts\<close>; \<open>PortForward\<close>), the broker that opens and closes them one change after
    the other (\<open>port_bind_broker.ts\<close>; \<open>PortBroker\<close>), and the way of the configured forwards into it
    (\<open>stages/port_bind/\<close>; \<open>PortSession\<close>).

  \<open>JsonText\<close> is \<open>JSON.stringify\<close>. \<open>Prelude\<close> holds the operations of JavaScript strings and containers and the shared lemmas.

  \<^bold>\<open>How the model reads.\<close> A class or interface is a record, a union a datatype, a \<open>Record\<close> or \<open>Map\<close>
  an association list in insertion order, a \<open>Set\<close> of strings a set, an exception \<open>None\<close> or
  \<open>Inl\<close>, a diagnostic a constructor with the values it names. A JavaScript number of a JSON
  value is its text. Text is a list of characters; the theorems about bytes (\<open>MaskPatterns\<close>)
  write the UTF-8 encoding out. The group objects that handlers share are cells of a heap, and a
  suspended handler is a task with the references it holds. The clock, the result of storing a
  body, the source of a secret and the OAuth token of the host are arguments; so are, for host
  commands, what the file system, the environment, the secret store and SHA-256 answer (the
  records \<open>host_static\<close> and \<open>host_view\<close>), and the compiler of regular expressions. For forwarded
  ports, what listening, the relay and the registry answer during a change is the record \<open>port_env\<close>.

  \<^bold>\<open>Interfaces.\<close> \<open>set_decision\<close> (\<open>Prelude\<close>) is the contract of the conservative decisions on
  conditions, interpreted on methods, paths, bodies, matches, hosts, ports and targets;
  \<open>recent_set\<close> (\<open>TtlCache\<close>) is what the broker relies on in its cache of denials.

  \<^bold>\<open>What is shown.\<close> Containment and intersection of conditions are sound, and exact on paths and
  hosts; the sort of the rules is a permutation in the declared order or a real cycle; every
  accepted configuration resolves, and the decision of its document is total and follows the
  precedence of its rules; only accepted configurations resolve. Masked texts show no secret in
  any encoding the code looks for; injected secrets are masked. In every run of the broker an
  allowed request is justified by the document or by an accepted press on the same question,
  approvals of requests and of violations never stand for one another, nothing is both
  approved and denied, the broker of the nested daemon never asks, and nothing that is shown
  contains a registered secret. What was approved is not asked again; who waits in an open group
  is answered at the latest by its timer; and a request that joins a group while it is being
  resolved can wait for ever, in every continuation of that run.

  For host commands: the directory of a command lies under a root its rule permits, its
  environment is what the rule lets through, equal texts of capabilities are equal capabilities,
  an allow rule saw the arguments it allows, the check of the file passes exactly when the
  content is the one of the start. The messages of the protocol survive encoding and decoding;
  the reader over chunks answers as a reader over the bytes would; an execution sends one start,
  filtered chunks and at most one result. In every run of the broker a started command is the
  one \<open>launch\<close> makes of a resolved request, and a rule (with an unchanged file) or a press on its
  capability or on the request justifies it; and when two resolutions end the same group, a
  request that came in between can be left with a group nobody finds.

  The broker of ports, whatever its environment answers, keeps the forwards free of cycles and of
  conflicts, with exactly one listener for each local forward; a failed addition leaves nothing
  behind, a revocation is final even when it fails, and the registry shows what is there when it
  can be written. A configuration without errors is prepared exactly when its forwards make no
  cycle, and the parser of requests reads exactly what clients write.

  \<^bold>\<open>Bounds.\<close> The loops are structural recursions or have a measure; no definition of the program's
  code uses fuel. \<open>drain\<close> (\<open>BrokerLiveness\<close>) resumes one task a bounded number of times; one
  segment and two for each request of a group are shown to be enough to finish its resolution.
  The runs of the brokers are unbounded.

  \<^bold>\<open>Not modelled.\<close> The GraphQL parser and the Pkl evaluator are third-party: their results are data.
  Sockets, files, notifications and Docker are effects or absent. The wording of diagnostics and
  the scan for identifiers of older configurations are text. The filter processes and
  the interception library of host execution are events. The relay of the ports and its
  sockets are answers of the environment. History, the user interface and the other stages that build
  the containers are not modelled.
\<close>

end
